(* ===== verification/Prelude.thy ===== *)
theory Prelude
  imports Main "HOL-Library.AList" "HOL-Library.Multiset"
begin

text \<open>
  Shared vocabulary of the development: Rust's fixed-width arithmetic, the collections of its
  standard library as the program uses them, gRPC status values, and the generic lemmas about
  association lists and sums that the component theories rest on.

  A \<open>HashMap\<close> is an association list: lookups go through \<^const>\<open>map_of\<close>, the order of the list is
  the (unspecified) iteration order, and every theorem holds for every such list.  A \<open>HashSet\<close> is a
  list without repetitions, iterated in list order.
\<close>

section \<open>Collections of facts\<close>

named_theorems hm_simps \<open>lookup, update and deletion in hash maps\<close>

section \<open>Fixed-width arithmetic\<close>

text \<open>
  Unsigned integers are natural numbers; the release profile of the workspace leaves overflow checks
  off, so \<open>+\<close> and \<open>-\<close> wrap around at the type's width.
\<close>

definition wrapping_add :: "nat \<Rightarrow> nat \<Rightarrow> nat \<Rightarrow> nat" where
  "wrapping_add w a b = (a + b) mod 2 ^ w"

definition wrapping_sub :: "nat \<Rightarrow> nat \<Rightarrow> nat \<Rightarrow> nat" where
  "wrapping_sub w a b = (a + (2 ^ w - b mod 2 ^ w)) mod 2 ^ w"

definition uint_max :: "nat \<Rightarrow> nat" where
  "uint_max w = 2 ^ w - 1"

definition saturating_add :: "nat \<Rightarrow> nat \<Rightarrow> nat \<Rightarrow> nat" where
  "saturating_add w a b = min (a + b) (uint_max w)"

definition saturating_mul :: "nat \<Rightarrow> nat \<Rightarrow> nat \<Rightarrow> nat" where
  "saturating_mul w a b = min (a * b) (uint_max w)"

definition saturating_sub :: "nat \<Rightarrow> nat \<Rightarrow> nat" where
  "saturating_sub a b = a - b"

definition wrapping_sum :: "nat \<Rightarrow> nat list \<Rightarrow> nat" where
  "wrapping_sum w xs = sum_list xs mod 2 ^ w"

abbreviation u32_add :: "nat \<Rightarrow> nat \<Rightarrow> nat" where
  "u32_add \<equiv> wrapping_add 32"

abbreviation u32_sub :: "nat \<Rightarrow> nat \<Rightarrow> nat" where
  "u32_sub \<equiv> wrapping_sub 32"

abbreviation u64_add :: "nat \<Rightarrow> nat \<Rightarrow> nat" where
  "u64_add \<equiv> wrapping_add 64"

abbreviation u128_add :: "nat \<Rightarrow> nat \<Rightarrow> nat" where
  "u128_add \<equiv> wrapping_add 128"

lemma wrapping_add_eq [simp]: "a + b < 2 ^ w \<Longrightarrow> wrapping_add w a b = a + b"
  by (simp add: wrapping_add_def)

lemma wrapping_sum_eq [simp]: "sum_list xs < 2 ^ w \<Longrightarrow> wrapping_sum w xs = sum_list xs"
  by (simp add: wrapping_sum_def)

lemma wrapping_sub_eq: "b \<le> a \<Longrightarrow> a < 2 ^ w \<Longrightarrow> wrapping_sub w a b = a - b"
proof -
  assume "b \<le> a" and "a < 2 ^ w"
  then have "a + (2 ^ w - b mod 2 ^ w) = (a - b) + 2 ^ w" by simp
  then show ?thesis using \<open>a < 2 ^ w\<close> by (simp add: wrapping_sub_def)
qed

lemma saturating_add_mono: "a \<le> uint_max w \<Longrightarrow> a \<le> saturating_add w a b"
  by (simp add: saturating_add_def)

lemma saturating_add_bound [simp]: "saturating_add w a b \<le> uint_max w"
  by (simp add: saturating_add_def)

section \<open>Clocks\<close>

text \<open>
  A \<open>SystemTime\<close> is the number of nanoseconds since the Unix epoch and an \<open>Instant\<close> the number of
  nanoseconds on the monotonic clock.  Every operation takes the readings it makes as arguments.
\<close>

type_synonym SystemTime = nat
type_synonym Instant = nat
type_synonym Duration = nat

definition as_secs :: "nat \<Rightarrow> nat" where
  "as_secs t = t div 1000000000"

definition as_millis :: "nat \<Rightarrow> nat" where
  "as_millis t = t div 1000000"

definition from_secs :: "nat \<Rightarrow> nat" where
  "from_secs s = s * 1000000000"

section \<open>Hash maps\<close>

type_synonym ('k, 'v) hash_map = "('k \<times> 'v) list"
type_synonym 'a hash_set = "'a list"

abbreviation hm_insert :: "'k \<Rightarrow> 'v \<Rightarrow> ('k, 'v) hash_map \<Rightarrow> ('k, 'v) hash_map" where
  "hm_insert \<equiv> AList.update"

abbreviation hm_remove :: "'k \<Rightarrow> ('k, 'v) hash_map \<Rightarrow> ('k, 'v) hash_map" where
  "hm_remove \<equiv> AList.delete"

definition hm_values :: "('k, 'v) hash_map \<Rightarrow> 'v list" where
  "hm_values m = map snd m"

definition hm_wf :: "('k, 'v) hash_map \<Rightarrow> bool" where
  "hm_wf m = distinct (map fst m)"

definition hm_modify :: "'k \<Rightarrow> ('v \<Rightarrow> 'v) \<Rightarrow> ('k, 'v) hash_map \<Rightarrow> ('k, 'v) hash_map" where
  "hm_modify k f m = (case map_of m k of None \<Rightarrow> m | Some v \<Rightarrow> hm_insert k (f v) m)"

lemma map_of_insert [simp, hm_simps]: "map_of (hm_insert k v m) = (map_of m)(k \<mapsto> v)"
  by (rule update_conv')

lemma map_of_remove [simp, hm_simps]: "map_of (hm_remove k m) = (map_of m)(k := None)"
  by (rule delete_conv')

lemma map_of_modify [hm_simps]:
  "map_of (hm_modify k f m) = (map_of m)(k := map_option f (map_of m k))"
  by (auto simp: hm_modify_def fun_eq_iff split: option.splits)

lemma hm_wf_Nil [simp]: "hm_wf []"
  by (simp add: hm_wf_def)

lemma hm_wf_insert [simp]: "hm_wf m \<Longrightarrow> hm_wf (hm_insert k v m)"
  by (simp add: hm_wf_def distinct_update)

lemma hm_wf_remove [simp]: "hm_wf m \<Longrightarrow> hm_wf (hm_remove k m)"
  by (simp add: hm_wf_def distinct_delete)

lemma hm_wf_modify [simp]: "hm_wf m \<Longrightarrow> hm_wf (hm_modify k f m)"
  by (simp add: hm_modify_def split: option.splits)

lemma hm_wf_ConsD: "hm_wf (kv # m) \<Longrightarrow> hm_wf m \<and> map_of m (fst kv) = None"
  by (cases kv) (auto simp: hm_wf_def map_of_eq_None_iff)

lemma hm_wf_mem: "hm_wf m \<Longrightarrow> (k, v) \<in> set m \<longleftrightarrow> map_of m k = Some v"
  by (simp add: hm_wf_def map_of_eq_Some_iff)

lemma map_of_insert_triv: "map_of m k = Some v \<Longrightarrow> hm_insert k v m = m"
  by (rule update_triv)

lemma finite_dom_map_of' [simp]: "finite {k. \<exists>v. map_of m k = Some v \<and> P k v}"
  by (rule finite_subset [of _ "dom (map_of m)"]) (auto simp: finite_dom_map_of)

text \<open>Sums over the entries of a map, under update and deletion of an entry.\<close>

lemma sum_entries_insert:
  fixes f :: "'k \<times> 'v \<Rightarrow> 'c::comm_monoid_add"
  assumes "hm_wf m" and "map_of m k = Some v"
  shows "sum_list (map f (hm_insert k v' m)) + f (k, v) = sum_list (map f m) + f (k, v')"
  using assms
proof (induction m)
  case (Cons e m)
  from Cons.prems(1) have wf: "hm_wf m" and nin: "map_of m (fst e) = None"
    by (auto dest: hm_wf_ConsD)
  show ?case
  proof (cases "fst e = k")
    case True
    with Cons.prems(2) show ?thesis by (cases e) (simp add: ac_simps)
  next
    case False
    with Cons.prems(2) have "map_of m k = Some v" by (cases e) (auto split: if_splits)
    from Cons.IH [OF wf this] False show ?thesis by (cases e) (simp add: add.assoc)
  qed
qed simp

lemma sum_entries_insert_new:
  fixes f :: "'k \<times> 'v \<Rightarrow> 'c::comm_monoid_add"
  shows "map_of m k = None \<Longrightarrow> sum_list (map f (hm_insert k v m)) = sum_list (map f m) + f (k, v)"
  by (induction m) (auto split: if_splits simp: add.assoc)

lemma sum_entries_remove:
  fixes f :: "'k \<times> 'v \<Rightarrow> 'c::comm_monoid_add"
  assumes "hm_wf m" and "map_of m k = Some v"
  shows "sum_list (map f (hm_remove k m)) + f (k, v) = sum_list (map f m)"
  using assms
proof (induction m)
  case (Cons e m)
  from Cons.prems(1) have wf: "hm_wf m" and nin: "map_of m (fst e) = None"
    by (auto dest: hm_wf_ConsD)
  show ?case
  proof (cases "fst e = k")
    case True
    moreover from True nin have "hm_remove k m = m"
      by (simp add: map_of_eq_None_iff)
    ultimately show ?thesis using Cons.prems(2) by (cases e) (simp add: ac_simps)
  next
    case False
    with Cons.prems(2) have "map_of m k = Some v" by (cases e) (auto split: if_splits)
    from Cons.IH [OF wf this] False show ?thesis by (cases e) (simp add: add.assoc)
  qed
qed simp

lemma sum_entries_remove_le:
  fixes f :: "'k \<times> 'v \<Rightarrow> nat"
  shows "sum_list (map f (hm_remove k m)) \<le> sum_list (map f m)"
  by (induction m) auto

lemma sum_entries_insert_same:
  fixes f :: "'k \<times> 'v \<Rightarrow> nat"
  assumes "hm_wf m" and "map_of m k = Some v" and "f (k, v') = f (k, v)"
  shows "sum_list (map f (hm_insert k v' m)) = sum_list (map f m)"
  using sum_entries_insert [OF assms(1,2), of f v'] assms(3) by simp

lemma set_hm_remove: "set (hm_remove k m) = {e \<in> set m. fst e \<noteq> k}"
  by (induction m) auto

lemma set_hm_insert: "set (hm_insert k v m) \<subseteq> insert (k, v) {e \<in> set m. fst e \<noteq> k \<or> e \<in> set m}"
  by (induction m) auto

section \<open>Hash sets\<close>

definition hs_remove :: "'a \<Rightarrow> 'a hash_set \<Rightarrow> 'a hash_set" where
  "hs_remove x xs = removeAll x xs"

abbreviation hs_insert :: "'a \<Rightarrow> 'a hash_set \<Rightarrow> 'a hash_set" where
  "hs_insert \<equiv> List.insert"

lemma set_hs_remove [simp]: "set (hs_remove x xs) = set xs - {x}"
  by (simp add: hs_remove_def)

lemma distinct_hs_remove [simp]: "distinct xs \<Longrightarrow> distinct (hs_remove x xs)"
  by (simp add: hs_remove_def distinct_removeAll)

lemma hs_remove_notin [simp]: "x \<notin> set xs \<Longrightarrow> hs_remove x xs = xs"
  by (simp add: hs_remove_def)

lemma sum_set_hs_remove:
  fixes f :: "'a \<Rightarrow> nat"
  shows "x \<in> set xs \<Longrightarrow> sum f (set (hs_remove x xs)) = sum f (set xs) - f x"
  by (simp add: sum_diff1_nat)

section \<open>gRPC status values\<close>

datatype Status =
    FailedPrecondition string
  | AlreadyExists string
  | NotFound string
  | Internal string
  | Unauthenticated string
  | InvalidArgument string
  | PermissionDenied string
  | Unimplemented string
  | OutOfRange string
  | Unavailable string
  | Unknown string
  | Cancelled string
  | DeadlineExceeded string
  | ResourceExhausted string
  | Aborted string
  | DataLoss string

type_synonym 'a result = "Status + 'a"

text \<open>Errors of the \<open>anyhow\<close> kind are their messages.\<close>

type_synonym 'a anyhow = "string + 'a"

text \<open>An option as an iterator.\<close>

definition option_list :: "'a option \<Rightarrow> 'a list" where
  "option_list x = (case x of None \<Rightarrow> [] | Some y \<Rightarrow> [y])"

end
