(* ===== verification/Proto.thy ===== *)
theory Proto
  imports Prelude
begin

text \<open>
  The protobuf vocabulary of the coordinator.  The messages are generated by the \<open>sp1-prover-types\<close>
  package; only the constructors and fields that the coordinator's own code names are present.
  \<open>TaskType\<close> and \<open>WorkerType\<close> are complete, because \<open>estimate_duration\<close> and
  \<open>worker_component_name\<close> match on them without a wildcard.  The worker class a task type runs on
  (\<open>WorkerType::from_task_type\<close>) is decided by that package and is a parameter of the model.
\<close>

section \<open>Enumerations\<close>

datatype TaskType =
    UnspecifiedTaskType
  | Controller
  | ProveShard
  | RecursionDeferred
  | RecursionReduce
  | ShrinkWrap
  | SetupVkey
  | MarkerDeferredRecord
  | PlonkWrap
  | Groth16Wrap
  | UtilVkeyMapChunk
  | UtilVkeyMapController
  | ExecuteOnly
  | CoreExecute

datatype WorkerType =
    UnspecifiedWorkerType
  | NoneWorker
  | CpuWorker
  | GpuWorker
  | AllWorker

datatype TaskStatus =
    Pending
  | Running
  | Succeeded
  | FailedRetryable
  | FailedFatal

section \<open>Messages\<close>

type_synonym ProofId = string
type_synonym TaskId = string
type_synonym WorkerId = string

record TaskData =
  td_task_type :: TaskType
  td_inputs :: "string list"
  td_outputs :: "string list"
  td_metadata :: string
  td_proof_id :: ProofId
  td_parent_id :: "string option"
  td_weight :: nat
  td_requester :: string

record CreateProofRequest =
  cpr_proof_id :: ProofId
  cpr_inputs :: "string list"
  cpr_outputs :: "string list"
  cpr_requester :: string
  cpr_expires_at :: int

datatype ServerMessage =
    CancelTask ProofId TaskId
  | ServerHeartbeat
  | NewTask TaskId TaskData string

datatype ServerSubMessage =
    SubHeartbeat
  | UnknownTask ProofId TaskId
  | TaskResult TaskId TaskStatus
  | SubEndOfStream

datatype MessageStreamResponse =
    Payload "nat list"
  | EndOfStream

section \<open>The worker class of a task\<close>

text \<open>
  What the coordinator is built against: the package's classification of task types and the
  compile-time switch \<open>SP1_CLUSTER_CPU_ONLY\<close>.
\<close>

record Env =
  env_from_task_type :: "TaskType \<Rightarrow> WorkerType"
  env_cpu_only :: bool

text \<open>\<open>worker_type_from_task_type\<close> of \<open>bin/coordinator/src/util.rs\<close>.\<close>

definition worker_type_from_task_type :: "Env \<Rightarrow> TaskType \<Rightarrow> WorkerType" where
  "worker_type_from_task_type E task_type =
     (case env_from_task_type E task_type of
        GpuWorker \<Rightarrow> (if env_cpu_only E then CpuWorker else GpuWorker)
      | worker_type \<Rightarrow> worker_type)"

text \<open>\<open>estimate_duration\<close>: the scheduling heuristic, in milliseconds.\<close>

fun estimate_duration :: "TaskType \<Rightarrow> nat" where
  "estimate_duration Controller = 200"
| "estimate_duration PlonkWrap = 8000"
| "estimate_duration Groth16Wrap = 2000"
| "estimate_duration ProveShard = 2000"
| "estimate_duration RecursionDeferred = 400"
| "estimate_duration RecursionReduce = 400"
| "estimate_duration ShrinkWrap = 4000"
| "estimate_duration SetupVkey = 4000"
| "estimate_duration MarkerDeferredRecord = 0"
| "estimate_duration UnspecifiedTaskType = 0"
| "estimate_duration UtilVkeyMapChunk = 0"
| "estimate_duration UtilVkeyMapController = 0"
| "estimate_duration ExecuteOnly = 200"
| "estimate_duration CoreExecute = 200"

text \<open>\<open>enable_proof_fail\<close>: the task types whose exhausted failure fails the whole proof.\<close>

definition enable_proof_fail :: "TaskType \<Rightarrow> bool" where
  "enable_proof_fail task_type =
     (task_type \<in> {Controller, Groth16Wrap, PlonkWrap, ExecuteOnly, CoreExecute})"

text \<open>\<open>MAX_TASK_RETRIES\<close>.\<close>

definition MAX_TASK_RETRIES :: nat where
  "MAX_TASK_RETRIES = 3"

text \<open>A task in one of these states is never assigned again and accepts no messages.\<close>

definition final_status :: "TaskStatus \<Rightarrow> bool" where
  "final_status s = (s = Succeeded \<or> s = FailedFatal)"

lemma final_status_simps [simp]:
  "final_status Succeeded" "final_status FailedFatal"
  "\<not> final_status Pending" "\<not> final_status Running" "\<not> final_status FailedRetryable"
  by (simp_all add: final_status_def)

lemma worker_type_cpu_only:
  "env_cpu_only E \<Longrightarrow> worker_type_from_task_type E t \<noteq> GpuWorker"
  by (auto simp: worker_type_from_task_type_def split: WorkerType.splits)

end
