(* ===== verification/Task_Queue.thy ===== *)
theory Task_Queue
  imports Proto
begin

text \<open>
  The queues of the assignment policies: \<open>QueuedTask\<close> with its hand-written \<open>Ord\<close> and the standard
  library's \<open>BinaryHeap<Reverse<QueuedTask>>\<close>.  Both policies declare the same \<open>QueuedTask\<close>.  The
  heap is used through an interface locale that says only what \<open>push\<close>, \<open>peek\<close> and \<open>pop\<close> promise.
\<close>

section \<open>Queued tasks and their order\<close>

datatype ordering = Less | Equal | Greater

fun ord_then :: "ordering \<Rightarrow> ordering \<Rightarrow> ordering" where
  "ord_then Equal o2 = o2"
| "ord_then o1 o2 = o1"

definition cmp_nat :: "nat \<Rightarrow> nat \<Rightarrow> ordering" where
  "cmp_nat a b = (if a < b then Less else if a = b then Equal else Greater)"

record QueuedTask =
  q_id :: TaskId
  q_task_type :: TaskType
  q_proof_created_at :: SystemTime
  q_created_at :: SystemTime
  q_proof_id :: ProofId

abbreviation qkey :: "QueuedTask \<Rightarrow> ProofId \<times> TaskId" where
  "qkey q \<equiv> (q_proof_id q, q_id q)"

text \<open>The task types of the first arm of \<open>QueuedTask::cmp\<close>.\<close>

definition cpu_arm :: "TaskType \<Rightarrow> bool" where
  "cpu_arm t = (t \<in> {Controller, PlonkWrap, Groth16Wrap, ExecuteOnly})"

definition cmp_times :: "QueuedTask \<Rightarrow> QueuedTask \<Rightarrow> ordering" where
  "cmp_times a b =
     ord_then (cmp_nat (q_proof_created_at a) (q_proof_created_at b))
       (cmp_nat (q_created_at a) (q_created_at b))"

text \<open>\<open>Ord::cmp\<close> of \<open>QueuedTask\<close>, arm by arm.\<close>

definition queued_task_cmp :: "QueuedTask \<Rightarrow> QueuedTask \<Rightarrow> ordering" where
  "queued_task_cmp a b =
     (if cpu_arm (q_task_type a) \<and> cpu_arm (q_task_type b) then cmp_times a b
      else if q_task_type a = SetupVkey \<and> q_task_type b = SetupVkey then cmp_times a b
      else if q_task_type a = SetupVkey then Less
      else if q_task_type b = SetupVkey then Greater
      else ord_then (cmp_nat (q_proof_created_at a) (q_proof_created_at b))
             (if q_task_type a = ProveShard \<and> q_task_type b = ProveShard
                then cmp_nat (q_created_at a) (q_created_at b)
              else if q_task_type a = ProveShard then Less
              else if q_task_type b = ProveShard then Greater
              else cmp_nat (q_created_at a) (q_created_at b)))"

text \<open>
  The four-level priority the comments of the source describe, as a lexicographic key: verifying-key
  setup first, then older proofs, then shard proving, then older tasks.
\<close>

definition task_rank :: "QueuedTask \<Rightarrow> nat \<times> nat \<times> nat \<times> nat" where
  "task_rank q =
     ((if q_task_type q = SetupVkey then 0 else 1), q_proof_created_at q,
      (if q_task_type q \<in> {SetupVkey, ProveShard} then 0 else 1), q_created_at q)"

fun rank_cmp :: "nat \<times> nat \<times> nat \<times> nat \<Rightarrow> nat \<times> nat \<times> nat \<times> nat \<Rightarrow> ordering" where
  "rank_cmp (a1, a2, a3, a4) (b1, b2, b3, b4) =
     ord_then (cmp_nat a1 b1) (ord_then (cmp_nat a2 b2) (ord_then (cmp_nat a3 b3) (cmp_nat a4 b4)))"

lemma cmp_nat_simps [simp]:
  "cmp_nat a b = Less \<longleftrightarrow> a < b" "cmp_nat a b = Equal \<longleftrightarrow> a = b"
  "cmp_nat a b = Greater \<longleftrightarrow> b < a" "cmp_nat a a = Equal"
  by (auto simp: cmp_nat_def)

lemma ord_then_simps [simp]:
  "ord_then x y = Less \<longleftrightarrow> x = Less \<or> x = Equal \<and> y = Less"
  "ord_then x y = Equal \<longleftrightarrow> x = Equal \<and> y = Equal"
  "ord_then x y = Greater \<longleftrightarrow> x = Greater \<or> x = Equal \<and> y = Greater"
  by (cases x; simp)+

lemma ord_then_cong: "(x = Equal \<Longrightarrow> y = z) \<Longrightarrow> ord_then x y = ord_then x z"
  by (cases x) simp_all

lemma cmp_nat_01 [simp]: "cmp_nat 0 1 = Less" "cmp_nat 1 0 = Greater"
  "cmp_nat 0 (Suc 0) = Less" "cmp_nat (Suc 0) 0 = Greater"
  by (simp_all add: cmp_nat_def)

lemma queued_task_cmp_rank: "queued_task_cmp a b = rank_cmp (task_rank a) (task_rank b)"
  by (cases "q_task_type a"; cases "q_task_type b")
    (simp_all add: queued_task_cmp_def task_rank_def cpu_arm_def cmp_times_def)

lemma rank_cmp_refl: "rank_cmp x x = Equal"
  by (cases x) simp

lemma rank_cmp_swap: "rank_cmp x y = Less \<longleftrightarrow> rank_cmp y x = Greater"
  by (cases x; cases y) auto

lemma rank_cmp_trans:
  "rank_cmp x y \<noteq> Less \<Longrightarrow> rank_cmp y z \<noteq> Less \<Longrightarrow> rank_cmp x z \<noteq> Less"
  by (cases x; cases y; cases z) (simp; linarith)

lemma rank_cmp_equal: "rank_cmp x y = Equal \<longleftrightarrow> x = y"
  by (cases x; cases y) auto

section \<open>Binary heaps\<close>

text \<open>
  The interface of \<open>BinaryHeap<Reverse<_>>\<close>: the contents are a multiset, \<open>peek\<close> returns an element
  no other element precedes, and \<open>pop\<close> removes exactly the element \<open>peek\<close> shows.
\<close>

locale binary_heap =
  fixes cmp :: "'a \<Rightarrow> 'a \<Rightarrow> ordering"
    and contents :: "'h \<Rightarrow> 'a multiset"
    and push :: "'a \<Rightarrow> 'h \<Rightarrow> 'h"
    and peek :: "'h \<Rightarrow> 'a option"
    and pop :: "'h \<Rightarrow> 'h"
  assumes contents_push: "contents (push x h) = add_mset x (contents h)"
    and peek_None: "peek h = None \<longleftrightarrow> contents h = {#}"
    and peek_mem: "peek h = Some x \<Longrightarrow> x \<in># contents h"
    and peek_min: "peek h = Some x \<Longrightarrow> y \<in># contents h \<Longrightarrow> cmp y x \<noteq> Less"
    and contents_pop: "peek h = Some x \<Longrightarrow> contents (pop h) = contents h - {#x#}"
begin

lemma peek_split: "peek h = Some x \<Longrightarrow> contents h = add_mset x (contents (pop h))"
  by (simp add: contents_pop peek_mem)

lemma size_pop: "peek h = Some x \<Longrightarrow> size (contents h) = Suc (size (contents (pop h)))"
  by (drule peek_split) simp

lemma pop_subset: "peek h = Some x \<Longrightarrow> y \<in># contents (pop h) \<Longrightarrow> y \<in># contents h"
  by (drule peek_split) simp

lemma pop_never_overtakes:
  "peek h = Some x \<Longrightarrow> peek (pop h) = Some y \<Longrightarrow> cmp y x \<noteq> Less"
  by (rule peek_min, assumption) (rule pop_subset, assumption, rule peek_mem)

end

text \<open>
  The heap of the model: a list whose first least element is the one on top.  The source's
  tie-breaking between equally ranked tasks is unspecified.
\<close>

type_synonym task_heap = "QueuedTask list"

definition heap_push :: "QueuedTask \<Rightarrow> task_heap \<Rightarrow> task_heap" where
  "heap_push q h = h @ [q]"

fun heap_peek :: "task_heap \<Rightarrow> QueuedTask option" where
  "heap_peek [] = None"
| "heap_peek (q # h) =
     (case heap_peek h of
        None \<Rightarrow> Some q
      | Some r \<Rightarrow> (if queued_task_cmp r q = Less then Some r else Some q))"

definition heap_pop :: "task_heap \<Rightarrow> task_heap" where
  "heap_pop h = (case heap_peek h of None \<Rightarrow> h | Some q \<Rightarrow> remove1 q h)"

lemma heap_peek_None: "heap_peek h = None \<longleftrightarrow> h = []"
  by (cases h) (auto split: option.splits)

lemma heap_peek_mem: "heap_peek h = Some q \<Longrightarrow> q \<in> set h"
  by (induction h arbitrary: q) (auto split: option.splits if_splits)

lemma queued_task_cmp_trans:
  "queued_task_cmp a b \<noteq> Less \<Longrightarrow> queued_task_cmp b c \<noteq> Less \<Longrightarrow> queued_task_cmp a c \<noteq> Less"
  unfolding queued_task_cmp_rank by (rule rank_cmp_trans)

lemma heap_peek_min: "heap_peek h = Some q \<Longrightarrow> r \<in> set h \<Longrightarrow> queued_task_cmp r q \<noteq> Less"
proof (induction h arbitrary: q)
  case (Cons x h)
  show ?case
  proof (cases "heap_peek h")
    case None
    with Cons.prems show ?thesis
      by (auto simp: heap_peek_None queued_task_cmp_rank rank_cmp_refl)
  next
    case (Some y)
    have least: "r \<in> set h \<Longrightarrow> queued_task_cmp r y \<noteq> Less"
      using Cons.IH [OF Some] by blast
    show ?thesis
    proof (cases "queued_task_cmp y x = Less")
      case True
      then have "queued_task_cmp x y \<noteq> Less"
        unfolding queued_task_cmp_rank by (simp add: rank_cmp_swap)
      with True Some Cons.prems least show ?thesis by auto
    next
      case False
      with Some Cons.prems least show ?thesis
        by (auto simp: queued_task_cmp_rank rank_cmp_refl dest: rank_cmp_trans)
    qed
  qed
qed simp

lemma mset_heap_pop: "heap_peek h = Some q \<Longrightarrow> mset (heap_pop h) = mset h - {#q#}"
  by (simp add: heap_pop_def)

interpretation task_heap: binary_heap queued_task_cmp mset heap_push heap_peek heap_pop
  by unfold_locales
    (auto simp: heap_push_def heap_peek_None mset_heap_pop dest: heap_peek_mem heap_peek_min)

lemma set_heap_pop: "set (heap_pop h) \<subseteq> set h"
  by (simp add: heap_pop_def set_remove1_subset split: option.splits)

lemma heap_pop_length: "heap_peek h = Some q \<Longrightarrow> length h = Suc (length (heap_pop h))"
  using task_heap.size_pop [of h q] by simp

text \<open>Draining a heap completely, the order in which a policy with enough workers hands out tasks.\<close>

function heap_drain :: "task_heap \<Rightarrow> QueuedTask list" where
  "heap_drain h = (case heap_peek h of None \<Rightarrow> [] | Some q \<Rightarrow> q # heap_drain (heap_pop h))"
  by pat_completeness auto
termination
proof (relation "measure length", goal_cases)
  case (2 h q)
  then have "size (mset h) = Suc (size (mset (heap_pop h)))"
    by (rule task_heap.size_pop)
  then show ?case by simp
qed simp

declare heap_drain.simps [simp del]

lemma mset_heap_drain: "mset (heap_drain h) = mset h"
proof (induction h rule: heap_drain.induct)
  case (1 h)
  show ?case
  proof (cases "heap_peek h")
    case None
    then show ?thesis by (subst heap_drain.simps) (simp add: heap_peek_None)
  next
    case (Some q)
    with "1.IH" show ?thesis
      by (subst heap_drain.simps) (simp add: task_heap.peek_split [OF Some])
  qed
qed

lemma sorted_heap_drain:
  "sorted_wrt (\<lambda>a b. queued_task_cmp b a \<noteq> Less) (heap_drain h)"
proof (induction h rule: heap_drain.induct)
  case (1 h)
  show ?case
  proof (cases "heap_peek h")
    case None
    then show ?thesis by (simp add: heap_drain.simps [of h])
  next
    case (Some q)
    have "queued_task_cmp r q \<noteq> Less" if "r \<in> set (heap_drain (heap_pop h))" for r
    proof -
      from that have "r \<in># mset (heap_pop h)"
        using mset_eq_setD [OF mset_heap_drain] by auto
      then have "r \<in># mset h"
        by (rule task_heap.pop_subset [OF Some])
      then show ?thesis by (rule task_heap.peek_min [OF Some])
    qed
    with Some "1.IH" show ?thesis by (simp add: heap_drain.simps [of h])
  qed
qed

end
