(* ===== verification/Coord_State.thy ===== *)
theory Coord_State
  imports Task_Queue
begin

text \<open>
  The state of the coordinator (\<open>bin/coordinator/src/lib.rs\<close>): proofs, tasks, workers, the
  coordinator state behind the write lock, and the \<open>AssignmentPolicy\<close> trait as a record of the
  functions a policy supplies.  Both policies of the repository instantiate the associated state
  types of the trait with \<open>()\<close>, so the \<open>extra\<close> fields carry nothing and are left out.

  Two fields are not in the source.  \<open>wire\<close> is the sequence of messages sent so far on the
  channels reachable from the state, and \<open>panicked\<close> records that an \<open>unwrap\<close> or \<open>panic!\<close> of the
  source has been reached.
\<close>

section \<open>Tasks and proofs\<close>

record GpuAttempt =
  ga_on_gpu :: bool
  ga_credited :: bool

record Task =
  t_id :: TaskId
  t_data :: TaskData
  t_created_at :: SystemTime
  t_status :: TaskStatus
  t_retries :: nat
  t_subscribers :: "string hash_set"
  t_worker :: "WorkerId option"
  t_gpu_attempts :: "(WorkerId, GpuAttempt) hash_map"
  t_dead_worker_requeue_count :: nat

record Proof =
  p_id :: ProofId
  p_tasks :: "(TaskId, Task) hash_map"
  p_created_at :: SystemTime
  p_expires_at :: "SystemTime option"
  p_active_tasks :: nat

text \<open>\<open>Proof::new\<close>.\<close>

definition Proof_new :: "SystemTime \<Rightarrow> ProofId \<Rightarrow> SystemTime option \<Rightarrow> Proof" where
  "Proof_new now i expires_at =
     \<lparr>p_id = i, p_tasks = [], p_created_at = now, p_expires_at = expires_at, p_active_tasks = 0\<rparr>"

record ProofResult =
  pr_id :: ProofId
  pr_success :: bool
  pr_metadata :: "unit option"
  pr_extra_data :: "string option"

section \<open>Workers\<close>

type_synonym channel = nat

record WorkerIdentity =
  wi_version :: string
  wi_git_sha :: string
  wi_image_tag :: string
  wi_gpu_name :: string
  wi_gpu_memory_total_bytes :: nat
  wi_location :: string

record Worker =
  w_id :: WorkerId
  w_worker_type :: WorkerType
  w_max_weight :: nat
  w_next_free_time :: nat
  w_weight :: nat
  w_active_tasks :: "(ProofId \<times> TaskId) hash_set"
  w_channel :: channel
  w_last_heartbeat :: nat
  w_closed :: bool
  w_identity :: WorkerIdentity

text \<open>\<open>Worker::new\<close>.\<close>

definition Worker_new ::
  "SystemTime \<Rightarrow> WorkerId \<Rightarrow> WorkerType \<Rightarrow> nat \<Rightarrow> channel \<Rightarrow> WorkerIdentity \<Rightarrow> Worker" where
  "Worker_new now i worker_type max_weight ch identity =
     \<lparr>w_id = i, w_worker_type = worker_type, w_max_weight = max_weight, w_next_free_time = 0,
      w_weight = 0, w_active_tasks = [], w_channel = ch, w_last_heartbeat = as_secs now,
      w_closed = False, w_identity = identity\<rparr>"

section \<open>The coordinator state\<close>

datatype wire_msg =
    ToWorker channel ServerMessage
  | ToProofs channel ProofResult

record 'p CoordinatorState =
  total_tasks :: nat
  workers :: "(WorkerId, Worker) hash_map"
  proofs :: "(ProofId, Proof) hash_map"
  proofs_tx :: "channel option"
  shutting_down :: bool
  policy :: 'p
  execute_only_mode :: bool
  worker_heartbeat_timeout_secs :: nat
  gpu_busy_ms_total :: nat
  gpu_available_ms_total :: nat
  gpu_available_last_tick :: Instant
  counters_since :: nat
  wire :: "wire_msg list"
  panicked :: bool

text \<open>\<open>DEFAULT_WORKER_HEARTBEAT_TIMEOUT\<close>, \<open>SERVER_HEARTBEAT_INTERVAL\<close> and the floor derived from it.\<close>

definition DEFAULT_WORKER_HEARTBEAT_TIMEOUT :: nat where
  "DEFAULT_WORKER_HEARTBEAT_TIMEOUT = 30"

definition SERVER_HEARTBEAT_INTERVAL :: nat where
  "SERVER_HEARTBEAT_INTERVAL = 5"

definition MIN_WORKER_HEARTBEAT_TIMEOUT :: nat where
  "MIN_WORKER_HEARTBEAT_TIMEOUT = 4 * SERVER_HEARTBEAT_INTERVAL"

text \<open>The state \<open>Coordinator::new\<close> builds around the default value of the policy.\<close>

definition initial_state :: "'p \<Rightarrow> SystemTime \<Rightarrow> Instant \<Rightarrow> 'p CoordinatorState" where
  "initial_state pol now tick =
     \<lparr>total_tasks = 0, workers = [], proofs = [], proofs_tx = None, shutting_down = False,
      policy = pol, execute_only_mode = False,
      worker_heartbeat_timeout_secs = DEFAULT_WORKER_HEARTBEAT_TIMEOUT,
      gpu_busy_ms_total = 0, gpu_available_ms_total = 0, gpu_available_last_tick = tick,
      counters_since = as_secs now, wire = [], panicked = False\<rparr>"

text \<open>\<open>get_task_internal\<close>.\<close>

definition get_task_internal :: "'p CoordinatorState \<Rightarrow> ProofId \<Rightarrow> TaskId \<Rightarrow> Task option" where
  "get_task_internal st proof_id task_id =
     (case map_of (proofs st) proof_id of
        None \<Rightarrow> None
      | Some proof \<Rightarrow> map_of (p_tasks proof) task_id)"

text \<open>Sending on a channel: the outcome of an unbounded send is only logged by the source.\<close>

definition send :: "wire_msg \<Rightarrow> 'p CoordinatorState \<Rightarrow> 'p CoordinatorState" where
  "send m st = st\<lparr>wire := wire st @ [m]\<rparr>"

text \<open>\<open>send_task\<close>.\<close>

definition send_task :: "Task \<Rightarrow> Worker \<Rightarrow> string \<Rightarrow> 'p CoordinatorState \<Rightarrow> 'p CoordinatorState" where
  "send_task task worker metadata =
     send (ToWorker (w_channel worker) (NewTask (t_id task) (t_data task) metadata))"

section \<open>Assignment policies\<close>

record TaskMetadata =
  tm_gpu_ms :: nat

text \<open>The functions of the trait \<open>AssignmentPolicy\<close>.\<close>

record 'p AssignmentPolicy =
  ap_default :: 'p
  ap_enqueue_task :: "'p CoordinatorState \<Rightarrow> Task \<Rightarrow> 'p CoordinatorState"
  ap_post_task_success_update_proof :: "Proof \<Rightarrow> TaskMetadata \<Rightarrow> Proof"
  ap_post_task_success_update_state :: "'p CoordinatorState \<Rightarrow> TaskType \<Rightarrow> 'p CoordinatorState"
  ap_post_task_update_state ::
    "'p CoordinatorState \<Rightarrow> TaskId \<Rightarrow> nat \<Rightarrow> ProofId \<Rightarrow> TaskType \<Rightarrow> 'p CoordinatorState"
  ap_post_worker_empty :: "'p CoordinatorState \<Rightarrow> Worker \<Rightarrow> 'p CoordinatorState \<times> Worker"
  ap_get_task_input_metadata :: "'p CoordinatorState \<Rightarrow> Task \<Rightarrow> string"
  ap_assign_tasks :: "SystemTime \<Rightarrow> 'p CoordinatorState \<Rightarrow> 'p CoordinatorState"
  ap_cpu_queue_len :: "'p CoordinatorState \<Rightarrow> nat"
  ap_gpu_queue_len :: "'p CoordinatorState \<Rightarrow> nat"
  ap_on_proof_deleted :: "'p CoordinatorState \<Rightarrow> ProofId \<Rightarrow> 'p CoordinatorState"

section \<open>Assigning one task: what both policies do alike\<close>

text \<open>
  The guard of the worker scan in \<open>assign_task\<close>, apart from the comparison of free times, which
  the scan itself makes.
\<close>

definition worker_fits :: "WorkerType \<Rightarrow> nat \<Rightarrow> Worker \<Rightarrow> bool" where
  "worker_fits worker_type task_weight worker =
     (\<not> w_closed worker \<and> (w_worker_type worker = AllWorker \<or> w_worker_type worker = worker_type) \<and>
      u32_add (w_weight worker) task_weight \<le> w_max_weight worker)"

text \<open>The scan for the worker that is free soonest, with \<open>best_worker_time\<close> as accumulator.\<close>

fun scan_workers ::
  "WorkerType \<Rightarrow> nat \<Rightarrow> Worker list \<Rightarrow> Worker option \<Rightarrow> nat \<Rightarrow> Worker option" where
  "scan_workers worker_type task_weight [] best best_time = best"
| "scan_workers worker_type task_weight (w # ws) best best_time =
     (if worker_fits worker_type task_weight w \<and> w_next_free_time w < best_time
      then scan_workers worker_type task_weight ws (Some w) (w_next_free_time w)
      else scan_workers worker_type task_weight ws best best_time)"

definition best_worker :: "WorkerType \<Rightarrow> nat \<Rightarrow> (WorkerId, Worker) hash_map \<Rightarrow> Worker option" where
  "best_worker worker_type task_weight ws =
     scan_workers worker_type task_weight (hm_values ws) None (uint_max 128)"

text \<open>The updates of the chosen worker and of the stored task, and the message to the worker.\<close>

definition charge_worker :: "SystemTime \<Rightarrow> Task \<Rightarrow> Worker \<Rightarrow> Worker" where
  "charge_worker now task worker =
     worker\<lparr>w_weight := u32_add (w_weight worker) (td_weight (t_data task)),
            w_next_free_time :=
              u128_add (max (as_millis now) (w_next_free_time worker))
                (estimate_duration (td_task_type (t_data task))),
            w_active_tasks :=
              hs_insert (td_proof_id (t_data task), t_id task) (w_active_tasks worker)\<rparr>"

definition mark_running :: "Worker \<Rightarrow> Task \<Rightarrow> Task" where
  "mark_running worker task =
     task\<lparr>t_worker := Some (w_id worker), t_status := Running,
          t_gpu_attempts :=
            hm_insert (w_id worker)
              \<lparr>ga_on_gpu = (w_worker_type worker = GpuWorker \<or> w_worker_type worker = AllWorker),
               ga_credited = False\<rparr> (t_gpu_attempts task)\<rparr>"

text \<open>Updating a stored task in place; \<open>None\<close> is a failed \<open>unwrap\<close>.\<close>

definition modify_task ::
  "ProofId \<Rightarrow> TaskId \<Rightarrow> (Task \<Rightarrow> Task) \<Rightarrow> (ProofId, Proof) hash_map \<Rightarrow> (ProofId, Proof) hash_map option"
where
  "modify_task proof_id task_id f ps =
     (case map_of ps proof_id of
        None \<Rightarrow> None
      | Some proof \<Rightarrow>
          (case map_of (p_tasks proof) task_id of
             None \<Rightarrow> None
           | Some task \<Rightarrow>
               Some (hm_insert proof_id
                       (proof\<lparr>p_tasks := hm_insert task_id (f task) (p_tasks proof)\<rparr>) ps)))"

definition start_task :: "SystemTime \<Rightarrow> Task \<Rightarrow> Worker \<Rightarrow> 'p CoordinatorState \<Rightarrow> 'p CoordinatorState" where
  "start_task now task worker st =
     (let st1 = st\<lparr>workers := hm_insert (w_id worker) (charge_worker now task worker) (workers st)\<rparr>
      in case modify_task (td_proof_id (t_data task)) (t_id task) (mark_running worker) (proofs st1) of
           None \<Rightarrow> st1\<lparr>panicked := True\<rparr>
         | Some ps \<Rightarrow> send_task task (charge_worker now task worker) ''null'' (st1\<lparr>proofs := ps\<rparr>))"

text \<open>\<open>get_queued_task\<close>: panics when the proof of the task is unknown.\<close>

definition get_queued_task :: "'p CoordinatorState \<Rightarrow> Task \<Rightarrow> QueuedTask option" where
  "get_queued_task st task =
     (case map_of (proofs st) (td_proof_id (t_data task)) of
        None \<Rightarrow> None
      | Some proof \<Rightarrow>
          Some \<lparr>q_id = t_id task, q_task_type = td_task_type (t_data task),
                q_proof_created_at = p_created_at proof, q_created_at = t_created_at task,
                q_proof_id = td_proof_id (t_data task)\<rparr>)"

section \<open>Facts about the worker scan\<close>

lemma scan_workers_mem:
  "scan_workers wt tw ws best bt = Some w \<Longrightarrow>
     best = Some w \<or> (w \<in> set ws \<and> worker_fits wt tw w \<and> w_next_free_time w < bt)"
  by (induction ws arbitrary: best bt) (fastforce split: if_splits)+

lemma scan_workers_least:
  "scan_workers wt tw ws best bt = Some w \<Longrightarrow> (\<forall>b. best = Some b \<longrightarrow> w_next_free_time b = bt) \<Longrightarrow>
     v \<in> set ws \<Longrightarrow> worker_fits wt tw v \<Longrightarrow>
     w_next_free_time w \<le> w_next_free_time v \<and> (best \<noteq> None \<longrightarrow> w_next_free_time w \<le> bt)"
proof (induction ws arbitrary: best bt)
  case (Cons u ws)
  have below: "w_next_free_time w \<le> bt'"
    if "scan_workers wt tw ws b' bt' = Some w" and "b' = Some x" and "w_next_free_time x = bt'" for b' bt' x
    using that scan_workers_mem [OF that(1)] by auto
  show ?case
  proof (cases "worker_fits wt tw u \<and> w_next_free_time u < bt")
    case True
    then have s: "scan_workers wt tw ws (Some u) (w_next_free_time u) = Some w"
      using Cons.prems(1) by simp
    have "w_next_free_time w \<le> w_next_free_time u"
      using below [OF s] by simp
    moreover have "w_next_free_time w \<le> w_next_free_time v" if "v \<in> set ws"
      using Cons.IH [OF s _ that Cons.prems(4)] by simp
    ultimately show ?thesis using True Cons.prems(3) by auto
  next
    case False
    then have s: "scan_workers wt tw ws best bt = Some w"
      using Cons.prems(1) by auto
    have bt: "best \<noteq> None \<longrightarrow> w_next_free_time w \<le> bt"
      using below [OF s] Cons.prems(2) by auto
    have "w_next_free_time w \<le> bt"
      using scan_workers_mem [OF s] Cons.prems(2) by auto
    then have "v = u \<Longrightarrow> w_next_free_time w \<le> w_next_free_time v"
      using False Cons.prems(4) by auto
    moreover have "w_next_free_time w \<le> w_next_free_time v" if "v \<in> set ws"
      using Cons.IH [OF s Cons.prems(2) that Cons.prems(4)] by simp
    ultimately show ?thesis using bt Cons.prems(3) by auto
  qed
qed simp

lemma scan_workers_Some: "scan_workers wt tw ws (Some b) bt \<noteq> None"
  by (induction ws arbitrary: b bt) auto

lemma scan_workers_None:
  "scan_workers wt tw ws None bt = None \<longleftrightarrow> (\<forall>w \<in> set ws. \<not> (worker_fits wt tw w \<and> w_next_free_time w < bt))"
  by (induction ws) (auto simp: scan_workers_Some)

lemma best_worker_mem:
  "best_worker wt tw ws = Some w \<Longrightarrow> w \<in> snd ` set ws \<and> worker_fits wt tw w"
  by (auto simp: best_worker_def hm_values_def dest!: scan_workers_mem)

lemma best_worker_least:
  "best_worker wt tw ws = Some w \<Longrightarrow> (i, v) \<in> set ws \<Longrightarrow> worker_fits wt tw v \<Longrightarrow>
     w_next_free_time w \<le> w_next_free_time v"
  unfolding best_worker_def hm_values_def
  by (drule scan_workers_least [where v = v]) (auto simp: image_iff intro: bexI [of _ "(i, v)"])

lemma best_worker_None:
  "best_worker wt tw ws = None \<longleftrightarrow>
     (\<forall>w \<in> snd ` set ws. \<not> (worker_fits wt tw w \<and> w_next_free_time w < uint_max 128))"
  by (simp add: best_worker_def hm_values_def scan_workers_None)

end
