(* ===== verification/Policy_Interface.thy ===== *)
theory Policy_Interface
  imports Coord_State
begin

text \<open>
  What the coordinator relies on an \<open>AssignmentPolicy\<close> for.  A policy is seen through a view: the
  multiset of queued entries, the weight it has charged to each proof, the task types it charges,
  the worker class of a task type, and its own well-formedness.  Handing out tasks is a sequence of
  elementary steps, each of which either drops a stale queue entry or starts one queued task on one
  fitting worker.  The locale \<open>assignment_policy\<close> states the laws; each policy theory interprets it.
\<close>

section \<open>Views of a policy\<close>

record 'p PolicyView =
  pv_queued :: "'p \<Rightarrow> QueuedTask multiset"
  pv_charge :: "'p \<Rightarrow> ProofId \<Rightarrow> nat"
  pv_charged :: "TaskType \<Rightarrow> bool"
  pv_class :: "TaskType \<Rightarrow> WorkerType"
  pv_wf :: "'p \<Rightarrow> bool"

abbreviation task_type :: "Task \<Rightarrow> TaskType" where
  "task_type task \<equiv> td_task_type (t_data task)"

abbreviation task_weight_of :: "Task \<Rightarrow> nat" where
  "task_weight_of task \<equiv> td_weight (t_data task)"

abbreviation task_at :: "'p CoordinatorState \<Rightarrow> ProofId \<times> TaskId \<Rightarrow> Task option" where
  "task_at st k \<equiv> get_task_internal st (fst k) (snd k)"

text \<open>The task types that are served from a queue at all.\<close>

definition queueable :: "'p PolicyView \<Rightarrow> TaskType \<Rightarrow> bool" where
  "queueable V tt \<longleftrightarrow> pv_class V tt = CpuWorker \<or> pv_class V tt = GpuWorker"

section \<open>Consistent keys\<close>

text \<open>Map keys agree with the identifiers stored in the values, and queue entries with their tasks.\<close>

definition workers_keyed :: "'p CoordinatorState \<Rightarrow> bool" where
  "workers_keyed st \<longleftrightarrow>
     hm_wf (workers st) \<and> (\<forall>i w. map_of (workers st) i = Some w \<longrightarrow> w_id w = i)"

definition tasks_keyed :: "'p CoordinatorState \<Rightarrow> bool" where
  "tasks_keyed st \<longleftrightarrow>
     (\<forall>p t task. get_task_internal st p t = Some task \<longrightarrow>
        t_id task = t \<and> td_proof_id (t_data task) = p)"

definition queue_typed :: "'p PolicyView \<Rightarrow> 'p CoordinatorState \<Rightarrow> bool" where
  "queue_typed V st \<longleftrightarrow>
     (\<forall>q task. q \<in># pv_queued V (policy st) \<longrightarrow>
        get_task_internal st (q_proof_id q) (q_id q) = Some task \<longrightarrow> task_type task = q_task_type q)"

definition sched_ok :: "'p PolicyView \<Rightarrow> 'p CoordinatorState \<Rightarrow> bool" where
  "sched_ok V st \<longleftrightarrow>
     workers_keyed st \<and> tasks_keyed st \<and> queue_typed V st \<and> pv_wf V (policy st)"

section \<open>Elementary assignment steps\<close>

inductive assign_step ::
  "'p PolicyView \<Rightarrow> SystemTime \<Rightarrow> 'p CoordinatorState \<Rightarrow> 'p CoordinatorState \<Rightarrow> bool"
  for V :: "'p PolicyView" and now :: SystemTime where
  drop_stale:
    "pv_queued V (policy st) = add_mset q (pv_queued V pol) \<Longrightarrow>
     (\<forall>task. get_task_internal st (q_proof_id q) (q_id q) = Some task \<longrightarrow> final_status (t_status task)) \<Longrightarrow>
     pv_charge V pol = pv_charge V (policy st) \<Longrightarrow> pv_wf V pol \<Longrightarrow>
     assign_step V now st (st\<lparr>policy := pol\<rparr>)"
| start:
    "pv_queued V (policy st) = add_mset q (pv_queued V pol) \<Longrightarrow>
     get_task_internal st (q_proof_id q) (q_id q) = Some task \<Longrightarrow>
     \<not> final_status (t_status task) \<Longrightarrow>
     best_worker (pv_class V (task_type task)) (task_weight_of task) (workers st) = Some worker \<Longrightarrow>
     pv_charge V pol =
       (\<lambda>p. if pv_charged V (task_type task) \<and> p = q_proof_id q
            then u32_add (pv_charge V (policy st) p) (task_weight_of task)
            else pv_charge V (policy st) p) \<Longrightarrow>
     pv_wf V pol \<Longrightarrow>
     assign_step V now st ((start_task now task worker st)\<lparr>policy := pol\<rparr>)"

inductive_cases assign_stepE: "assign_step V now st st'"

section \<open>Lookups after the elementary updates\<close>

lemma get_task_internal_frame [simp]:
  "get_task_internal (st\<lparr>policy := pol\<rparr>) = get_task_internal st"
  "get_task_internal (st\<lparr>workers := ws\<rparr>) = get_task_internal st"
  "get_task_internal (st\<lparr>wire := wr\<rparr>) = get_task_internal st"
  "get_task_internal (st\<lparr>panicked := b\<rparr>) = get_task_internal st"
  "get_task_internal (st\<lparr>gpu_busy_ms_total := n\<rparr>) = get_task_internal st"
  "get_task_internal (st\<lparr>shutting_down := b\<rparr>) = get_task_internal st"
  by (simp_all add: get_task_internal_def fun_eq_iff)

lemma modify_task_lookup:
  "modify_task p t f ps = Some ps' \<Longrightarrow>
     get_task_internal (st\<lparr>proofs := ps'\<rparr>) =
       (\<lambda>p' t'. if p' = p \<and> t' = t then map_option f (get_task_internal (st\<lparr>proofs := ps\<rparr>) p t)
                else get_task_internal (st\<lparr>proofs := ps\<rparr>) p' t')"
  by (auto simp: modify_task_def get_task_internal_def fun_eq_iff split: option.splits if_splits)

lemma modify_task_defined:
  "get_task_internal st p t = Some task \<Longrightarrow> modify_task p t f (proofs st) \<noteq> None"
  by (auto simp: modify_task_def get_task_internal_def split: option.splits)

lemma start_task_frame [simp]:
  "policy (start_task now task w st) = policy st"
  "workers (start_task now task w st) = hm_insert (w_id w) (charge_worker now task w) (workers st)"
  "shutting_down (start_task now task w st) = shutting_down st"
  "total_tasks (start_task now task w st) = total_tasks st"
  "gpu_busy_ms_total (start_task now task w st) = gpu_busy_ms_total st"
  "gpu_available_ms_total (start_task now task w st) = gpu_available_ms_total st"
  by (simp_all add: start_task_def Let_def send_task_def send_def split: option.splits)

lemma start_task_policy_commute:
  "start_task now task w (st\<lparr>policy := pol\<rparr>) = (start_task now task w st)\<lparr>policy := pol\<rparr>"
  by (simp add: start_task_def Let_def send_task_def send_def split: option.splits)

lemma start_task_eq:
  assumes "get_task_internal st (td_proof_id (t_data task)) (t_id task) = Some task"
  obtains ps where
    "modify_task (td_proof_id (t_data task)) (t_id task) (mark_running w) (proofs st) = Some ps"
    "start_task now task w st =
       st\<lparr>workers := hm_insert (w_id w) (charge_worker now task w) (workers st), proofs := ps,
          wire := wire st @ [ToWorker (w_channel w) (NewTask (t_id task) (t_data task) ''null'')]\<rparr>"
proof -
  from modify_task_defined [OF assms] obtain ps where
    "modify_task (td_proof_id (t_data task)) (t_id task) (mark_running w) (proofs st) = Some ps"
    by fast
  then show thesis
    by (intro that) (simp_all add: start_task_def send_task_def send_def charge_worker_def)
qed

lemma start_task_lookup:
  assumes "get_task_internal st (td_proof_id (t_data task)) (t_id task) = Some task"
  shows "get_task_internal (start_task now task w st) p t =
    (if p = td_proof_id (t_data task) \<and> t = t_id task then Some (mark_running w task)
     else get_task_internal st p t)"
proof -
  from assms obtain ps where
    ps: "modify_task (td_proof_id (t_data task)) (t_id task) (mark_running w) (proofs st) = Some ps"
    and eq: "start_task now task w st =
       st\<lparr>workers := hm_insert (w_id w) (charge_worker now task w) (workers st), proofs := ps,
          wire := wire st @ [ToWorker (w_channel w) (NewTask (t_id task) (t_data task) ''null'')]\<rparr>"
    by (rule start_task_eq)
  have "get_task_internal (start_task now task w st) p t = get_task_internal (st\<lparr>proofs := ps\<rparr>) p t"
    by (simp add: eq get_task_internal_def)
  with modify_task_lookup [OF ps, of st] assms show ?thesis by simp
qed

lemma start_task_not_panicked:
  assumes "get_task_internal st (td_proof_id (t_data task)) (t_id task) = Some task"
  shows "panicked (start_task now task w st) = panicked st"
  by (rule start_task_eq [OF assms, of w now]) simp

lemma charge_worker_simps [simp]:
  "w_id (charge_worker now task w) = w_id w"
  "w_max_weight (charge_worker now task w) = w_max_weight w"
  "w_worker_type (charge_worker now task w) = w_worker_type w"
  "w_closed (charge_worker now task w) = w_closed w"
  "w_channel (charge_worker now task w) = w_channel w"
  "w_last_heartbeat (charge_worker now task w) = w_last_heartbeat w"
  "w_identity (charge_worker now task w) = w_identity w"
  "w_weight (charge_worker now task w) = u32_add (w_weight w) (task_weight_of task)"
  "w_active_tasks (charge_worker now task w) =
     hs_insert (td_proof_id (t_data task), t_id task) (w_active_tasks w)"
  by (simp_all add: charge_worker_def)

lemma mark_running_simps [simp]:
  "t_id (mark_running w task) = t_id task"
  "t_data (mark_running w task) = t_data task"
  "t_status (mark_running w task) = Running"
  "t_worker (mark_running w task) = Some (w_id w)"
  "t_retries (mark_running w task) = t_retries task"
  by (simp_all add: mark_running_def)

lemma queue_typedD:
  "queue_typed V st \<Longrightarrow> q \<in># pv_queued V (policy st) \<Longrightarrow>
     get_task_internal st (q_proof_id q) (q_id q) = Some task \<Longrightarrow> task_type task = q_task_type q"
  by (simp add: queue_typed_def)

lemma workers_keyedD: "workers_keyed st \<Longrightarrow> map_of (workers st) i = Some w \<Longrightarrow> w_id w = i"
  by (simp add: workers_keyed_def)

lemma workers_keyed_insert:
  assumes wk: "workers_keyed st" and ws: "workers st' = hm_insert i w (workers st)" and i: "w_id w = i"
  shows "workers_keyed st'"
  unfolding workers_keyed_def ws
proof (intro conjI allI impI)
  show "hm_wf (hm_insert i w (workers st))" using wk by (simp add: workers_keyed_def)
next
  fix j v
  assume "map_of (hm_insert i w (workers st)) j = Some v"
  then show "w_id v = j"
    using i workers_keyedD [OF wk] by (cases "j = i") simp_all
qed

lemma sched_ok_task:
  "sched_ok V st \<Longrightarrow> get_task_internal st p t = Some task \<Longrightarrow>
     t_id task = t \<and> td_proof_id (t_data task) = p"
  by (simp add: sched_ok_def tasks_keyed_def)

lemma sched_ok_worker:
  "sched_ok V st \<Longrightarrow> best_worker wt tw (workers st) = Some w \<Longrightarrow>
     map_of (workers st) (w_id w) = Some w \<and> worker_fits wt tw w"
  by (drule best_worker_mem) (auto simp: sched_ok_def workers_keyed_def hm_wf_mem)

text \<open>Every elementary step keeps the keys consistent.\<close>

lemma sched_ok_shrink:
  "sched_ok V st \<Longrightarrow> set_mset (pv_queued V pol) \<subseteq> set_mset (pv_queued V (policy st)) \<Longrightarrow> pv_wf V pol \<Longrightarrow>
     sched_ok V (st\<lparr>policy := pol\<rparr>)"
  by (auto simp: sched_ok_def workers_keyed_def tasks_keyed_def queue_typed_def)

lemma sched_ok_start_task:
  assumes ok: "sched_ok V st" and task: "get_task_internal st p t = Some task"
    and w: "map_of (workers st) (w_id w) = Some w"
  shows "sched_ok V (start_task now task w st)"
proof -
  from sched_ok_task [OF ok task] have k: "t_id task = t" "td_proof_id (t_data task) = p" by simp_all
  have look: "get_task_internal (start_task now task w st) p' t' =
      (if p' = p \<and> t' = t then Some (mark_running w task) else get_task_internal st p' t')" for p' t'
    using start_task_lookup [of st task now w p' t'] k task by simp
  from ok have typed: "queue_typed V st" and wk: "workers_keyed st"
    by (simp_all add: sched_ok_def)
  have "queue_typed V (start_task now task w st)"
    unfolding queue_typed_def look start_task_frame
  proof (intro allI impI)
    fix q task'
    assume q: "q \<in># pv_queued V (policy st)"
      and "(if q_proof_id q = p \<and> q_id q = t then Some (mark_running w task)
            else get_task_internal st (q_proof_id q) (q_id q)) = Some task'"
    then consider "get_task_internal st (q_proof_id q) (q_id q) = Some task" "task' = mark_running w task"
      | "get_task_internal st (q_proof_id q) (q_id q) = Some task'"
      using task by (cases "q_proof_id q = p \<and> q_id q = t") auto
    then show "task_type task' = q_task_type q"
    proof cases
      case 1
      then show ?thesis using queue_typedD [OF typed q] by simp
    next
      case 2
      then show ?thesis by (rule queue_typedD [OF typed q])
    qed
  qed
  moreover have "tasks_keyed (start_task now task w st)"
    unfolding tasks_keyed_def look
  proof (intro allI impI)
    fix p' t' task'
    assume eq: "(if p' = p \<and> t' = t then Some (mark_running w task)
                 else get_task_internal st p' t') = Some task'"
    show "t_id task' = t' \<and> td_proof_id (t_data task') = p'"
    proof (cases "p' = p \<and> t' = t")
      case True
      with eq have "task' = mark_running w task" by simp
      with True k show ?thesis by simp
    next
      case False
      with eq have "get_task_internal st p' t' = Some task'" by (simp only: if_False)
      then show ?thesis by (rule sched_ok_task [OF ok])
    qed
  qed
  moreover have "workers_keyed (start_task now task w st)"
    by (rule workers_keyed_insert [OF wk start_task_frame(2)]) simp
  ultimately show ?thesis using ok by (simp add: sched_ok_def)
qed

lemma sched_ok_assign_step: "assign_step V now st st' \<Longrightarrow> sched_ok V st \<Longrightarrow> sched_ok V st'"
proof (induction rule: assign_step.induct)
  case (drop_stale st q pol)
  then show ?case by (intro sched_ok_shrink) auto
next
  case (start st q pol task worker)
  then have "sched_ok V (start_task now task worker st)"
    by (intro sched_ok_start_task) (auto dest: sched_ok_worker)
  with start show ?case by (intro sched_ok_shrink) auto
qed

section \<open>The interface\<close>

text \<open>
  The laws.  Enqueuing adds exactly the task's entry, if its type is served at all, and fails only for an unknown proof; the
  release hook returns a charged task's weight; deleting a proof clears its charge; an empty worker
  is reset; success hooks of the repository's policies change nothing; and \<open>assign_tasks\<close> is a
  sequence of elementary steps, none of them while shutting down.
\<close>

locale assignment_policy =
  fixes P :: "'p AssignmentPolicy" and V :: "'p PolicyView"
  assumes default_view:
      "pv_queued V (ap_default P) = {#} \<and> pv_charge V (ap_default P) = (\<lambda>_. 0) \<and> pv_wf V (ap_default P)"
    and enqueue_law: "pv_wf V (policy st) \<Longrightarrow> get_queued_task st task = Some q \<Longrightarrow>
      \<exists>pol. ap_enqueue_task P st task = st\<lparr>policy := pol\<rparr> \<and> pv_wf V pol \<and>
        pv_charge V pol = pv_charge V (policy st) \<and>
        pv_queued V pol =
          (if queueable V (task_type task) then add_mset q (pv_queued V (policy st))
           else pv_queued V (policy st))"
    and success_proof_law: "ap_post_task_success_update_proof P proof m = proof"
    and success_state_law: "ap_post_task_success_update_state P st tt = st"
    and release_law: "pv_wf V (policy st) \<Longrightarrow>
      \<exists>pol. ap_post_task_update_state P st t tw p tt = st\<lparr>policy := pol\<rparr> \<and> pv_wf V pol \<and>
        pv_queued V pol = pv_queued V (policy st) \<and>
        pv_charge V pol =
          (\<lambda>p'. if pv_charged V tt \<and> p' = p then pv_charge V (policy st) p - tw
                else pv_charge V (policy st) p')"
    and empty_law: "ap_post_worker_empty P st w = (st, w\<lparr>w_next_free_time := 0, w_weight := 0\<rparr>)"
    and deleted_law: "pv_wf V (policy st) \<Longrightarrow>
      \<exists>pol. ap_on_proof_deleted P st p = st\<lparr>policy := pol\<rparr> \<and> pv_wf V pol \<and>
        pv_queued V pol = pv_queued V (policy st) \<and>
        pv_charge V pol = (pv_charge V (policy st))(p := 0)"
    and assign_law: "sched_ok V st \<Longrightarrow> (assign_step V now)\<^sup>*\<^sup>* st (ap_assign_tasks P now st)"
    and assign_shutdown: "shutting_down st \<Longrightarrow> ap_assign_tasks P now st = st"

section \<open>Serving a queue\<close>

text \<open>
  The shape of all four assignment loops of the policies: look at the entry on top, drop it if its
  task is gone or finished, otherwise try to assign it, and stop when no worker takes it.  The fuel
  bounds the number of iterations; the locale below shows when it is enough.
\<close>

fun queue_loop ::
  "('p CoordinatorState \<Rightarrow> QueuedTask option) \<Rightarrow> ('p CoordinatorState \<Rightarrow> QueuedTask \<Rightarrow> 'p CoordinatorState) \<Rightarrow>
   ('p CoordinatorState \<Rightarrow> Task \<Rightarrow> 'p CoordinatorState \<times> WorkerId option) \<Rightarrow>
   nat \<Rightarrow> 'p CoordinatorState \<Rightarrow> 'p CoordinatorState" where
  "queue_loop front drop_top assign 0 st = st"
| "queue_loop front drop_top assign (Suc fuel) st =
     (case front st of
        None \<Rightarrow> st
      | Some q \<Rightarrow>
          (case get_task_internal st (q_proof_id q) (q_id q) of
             None \<Rightarrow> queue_loop front drop_top assign fuel (drop_top st q)
           | Some task \<Rightarrow>
               (if final_status (t_status task) then queue_loop front drop_top assign fuel (drop_top st q)
                else case assign st task of
                       (st1, None) \<Rightarrow> st1
                     | (st1, Some _) \<Rightarrow> queue_loop front drop_top assign fuel st1)))"

text \<open>The entry is for a live task and no worker of the class can take it.\<close>

definition blocked :: "WorkerType \<Rightarrow> 'p CoordinatorState \<Rightarrow> QueuedTask \<Rightarrow> bool" where
  "blocked worker_class st q \<longleftrightarrow>
     (\<exists>task. get_task_internal st (q_proof_id q) (q_id q) = Some task \<and> \<not> final_status (t_status task) \<and>
        best_worker worker_class (task_weight_of task) (workers st) = None)"

locale assign_loop =
  fixes V :: "'p PolicyView" and now :: SystemTime
    and front :: "'p CoordinatorState \<Rightarrow> QueuedTask option"
    and drop_top :: "'p CoordinatorState \<Rightarrow> QueuedTask \<Rightarrow> 'p CoordinatorState"
    and assign :: "'p CoordinatorState \<Rightarrow> Task \<Rightarrow> 'p CoordinatorState \<times> WorkerId option"
    and queue_size :: "'p CoordinatorState \<Rightarrow> nat"
    and worker_class :: WorkerType
  assumes front_size: "sched_ok V st \<Longrightarrow> front st = Some q \<Longrightarrow> 0 < queue_size st"
    and drop_law: "sched_ok V st \<Longrightarrow> front st = Some q \<Longrightarrow>
      \<forall>task. get_task_internal st (q_proof_id q) (q_id q) = Some task \<longrightarrow> final_status (t_status task) \<Longrightarrow>
      assign_step V now st (drop_top st q) \<and> queue_size (drop_top st q) < queue_size st"
    and assign_law: "sched_ok V st \<Longrightarrow> front st = Some q \<Longrightarrow>
      get_task_internal st (q_proof_id q) (q_id q) = Some task \<Longrightarrow> \<not> final_status (t_status task) \<Longrightarrow>
      assign st task = (st1, Some i) \<Longrightarrow> assign_step V now st st1 \<and> queue_size st1 < queue_size st"
    and refuse_law: "sched_ok V st \<Longrightarrow> front st = Some q \<Longrightarrow>
      get_task_internal st (q_proof_id q) (q_id q) = Some task \<Longrightarrow> \<not> final_status (t_status task) \<Longrightarrow>
      assign st task = (st1, None) \<Longrightarrow>
      st1 = st \<and> best_worker worker_class (task_weight_of task) (workers st) = None"
begin

lemma loop_steps:
  "sched_ok V st \<Longrightarrow> (assign_step V now)\<^sup>*\<^sup>* st (queue_loop front drop_top assign fuel st)"
proof (induction fuel arbitrary: st)
  case (Suc fuel)
  note ok = Suc.prems
  have go: "(assign_step V now)\<^sup>*\<^sup>* st (queue_loop front drop_top assign fuel st')"
    if "assign_step V now st st'" for st'
    using that Suc.IH [OF sched_ok_assign_step [OF that ok]] by (rule converse_rtranclp_into_rtranclp)
  show ?case
    using drop_law [OF ok] assign_law [OF ok] refuse_law [OF ok]
    by (fastforce split: option.splits prod.splits intro!: go)
qed simp

lemma sched_ok_loop: "sched_ok V st \<Longrightarrow> sched_ok V (queue_loop front drop_top assign fuel st)"
  using loop_steps [of st fuel]
  by (rule rtranclp_induct) (auto intro: sched_ok_assign_step)

text \<open>With the size of the queue as fuel the loop runs to its own exit condition.\<close>

lemma loop_exhausted:
  "sched_ok V st \<Longrightarrow> queue_size st \<le> fuel \<Longrightarrow>
   front (queue_loop front drop_top assign fuel st) = Some q \<Longrightarrow>
   blocked worker_class (queue_loop front drop_top assign fuel st) q"
proof (induction fuel arbitrary: st)
  case 0
  with front_size [of st q] show ?case by simp
next
  case (Suc fuel)
  note ok = Suc.prems(1)
  have go: ?case
    if "assign_step V now st st' \<and> queue_size st' < queue_size st"
      and "queue_loop front drop_top assign (Suc fuel) st = queue_loop front drop_top assign fuel st'" for st'
    using Suc.IH [of st'] sched_ok_assign_step [of V now st st'] that(1) ok Suc.prems(2,3)
    unfolding that(2) by simp
  show ?case
  proof (cases "front st")
    case None
    with Suc.prems(3) show ?thesis by simp
  next
    case (Some r)
    show ?thesis
    proof (cases "\<forall>task. get_task_internal st (q_proof_id r) (q_id r) = Some task \<longrightarrow> final_status (t_status task)")
      case True
      with Some show ?thesis by (intro go [OF drop_law [OF ok Some True]]) (auto split: option.splits)
    next
      case False
      then obtain task where task: "get_task_internal st (q_proof_id r) (q_id r) = Some task"
        and live: "\<not> final_status (t_status task)" by blast
      obtain st1 res where at: "assign st task = (st1, res)" by fastforce
      show ?thesis
      proof (cases res)
        case None
        with refuse_law [OF ok Some task live, of st1] at Some task live Suc.prems(3)
        show ?thesis by (auto simp: blocked_def)
      next
        case (Some i)
        with at have at': "assign st task = (st1, Some i)" by simp
        show ?thesis
          by (rule go [OF assign_law [OF ok \<open>front st = Some r\<close> task live at']])
            (simp add: \<open>front st = Some r\<close> task live at')
      qed
    qed
  qed
qed

lemma enough_fuel:
  "sched_ok V st \<Longrightarrow> queue_size st \<le> fuel \<Longrightarrow>
   queue_loop front drop_top assign (fuel + extra) st = queue_loop front drop_top assign fuel st"
proof (induction fuel arbitrary: st)
  case 0
  with front_size [of st] have "front st = None" by (cases "front st") auto
  then show ?case by (cases extra) simp_all
next
  case (Suc fuel)
  have IH: "queue_loop front drop_top assign (fuel + extra) st' = queue_loop front drop_top assign fuel st'"
    if "assign_step V now st st' \<and> queue_size st' < queue_size st" for st'
    using Suc.IH [of st'] that sched_ok_assign_step [of V now st st'] Suc.prems by simp
  show ?case
    using drop_law [OF Suc.prems(1)] assign_law [OF Suc.prems(1)]
    by (auto split: option.splits prod.splits intro!: IH)
qed

end

end
