(* ===== verification/Coordinator.thy ===== *)
theory Coordinator
  imports Policy_Interface
begin

text \<open>
  The operations of \<open>Coordinator<P>\<close> (\<open>bin/coordinator/src/lib.rs\<close>) on the state behind the write
  lock, for any assignment policy \<open>P\<close>.  What an operation does outside that state, closing message
  channels and notifying subscribers, is returned as a list of effects in program order; the theory
  \<open>Coord_Service\<close> carries them out.
\<close>

datatype effect =
    CloseChannel TaskId
  | Notify "string hash_set" ProofId TaskId TaskStatus

abbreviation proof_not_found :: "ProofId \<Rightarrow> Status" where
  "proof_not_found proof_id \<equiv> NotFound (''proof '' @ proof_id @ '' not found'')"

abbreviation task_not_found :: "TaskId \<Rightarrow> Status" where
  "task_not_found task_id \<equiv> NotFound (''task '' @ task_id @ '' not found'')"

abbreviation worker_not_found :: "WorkerId \<Rightarrow> Status" where
  "worker_not_found worker_id \<equiv> NotFound (''worker '' @ worker_id @ '' not found'')"

section \<open>Creating proofs and tasks\<close>

definition new_task :: "SystemTime \<Rightarrow> TaskId \<Rightarrow> TaskData \<Rightarrow> Task" where
  "new_task now i data =
     \<lparr>t_id = i, t_data = data, t_created_at = now, t_status = Pending, t_retries = 0,
      t_subscribers = [], t_worker = None, t_gpu_attempts = [], t_dead_worker_requeue_count = 0\<rparr>"

text \<open>
  \<open>create_task_internal\<close>; \<open>i\<close> is the generated task id.  The counter of created tasks advances even
  when the proof is unknown.
\<close>

definition create_task_internal ::
  "'p AssignmentPolicy \<Rightarrow> SystemTime \<Rightarrow> TaskId \<Rightarrow> TaskData \<Rightarrow> 'p CoordinatorState \<Rightarrow>
     TaskId result \<times> 'p CoordinatorState" where
  "create_task_internal P now i data st =
     (let task = new_task now i data;
          st1 = st\<lparr>total_tasks := u64_add (total_tasks st) 1\<rparr>
      in case map_of (proofs st1) (td_proof_id data) of
           None \<Rightarrow> (Inl (proof_not_found (td_proof_id data)), st1)
         | Some proof \<Rightarrow>
             (let proof1 = proof\<lparr>p_active_tasks := u32_add (p_active_tasks proof) 1,
                                 p_tasks := hm_insert i task (p_tasks proof)\<rparr>;
                  st2 = st1\<lparr>proofs := hm_insert (td_proof_id data) proof1 (proofs st1)\<rparr>
              in (Inr i, ap_assign_tasks P now (ap_enqueue_task P st2 task))))"

text \<open>The optional expiry time of a request: absent unless the number of seconds is positive.\<close>

definition expiry :: "int \<Rightarrow> SystemTime option" where
  "expiry secs = (if secs > 0 then Some (from_secs (nat secs)) else None)"

text \<open>\<open>create_proof\<close>; \<open>weight\<close> is \<open>CONTROLLER_WEIGHT\<close>, read from the environment.\<close>

definition create_proof ::
  "'p AssignmentPolicy \<Rightarrow> SystemTime \<Rightarrow> TaskId \<Rightarrow> nat \<Rightarrow> CreateProofRequest \<Rightarrow> 'p CoordinatorState \<Rightarrow>
     TaskId result \<times> 'p CoordinatorState" where
  "create_proof P now i weight request st =
     (if shutting_down st then (Inl (FailedPrecondition ''Server shutting down''), st)
      else if map_of (proofs st) (cpr_proof_id request) \<noteq> None
      then (Inl (AlreadyExists (''proof '' @ cpr_proof_id request @ '' already exists'')), st)
      else let proof = Proof_new now (cpr_proof_id request) (expiry (cpr_expires_at request));
               st1 = st\<lparr>proofs := hm_insert (cpr_proof_id request) proof (proofs st)\<rparr>
           in create_task_internal P now i
                \<lparr>td_task_type = (if execute_only_mode st then ExecuteOnly else Controller),
                 td_inputs = cpr_inputs request, td_outputs = cpr_outputs request,
                 td_metadata = ''{}'', td_proof_id = cpr_proof_id request, td_parent_id = None,
                 td_weight = weight mod 2 ^ 32, td_requester = cpr_requester request\<rparr> st1)"

definition create_dummy_proof ::
  "SystemTime \<Rightarrow> ProofId \<Rightarrow> int \<Rightarrow> 'p CoordinatorState \<Rightarrow> string result \<times> 'p CoordinatorState" where
  "create_dummy_proof now proof_id expires_at st =
     (if shutting_down st then (Inl (FailedPrecondition ''Server shutting down''), st)
      else if map_of (proofs st) proof_id \<noteq> None
      then (Inl (AlreadyExists (''proof '' @ proof_id @ '' already exists'')), st)
      else (Inr [], st\<lparr>proofs := hm_insert proof_id (Proof_new now proof_id (expiry expires_at)) (proofs st)\<rparr>))"

section \<open>Settings\<close>

definition set_proofs_tx :: "channel \<Rightarrow> 'p CoordinatorState \<Rightarrow> 'p CoordinatorState" where
  "set_proofs_tx tx st = st\<lparr>proofs_tx := Some tx\<rparr>"

definition set_execute_only_mode :: "bool \<Rightarrow> 'p CoordinatorState \<Rightarrow> 'p CoordinatorState" where
  "set_execute_only_mode b st = st\<lparr>execute_only_mode := b\<rparr>"

definition set_worker_heartbeat_timeout :: "nat \<Rightarrow> 'p CoordinatorState \<Rightarrow> 'p CoordinatorState" where
  "set_worker_heartbeat_timeout secs st =
     st\<lparr>worker_heartbeat_timeout_secs :=
          (if secs < MIN_WORKER_HEARTBEAT_TIMEOUT then MIN_WORKER_HEARTBEAT_TIMEOUT else secs)\<rparr>"

section \<open>Releasing assignments\<close>

text \<open>
  The end of most releases: the changed worker is stored under its key \<open>i\<close> and, when it has no task
  left, handed to the policy's \<open>post_worker_empty\<close>, whose result is inserted under \<open>reinsert_id\<close>
  (the key itself or the worker's own id, depending on the caller).
\<close>

definition settle_worker ::
  "'p AssignmentPolicy \<Rightarrow> WorkerId \<Rightarrow> WorkerId \<Rightarrow> Worker \<Rightarrow> 'p CoordinatorState \<Rightarrow> 'p CoordinatorState" where
  "settle_worker P i reinsert_id worker st =
     (let st1 = st\<lparr>workers := hm_insert i worker (workers st)\<rparr>
      in if w_active_tasks worker = []
         then let (st2, updated) = ap_post_worker_empty P st1 worker
              in st2\<lparr>workers := hm_insert reinsert_id updated (workers st2)\<rparr>
         else st1)"

definition without_task :: "ProofId \<times> TaskId \<Rightarrow> nat \<Rightarrow> Worker \<Rightarrow> Worker" where
  "without_task k task_weight worker =
     worker\<lparr>w_active_tasks := hs_remove k (w_active_tasks worker),
            w_weight := saturating_sub (w_weight worker) task_weight\<rparr>"

text \<open>The worker update at the end of \<open>complete_task\<close>, and whether it freed capacity.\<close>

definition release_slot ::
  "'p AssignmentPolicy \<Rightarrow> WorkerId \<Rightarrow> ProofId \<times> TaskId \<Rightarrow> nat \<Rightarrow> 'p CoordinatorState \<Rightarrow>
     'p CoordinatorState \<times> bool" where
  "release_slot P i k task_weight st =
     (case map_of (workers st) i of
        None \<Rightarrow> (st, False)
      | Some worker \<Rightarrow>
          (if k \<in> set (w_active_tasks worker)
           then (settle_worker P i i (without_task k task_weight worker) st, True)
           else (st, False)))"

text \<open>One iteration of \<open>release_remaining_assignments\<close>.\<close>

definition release_assignment ::
  "'p AssignmentPolicy \<Rightarrow> ProofId \<Rightarrow> (WorkerId \<times> TaskId) option \<Rightarrow> Task \<Rightarrow> 'p CoordinatorState \<times> bool \<Rightarrow>
     'p CoordinatorState \<times> bool" where
  "release_assignment P proof_id skip task acc =
     (let (st, released) = acc
      in case t_worker task of
           None \<Rightarrow> acc
         | Some owner \<Rightarrow>
             (if Some (owner, t_id task) = skip then acc
              else case map_of (workers st) owner of
                     None \<Rightarrow> acc
                   | Some worker \<Rightarrow>
                       (if (proof_id, t_id task) \<notin> set (w_active_tasks worker) then acc
                        else let st1 = send (ToWorker (w_channel worker) (CancelTask proof_id (t_id task))) st;
                                 st2 = settle_worker P owner (w_id worker)
                                         (without_task (proof_id, t_id task) (task_weight_of task) worker) st1
                             in (ap_post_task_update_state P st2 (t_id task) (task_weight_of task) proof_id
                                   (task_type task), True))))"

definition release_remaining_assignments ::
  "'p AssignmentPolicy \<Rightarrow> ProofId \<Rightarrow> Proof \<Rightarrow> (WorkerId \<times> TaskId) option \<Rightarrow> 'p CoordinatorState \<Rightarrow>
     'p CoordinatorState \<times> bool" where
  "release_remaining_assignments P proof_id proof skip st =
     fold (release_assignment P proof_id skip) (hm_values (p_tasks proof)) (st, False)"

text \<open>
  The removal of a proof, common to \<open>complete_task\<close>, \<open>fail_task\<close> and \<open>fail_proof_internal\<close>: the
  policy forgets it, the map drops it, and the holds on its tasks are released.
\<close>

definition delete_proof ::
  "'p AssignmentPolicy \<Rightarrow> ProofId \<Rightarrow> (WorkerId \<times> TaskId) option \<Rightarrow> 'p CoordinatorState \<Rightarrow>
     'p CoordinatorState \<times> bool" where
  "delete_proof P proof_id skip st =
     (let st1 = ap_on_proof_deleted P st proof_id
      in case map_of (proofs st1) proof_id of
           None \<Rightarrow> (st1, False)
         | Some proof \<Rightarrow>
             release_remaining_assignments P proof_id proof skip
               (st1\<lparr>proofs := hm_remove proof_id (proofs st1)\<rparr>))"

section \<open>Completing a task\<close>

text \<open>Whether this report adds GPU time, and the attempts with the report recorded.\<close>

definition credit_attempt ::
  "WorkerId \<Rightarrow> (WorkerId, GpuAttempt) hash_map \<Rightarrow> bool \<times> (WorkerId, GpuAttempt) hash_map" where
  "credit_attempt worker_id attempts =
     (case map_of attempts worker_id of
        None \<Rightarrow> (False, attempts)
      | Some a \<Rightarrow>
          (if ga_credited a then (False, attempts)
           else (ga_on_gpu a, hm_insert worker_id (a\<lparr>ga_credited := True\<rparr>) attempts)))"

text \<open>The first half of \<open>complete_task\<close>: the stored task and the counter of its proof.\<close>

definition succeed_task :: "WorkerId \<Rightarrow> Task \<Rightarrow> Task" where
  "succeed_task worker_id task =
     task\<lparr>t_gpu_attempts := snd (credit_attempt worker_id (t_gpu_attempts task)),
          t_subscribers := (if t_status task = Succeeded then t_subscribers task else []),
          t_status := Succeeded\<rparr>"

definition succeed_in_proof :: "WorkerId \<Rightarrow> TaskId \<Rightarrow> Task \<Rightarrow> Proof \<Rightarrow> Proof" where
  "succeed_in_proof worker_id task_id task proof =
     proof\<lparr>p_tasks := hm_insert task_id (succeed_task worker_id task) (p_tasks proof),
           p_active_tasks :=
             (if final_status (t_status task) then p_active_tasks proof
              else u32_sub (p_active_tasks proof) 1)\<rparr>"

text \<open>The second half: removal of a finished proof, GPU accounting, and release of the worker.\<close>

definition finish_completion ::
  "'p AssignmentPolicy \<Rightarrow> SystemTime \<Rightarrow> WorkerId \<Rightarrow> ProofId \<Rightarrow> TaskId \<Rightarrow> Task \<Rightarrow> nat \<Rightarrow> bool \<Rightarrow> nat \<Rightarrow>
     'p CoordinatorState \<Rightarrow> 'p CoordinatorState" where
  "finish_completion P now worker_id proof_id task_id task remaining credit gpu_ms st =
     (let (st1, released) =
            (if remaining = 0 then delete_proof P proof_id (Some (worker_id, task_id)) st else (st, False));
          st2 = (if credit then st1\<lparr>gpu_busy_ms_total := saturating_add 64 (gpu_busy_ms_total st1) gpu_ms\<rparr>
                 else st1);
          still_owned = (case map_of (workers st2) worker_id of
                           None \<Rightarrow> False
                         | Some w \<Rightarrow> (proof_id, task_id) \<in> set (w_active_tasks w));
          st3 = (if still_owned
                 then ap_post_task_update_state P st2 task_id (task_weight_of task) proof_id (task_type task)
                 else st2);
          (st4, freed) = release_slot P worker_id (proof_id, task_id) (task_weight_of task) st3
      in if released \<or> freed then ap_assign_tasks P now st4 else st4)"

definition complete_task ::
  "'p AssignmentPolicy \<Rightarrow> SystemTime \<Rightarrow> WorkerId \<Rightarrow> ProofId \<Rightarrow> TaskId \<Rightarrow> TaskMetadata \<Rightarrow>
     'p CoordinatorState \<Rightarrow> (effect list \<times> 'p CoordinatorState) result" where
  "complete_task P now worker_id proof_id task_id metadata st =
     (case map_of (proofs st) proof_id of
        None \<Rightarrow> Inl (proof_not_found proof_id)
      | Some proof \<Rightarrow>
          (case map_of (p_tasks proof) task_id of
             None \<Rightarrow> Inl (task_not_found task_id)
           | Some task \<Rightarrow>
               (let already_succeeded = (t_status task = Succeeded);
                    proof1 = succeed_in_proof worker_id task_id task proof;
                    proof2 = (if already_succeeded then proof1
                              else ap_post_task_success_update_proof P proof1 metadata);
                    st1 = st\<lparr>proofs := hm_insert proof_id proof2 (proofs st)\<rparr>;
                    st2 = (if already_succeeded then st1
                           else ap_post_task_success_update_state P st1 (task_type task));
                    st3 = finish_completion P now worker_id proof_id task_id task (p_active_tasks proof1)
                            (fst (credit_attempt worker_id (t_gpu_attempts task))) (tm_gpu_ms metadata) st2
                in Inr (CloseChannel task_id #
                          (if already_succeeded then []
                           else [Notify (t_subscribers task) proof_id task_id Succeeded]), st3))))"

section \<open>Failing a proof\<close>

definition fail_effects :: "ProofId \<Rightarrow> Proof \<Rightarrow> effect list" where
  "fail_effects proof_id proof =
     map (\<lambda>task. Notify (t_subscribers task) proof_id (t_id task) FailedFatal)
       (filter (\<lambda>task. t_subscribers task \<noteq> []) (hm_values (p_tasks proof))) @
     map (\<lambda>task. CloseChannel (t_id task)) (hm_values (p_tasks proof))"

definition tear_down_proof ::
  "'p AssignmentPolicy \<Rightarrow> ProofId \<Rightarrow> bool \<Rightarrow> string option \<Rightarrow> (WorkerId \<times> TaskId) option \<Rightarrow>
     'p CoordinatorState \<Rightarrow> effect list \<times> 'p CoordinatorState" where
  "tear_down_proof P proof_id notify_sender extra_data skip st =
     (case map_of (proofs (ap_on_proof_deleted P st proof_id)) proof_id of
        None \<Rightarrow> ([], fst (delete_proof P proof_id skip st))
      | Some proof \<Rightarrow>
          (let st1 = fst (delete_proof P proof_id skip st)
           in (fail_effects proof_id proof,
               if notify_sender
               then case proofs_tx st of
                      None \<Rightarrow> st1
                    | Some tx \<Rightarrow>
                        send (ToProofs tx \<lparr>pr_id = proof_id, pr_success = False, pr_metadata = None,
                                           pr_extra_data = extra_data\<rparr>) st1
               else st1)))"

definition fail_proof_internal ::
  "'p AssignmentPolicy \<Rightarrow> ProofId \<Rightarrow> TaskId option \<Rightarrow> bool \<Rightarrow> string option \<Rightarrow> (WorkerId \<times> TaskId) option \<Rightarrow>
     'p CoordinatorState \<Rightarrow> (effect list \<times> 'p CoordinatorState) result" where
  "fail_proof_internal P proof_id task_id notify_sender extra_data skip st =
     (if shutting_down st then Inr ([], st)
      else case (task_id, map_of (proofs st) proof_id) of
             (Some t, Some proof) \<Rightarrow>
               (case map_of (p_tasks proof) t of
                  None \<Rightarrow> Inl (NotFound (''task '' @ t @ '' not found in proof '' @ proof_id))
                | Some task \<Rightarrow>
                    (if t_status task = Succeeded then Inr ([], st)
                     else Inr (tear_down_proof P proof_id notify_sender extra_data skip st)))
           | _ \<Rightarrow> Inr (tear_down_proof P proof_id notify_sender extra_data skip st))"

text \<open>\<open>fail_proof\<close>: the same, with nothing left for the caller to release.\<close>

definition fail_proof ::
  "'p AssignmentPolicy \<Rightarrow> ProofId \<Rightarrow> TaskId option \<Rightarrow> bool \<Rightarrow> string option \<Rightarrow> 'p CoordinatorState \<Rightarrow>
     (effect list \<times> 'p CoordinatorState) result" where
  "fail_proof P proof_id task_id notify_sender extra_data st =
     fail_proof_internal P proof_id task_id notify_sender extra_data None st"

text \<open>\<open>complete_proof\<close>: the result goes to the status channel; the proof itself stays.\<close>

definition complete_proof ::
  "ProofId \<Rightarrow> string option \<Rightarrow> 'p CoordinatorState \<Rightarrow> 'p CoordinatorState result" where
  "complete_proof proof_id extra_data st =
     (case map_of (proofs st) proof_id of
        None \<Rightarrow> Inl (NotFound (''Proof '' @ proof_id @ '' not found''))
      | Some proof \<Rightarrow>
          Inr (case proofs_tx st of
                 None \<Rightarrow> st
               | Some tx \<Rightarrow>
                   send (ToProofs tx \<lparr>pr_id = proof_id, pr_success = True, pr_metadata = Some (),
                                      pr_extra_data = extra_data\<rparr>) st))"

section \<open>Failing a task\<close>

text \<open>The new status, retry count and counter change of a reported failure.\<close>

definition failure_status :: "bool \<Rightarrow> Task \<Rightarrow> TaskStatus" where
  "failure_status retryable task =
     (if retryable \<and> t_retries task \<noteq> MAX_TASK_RETRIES then FailedRetryable else FailedFatal)"

definition fail_in_task :: "bool \<Rightarrow> Task \<Rightarrow> Task" where
  "fail_in_task retryable task =
     task\<lparr>t_retries := (if failure_status retryable task = FailedRetryable
                        then wrapping_add 8 (t_retries task) 1 else t_retries task),
          t_status := failure_status retryable task\<rparr>"

definition fail_in_proof :: "bool \<Rightarrow> TaskId \<Rightarrow> Task \<Rightarrow> Proof \<Rightarrow> Proof" where
  "fail_in_proof retryable task_id task proof =
     proof\<lparr>p_tasks := hm_insert task_id (fail_in_task retryable task) (p_tasks proof),
           p_active_tasks :=
             (if failure_status retryable task = FailedFatal \<and> t_status task \<noteq> FailedFatal
              then u32_sub (p_active_tasks proof) 1 else p_active_tasks proof)\<rparr>"

definition manual_proof_fail :: "bool \<Rightarrow> Task \<Rightarrow> bool" where
  "manual_proof_fail retryable task =
     (enable_proof_fail (task_type task) \<and> (\<not> retryable \<or> t_retries task = MAX_TASK_RETRIES))"

text \<open>A failure reported for a task that already succeeded only releases the worker.\<close>

definition ignore_failure ::
  "'p AssignmentPolicy \<Rightarrow> SystemTime \<Rightarrow> WorkerId \<Rightarrow> ProofId \<Rightarrow> TaskId \<Rightarrow> Task \<Rightarrow> 'p CoordinatorState \<Rightarrow>
     'p CoordinatorState" where
  "ignore_failure P now worker_id proof_id task_id task st =
     (let st1 = ap_post_task_update_state P st task_id (task_weight_of task) proof_id (task_type task);
          st2 = (case map_of (workers st1) worker_id of
                   None \<Rightarrow> st1
                 | Some worker \<Rightarrow>
                     settle_worker P worker_id worker_id
                       (without_task (proof_id, task_id) (task_weight_of task) worker) st1)
      in ap_assign_tasks P now st2)"

text \<open>The tail of \<open>fail_task\<close>: policy weight, worker, queue.\<close>

definition release_failed ::
  "'p AssignmentPolicy \<Rightarrow> SystemTime \<Rightarrow> WorkerId \<Rightarrow> ProofId \<Rightarrow> TaskId \<Rightarrow> Task \<Rightarrow> 'p CoordinatorState \<Rightarrow>
     'p CoordinatorState" where
  "release_failed P now worker_id proof_id task_id task st =
     (let st1 = ap_post_task_update_state P st task_id (task_weight_of task) proof_id (task_type task);
          st2 = (case map_of (workers st1) worker_id of
                   None \<Rightarrow> st1
                 | Some worker \<Rightarrow>
                     st1\<lparr>workers := hm_insert worker_id
                           (without_task (proof_id, task_id) (task_weight_of task) worker) (workers st1)\<rparr>);
          st3 = (if t_status task = FailedRetryable then ap_enqueue_task P st2 task else st2)
      in ap_assign_tasks P now st3)"

definition fail_task ::
  "'p AssignmentPolicy \<Rightarrow> SystemTime \<Rightarrow> WorkerId \<Rightarrow> ProofId \<Rightarrow> TaskId \<Rightarrow> bool \<Rightarrow> 'p CoordinatorState \<Rightarrow>
     (effect list \<times> 'p CoordinatorState) result" where
  "fail_task P now worker_id proof_id task_id retryable st =
     (case map_of (workers st) worker_id of
        None \<Rightarrow> Inl (worker_not_found worker_id)
      | Some worker \<Rightarrow>
          (if (proof_id, task_id) \<notin> set (w_active_tasks worker)
           then Inl (FailedPrecondition (''worker '' @ worker_id @ '' is not working on task '' @ task_id))
           else case map_of (proofs st) proof_id of
                  None \<Rightarrow> Inl (proof_not_found proof_id)
                | Some proof \<Rightarrow>
                    (case map_of (p_tasks proof) task_id of
                       None \<Rightarrow> Inl (task_not_found task_id)
                     | Some task \<Rightarrow>
                         (if t_status task = Succeeded
                          then Inr ([], ignore_failure P now worker_id proof_id task_id task st)
                          else
                            let task1 = fail_in_task retryable task;
                                proof1 = fail_in_proof retryable task_id task proof;
                                st1 = st\<lparr>proofs := hm_insert proof_id proof1 (proofs st)\<rparr>;
                                skip = Some (worker_id, task_id);
                                st2 = (if \<not> manual_proof_fail retryable task \<and> p_active_tasks proof1 = 0
                                       then fst (delete_proof P proof_id skip st1) else st1)
                            in case (if manual_proof_fail retryable task
                                     then fail_proof_internal P proof_id None True None skip st2
                                     else Inr ([], st2)) of
                                 Inl e \<Rightarrow> Inl e
                               | Inr (effs, st3) \<Rightarrow>
                                   Inr (CloseChannel task_id # effs @
                                          (if t_status task1 = FailedFatal
                                           then [Notify (t_subscribers task) proof_id task_id FailedFatal] else []),
                                        release_failed P now worker_id proof_id task_id task1 st3)))))"

section \<open>Workers joining, reporting and leaving\<close>

definition add_worker ::
  "'p AssignmentPolicy \<Rightarrow> SystemTime \<Rightarrow> WorkerId \<Rightarrow> WorkerType \<Rightarrow> nat \<Rightarrow> channel \<Rightarrow> WorkerIdentity \<Rightarrow>
     'p CoordinatorState \<Rightarrow> bool \<times> 'p CoordinatorState" where
  "add_worker P now worker_id worker_type max_weight ch identity st =
     (case map_of (workers st) worker_id of
        Some worker \<Rightarrow>
          (True, st\<lparr>workers := hm_insert worker_id (worker\<lparr>w_channel := ch, w_identity := identity\<rparr>) (workers st)\<rparr>)
      | None \<Rightarrow>
          (False, ap_assign_tasks P now
             (st\<lparr>workers := hm_insert worker_id (Worker_new now worker_id worker_type max_weight ch identity)
                             (workers st)\<rparr>)))"

text \<open>Requeueing one task of a worker that is gone, and \<open>remove_worker_internal\<close>.\<close>

definition requeue_task ::
  "'p AssignmentPolicy \<Rightarrow> ProofId \<times> TaskId \<Rightarrow> 'p CoordinatorState \<Rightarrow> 'p CoordinatorState" where
  "requeue_task P k st =
     (case map_of (proofs st) (fst k) of
        None \<Rightarrow> st
      | Some proof \<Rightarrow>
          (case map_of (p_tasks proof) (snd k) of
             None \<Rightarrow> st
           | Some stored \<Rightarrow>
               (let task = stored\<lparr>t_dead_worker_requeue_count :=
                                    saturating_add 32 (t_dead_worker_requeue_count stored) 1\<rparr>;
                    proof1 = proof\<lparr>p_tasks := hm_insert (snd k) task (p_tasks proof)\<rparr>;
                    st1 = st\<lparr>proofs := hm_insert (fst k) proof1 (proofs st)\<rparr>;
                    st2 = ap_post_task_update_state P st1 (t_id task) (task_weight_of task) (fst k)
                            (task_type task)
                in ap_enqueue_task P st2 task)))"

definition remove_worker_internal ::
  "'p AssignmentPolicy \<Rightarrow> WorkerId \<Rightarrow> 'p CoordinatorState \<Rightarrow> 'p CoordinatorState" where
  "remove_worker_internal P worker_id st =
     (case map_of (workers st) worker_id of
        None \<Rightarrow> st
      | Some worker \<Rightarrow>
          (let st1 = fold (requeue_task P) (w_active_tasks worker)
                       (st\<lparr>workers := hm_remove worker_id (workers st)\<rparr>)
           in fst (ap_post_worker_empty P st1 worker)))"

definition remove_worker ::
  "'p AssignmentPolicy \<Rightarrow> SystemTime \<Rightarrow> WorkerId \<Rightarrow> 'p CoordinatorState \<Rightarrow> 'p CoordinatorState" where
  "remove_worker P now worker_id st = ap_assign_tasks P now (remove_worker_internal P worker_id st)"

definition close_worker :: "WorkerId \<Rightarrow> 'p CoordinatorState \<Rightarrow> 'p CoordinatorState result" where
  "close_worker worker_id st =
     (case map_of (workers st) worker_id of
        None \<Rightarrow> Inl (worker_not_found worker_id)
      | Some worker \<Rightarrow>
          Inr (st\<lparr>workers := hm_insert worker_id (worker\<lparr>w_closed := True\<rparr>) (workers st)\<rparr>))"

text \<open>
  \<open>cleanup_dead_workers\<close> reads the worker table, gives the lock up, and removes what it saw; other
  operations may run in between, so the two halves are separate definitions.
\<close>

definition dead_workers :: "SystemTime \<Rightarrow> 'p CoordinatorState \<Rightarrow> WorkerId list" where
  "dead_workers now st =
     map fst (filter (\<lambda>(i, worker).
       u64_add (w_last_heartbeat worker) (worker_heartbeat_timeout_secs st) < as_secs now) (workers st))"

definition cleanup_dead_workers ::
  "'p AssignmentPolicy \<Rightarrow> SystemTime \<Rightarrow> WorkerId list \<Rightarrow> 'p CoordinatorState \<Rightarrow> 'p CoordinatorState" where
  "cleanup_dead_workers P now dead st =
     (if dead = [] then st else ap_assign_tasks P now (fold (remove_worker_internal P) dead st))"

text \<open>\<open>assigned_weight\<close>: the sum of the weights of the tasks found.\<close>

definition assigned_weight :: "'p CoordinatorState \<Rightarrow> (ProofId \<times> TaskId) hash_set \<Rightarrow> nat" where
  "assigned_weight st active_tasks =
     wrapping_sum 32 (map task_weight_of (List.map_filter (task_at st) active_tasks))"

text \<open>The messages of a heartbeat: cancellations of unexpected tasks and resends of missing ones.\<close>

definition heartbeat_cancels :: "Worker \<Rightarrow> (ProofId \<times> TaskId) list \<Rightarrow> wire_msg list" where
  "heartbeat_cancels worker reported =
     map (\<lambda>(p, t). ToWorker (w_channel worker) (CancelTask p t))
       (filter (\<lambda>k. k \<notin> set (w_active_tasks worker)) reported)"

text \<open>The JSON text of a plain string: the policies supply the empty string.\<close>

definition json_string :: "string \<Rightarrow> string" where
  "json_string s = [CHR 0x22] @ s @ [CHR 0x22]"

definition heartbeat_resends ::
  "'p AssignmentPolicy \<Rightarrow> 'p CoordinatorState \<Rightarrow> Worker \<Rightarrow> (ProofId \<times> TaskId) list \<Rightarrow> wire_msg list" where
  "heartbeat_resends P st worker reported =
     List.map_filter
       (\<lambda>k. map_option
              (\<lambda>task. ToWorker (w_channel worker)
                 (NewTask (t_id task) (t_data task) (json_string (ap_get_task_input_metadata P st task))))
              (task_at st k))
       (filter (\<lambda>k. k \<notin> set reported) (w_active_tasks worker))"

text \<open>The first half of \<open>handle_heartbeat\<close>: the time of the beat and the messages.\<close>

definition receive_heartbeat ::
  "'p AssignmentPolicy \<Rightarrow> WorkerId \<Rightarrow> Worker \<Rightarrow> (ProofId \<times> TaskId) list \<Rightarrow> 'p CoordinatorState \<Rightarrow>
     'p CoordinatorState" where
  "receive_heartbeat P worker_id worker reported st =
     (let st1 = st\<lparr>workers := hm_insert worker_id worker (workers st)\<rparr>
      in st1\<lparr>wire := wire st1 @ heartbeat_cancels worker reported @ heartbeat_resends P st1 worker reported\<rparr>)"

text \<open>Assigned tasks the worker does not report and the coordinator does not know.\<close>

definition missing_tasks ::
  "'p CoordinatorState \<Rightarrow> Worker \<Rightarrow> (ProofId \<times> TaskId) list \<Rightarrow> (ProofId \<times> TaskId) list" where
  "missing_tasks st worker reported =
     filter (\<lambda>k. k \<notin> set reported \<and> task_at st k = None) (w_active_tasks worker)"

definition reconcile_worker ::
  "'p CoordinatorState \<Rightarrow> (ProofId \<times> TaskId) list \<Rightarrow> Worker \<Rightarrow> Worker" where
  "reconcile_worker st tasks_to_remove worker =
     worker\<lparr>w_weight := assigned_weight st (w_active_tasks worker),
            w_active_tasks := fold hs_remove tasks_to_remove (w_active_tasks worker)\<rparr>"

definition handle_heartbeat ::
  "'p AssignmentPolicy \<Rightarrow> SystemTime \<Rightarrow> WorkerId \<Rightarrow> ProofId list \<Rightarrow> TaskId list \<Rightarrow> nat \<Rightarrow>
     'p CoordinatorState \<Rightarrow> 'p CoordinatorState result" where
  "handle_heartbeat P now worker_id active_task_proof_ids active_task_ids current_weight st =
     (case map_of (workers st) worker_id of
        None \<Rightarrow> Inl (worker_not_found worker_id)
      | Some worker0 \<Rightarrow>
          (let reported = zip active_task_proof_ids active_task_ids;
               worker = worker0\<lparr>w_last_heartbeat := as_secs now\<rparr>;
               st2 = receive_heartbeat P worker_id worker reported st;
               tasks_to_remove = missing_tasks st2 worker reported;
               worker1 = reconcile_worker st2 tasks_to_remove worker;
               st3 = settle_worker P worker_id (w_id worker1) worker1 st2
           in Inr (if tasks_to_remove \<noteq> [] \<or> w_active_tasks worker1 = []
                   then ap_assign_tasks P now st3 else st3)))"

definition send_heartbeats :: "'p CoordinatorState \<Rightarrow> 'p CoordinatorState" where
  "send_heartbeats st =
     st\<lparr>wire := wire st @ map (\<lambda>worker. ToWorker (w_channel worker) ServerHeartbeat) (hm_values (workers st))\<rparr>"

section \<open>Expired proofs and shutdown\<close>

text \<open>\<open>cleanup_cancel_expired_proofs\<close>, again in the two halves between which the lock is free.\<close>

definition expired_proofs :: "SystemTime \<Rightarrow> 'p CoordinatorState \<Rightarrow> ProofId list" where
  "expired_proofs now st =
     map fst (filter (\<lambda>(i, proof). case p_expires_at proof of None \<Rightarrow> False | Some e \<Rightarrow> e < now) (proofs st))"

fun fail_expired ::
  "'p AssignmentPolicy \<Rightarrow> ProofId list \<Rightarrow> 'p CoordinatorState \<Rightarrow> effect list \<times> 'p CoordinatorState" where
  "fail_expired P [] st = ([], st)"
| "fail_expired P (i # ids) st =
     (case fail_proof_internal P i None False None None st of
        Inl e \<Rightarrow> fail_expired P ids st
      | Inr (effs, st1) \<Rightarrow> (let (effs', st2) = fail_expired P ids st1 in (effs @ effs', st2)))"

definition cleanup_cancel_expired_proofs ::
  "'p AssignmentPolicy \<Rightarrow> SystemTime \<Rightarrow> ProofId list \<Rightarrow> 'p CoordinatorState \<Rightarrow>
     effect list \<times> 'p CoordinatorState" where
  "cleanup_cancel_expired_proofs P now expired st =
     (if expired = [] then ([], st)
      else let (effs, st1) = fail_expired P expired st in (effs, ap_assign_tasks P now st1))"

text \<open>The part of \<open>shutdown\<close> on the locked state.\<close>

definition shutdown_state :: "'p CoordinatorState \<Rightarrow> 'p CoordinatorState" where
  "shutdown_state st =
     st\<lparr>shutting_down := True,
        wire := wire st @ concat (map (\<lambda>worker. map (\<lambda>(p, t). ToWorker (w_channel worker) (CancelTask p t))
                                                   (w_active_tasks worker)) (hm_values (workers st))),
        workers := map (\<lambda>(i, worker). (i, worker\<lparr>w_active_tasks := []\<rparr>)) (workers st)\<rparr>"

section \<open>Subscriptions to task results\<close>

text \<open>
  The part of \<open>add_subscriptions\<close> under the write lock: unknown and finished tasks are answered at
  once, the others remember the subscriber.
\<close>

fun subscribe_tasks ::
  "string \<Rightarrow> ProofId \<Rightarrow> TaskId list \<Rightarrow> Proof \<Rightarrow> ServerSubMessage list \<times> Proof" where
  "subscribe_tasks sub_id proof_id [] proof = ([], proof)"
| "subscribe_tasks sub_id proof_id (t # ts) proof =
     (case map_of (p_tasks proof) t of
        None \<Rightarrow> (let (msgs, proof1) = subscribe_tasks sub_id proof_id ts proof
                 in (UnknownTask proof_id t # msgs, proof1))
      | Some task \<Rightarrow>
          (if final_status (t_status task)
           then let (msgs, proof1) = subscribe_tasks sub_id proof_id ts proof
                in (TaskResult t (t_status task) # msgs, proof1)
           else subscribe_tasks sub_id proof_id ts
                  (proof\<lparr>p_tasks := hm_insert t (task\<lparr>t_subscribers := hs_insert sub_id (t_subscribers task)\<rparr>)
                                      (p_tasks proof)\<rparr>)))"

definition subscribe_in_state ::
  "string \<Rightarrow> ProofId \<Rightarrow> TaskId list \<Rightarrow> 'p CoordinatorState \<Rightarrow> ServerSubMessage list \<times> 'p CoordinatorState" where
  "subscribe_in_state sub_id proof_id task_ids st =
     (case map_of (proofs st) proof_id of
        None \<Rightarrow> (map (UnknownTask proof_id) task_ids, st)
      | Some proof \<Rightarrow>
          (let (msgs, proof1) = subscribe_tasks sub_id proof_id task_ids proof
           in (msgs, st\<lparr>proofs := hm_insert proof_id proof1 (proofs st)\<rparr>)))"

section \<open>Queries\<close>

definition get_task :: "ProofId \<Rightarrow> TaskId \<Rightarrow> 'p CoordinatorState \<Rightarrow> Task result" where
  "get_task proof_id task_id st =
     (case map_of (proofs st) proof_id of
        None \<Rightarrow> Inl (proof_not_found proof_id)
      | Some proof \<Rightarrow>
          (case map_of (p_tasks proof) task_id of
             None \<Rightarrow> Inl (task_not_found task_id)
           | Some task \<Rightarrow> Inr task))"

definition get_task_status :: "ProofId \<Rightarrow> TaskId \<Rightarrow> 'p CoordinatorState \<Rightarrow> TaskStatus result" where
  "get_task_status proof_id task_id st =
     (case map_of (proofs st) proof_id of
        None \<Rightarrow> Inl (proof_not_found proof_id)
      | Some proof \<Rightarrow>
          (case map_of (p_tasks proof) task_id of
             None \<Rightarrow> Inl (task_not_found task_id)
           | Some task \<Rightarrow> Inr (t_status task)))"

fun collect_statuses ::
  "Proof \<Rightarrow> TaskId list \<Rightarrow> (TaskStatus, TaskId list) hash_map \<Rightarrow> (TaskStatus, TaskId list) hash_map result" where
  "collect_statuses proof [] statuses = Inr statuses"
| "collect_statuses proof (t # ts) statuses =
     (case map_of (p_tasks proof) t of
        None \<Rightarrow> Inl (task_not_found t)
      | Some task \<Rightarrow>
          collect_statuses proof ts
            (hm_insert (t_status task)
               (case map_of statuses (t_status task) of None \<Rightarrow> [t] | Some ids \<Rightarrow> ids @ [t]) statuses))"

definition get_task_statuses ::
  "ProofId \<Rightarrow> TaskId list \<Rightarrow> 'p CoordinatorState \<Rightarrow> (TaskStatus, TaskId list) hash_map result" where
  "get_task_statuses proof_id task_ids st =
     (case map_of (proofs st) proof_id of
        None \<Rightarrow> Inl (proof_not_found proof_id)
      | Some proof \<Rightarrow> collect_statuses proof task_ids [])"

definition get_proofs :: "'p CoordinatorState \<Rightarrow> ProofId list" where
  "get_proofs st = map fst (proofs st)"

definition get_worker :: "WorkerId \<Rightarrow> 'p CoordinatorState \<Rightarrow> Worker option" where
  "get_worker worker_id st = map_of (workers st) worker_id"

end
