(* ===== verification/Coord_Inv.thy ===== *)
theory Coord_Inv
  imports Coordinator
begin

text \<open>
  The invariant of the coordinator state and the elementary changes all operations are made of.

  The invariant is stated relative to a task table \<open>T\<close>, which need not be the one stored in the
  state: while a proof is being torn down the holds of the workers are still explained by the table
  before the removal.  \<open>C\<close> is the set of tasks whose weight the policy has charged, \<open>Y\<close> the set of
  tasks in transit, neither held by a worker nor queued.  Between operations \<open>C\<close> is the set of held
  tasks and \<open>Y\<close> is empty.
\<close>

type_synonym key = "ProofId \<times> TaskId"
type_synonym table = "ProofId \<times> TaskId \<Rightarrow> Task option"

section \<open>The invariant\<close>

definition held :: "(WorkerId, Worker) hash_map \<Rightarrow> key set" where
  "held ws = {k. \<exists>i w. map_of ws i = Some w \<and> k \<in> set (w_active_tasks w)}"

definition hold_status :: "TaskStatus \<Rightarrow> bool" where
  "hold_status s \<longleftrightarrow> s = Running \<or> s = Succeeded"

definition table_ok :: "table \<Rightarrow> bool" where
  "table_ok T \<longleftrightarrow>
     (\<forall>k task. T k = Some task \<longrightarrow>
        t_id task = snd k \<and> td_proof_id (t_data task) = fst k \<and> task_weight_of task < 2 ^ 31)"

definition weight_in :: "table \<Rightarrow> key \<Rightarrow> nat" where
  "weight_in T k = (case T k of None \<Rightarrow> 0 | Some task \<Rightarrow> task_weight_of task)"

definition charge_in :: "'p PolicyView \<Rightarrow> table \<Rightarrow> key \<Rightarrow> nat" where
  "charge_in V T k =
     (case T k of None \<Rightarrow> 0 | Some task \<Rightarrow> if pv_charged V (task_type task) then task_weight_of task else 0)"

text \<open>A worker holds only tasks that are recorded as assigned to it.\<close>

definition worker_ok :: "table \<Rightarrow> WorkerId \<Rightarrow> Worker \<Rightarrow> bool" where
  "worker_ok T i w \<longleftrightarrow>
     w_id w = i \<and> distinct (w_active_tasks w) \<and>
     (\<forall>k \<in> set (w_active_tasks w). \<exists>task. T k = Some task \<and> t_worker task = Some i \<and> hold_status (t_status task))"

definition holds_ok :: "table \<Rightarrow> (WorkerId, Worker) hash_map \<Rightarrow> bool" where
  "holds_ok T ws \<longleftrightarrow> hm_wf ws \<and> (\<forall>i w. map_of ws i = Some w \<longrightarrow> worker_ok T i w)"

text \<open>The weight counter of a worker is the weight of what it holds, within its capacity.\<close>

definition load :: "table \<Rightarrow> Worker \<Rightarrow> nat" where
  "load T w = sum (weight_in T) (set (w_active_tasks w))"

definition loaded :: "table \<Rightarrow> Worker \<Rightarrow> bool" where
  "loaded T w \<longleftrightarrow> w_weight w = load T w \<and> w_weight w \<le> w_max_weight w"

definition loads_ok :: "table \<Rightarrow> (WorkerId, Worker) hash_map \<Rightarrow> bool" where
  "loads_ok T ws \<longleftrightarrow> (\<forall>i w. map_of ws i = Some w \<longrightarrow> loaded T w)"

definition capacity :: "(WorkerId, Worker) hash_map \<Rightarrow> nat" where
  "capacity ws = sum_list (map (\<lambda>e. w_max_weight (snd e)) ws)"

text \<open>The policy's weight of a proof is the weight of its charged tasks.\<close>

definition charges_ok :: "'p PolicyView \<Rightarrow> key set \<Rightarrow> table \<Rightarrow> 'p \<Rightarrow> bool" where
  "charges_ok V C T pol \<longleftrightarrow> (\<forall>p. pv_charge V pol p = sum (charge_in V T) {k \<in> C. fst k = p})"

definition queued_keys :: "'p PolicyView \<Rightarrow> 'p \<Rightarrow> key set" where
  "queued_keys V pol = qkey ` set_mset (pv_queued V pol)"

text \<open>No task is queued twice or while a worker holds it.\<close>

definition queue_ok :: "'p PolicyView \<Rightarrow> table \<Rightarrow> key set \<Rightarrow> 'p \<Rightarrow> bool" where
  "queue_ok V T H pol \<longleftrightarrow>
     (\<forall>q. q \<in># pv_queued V pol \<longrightarrow> qkey q \<notin> H) \<and>
     (\<forall>q task. q \<in># pv_queued V pol \<longrightarrow> T (qkey q) = Some task \<longrightarrow> q_task_type q = task_type task) \<and>
     (\<forall>k. size (filter_mset (\<lambda>q. qkey q = k) (pv_queued V pol)) \<le> 1)"

text \<open>No unfinished task is lost: it is held, queued or in transit.\<close>

definition placed :: "'p PolicyView \<Rightarrow> key set \<Rightarrow> table \<Rightarrow> key set \<Rightarrow> 'p \<Rightarrow> bool" where
  "placed V Y T H pol \<longleftrightarrow>
     (\<forall>k task. T k = Some task \<longrightarrow> \<not> final_status (t_status task) \<longrightarrow> queueable V (task_type task) \<longrightarrow>
        k \<in> Y \<or> k \<in> H \<or> k \<in> queued_keys V pol)"

definition core :: "'p PolicyView \<Rightarrow> key set \<Rightarrow> key set \<Rightarrow> table \<Rightarrow> 'p CoordinatorState \<Rightarrow> bool" where
  "core V C Y T st \<longleftrightarrow>
     table_ok T \<and> holds_ok T (workers st) \<and> queue_ok V T (held (workers st)) (policy st) \<and>
     pv_wf V (policy st) \<and> \<not> panicked st \<and> capacity (workers st) < 2 ^ 31 \<and> finite C \<and>
     (\<not> shutting_down st \<longrightarrow>
        loads_ok T (workers st) \<and> charges_ok V C T (policy st) \<and>
        placed V Y T (held (workers st)) (policy st))"

text \<open>The counter of unfinished tasks of a proof is exact and cannot overflow.\<close>

definition live_count :: "(TaskId, Task) hash_map \<Rightarrow> nat" where
  "live_count ts = sum_list (map (\<lambda>e. if final_status (t_status (snd e)) then 0 else 1) ts)"

definition proof_ok :: "ProofId \<Rightarrow> Proof \<Rightarrow> bool" where
  "proof_ok p proof \<longleftrightarrow>
     p_id proof = p \<and> hm_wf (p_tasks proof) \<and> p_active_tasks proof = live_count (p_tasks proof) \<and>
     length (p_tasks proof) < 2 ^ 32"

definition proofs_ok :: "(ProofId, Proof) hash_map \<Rightarrow> bool" where
  "proofs_ok ps \<longleftrightarrow> hm_wf ps \<and> (\<forall>p proof. map_of ps p = Some proof \<longrightarrow> proof_ok p proof)"

definition table_of :: "(ProofId, Proof) hash_map \<Rightarrow> table" where
  "table_of ps k = (case map_of ps (fst k) of None \<Rightarrow> None | Some proof \<Rightarrow> map_of (p_tasks proof) (snd k))"

definition coord_inv :: "'p PolicyView \<Rightarrow> 'p CoordinatorState \<Rightarrow> bool" where
  "coord_inv V st \<longleftrightarrow> proofs_ok (proofs st) \<and> core V (held (workers st)) {} (table_of (proofs st)) st"

lemma task_at_table_of: "get_task_internal st p t = table_of (proofs st) (p, t)"
  by (simp add: get_task_internal_def table_of_def split: option.splits)

lemma queued_keysI: "q \<in># pv_queued V pol \<Longrightarrow> qkey q \<in> queued_keys V pol"
  by (simp add: queued_keys_def)

lemma queue_okD:
  assumes "queue_ok V T H pol" and "q \<in># pv_queued V pol"
  shows "qkey q \<notin> H" and "T (qkey q) = Some task \<Longrightarrow> q_task_type q = task_type task"
  using assms unfolding queue_ok_def by blast+

section \<open>Workers and what they hold\<close>

lemma heldI: "map_of ws i = Some w \<Longrightarrow> k \<in> set (w_active_tasks w) \<Longrightarrow> k \<in> held ws"
  by (auto simp: held_def)

lemma heldE:
  assumes "k \<in> held ws"
  obtains i w where "map_of ws i = Some w" and "k \<in> set (w_active_tasks w)"
  using assms by (auto simp: held_def)

lemma finite_held [simp]: "finite (held ws)"
proof -
  have "held ws = (\<Union>w \<in> ran (map_of ws). set (w_active_tasks w))"
    by (auto simp: held_def ran_def)
  then show ?thesis by (simp add: finite_ran finite_dom_map_of)
qed

lemma held_Nil [simp]: "held [] = {}"
  by (simp add: held_def)

lemma holds_okD: "holds_ok T ws \<Longrightarrow> map_of ws i = Some w \<Longrightarrow> worker_ok T i w"
  by (simp add: holds_ok_def)

lemma worker_okD:
  assumes "worker_ok T i w" and "k \<in> set (w_active_tasks w)"
  obtains task where "T k = Some task" and "t_worker task = Some i" and "hold_status (t_status task)"
  using assms unfolding worker_ok_def by blast

lemma worker_ok_id: "worker_ok T i w \<Longrightarrow> w_id w = i"
  by (simp add: worker_ok_def)

text \<open>At most one worker holds a task.\<close>

lemma unique_holder:
  assumes ok: "holds_ok T ws" and i: "map_of ws i = Some w" "k \<in> set (w_active_tasks w)"
    and j: "map_of ws j = Some v" "k \<in> set (w_active_tasks v)"
  shows "i = j"
proof -
  from worker_okD [OF holds_okD [OF ok i(1)] i(2)] obtain task
    where t: "T k = Some task" "t_worker task = Some i" by metis
  from worker_okD [OF holds_okD [OF ok j(1)] j(2)] obtain task'
    where t': "T k = Some task'" "t_worker task' = Some j" by metis
  from t t' show ?thesis by simp
qed

lemma held_table:
  assumes "holds_ok T ws" and "k \<in> held ws"
  obtains task where "T k = Some task" and "hold_status (t_status task)"
  using assms by (metis heldE holds_okD worker_okD)

lemma held_insert:
  assumes ok: "holds_ok T ws" and w: "map_of ws i = Some w"
  shows "held (hm_insert i w' ws) = held ws - set (w_active_tasks w) \<union> set (w_active_tasks w')"
proof (intro set_eqI iffI)
  fix k
  assume "k \<in> held (hm_insert i w' ws)"
  then obtain j v where j: "map_of (hm_insert i w' ws) j = Some v" and k: "k \<in> set (w_active_tasks v)"
    by (rule heldE)
  show "k \<in> held ws - set (w_active_tasks w) \<union> set (w_active_tasks w')"
  proof (cases "j = i")
    case False
    with j have "map_of ws j = Some v" by simp
    with k w False unique_holder [OF ok] show ?thesis by (meson DiffI UnI1 heldI)
  qed (use j k in simp)
next
  fix k
  assume "k \<in> held ws - set (w_active_tasks w) \<union> set (w_active_tasks w')"
  then show "k \<in> held (hm_insert i w' ws)"
  proof
    assume "k \<in> set (w_active_tasks w')"
    then show ?thesis by (intro heldI [of _ i w']) simp_all
  next
    assume k: "k \<in> held ws - set (w_active_tasks w)"
    then obtain j v where j: "map_of ws j = Some v" "k \<in> set (w_active_tasks v)" by (blast elim: heldE)
    with k w have "j \<noteq> i" by auto
    with j show ?thesis by (intro heldI [of _ j v]) simp_all
  qed
qed

lemma held_insert_new:
  assumes "map_of ws i = None"
  shows "held (hm_insert i w' ws) = held ws \<union> set (w_active_tasks w')"
proof (intro set_eqI iffI)
  fix k
  assume "k \<in> held (hm_insert i w' ws)"
  then show "k \<in> held ws \<union> set (w_active_tasks w')"
    by (auto simp: held_def split: if_splits)
next
  fix k
  assume "k \<in> held ws \<union> set (w_active_tasks w')"
  then show "k \<in> held (hm_insert i w' ws)"
  proof
    assume "k \<in> held ws"
    then obtain j v where j: "map_of ws j = Some v" "k \<in> set (w_active_tasks v)" by (rule heldE)
    with assms have "j \<noteq> i" by auto
    with j show ?thesis by (intro heldI [of _ j v]) simp_all
  qed (intro heldI [of _ i w'], simp_all)
qed

lemma held_remove:
  assumes ok: "holds_ok T ws" and w: "map_of ws i = Some w"
  shows "held (hm_remove i ws) = held ws - set (w_active_tasks w)"
proof (intro set_eqI iffI)
  fix k
  assume "k \<in> held (hm_remove i ws)"
  then obtain j v where j: "map_of (hm_remove i ws) j = Some v" and k: "k \<in> set (w_active_tasks v)"
    by (rule heldE)
  then have "j \<noteq> i" and "map_of ws j = Some v" by (auto split: if_splits)
  with k w unique_holder [OF ok] show "k \<in> held ws - set (w_active_tasks w)" by (meson DiffI heldI)
next
  fix k
  assume k: "k \<in> held ws - set (w_active_tasks w)"
  then obtain j v where j: "map_of ws j = Some v" "k \<in> set (w_active_tasks v)" by (blast elim: heldE)
  with k w have "j \<noteq> i" by auto
  with j show "k \<in> held (hm_remove i ws)" by (intro heldI [of _ j v]) simp_all
qed

lemma holds_ok_insert: "holds_ok T ws \<Longrightarrow> worker_ok T i w \<Longrightarrow> holds_ok T (hm_insert i w ws)"
  by (simp add: holds_ok_def)

lemma holds_ok_remove: "holds_ok T ws \<Longrightarrow> holds_ok T (hm_remove i ws)"
  by (simp add: holds_ok_def)

lemma loads_okD: "loads_ok T ws \<Longrightarrow> map_of ws i = Some w \<Longrightarrow> loaded T w"
  by (simp add: loads_ok_def)

lemma loads_ok_insert: "loads_ok T ws \<Longrightarrow> loaded T w \<Longrightarrow> loads_ok T (hm_insert i w ws)"
  by (simp add: loads_ok_def)

lemma loads_ok_remove: "loads_ok T ws \<Longrightarrow> loads_ok T (hm_remove i ws)"
  by (simp add: loads_ok_def)

lemma capacity_insert_same:
  "hm_wf ws \<Longrightarrow> map_of ws i = Some w \<Longrightarrow> w_max_weight w' = w_max_weight w \<Longrightarrow>
     capacity (hm_insert i w' ws) = capacity ws"
  unfolding capacity_def by (rule sum_entries_insert_same) simp_all

lemma capacity_insert_new:
  "map_of ws i = None \<Longrightarrow> capacity (hm_insert i w ws) = capacity ws + w_max_weight w"
  unfolding capacity_def by (subst sum_entries_insert_new) simp_all

lemma capacity_remove: "capacity (hm_remove i ws) \<le> capacity ws"
  unfolding capacity_def by (rule sum_entries_remove_le)

text \<open>The weight of everything held is within the capacity of the fleet.\<close>

lemma holds_ok_Cons:
  assumes "holds_ok T ((i, w) # ws)"
  shows "worker_ok T i w" and "holds_ok T ws" and "map_of ws i = None"
    and "held ((i, w) # ws) = set (w_active_tasks w) \<union> held ws"
proof -
  from assms have wf: "hm_wf ((i, w) # ws)" by (simp add: holds_ok_def)
  then have i: "map_of ws i = None" and "hm_wf ws" by (auto dest: hm_wf_ConsD)
  have map: "map_of ((i, w) # ws) j = Some v" if "map_of ws j = Some v" for j v
    using that i by auto
  show "worker_ok T i w" using holds_okD [OF assms, of i w] by simp
  show "holds_ok T ws" using holds_okD [OF assms map] \<open>hm_wf ws\<close> by (simp add: holds_ok_def)
  show "map_of ws i = None" by (rule i)
  show "held ((i, w) # ws) = set (w_active_tasks w) \<union> held ws"
  proof
    show "held ((i, w) # ws) \<subseteq> set (w_active_tasks w) \<union> held ws"
      by (auto simp: held_def split: if_splits)
    have "set (w_active_tasks w) \<subseteq> held ((i, w) # ws)"
      by (auto intro: heldI [of _ i w])
    moreover have "held ws \<subseteq> held ((i, w) # ws)"
      by (blast elim: heldE intro: heldI [OF map])
    ultimately show "set (w_active_tasks w) \<union> held ws \<subseteq> held ((i, w) # ws)" by simp
  qed
qed

lemma loads_ok_Cons: "loads_ok T ((i, w) # ws) \<Longrightarrow> map_of ws i = None \<Longrightarrow> loaded T w \<and> loads_ok T ws"
  unfolding loads_ok_def by (metis map_of_Cons_code(2) option.distinct(1))

lemma held_weight_le:
  "holds_ok T ws \<Longrightarrow> loads_ok T ws \<Longrightarrow> sum (weight_in T) (held ws) \<le> capacity ws"
proof (induction ws)
  case (Cons e ws)
  obtain i w where e: "e = (i, w)" by fastforce
  note h = holds_ok_Cons [OF Cons.prems(1) [unfolded e]]
  from loads_ok_Cons [OF Cons.prems(2) [unfolded e] h(3)] have l: "loaded T w" "loads_ok T ws" by auto
  have "sum (weight_in T) (held (e # ws)) \<le> load T w + sum (weight_in T) (held ws)"
    unfolding e h(4) load_def by (simp add: sum_Un_nat)
  also have "\<dots> \<le> w_max_weight w + capacity ws"
    using Cons.IH [OF h(2) l(2)] l(1) by (simp add: loaded_def)
  finally show ?case by (simp add: e capacity_def)
qed simp

lemma charge_le_weight: "charge_in V T k \<le> weight_in T k"
  by (simp add: charge_in_def weight_in_def split: option.splits)

lemma charged_le_held:
  assumes "finite H"
  shows "sum (charge_in V T) {k \<in> H. fst k = p} \<le> sum (weight_in T) H"
proof -
  have "sum (charge_in V T) {k \<in> H. fst k = p} \<le> sum (weight_in T) {k \<in> H. fst k = p}"
    by (rule sum_mono) (rule charge_le_weight)
  also have "\<dots> \<le> sum (weight_in T) H" by (rule sum_mono2) (use assms in auto)
  finally show ?thesis .
qed

section \<open>Elementary changes\<close>

lemma core_frame [simp]:
  "core V C Y T (st\<lparr>proofs := ps\<rparr>) = core V C Y T st"
  "core V C Y T (st\<lparr>wire := m\<rparr>) = core V C Y T st"
  "core V C Y T (st\<lparr>total_tasks := n\<rparr>) = core V C Y T st"
  "core V C Y T (st\<lparr>gpu_busy_ms_total := n\<rparr>) = core V C Y T st"
  "core V C Y T (st\<lparr>gpu_available_ms_total := n\<rparr>) = core V C Y T st"
  "core V C Y T (st\<lparr>gpu_available_last_tick := n\<rparr>) = core V C Y T st"
  "core V C Y T (st\<lparr>proofs_tx := tx\<rparr>) = core V C Y T st"
  "core V C Y T (st\<lparr>execute_only_mode := b\<rparr>) = core V C Y T st"
  "core V C Y T (st\<lparr>worker_heartbeat_timeout_secs := n\<rparr>) = core V C Y T st"
  "core V C Y T (send msg st) = core V C Y T st"
  by (simp_all add: core_def send_def)

lemma coreD:
  assumes "core V C Y T st"
  shows "table_ok T" and "holds_ok T (workers st)" and "queue_ok V T (held (workers st)) (policy st)"
    and "pv_wf V (policy st)" and "\<not> panicked st" and "capacity (workers st) < 2 ^ 31" and "finite C"
    and "\<not> shutting_down st \<Longrightarrow> loads_ok T (workers st)"
    and "\<not> shutting_down st \<Longrightarrow> charges_ok V C T (policy st)"
    and "\<not> shutting_down st \<Longrightarrow> placed V Y T (held (workers st)) (policy st)"
  using assms by (simp_all add: core_def)

lemma table_okD:
  "table_ok T \<Longrightarrow> T k = Some task \<Longrightarrow>
     t_id task = snd k \<and> td_proof_id (t_data task) = fst k \<and> task_weight_of task < 2 ^ 31"
  unfolding table_ok_def by blast

lemma placedD:
  "placed V Y T H pol \<Longrightarrow> T k = Some task \<Longrightarrow> \<not> final_status (t_status task) \<Longrightarrow>
     queueable V (task_type task) \<Longrightarrow> k \<in> Y \<or> k \<in> H \<or> k \<in> queued_keys V pol"
  unfolding placed_def by blast

lemma core_weaken: "core V C Y T st \<Longrightarrow> Y \<subseteq> Y' \<Longrightarrow> core V C Y' T st"
  unfolding core_def placed_def by blast

text \<open>A task in transit that is finished or gone needs no place.\<close>

lemma core_arrive:
  assumes core: "core V C (Y \<union> D) T st"
    and "\<And>k task. k \<in> D \<Longrightarrow> T k = Some task \<Longrightarrow> final_status (t_status task)"
  shows "core V C Y T st"
  using assms unfolding core_def placed_def by blast

text \<open>Holds only shrink, or the worker record changes around them.\<close>

lemma core_shrink_worker:
  assumes core: "core V C Y T st" and w: "map_of (workers st) i = Some w"
    and w': "w_id w' = i" "w_max_weight w' = w_max_weight w" "distinct (w_active_tasks w')"
      "set (w_active_tasks w') \<subseteq> set (w_active_tasks w)"
    and weight: "\<not> shutting_down st \<Longrightarrow> w_weight w' = load T w'"
  shows "core V C (Y \<union> (set (w_active_tasks w) - set (w_active_tasks w'))) T
           (st\<lparr>workers := hm_insert i w' (workers st)\<rparr>)"
    and "held (hm_insert i w' (workers st)) =
           held (workers st) - (set (w_active_tasks w) - set (w_active_tasks w'))"
proof -
  note c = coreD [OF core]
  have sub: "set (w_active_tasks w) \<subseteq> held (workers st)" by (blast intro: heldI [OF w])
  show H: "held (hm_insert i w' (workers st)) =
      held (workers st) - (set (w_active_tasks w) - set (w_active_tasks w'))"
    unfolding held_insert [OF c(2) w] using sub w'(4) by blast
  have ok: "worker_ok T i w'"
    using holds_okD [OF c(2) w] w' unfolding worker_ok_def by blast
  have loaded: "loaded T w'" if "\<not> shutting_down st"
  proof -
    have "load T w' \<le> load T w" unfolding load_def by (rule sum_mono2) (use w'(4) in auto)
    with loads_okD [OF c(8) [OF that] w] weight [OF that] w'(2) show ?thesis by (simp add: loaded_def)
  qed
  have q: "queue_ok V T (held (hm_insert i w' (workers st))) (policy st)"
    using c(3) unfolding queue_ok_def H by blast
  have pl: "placed V (Y \<union> (set (w_active_tasks w) - set (w_active_tasks w'))) T
      (held (hm_insert i w' (workers st))) (policy st)" if "\<not> shutting_down st"
    using c(10) [OF that] unfolding placed_def H by blast
  have cap: "capacity (hm_insert i w' (workers st)) = capacity (workers st)"
    using c(2) w w'(2) by (intro capacity_insert_same) (simp_all add: holds_ok_def)
  show "core V C (Y \<union> (set (w_active_tasks w) - set (w_active_tasks w'))) T
      (st\<lparr>workers := hm_insert i w' (workers st)\<rparr>)"
    using c holds_ok_insert [OF c(2) ok] q pl cap loads_ok_insert [OF c(8) loaded]
    by (simp add: core_def)
qed

lemma core_keep_worker:
  assumes core: "core V C Y T st" and w: "map_of (workers st) i = Some w"
    and w': "w_id w' = w_id w" "w_max_weight w' = w_max_weight w" "w_active_tasks w' = w_active_tasks w"
      "\<not> shutting_down st \<Longrightarrow> w_weight w' = w_weight w"
  shows "core V C Y T (st\<lparr>workers := hm_insert i w' (workers st)\<rparr>)"
    and "held (hm_insert i w' (workers st)) = held (workers st)"
proof -
  note ok = holds_okD [OF coreD(2) [OF core] w]
  have weight: "w_weight w' = load T w'" if "\<not> shutting_down st"
    using loads_okD [OF coreD(8) [OF core that] w] w' that by (simp add: loaded_def load_def)
  have id: "w_id w' = i" "distinct (w_active_tasks w')"
    using ok w' by (simp_all add: worker_ok_def)
  note shrink = core_shrink_worker [OF core w id(1) w'(2) id(2) _ weight]
  from shrink w'(3) show "core V C Y T (st\<lparr>workers := hm_insert i w' (workers st)\<rparr>)"
    and "held (hm_insert i w' (workers st)) = held (workers st)" by simp_all
qed

text \<open>What \<open>settle_worker\<close> stores.\<close>

definition settled :: "Worker \<Rightarrow> Worker" where
  "settled w = (if w_active_tasks w = [] then w\<lparr>w_next_free_time := 0, w_weight := 0\<rparr> else w)"

lemma settled_simps [simp]:
  "w_id (settled w) = w_id w" "w_active_tasks (settled w) = w_active_tasks w"
  "w_max_weight (settled w) = w_max_weight w" "w_channel (settled w) = w_channel w"
  "w_worker_type (settled w) = w_worker_type w" "w_closed (settled w) = w_closed w"
  by (simp_all add: settled_def)

lemma settled_weight: "w_weight w = load T w \<Longrightarrow> w_weight (settled w) = load T (settled w)"
  by (simp add: settled_def load_def)

lemma without_task_simps [simp]:
  "w_id (without_task k n w) = w_id w" "w_max_weight (without_task k n w) = w_max_weight w"
  "w_active_tasks (without_task k n w) = hs_remove k (w_active_tasks w)"
  "w_weight (without_task k n w) = w_weight w - n" "w_channel (without_task k n w) = w_channel w"
  by (simp_all add: without_task_def saturating_sub_def)

lemma weight_in_Some [simp]: "T k = Some task \<Longrightarrow> weight_in T k = task_weight_of task"
  by (simp add: weight_in_def)

lemma load_without_task:
  "k \<in> set (w_active_tasks w) \<Longrightarrow> load T (without_task k n w) = load T w - weight_in T k"
  unfolding load_def without_task_simps by (rule sum_set_hs_remove)

text \<open>A worker gives up one task.\<close>

lemma core_drop_hold:
  assumes core: "core V C Y T st" and w: "map_of (workers st) i = Some w"
    and k: "k \<in> set (w_active_tasks w)" and task: "T k = Some task"
    and w': "w' = without_task k (task_weight_of task) w \<or>
             w' = settled (without_task k (task_weight_of task) w)"
  shows "core V C (insert k Y) T (st\<lparr>workers := hm_insert i w' (workers st)\<rparr>)"
    and "held (hm_insert i w' (workers st)) = held (workers st) - {k}"
proof -
  note ok = holds_okD [OF coreD(2) [OF core] w]
  have active: "w_active_tasks w' = hs_remove k (w_active_tasks w)" using w' by auto
  have dist: "distinct (w_active_tasks w')" using ok active by (simp add: worker_ok_def)
  have diff: "set (w_active_tasks w) - set (w_active_tasks w') = {k}" using k active by auto
  have weight: "w_weight w' = load T w'" if "\<not> shutting_down st"
  proof -
    have "w_weight (without_task k (task_weight_of task) w) = load T (without_task k (task_weight_of task) w)"
      using loads_okD [OF coreD(8) [OF core that] w] k task by (simp add: loaded_def load_without_task)
    with w' settled_weight show ?thesis by metis
  qed
  have w'2: "w_id w' = i" "w_max_weight w' = w_max_weight w" "set (w_active_tasks w') \<subseteq> set (w_active_tasks w)"
    using w' ok by (auto simp: worker_ok_def)
  note shrink = core_shrink_worker [OF core w w'2(1,2) dist w'2(3) weight]
  from shrink diff show "core V C (insert k Y) T (st\<lparr>workers := hm_insert i w' (workers st)\<rparr>)"
    and "held (hm_insert i w' (workers st)) = held (workers st) - {k}" by simp_all
qed

text \<open>A worker leaves with everything it holds.\<close>

lemma core_remove_worker:
  assumes core: "core V C Y T st" and w: "map_of (workers st) i = Some w"
  shows "core V C (Y \<union> set (w_active_tasks w)) T (st\<lparr>workers := hm_remove i (workers st)\<rparr>)"
    and "held (hm_remove i (workers st)) = held (workers st) - set (w_active_tasks w)"
proof -
  note c = coreD [OF core]
  show H: "held (hm_remove i (workers st)) = held (workers st) - set (w_active_tasks w)"
    by (rule held_remove [OF c(2) w])
  have "queue_ok V T (held (hm_remove i (workers st))) (policy st)"
    using c(3) unfolding queue_ok_def H by blast
  moreover have "placed V (Y \<union> set (w_active_tasks w)) T (held (hm_remove i (workers st))) (policy st)"
    if "\<not> shutting_down st"
    using c(10) [OF that] unfolding placed_def H by blast
  ultimately show "core V C (Y \<union> set (w_active_tasks w)) T (st\<lparr>workers := hm_remove i (workers st)\<rparr>)"
    using c holds_ok_remove [OF c(2)] loads_ok_remove [OF c(8)] capacity_remove [of i "workers st"]
    by (simp add: core_def)
qed

text \<open>
  The table changes under the state.  Tasks keep their identity and data; a held or charged task
  stays, and a held one stays with its holder; a finished task stays finished.
\<close>

lemma sum_cong_on: "(\<And>k. k \<in> A \<Longrightarrow> f k = g k) \<Longrightarrow> sum f A = sum g A"
  by (rule sum.cong) simp_all

definition table_step :: "key set \<Rightarrow> key set \<Rightarrow> table \<Rightarrow> table \<Rightarrow> bool" where
  "table_step H C T T' \<longleftrightarrow>
     (\<forall>k task'. T' k = Some task' \<longrightarrow>
        (\<exists>task. T k = Some task \<and> t_id task' = t_id task \<and> t_data task' = t_data task \<and>
           (final_status (t_status task) \<longrightarrow> final_status (t_status task')) \<and>
           (k \<in> H \<longrightarrow> t_worker task' = t_worker task \<and> hold_status (t_status task')))) \<and>
     (\<forall>k \<in> H \<union> C. T' k \<noteq> None)"

lemma table_stepD:
  assumes "table_step H C T T'" and "T' k = Some task'"
  obtains task where "T k = Some task" and "t_id task' = t_id task" and "t_data task' = t_data task"
    and "final_status (t_status task) \<longrightarrow> final_status (t_status task')"
    and "k \<in> H \<longrightarrow> t_worker task' = t_worker task \<and> hold_status (t_status task')"
  using assms unfolding table_step_def by blast

lemma table_step_same_sums:
  assumes "table_step H C T T'" and "k \<in> H \<union> C"
  shows "weight_in T' k = weight_in T k" and "charge_in V T' k = charge_in V T k"
proof -
  from assms obtain task' where t': "T' k = Some task'" unfolding table_step_def by blast
  from table_stepD [OF assms(1) t'] obtain task where "T k = Some task" "t_data task' = t_data task" by metis
  with t' show "weight_in T' k = weight_in T k" and "charge_in V T' k = charge_in V T k"
    by (simp_all add: weight_in_def charge_in_def)
qed

text \<open>The change of a single task.\<close>

lemma table_step_update:
  assumes ok: "holds_ok T ws" and k: "T k = Some task"
    and task': "t_id task' = t_id task" "t_data task' = t_data task"
      "final_status (t_status task) \<Longrightarrow> final_status (t_status task')"
      "k \<in> H \<Longrightarrow> t_worker task' = t_worker task \<and> hold_status (t_status task')"
    and H: "H \<subseteq> held ws" and C: "\<And>k. k \<in> C \<Longrightarrow> T k \<noteq> None"
  shows "table_step H C T (T(k \<mapsto> task'))"
  unfolding table_step_def
proof (intro conjI allI impI ballI)
  fix k' task''
  assume t'': "(T(k \<mapsto> task')) k' = Some task''"
  show "\<exists>task. T k' = Some task \<and> t_id task'' = t_id task \<and> t_data task'' = t_data task \<and>
      (final_status (t_status task) \<longrightarrow> final_status (t_status task'')) \<and>
      (k' \<in> H \<longrightarrow> t_worker task'' = t_worker task \<and> hold_status (t_status task''))"
  proof (cases "k' = k")
    case True
    with t'' k task' show ?thesis by auto
  next
    case False
    with t'' have e: "T k' = Some task''" by simp
    have "hold_status (t_status task'')" if "k' \<in> H"
      using held_table [OF ok, of k'] H that e by (metis option.inject subsetD)
    with e show ?thesis by blast
  qed
next
  fix k'
  assume "k' \<in> H \<union> C"
  then have "T k' \<noteq> None" using held_table [OF ok, of k'] H C by (metis Un_iff option.distinct(1) subsetD)
  then show "(T(k \<mapsto> task')) k' \<noteq> None" by simp
qed

lemma core_table_step:
  assumes core: "core V C Y T st" and step: "table_step (held (workers st)) C T T'"
  shows "core V C Y T' st"
proof -
  note c = coreD [OF core]
  have tab: "table_ok T'"
    unfolding table_ok_def
  proof (intro allI impI)
    fix k task'
    assume "T' k = Some task'"
    from table_stepD [OF step this] obtain task
      where "T k = Some task" "t_id task' = t_id task" "t_data task' = t_data task" by metis
    with table_okD [OF c(1), of k task]
    show "t_id task' = snd k \<and> td_proof_id (t_data task') = fst k \<and> task_weight_of task' < 2 ^ 31" by simp
  qed
  have wok: "worker_ok T' i w" if w: "map_of (workers st) i = Some w" for i w
    unfolding worker_ok_def
  proof (intro conjI ballI)
    fix k
    assume k: "k \<in> set (w_active_tasks w)"
    then have H: "k \<in> held (workers st)" by (rule heldI [OF w])
    with step obtain task' where t': "T' k = Some task'" unfolding table_step_def by blast
    from table_stepD [OF step t'] H obtain task
      where t: "T k = Some task" "t_worker task' = t_worker task" "hold_status (t_status task')" by metis
    from worker_okD [OF holds_okD [OF c(2) w] k] t(1) have "t_worker task = Some i" by (metis option.inject)
    with t t' show "\<exists>task. T' k = Some task \<and> t_worker task = Some i \<and> hold_status (t_status task)" by auto
  qed (use holds_okD [OF c(2) w] in \<open>simp_all add: worker_ok_def\<close>)
  have que: "queue_ok V T' (held (workers st)) (policy st)"
  proof -
    have "q_task_type q = task_type task'"
      if q: "q \<in># pv_queued V (policy st)" and t': "T' (qkey q) = Some task'" for q task'
    proof -
      from table_stepD [OF step t'] obtain task where "T (qkey q) = Some task" "t_data task' = t_data task" .
      with c(3) q show ?thesis unfolding queue_ok_def by metis
    qed
    with c(3) show ?thesis unfolding queue_ok_def by blast
  qed
  have lod: "loaded T' w" if "map_of (workers st) i = Some w" "loaded T w" for i w
  proof -
    have "load T' w = load T w"
      unfolding load_def using heldI [OF that(1)]
      by (intro sum_cong_on table_step_same_sums(1) [OF step]) simp
    with that(2) show ?thesis by (simp add: loaded_def)
  qed
  have chg: "sum (charge_in V T') {k \<in> C. fst k = p} = sum (charge_in V T) {k \<in> C. fst k = p}" for p
    by (intro sum_cong_on table_step_same_sums(2) [OF step]) simp
  have pla: "placed V Y T' (held (workers st)) (policy st)"
    if "placed V Y T (held (workers st)) (policy st)"
    unfolding placed_def
  proof (intro allI impI)
    fix k task'
    assume t': "T' k = Some task'" and live: "\<not> final_status (t_status task')" "queueable V (task_type task')"
    from table_stepD [OF step t'] obtain task where "T k = Some task" "t_data task' = t_data task"
      "final_status (t_status task) \<longrightarrow> final_status (t_status task')" .
    with live show "k \<in> Y \<or> k \<in> held (workers st) \<or> k \<in> queued_keys V (policy st)"
      by (intro placedD [OF that, of k task]) simp_all
  qed
  have "holds_ok T' (workers st)"
    using c(2) wok unfolding holds_ok_def by blast
  moreover have "loads_ok T' (workers st)" if "loads_ok T (workers st)"
    unfolding loads_ok_def using lod loads_okD [OF that] by blast
  moreover have "charges_ok V C T' (policy st)" if "charges_ok V C T (policy st)"
    using that unfolding charges_ok_def chg .
  ultimately show ?thesis using c tab que pla by (simp add: core_def)
qed

text \<open>The policy changes while its queues stay.\<close>

lemma core_policy:
  assumes core: "core V C Y T st" and "pv_wf V pol" and q: "pv_queued V pol = pv_queued V (policy st)"
    and "finite C'" and "\<not> shutting_down st \<Longrightarrow> charges_ok V C' T pol"
  shows "core V C' Y T (st\<lparr>policy := pol\<rparr>)"
  using assms by (simp add: core_def queue_ok_def placed_def queued_keys_def)

lemma charges_ok_uncharge:
  assumes ok: "charges_ok V C T pol0" and fin: "finite C" and k: "k \<in> C" and task: "T k = Some task"
    and pol: "pv_charge V pol =
      (\<lambda>p'. if pv_charged V (task_type task) \<and> p' = fst k then pv_charge V pol0 (fst k) - task_weight_of task
            else pv_charge V pol0 p')"
  shows "charges_ok V (C - {k}) T pol"
  unfolding charges_ok_def
proof
  fix p
  have set_eq: "{k' \<in> C - {k}. fst k' = p} = {k' \<in> C. fst k' = p} - {k}" by auto
  have charge: "charge_in V T k = (if pv_charged V (task_type task) then task_weight_of task else 0)"
    by (simp add: charge_in_def task)
  have "sum (charge_in V T) {k' \<in> C - {k}. fst k' = p} =
      (if p = fst k then sum (charge_in V T) {k' \<in> C. fst k' = p} - charge_in V T k
       else sum (charge_in V T) {k' \<in> C. fst k' = p})"
    unfolding set_eq using k by (subst sum_diff1_nat) auto
  then show "pv_charge V pol p = sum (charge_in V T) {k' \<in> C - {k}. fst k' = p}"
    using ok unfolding pol charge charges_ok_def by auto
qed

lemma charges_ok_null:
  assumes ok: "charges_ok V C T pol0" and none: "\<And>k. k \<in> C \<Longrightarrow> fst k \<noteq> p"
    and pol: "pv_charge V pol =
      (\<lambda>p'. if b \<and> p' = p then pv_charge V pol0 p - n else pv_charge V pol0 p')"
  shows "charges_ok V C T pol"
proof -
  have empty: "{k \<in> C. fst k = p} = {}" using none by blast
  from ok have "pv_charge V pol0 p = sum (charge_in V T) {k \<in> C. fst k = p}"
    unfolding charges_ok_def by blast
  then have "pv_charge V pol0 p = 0" unfolding empty by simp
  with ok show ?thesis unfolding charges_ok_def pol by simp
qed

lemma charges_ok_deleted:
  assumes ok: "charges_ok V C T pol0" and pol: "pv_charge V pol = (pv_charge V pol0)(p := 0)"
  shows "charges_ok V {k \<in> C. fst k \<noteq> p} T pol"
  unfolding charges_ok_def
proof
  fix p'
  have "{k \<in> {k \<in> C. fst k \<noteq> p}. fst k = p'} = (if p' = p then {} else {k \<in> C. fst k = p'})" by auto
  with ok show "pv_charge V pol p' = sum (charge_in V T) {k \<in> {k \<in> C. fst k \<noteq> p}. fst k = p'}"
    unfolding pol charges_ok_def by simp
qed

text \<open>Queue entries come and go.\<close>

lemma queue_ok_pop:
  assumes ok: "queue_ok V T H pol0" and q: "pv_queued V pol0 = add_mset q (pv_queued V pol)"
  shows "queue_ok V T H pol" and "qkey q \<notin> queued_keys V pol" and "qkey q \<notin> H"
    and "queued_keys V pol0 = insert (qkey q) (queued_keys V pol)"
proof -
  have size: "size (filter_mset (\<lambda>r. qkey r = k) (add_mset q (pv_queued V pol))) \<le> 1" for k
    using ok unfolding queue_ok_def q by blast
  have "size (filter_mset (\<lambda>r. qkey r = k) (pv_queued V pol)) \<le> 1" for k
  proof -
    have "size (filter_mset (\<lambda>r. qkey r = k) (pv_queued V pol)) \<le>
        size (filter_mset (\<lambda>r. qkey r = k) (add_mset q (pv_queued V pol)))" by simp
    then show ?thesis using size [of k] by (rule le_trans)
  qed
  moreover have "r \<in># pv_queued V pol0" if "r \<in># pv_queued V pol" for r
    using that by (simp add: q)
  ultimately show "queue_ok V T H pol" using ok unfolding queue_ok_def by blast
  show "qkey q \<notin> queued_keys V pol"
  proof
    assume "qkey q \<in> queued_keys V pol"
    then obtain r where r: "r \<in># pv_queued V pol" "qkey r = qkey q" unfolding queued_keys_def by auto
    from r(1) obtain M where "pv_queued V pol = add_mset r M" by (blast dest: multi_member_split)
    with size [of "qkey q"] r(2) show False by simp
  qed
  show "qkey q \<notin> H" by (rule queue_okD(1) [OF ok]) (simp add: q)
  show "queued_keys V pol0 = insert (qkey q) (queued_keys V pol)"
    by (simp add: queued_keys_def q)
qed

lemma filter_mset_none: "(\<And>x. x \<in># M \<Longrightarrow> \<not> P x) \<Longrightarrow> filter_mset P M = {#}"
  by (induction M) auto

lemma queue_ok_push:
  assumes ok: "queue_ok V T H pol0" and q: "pv_queued V pol = add_mset q (pv_queued V pol0)"
    and new: "qkey q \<notin> H" "qkey q \<notin> queued_keys V pol0"
    and typed: "\<And>task. T (qkey q) = Some task \<Longrightarrow> q_task_type q = task_type task"
  shows "queue_ok V T H pol"
  unfolding queue_ok_def
proof (intro conjI allI impI)
  fix k
  have "filter_mset (\<lambda>r. qkey r = qkey q) (pv_queued V pol0) = {#}"
  proof (rule filter_mset_none, rule notI)
    fix r
    assume "r \<in># pv_queued V pol0" and "qkey r = qkey q"
    with queued_keysI [of r V pol0] new(2) show False by simp
  qed
  moreover have "size (filter_mset (\<lambda>r. qkey r = k) (pv_queued V pol0)) \<le> 1"
    using ok unfolding queue_ok_def by blast
  ultimately show "size (filter_mset (\<lambda>r. qkey r = k) (pv_queued V pol)) \<le> 1"
    unfolding q by (cases "qkey q = k") simp_all
next
  fix r
  assume "r \<in># pv_queued V pol"
  then have r: "r = q \<or> r \<in># pv_queued V pol0" unfolding q by auto
  then show "qkey r \<notin> H" using new(1) queue_okD(1) [OF ok, of r] by blast
  fix task
  assume "T (qkey r) = Some task"
  with r show "q_task_type r = task_type task"
    using typed queue_okD(2) [OF ok, of r task] by blast
qed

lemma queue_ok_update:
  assumes ok: "queue_ok V T H pol" and k: "k \<notin> queued_keys V pol"
  shows "queue_ok V (T(k \<mapsto> task)) (insert k H) pol"
proof -
  have ne: "qkey q \<noteq> k" if "q \<in># pv_queued V pol" for q
    using queued_keysI [OF that] k by metis
  show ?thesis
    unfolding queue_ok_def
  proof (intro conjI allI impI)
    fix q
    assume q: "q \<in># pv_queued V pol"
    with ne queue_okD(1) [OF ok q] show "qkey q \<notin> insert k H" by simp
    fix task'
    assume "(T(k \<mapsto> task)) (qkey q) = Some task'"
    then have "T (qkey q) = Some task'" unfolding fun_upd_other [OF ne [OF q]] .
    then show "q_task_type q = task_type task'" by (rule queue_okD(2) [OF ok q])
  next
    fix k'
    show "size (filter_mset (\<lambda>q. qkey q = k') (pv_queued V pol)) \<le> 1"
      using ok unfolding queue_ok_def by blast
  qed
qed

section \<open>Assignment steps\<close>

lemma inv_sched_ok: "coord_inv V st \<Longrightarrow> sched_ok V st"
proof -
  assume "coord_inv V st"
  then have core: "core V (held (workers st)) {} (table_of (proofs st)) st" by (simp add: coord_inv_def)
  note c = coreD [OF core]
  have "workers_keyed st"
    unfolding workers_keyed_def using c(2) worker_ok_id [OF holds_okD [OF c(2)]]
    by (simp add: holds_ok_def)
  moreover have "tasks_keyed st"
    unfolding tasks_keyed_def task_at_table_of using table_okD [OF c(1)] by fastforce
  moreover have "queue_typed V st"
    unfolding queue_typed_def task_at_table_of
  proof (intro allI impI)
    fix q task
    assume "q \<in># pv_queued V (policy st)" and "table_of (proofs st) (qkey q) = Some task"
    then show "task_type task = q_task_type q" by (rule queue_okD(2) [OF c(3), symmetric])
  qed
  ultimately show ?thesis using c(4) by (simp add: sched_ok_def)
qed

lemma holds_ok_start:
  assumes ok: "holds_ok T ws" and w: "map_of ws i = Some w" and k: "k \<notin> held ws"
    and w': "w_id w' = i" "w_active_tasks w' = hs_insert k (w_active_tasks w)"
    and task: "t_worker task = Some i" "t_status task = Running"
  shows "holds_ok (T(k \<mapsto> task)) (hm_insert i w' ws)" and "held (hm_insert i w' ws) = insert k (held ws)"
proof -
  have old: "worker_ok (T(k \<mapsto> task)) j v" if v: "map_of ws j = Some v" for j v
  proof -
    have "k \<notin> set (w_active_tasks v)" using k heldI [OF v] by blast
    then have "(T(k \<mapsto> task)) k' = T k'" if "k' \<in> set (w_active_tasks v)" for k'
      using that by auto
    with holds_okD [OF ok v] show ?thesis unfolding worker_ok_def by simp
  qed
  then have "holds_ok (T(k \<mapsto> task)) ws" using ok unfolding holds_ok_def by blast
  moreover have "worker_ok (T(k \<mapsto> task)) i w'"
    using old [OF w] w' task unfolding worker_ok_def hold_status_def by simp
  ultimately show "holds_ok (T(k \<mapsto> task)) (hm_insert i w' ws)" by (rule holds_ok_insert)
  show "held (hm_insert i w' ws) = insert k (held ws)"
    unfolding held_insert [OF ok w] w'(2) using heldI [OF w] by auto
qed

lemma load_update: "k \<notin> set (w_active_tasks w) \<Longrightarrow> load (T(k \<mapsto> task)) w = load T w"
  unfolding load_def by (rule sum_cong_on) (auto simp: weight_in_def)

lemma loads_ok_start:
  assumes ok: "loads_ok T ws" and w: "map_of ws i = Some w" and k: "k \<notin> held ws"
    and w': "w_active_tasks w' = hs_insert k (w_active_tasks w)" "w_weight w' = w_weight w + task_weight_of task"
      "w_weight w' \<le> w_max_weight w'"
  shows "loads_ok (T(k \<mapsto> task)) (hm_insert i w' ws)"
proof (rule loads_ok_insert)
  have notin: "k \<notin> set (w_active_tasks v)" if "map_of ws j = Some v" for j v
    using k heldI [OF that] by blast
  show "loads_ok (T(k \<mapsto> task)) ws"
    unfolding loads_ok_def
  proof (intro allI impI)
    fix j v
    assume v: "map_of ws j = Some v"
    from loads_okD [OF ok v] notin [OF v] show "loaded (T(k \<mapsto> task)) v"
      by (simp add: loaded_def load_update)
  qed
  have "load (T(k \<mapsto> task)) w' = task_weight_of task + load (T(k \<mapsto> task)) w"
    using notin [OF w] by (simp add: load_def w')
  then show "loaded (T(k \<mapsto> task)) w'"
    using loads_okD [OF ok w] notin [OF w] w'(2,3) by (simp add: loaded_def load_update)
qed

lemma charges_start:
  assumes "finite H" and "k \<notin> H"
  shows "sum (charge_in V (T(k \<mapsto> task))) {k' \<in> insert k H. fst k' = p} =
    sum (charge_in V T) {k' \<in> H. fst k' = p} +
    (if pv_charged V (task_type task) \<and> p = fst k then task_weight_of task else 0)"
proof -
  define A where "A = {k' \<in> H. fst k' = p}"
  have A: "finite A" "k \<notin> A" using assms by (auto simp: A_def)
  have same: "sum (charge_in V (T(k \<mapsto> task))) A = sum (charge_in V T) A"
    using A(2) by (intro sum_cong_on) (auto simp: charge_in_def)
  have new: "charge_in V (T(k \<mapsto> task)) k =
      (if pv_charged V (task_type task) then task_weight_of task else 0)"
    by (simp add: charge_in_def)
  show ?thesis
  proof (cases "p = fst k")
    case True
    then have "{k' \<in> insert k H. fst k' = p} = insert k A" by (auto simp: A_def)
    with True new same A show ?thesis unfolding A_def [symmetric] by simp
  next
    case False
    then have "{k' \<in> insert k H. fst k' = p} = A" by (auto simp: A_def)
    with False same show ?thesis unfolding A_def [symmetric] by simp
  qed
qed

lemma charges_ok_start:
  assumes ok: "charges_ok V (held ws) T pol0" and k: "k \<notin> held ws"
    and ws': "holds_ok T' ws'" "loads_ok T' ws'" "held ws' = insert k (held ws)" "capacity ws' < 2 ^ 31"
    and T': "T' = T(k \<mapsto> task)"
    and pol: "pv_charge V pol =
       (\<lambda>p. if pv_charged V (task_type task) \<and> p = fst k
            then u32_add (pv_charge V pol0 p) (task_weight_of task) else pv_charge V pol0 p)"
  shows "charges_ok V (held ws') T' pol"
  unfolding charges_ok_def
proof
  fix p
  define a where "a = sum (charge_in V T) {k' \<in> held ws. fst k' = p}"
  define b where "b = (if pv_charged V (task_type task) \<and> p = fst k then task_weight_of task else 0)"
  have new: "sum (charge_in V T') {k' \<in> held ws'. fst k' = p} = a + b"
    unfolding ws'(3) T' a_def b_def by (rule charges_start [OF finite_held k])
  have "a + b \<le> capacity ws'"
    using charged_le_held [OF finite_held, of V T' ws' p] held_weight_le [OF ws'(1,2)] unfolding new by linarith
  with ws'(4) have "a + b < 2 ^ 32" by simp
  moreover have "pv_charge V pol0 p = a" using ok unfolding charges_ok_def a_def by blast
  ultimately show "pv_charge V pol p = sum (charge_in V T') {k' \<in> held ws'. fst k' = p}"
    unfolding new pol b_def by (cases "pv_charged V (task_type task) \<and> p = fst k") auto
qed

section \<open>Proof tables\<close>

lemma proofs_okD: "proofs_ok ps \<Longrightarrow> map_of ps p = Some proof \<Longrightarrow> proof_ok p proof"
  by (simp add: proofs_ok_def)

lemma proofs_ok_insert: "proofs_ok ps \<Longrightarrow> proof_ok p proof \<Longrightarrow> proofs_ok (hm_insert p proof ps)"
  by (simp add: proofs_ok_def)

lemma proofs_ok_remove: "proofs_ok ps \<Longrightarrow> proofs_ok (hm_remove p ps)"
  by (simp add: proofs_ok_def)

lemma length_insert_same: "map_of ts t \<noteq> None \<Longrightarrow> length (hm_insert t task ts) = length ts"
  by (induction ts) auto

lemma length_insert_new: "map_of ts t = None \<Longrightarrow> length (hm_insert t task ts) = Suc (length ts)"
  by (induction ts) (auto split: if_splits)

abbreviation live :: "Task \<Rightarrow> nat" where
  "live task \<equiv> (if final_status (t_status task) then 0 else 1)"

lemma live_count_insert:
  "hm_wf ts \<Longrightarrow> map_of ts t = Some task \<Longrightarrow>
     live_count (hm_insert t task' ts) + live task = live_count ts + live task'"
  using sum_entries_insert [of ts t task "\<lambda>e. live (snd e)" task'] unfolding live_count_def by simp

lemma live_count_insert_new:
  "map_of ts t = None \<Longrightarrow> live_count (hm_insert t task ts) = live_count ts + live task"
  unfolding live_count_def by (subst sum_entries_insert_new) simp_all

lemma live_count_le: "live_count ts \<le> length ts"
  by (induction ts) (simp_all add: live_count_def)

lemma live_count_pos:
  "map_of ts t = Some task \<Longrightarrow> \<not> final_status (t_status task) \<Longrightarrow> 0 < live_count ts"
  by (induction ts) (auto simp: live_count_def split: if_splits)

lemma proof_ok_update:
  assumes ok: "proof_ok p proof" and task: "map_of (p_tasks proof) t = Some task"
    and new: "p_id proof' = p" "p_tasks proof' = hm_insert t task' (p_tasks proof)"
      "p_active_tasks proof' + live task = p_active_tasks proof + live task'"
  shows "proof_ok p proof'"
  using ok new live_count_insert [of "p_tasks proof" t task task'] task
    length_insert_same [of "p_tasks proof" t task']
  by (simp add: proof_ok_def split: if_splits)

lemma table_of_insert:
  "map_of ps p = Some proof \<Longrightarrow> p_tasks proof' = hm_insert t task (p_tasks proof) \<Longrightarrow>
     table_of (hm_insert p proof' ps) = (table_of ps)((p, t) \<mapsto> task)"
  by (auto simp: table_of_def fun_eq_iff split: option.splits)

lemma table_of_remove: "table_of (hm_remove p ps) = (\<lambda>k. if fst k = p then None else table_of ps k)"
  by (auto simp: table_of_def fun_eq_iff)

lemma table_of_lookup:
  "map_of ps p = Some proof \<Longrightarrow> map_of (p_tasks proof) t = Some task \<Longrightarrow> table_of ps (p, t) = Some task"
  by (simp add: table_of_def)

lemma modify_task_proofs_ok:
  assumes ok: "proofs_ok ps" and m: "modify_task p t f ps = Some ps'" and k: "table_of ps (p, t) = Some task"
    and live: "final_status (t_status (f task)) = final_status (t_status task)"
  shows "proofs_ok ps'" and "table_of ps' = (table_of ps)((p, t) \<mapsto> f task)"
proof -
  from m k obtain pr where p: "map_of ps p = Some pr" and t: "map_of (p_tasks pr) t = Some task"
    and ps': "ps' = hm_insert p (pr\<lparr>p_tasks := hm_insert t (f task) (p_tasks pr)\<rparr>) ps"
    by (auto simp: modify_task_def table_of_def split: option.splits)
  have "proof_ok p (pr\<lparr>p_tasks := hm_insert t (f task) (p_tasks pr)\<rparr>)"
    using proofs_okD [OF ok p]
    by (rule proof_ok_update [OF _ t, where task' = "f task"]) (use proofs_okD [OF ok p] live in \<open>simp_all add: proof_ok_def\<close>)
  with ok show "proofs_ok ps'" unfolding ps' by (rule proofs_ok_insert)
  show "table_of ps' = (table_of ps)((p, t) \<mapsto> f task)"
    unfolding ps' by (rule table_of_insert [OF p]) simp
qed

section \<open>Assignment steps keep the invariant\<close>

lemma inv_drop_stale:
  assumes inv: "coord_inv V st" and q: "pv_queued V (policy st) = add_mset q (pv_queued V pol)"
    and stale: "\<forall>task. get_task_internal st (q_proof_id q) (q_id q) = Some task \<longrightarrow> final_status (t_status task)"
    and pol: "pv_charge V pol = pv_charge V (policy st)" "pv_wf V pol"
  shows "coord_inv V (st\<lparr>policy := pol\<rparr>)"
proof -
  let ?T = "table_of (proofs st)"
  from inv have core: "core V (held (workers st)) {} ?T st" by (simp add: coord_inv_def)
  note c = coreD [OF core] and pop = queue_ok_pop [OF coreD(3) [OF core] q]
  have "placed V {} ?T (held (workers st)) pol" if pl: "placed V {} ?T (held (workers st)) (policy st)"
    unfolding placed_def
  proof (intro allI impI)
    fix k task
    assume t: "?T k = Some task" "\<not> final_status (t_status task)" "queueable V (task_type task)"
    with stale have "k \<noteq> qkey q" unfolding task_at_table_of by metis
    with placedD [OF pl t] pop(4) show "k \<in> {} \<or> k \<in> held (workers st) \<or> k \<in> queued_keys V pol" by blast
  qed
  with inv c pop(1) pol show ?thesis by (simp add: coord_inv_def core_def charges_ok_def)
qed

lemma worker_fits_weight:
  assumes "worker_fits wt tw w" and "w_weight w \<le> w_max_weight w" and "w_max_weight w < 2 ^ 31" and "tw < 2 ^ 31"
  shows "u32_add (w_weight w) tw = w_weight w + tw" and "w_weight w + tw \<le> w_max_weight w"
proof -
  have "w_weight w + tw < 2 ^ 32" using assms(2-4) by simp
  then show "u32_add (w_weight w) tw = w_weight w + tw" by simp
  with assms(1) show "w_weight w + tw \<le> w_max_weight w" by (simp add: worker_fits_def)
qed

lemma max_weight_le_capacity: "map_of ws i = Some w \<Longrightarrow> w_max_weight w \<le> capacity ws"
proof -
  assume "map_of ws i = Some w"
  then have "(i, w) \<in> set ws" by (rule map_of_SomeD)
  then show ?thesis unfolding capacity_def by (induction ws) auto
qed

lemma placed_start:
  assumes pl: "placed V {} T H pol0" and keys: "queued_keys V pol0 = insert k (queued_keys V pol)"
  shows "placed V {} (T(k \<mapsto> task)) (insert k H) pol"
  unfolding placed_def
proof (intro allI impI)
  fix k' task'
  assume t: "(T(k \<mapsto> task)) k' = Some task'" "\<not> final_status (t_status task')" "queueable V (task_type task')"
  show "k' \<in> {} \<or> k' \<in> insert k H \<or> k' \<in> queued_keys V pol"
  proof (cases "k' = k")
    case False
    with t(1) have "T k' = Some task'" by simp
    from placedD [OF pl this t(2,3)] keys False show ?thesis by blast
  qed simp
qed

lemma core_start:
  assumes core: "core V (held (workers st)) {} T st"
    and q: "pv_queued V (policy st) = add_mset q (pv_queued V pol)" and task: "T (qkey q) = Some task"
    and w: "map_of (workers st) (w_id w) = Some w" and fits: "worker_fits wt (task_weight_of task) w"
    and pol: "pv_charge V pol =
       (\<lambda>p. if pv_charged V (task_type task) \<and> p = q_proof_id q
            then u32_add (pv_charge V (policy st) p) (task_weight_of task)
            else pv_charge V (policy st) p)" "pv_wf V pol"
    and st': "workers st' = hm_insert (w_id w) (charge_worker now task w) (workers st)" "policy st' = pol"
      "panicked st' = panicked st" "shutting_down st' = shutting_down st"
  shows "core V (held (workers st')) {} (T(qkey q \<mapsto> mark_running w task)) st'"
proof -
  note c = coreD [OF core] and pop = queue_ok_pop [OF coreD(3) [OF core] q]
  let ?T = "T(qkey q \<mapsto> mark_running w task)" and ?ws = "workers st'"
  from table_okD [OF c(1) task] have t: "t_id task = q_id q" "td_proof_id (t_data task) = q_proof_id q"
    "task_weight_of task < 2 ^ 31" by simp_all
  have tab: "table_ok ?T"
    unfolding table_ok_def using table_okD [OF c(1)] t by (simp add: fun_upd_def)
  have active: "w_active_tasks (charge_worker now task w) = hs_insert (qkey q) (w_active_tasks w)"
    by (simp add: t)
  have holds: "holds_ok ?T ?ws" "held ?ws = insert (qkey q) (held (workers st))"
    unfolding st'(1)
    by (rule holds_ok_start [OF c(2) w pop(3) _ active], simp, simp, simp)
      (rule holds_ok_start(2) [OF c(2) w pop(3) _ active, of "mark_running w task"], simp_all)
  have cap: "capacity ?ws < 2 ^ 31"
    unfolding st'(1) using c(2,6) w
    by (subst capacity_insert_same [of _ _ w]) (simp_all add: holds_ok_def)
  have que: "queue_ok V ?T (held ?ws) pol" unfolding holds(2) by (rule queue_ok_update [OF pop(1,2)])
  have "loads_ok ?T ?ws \<and> charges_ok V (held ?ws) ?T pol \<and> placed V {} ?T (held ?ws) pol"
    if run: "\<not> shutting_down st"
  proof (intro conjI)
    have "w_max_weight w < 2 ^ 31" using max_weight_le_capacity [OF w] c(6) by linarith
    with worker_fits_weight [OF fits _ _ t(3)] loads_okD [OF c(8) [OF run] w]
    show l: "loads_ok ?T ?ws"
      unfolding st'(1) by (intro loads_ok_start [OF c(8) [OF run] w pop(3)]) (simp_all add: t loaded_def)
    show "charges_ok V (held ?ws) ?T pol"
      by (rule charges_ok_start [OF c(9) [OF run] pop(3) holds(1) l holds(2) cap refl]) (simp add: pol cong: if_cong)
    show "placed V {} ?T (held ?ws) pol"
      unfolding holds(2) by (rule placed_start [OF c(10) [OF run] pop(4)])
  qed
  with tab holds(1) que pol(2) c(5) cap show ?thesis by (simp add: core_def st')
qed

lemma inv_assign_step: "assign_step V now st st' \<Longrightarrow> coord_inv V st \<Longrightarrow> coord_inv V st'"
proof (induction rule: assign_step.induct)
  case (drop_stale st q pol)
  then show ?case by (intro inv_drop_stale)
next
  case (start st q pol task w)
  then have core: "core V (held (workers st)) {} (table_of (proofs st)) st" and ps: "proofs_ok (proofs st)"
    by (simp_all add: coord_inv_def)
  note ok = inv_sched_ok [OF start.prems]
  from sched_ok_worker [OF ok start.hyps(4)] have w: "map_of (workers st) (w_id w) = Some w"
    "worker_fits (pv_class V (task_type task)) (task_weight_of task) w" by simp_all
  from sched_ok_task [OF ok start.hyps(2)] have k: "td_proof_id (t_data task) = q_proof_id q" "t_id task = q_id q"
    by simp_all
  have look: "get_task_internal st (td_proof_id (t_data task)) (t_id task) = Some task"
    using start.hyps(2) k by simp
  from start_task_eq [OF look, of w now] obtain ps' where
    ps': "modify_task (q_proof_id q) (q_id q) (mark_running w) (proofs st) = Some ps'"
    and eq: "start_task now task w st =
       st\<lparr>workers := hm_insert (w_id w) (charge_worker now task w) (workers st), proofs := ps',
          wire := wire st @ [ToWorker (w_channel w) (NewTask (t_id task) (t_data task) ''null'')]\<rparr>"
    unfolding k by blast
  let ?st' = "(start_task now task w st)\<lparr>policy := pol\<rparr>"
  have task: "table_of (proofs st) (qkey q) = Some task" using start.hyps(2) by (simp add: task_at_table_of)
  have live: "\<not> final_status (t_status task)" by (rule start.hyps(3))
  have "core V (held (workers ?st')) {} ((table_of (proofs st))(qkey q \<mapsto> mark_running w task)) ?st'"
    by (rule core_start [OF core start.hyps(1) task w start.hyps(5,6)]) (simp_all add: eq)
  moreover have "proofs_ok ps' \<and> table_of ps' = (table_of (proofs st))(qkey q \<mapsto> mark_running w task)"
    using modify_task_proofs_ok [OF ps ps' task] live by (simp add: final_status_def)
  ultimately show ?case by (simp add: coord_inv_def eq)
qed

end
