(* ===== verification/Coord_Preserve.thy ===== *)
theory Coord_Preserve
  imports Coord_Inv
begin

text \<open>
  Every operation of the coordinator keeps the invariant, for every policy that satisfies the
  contract \<open>assignment_policy\<close>.  The proofs go through the elementary changes of \<open>Coord_Inv\<close>:
  a charge is given back, a hold is dropped, a proof is deleted, a task is enqueued, tasks are
  assigned.
\<close>

section \<open>Who holds what\<close>

definition holds_at :: "(WorkerId, Worker) hash_map \<Rightarrow> WorkerId \<Rightarrow> key \<Rightarrow> bool" where
  "holds_at ws i k \<longleftrightarrow> (\<exists>w. map_of ws i = Some w \<and> k \<in> set (w_active_tasks w))"

lemma held_holds_at: "k \<in> held ws \<longleftrightarrow> (\<exists>i. holds_at ws i k)"
  by (auto simp: held_def holds_at_def)

lemma holds_at_insert:
  "map_of ws i = Some w \<Longrightarrow> w_active_tasks w' = hs_remove k (w_active_tasks w) \<Longrightarrow>
     holds_at (hm_insert i w' ws) j k' \<longleftrightarrow> holds_at ws j k' \<and> \<not> (j = i \<and> k' = k)"
  by (auto simp: holds_at_def)

text \<open>The stored task and the task of the table agree on what a release needs.\<close>

definition same_hold :: "table \<Rightarrow> key \<Rightarrow> Task \<Rightarrow> bool" where
  "same_hold T k task \<longleftrightarrow>
     (\<exists>task0. T k = Some task0 \<and> t_worker task0 = t_worker task \<and> t_data task0 = t_data task)"

text \<open>
  A table that explains the holds although the tasks of one proof have moved on: off that proof it
  is the stored table, on it the two list the same tasks with the same holders.
\<close>

definition explains :: "table \<Rightarrow> ProofId \<Rightarrow> (ProofId, Proof) hash_map \<Rightarrow> bool" where
  "explains T p ps \<longleftrightarrow>
     (\<forall>k. fst k \<noteq> p \<longrightarrow> T k = table_of ps k) \<and>
     (\<forall>t task. table_of ps (p, t) = Some task \<longrightarrow> t_id task = t \<and> same_hold T (p, t) task) \<and>
     (\<forall>t. T (p, t) \<noteq> None \<longrightarrow> table_of ps (p, t) \<noteq> None)"

lemma explainsD:
  assumes "explains T p ps"
  shows "fst k \<noteq> p \<Longrightarrow> T k = table_of ps k"
    and "table_of ps (p, t) = Some task \<Longrightarrow> t_id task = t \<and> same_hold T (p, t) task"
    and "T (p, t) \<noteq> None \<Longrightarrow> table_of ps (p, t) \<noteq> None"
  using assms unfolding explains_def by blast+

lemma explains_refl: "table_ok (table_of ps) \<Longrightarrow> explains (table_of ps) p ps"
  unfolding explains_def same_hold_def using table_okD [of "table_of ps"] by fastforce

text \<open>
  What releasing the holds on a list of tasks of one proof does: nothing else changes, holds only
  disappear, and only those of the listed tasks, the pair to skip excepted.
\<close>

definition released ::
  "'p PolicyView \<Rightarrow> ProofId \<Rightarrow> (WorkerId \<times> TaskId) option \<Rightarrow> Task list \<Rightarrow>
     'p CoordinatorState \<Rightarrow> 'p CoordinatorState \<Rightarrow> bool" where
  "released V p skip ts st st' \<longleftrightarrow>
     proofs st' = proofs st \<and> shutting_down st' = shutting_down st \<and>
     pv_queued V (policy st') = pv_queued V (policy st) \<and>
     (\<forall>i k. holds_at (workers st') i k \<longrightarrow> holds_at (workers st) i k) \<and>
     (\<forall>i k. holds_at (workers st) i k \<longrightarrow> fst k \<noteq> p \<or> skip = Some (i, snd k) \<longrightarrow>
        holds_at (workers st') i k) \<and>
     (\<forall>task i. task \<in> set ts \<longrightarrow> holds_at (workers st') i (p, t_id task) \<longrightarrow> skip = Some (i, t_id task))"

lemma released_Nil: "released V p skip [] st st"
  by (simp add: released_def)

lemma releasedD:
  assumes "released V p skip ts st st'"
  shows "proofs st' = proofs st" and "shutting_down st' = shutting_down st"
    and "pv_queued V (policy st') = pv_queued V (policy st)"
    and "holds_at (workers st') i k \<Longrightarrow> holds_at (workers st) i k"
    and "holds_at (workers st) i k \<Longrightarrow> fst k \<noteq> p \<or> skip = Some (i, snd k) \<Longrightarrow> holds_at (workers st') i k"
    and "task \<in> set ts \<Longrightarrow> holds_at (workers st') i (p, t_id task) \<Longrightarrow> skip = Some (i, t_id task)"
  using assms unfolding released_def by blast+

lemma released_Cons:
  assumes a: "released V p skip [t] st st1" and b: "released V p skip ts st1 st2"
  shows "released V p skip (t # ts) st st2"
  unfolding released_def
proof (intro conjI allI impI)
  fix i k
  assume "holds_at (workers st2) i k"
  then show "holds_at (workers st) i k" by (blast intro: releasedD(4) [OF a] releasedD(4) [OF b])
next
  fix i k
  assume h: "holds_at (workers st) i k" and c: "fst k \<noteq> p \<or> skip = Some (i, snd k)"
  show "holds_at (workers st2) i k" by (rule releasedD(5) [OF b releasedD(5) [OF a h c] c])
next
  fix task i
  assume "task \<in> set (t # ts)" and h: "holds_at (workers st2) i (p, t_id task)"
  then consider "task \<in> set [t]" | "task \<in> set ts" by auto
  then show "skip = Some (i, t_id task)"
    by cases (use h in \<open>blast intro: releasedD(6) [OF a] releasedD(6) [OF b] releasedD(4) [OF b]\<close>)+
qed (simp_all add: releasedD(1-3) [OF a] releasedD(1-3) [OF b])

text \<open>Two states that differ only in messages and statistics.\<close>

definition same_sched :: "'p CoordinatorState \<Rightarrow> 'p CoordinatorState \<Rightarrow> bool" where
  "same_sched st st' \<longleftrightarrow>
     proofs st' = proofs st \<and> workers st' = workers st \<and> policy st' = policy st \<and>
     shutting_down st' = shutting_down st \<and> panicked st' = panicked st"

lemma core_same_sched: "same_sched st st' \<Longrightarrow> core V C Y T st' = core V C Y T st"
  by (simp add: same_sched_def core_def)

section \<open>Elementary changes by the policy\<close>

context assignment_policy
begin

lemma inv_assign:
  assumes "coord_inv V st"
  shows "coord_inv V (ap_assign_tasks P now st)"
  using assign_law [OF inv_sched_ok [OF assms]]
proof (induction rule: rtranclp_induct)
  case base
  show ?case by (rule assms)
next
  case (step st1 st2)
  from inv_assign_step [OF step.hyps(2) step.IH] show ?case .
qed

lemma settle_eq:
  "j = i \<Longrightarrow> settle_worker P i j w st = st\<lparr>workers := hm_insert i (settled w) (workers st)\<rparr>"
  by (simp add: settle_worker_def Let_def empty_law settled_def)

lemma core_uncharge:
  assumes core: "core V C Y T st" and k: "k \<in> C" and task: "T k = Some task" and p: "p = fst k"
    and tw: "tw = task_weight_of task" and tt: "tt = task_type task"
  obtains pol where "ap_post_task_update_state P st t tw p tt = st\<lparr>policy := pol\<rparr>"
    and "pv_queued V pol = pv_queued V (policy st)" and "core V (C - {k}) Y T (st\<lparr>policy := pol\<rparr>)"
proof -
  note c = coreD [OF core]
  from release_law [OF c(4), of t tw p tt] obtain pol where
    pol: "ap_post_task_update_state P st t tw p tt = st\<lparr>policy := pol\<rparr>" "pv_wf V pol"
      "pv_queued V pol = pv_queued V (policy st)"
      "pv_charge V pol = (\<lambda>p'. if pv_charged V tt \<and> p' = p then pv_charge V (policy st) p - tw
                              else pv_charge V (policy st) p')" by blast
  have "core V (C - {k}) Y T (st\<lparr>policy := pol\<rparr>)"
    using charges_ok_uncharge [OF c(9) c(7) k task pol(4) [unfolded p tw tt]] c(7)
    by (intro core_policy [OF core pol(2,3)]) simp_all
  with pol that show thesis by blast
qed

lemma core_uncharge_null:
  assumes core: "core V C Y T st" and none: "\<And>k. k \<in> C \<Longrightarrow> fst k \<noteq> p"
  obtains pol where "ap_post_task_update_state P st t tw p tt = st\<lparr>policy := pol\<rparr>"
    and "pv_queued V pol = pv_queued V (policy st)" and "core V C Y T (st\<lparr>policy := pol\<rparr>)"
proof -
  note c = coreD [OF core]
  from release_law [OF c(4), of t tw p tt] obtain pol where
    pol: "ap_post_task_update_state P st t tw p tt = st\<lparr>policy := pol\<rparr>" "pv_wf V pol"
      "pv_queued V pol = pv_queued V (policy st)"
      "pv_charge V pol = (\<lambda>p'. if pv_charged V tt \<and> p' = p then pv_charge V (policy st) p - tw
                              else pv_charge V (policy st) p')" by blast
  have "core V C Y T (st\<lparr>policy := pol\<rparr>)"
    using charges_ok_null [OF c(9) none pol(4)] c(7) by (intro core_policy [OF core pol(2,3)])
  with pol that show thesis by blast
qed

lemma core_deleted:
  assumes core: "core V C Y T st"
  obtains pol where "ap_on_proof_deleted P st p = st\<lparr>policy := pol\<rparr>"
    and "pv_queued V pol = pv_queued V (policy st)" and "core V {k \<in> C. fst k \<noteq> p} Y T (st\<lparr>policy := pol\<rparr>)"
proof -
  note c = coreD [OF core]
  from deleted_law [OF c(4), of p] obtain pol where
    pol: "ap_on_proof_deleted P st p = st\<lparr>policy := pol\<rparr>" "pv_wf V pol"
      "pv_queued V pol = pv_queued V (policy st)" "pv_charge V pol = (pv_charge V (policy st))(p := 0)" by blast
  have "core V {k \<in> C. fst k \<noteq> p} Y T (st\<lparr>policy := pol\<rparr>)"
    using charges_ok_deleted [OF c(9) pol(4)] c(7) by (intro core_policy [OF core pol(2,3)]) simp_all
  with pol that show thesis by blast
qed

lemma core_enqueue:
  assumes core: "core V C (Y \<union> {k}) T st" and k: "T k = Some task0" "k \<notin> held (workers st)"
      "k \<notin> queued_keys V (policy st)" and pr: "map_of (proofs st) (fst k) \<noteq> None"
    and task: "t_id task = snd k" "t_data task = t_data task0"
  obtains pol where "ap_enqueue_task P st task = st\<lparr>policy := pol\<rparr>"
    and "queued_keys V pol \<subseteq> insert k (queued_keys V (policy st))" and "core V C Y T (st\<lparr>policy := pol\<rparr>)"
proof -
  note c = coreD [OF core]
  from table_okD [OF c(1) k(1)] have p: "td_proof_id (t_data task) = fst k" using task by simp
  with pr task obtain q where q: "get_queued_task st task = Some q" "qkey q = k" "q_task_type q = task_type task0"
    by (auto simp: get_queued_task_def)
  from enqueue_law [OF c(4) q(1)] obtain pol where
    pol: "ap_enqueue_task P st task = st\<lparr>policy := pol\<rparr>" "pv_wf V pol" "pv_charge V pol = pv_charge V (policy st)"
      "pv_queued V pol = (if queueable V (task_type task) then add_mset q (pv_queued V (policy st))
                          else pv_queued V (policy st))" by blast
  have keys: "queued_keys V pol =
      (if queueable V (task_type task0) then insert k (queued_keys V (policy st)) else queued_keys V (policy st))"
    using pol(4) q(2) task(2) by (simp add: queued_keys_def)
  have que: "queue_ok V T (held (workers st)) pol"
  proof (cases "queueable V (task_type task)")
    case True
    with pol(4) have eq: "pv_queued V pol = add_mset q (pv_queued V (policy st))" by simp
    show ?thesis by (rule queue_ok_push [OF c(3) eq]) (use k q in simp_all)
  next
    case False
    with pol(4) c(3) show ?thesis by (simp add: queue_ok_def)
  qed
  have pla: "placed V Y T (held (workers st)) pol" if pl: "placed V (Y \<union> {k}) T (held (workers st)) (policy st)"
    unfolding placed_def
  proof (intro allI impI)
    fix k' task'
    assume t: "T k' = Some task'" "\<not> final_status (t_status task')" "queueable V (task_type task')"
    from placedD [OF pl t] k(1) t keys show "k' \<in> Y \<or> k' \<in> held (workers st) \<or> k' \<in> queued_keys V pol" by auto
  qed
  have "core V C Y T (st\<lparr>policy := pol\<rparr>)"
    using c pol(2,3) que pla by (simp add: core_def charges_ok_def)
  with pol(1) keys that show thesis by (auto split: if_splits)
qed

section \<open>Releasing assignments\<close>

lemma release_assignment_noop:
  assumes same: "same_hold T (p, t_id task) task" and core: "core V C Y T st"
    and acc: "release_assignment P p skip task (st, r) = (st, r)"
    and stuck: "\<And>owner. t_worker task = Some owner \<Longrightarrow> holds_at (workers st) owner (p, t_id task) \<Longrightarrow>
      skip = Some (owner, t_id task)"
  shows "released V p skip [task] st st"
  unfolding released_def
proof (intro conjI allI impI)
  fix task' i
  assume "task' \<in> set [task]" and h: "holds_at (workers st) i (p, t_id task')"
  then have t: "task' = task" by simp
  from h obtain w where w: "map_of (workers st) i = Some w" "(p, t_id task) \<in> set (w_active_tasks w)"
    by (auto simp: holds_at_def t)
  from worker_okD [OF holds_okD [OF coreD(2) [OF core] w(1)] w(2)] same have "t_worker task = Some i"
    unfolding same_hold_def by (metis option.inject)
  with stuck h show "skip = Some (i, t_id task')" by (simp add: t)
qed simp_all

lemma release_assignment_step:
  assumes core: "core V C Y T st" and none: "\<And>k. k \<in> C \<Longrightarrow> fst k \<noteq> p" and Y: "{k. fst k = p} \<subseteq> Y"
    and same: "same_hold T (p, t_id task) task"
    and step: "release_assignment P p skip task (st, r) = (st', r')"
  shows "core V C Y T st' \<and> released V p skip [task] st st'"
proof (cases "\<exists>owner worker. t_worker task = Some owner \<and> skip \<noteq> Some (owner, t_id task) \<and>
    map_of (workers st) owner = Some worker \<and> (p, t_id task) \<in> set (w_active_tasks worker)")
  case False
  then have "st' = st" and "r' = r"
    using step by (auto simp: release_assignment_def split: option.splits if_splits)
  moreover from False have "released V p skip [task] st st"
    using step unfolding \<open>st' = st\<close> \<open>r' = r\<close>
    by (intro release_assignment_noop [OF same core]) (auto simp: holds_at_def)
  ultimately show ?thesis using core by simp
next
  case True
  then obtain owner worker where o: "t_worker task = Some owner" "skip \<noteq> Some (owner, t_id task)"
    and w: "map_of (workers st) owner = Some worker" "(p, t_id task) \<in> set (w_active_tasks worker)" by blast
  from same obtain task0 where t0: "T (p, t_id task) = Some task0" "t_data task0 = t_data task"
    unfolding same_hold_def by blast
  let ?k = "(p, t_id task)"
  let ?w' = "settled (without_task ?k (task_weight_of task) worker)"
  let ?st1 = "send (ToWorker (w_channel worker) (CancelTask p (t_id task))) st"
  let ?st2 = "?st1\<lparr>workers := hm_insert owner ?w' (workers ?st1)\<rparr>"
  have id: "w_id worker = owner" by (rule worker_ok_id [OF holds_okD [OF coreD(2) [OF core] w(1)]])
  have "core V C (insert ?k Y) T (st\<lparr>workers := hm_insert owner ?w' (workers st)\<rparr>)"
    by (rule core_drop_hold [OF core w t0(1)]) (simp add: t0)
  moreover have "insert ?k Y = Y" using Y by auto
  ultimately have core2: "core V C Y T ?st2" by (simp add: core_def send_def)
  from core_uncharge_null [OF core2 none] obtain pol where
    pol: "ap_post_task_update_state P ?st2 (t_id task) (task_weight_of task) p (task_type task) = ?st2\<lparr>policy := pol\<rparr>"
      "pv_queued V pol = pv_queued V (policy ?st2)" "core V C Y T (?st2\<lparr>policy := pol\<rparr>)" .
  have st': "st' = ?st2\<lparr>policy := pol\<rparr>"
    using step o w(2) pol(1)
    by (auto simp: release_assignment_def w(1) id Let_def settle_eq [OF refl])
  have at: "holds_at (workers st') j k' \<longleftrightarrow> holds_at (workers st) j k' \<and> \<not> (j = owner \<and> k' = ?k)" for j k'
    using holds_at_insert [OF w(1), of ?w' ?k j k'] by (simp add: st' send_def)
  have holder: "j = owner" if "holds_at (workers st) j ?k" for j
    using that unique_holder [OF coreD(2) [OF core] _ _ w] by (auto simp: holds_at_def)
  have "released V p skip [task] st st'"
    unfolding released_def at using o(2) holder pol(2) by (auto simp: st' send_def)
  with pol(3) show ?thesis by (simp add: st')
qed

lemma release_fold:
  assumes "core V C Y T st" and "\<And>k. k \<in> C \<Longrightarrow> fst k \<noteq> p" and "{k. fst k = p} \<subseteq> Y"
    and "\<And>task. task \<in> set ts \<Longrightarrow> same_hold T (p, t_id task) task"
    and "fold (release_assignment P p skip) ts (st, r) = (st', r')"
  shows "core V C Y T st' \<and> released V p skip ts st st'"
  using assms(1,4,5)
proof (induction ts arbitrary: st r)
  case Nil
  then show ?case by (simp add: released_Nil)
next
  case (Cons task ts)
  obtain st1 r1 where step: "release_assignment P p skip task (st, r) = (st1, r1)" by fastforce
  from release_assignment_step [OF Cons.prems(1) assms(2,3) Cons.prems(2) step]
  have 1: "core V C Y T st1" "released V p skip [task] st st1" by simp_all
  from Cons.IH [OF 1(1), of r1] Cons.prems(2,3) step
  have "core V C Y T st' \<and> released V p skip ts st1 st'" by simp
  with released_Cons [OF 1(2)] show ?case by blast
qed

text \<open>
  After the removal of a proof, whose tasks the table may still list, no worker holds any of its
  tasks, except the pair left to the caller.
\<close>

lemma delete_proof_core:
  assumes core: "core V C Y T st" and Y: "{k. fst k = p} \<subseteq> Y" and ps: "proofs_ok (proofs st)"
    and pr: "map_of (proofs st) p \<noteq> None" and T: "explains T p (proofs st)"
    and del: "delete_proof P p skip st = (st', r)"
  shows "core V {k \<in> C. fst k \<noteq> p} Y T st'" and "proofs st' = hm_remove p (proofs st)"
    and "shutting_down st' = shutting_down st" and "pv_queued V (policy st') = pv_queued V (policy st)"
    and "holds_at (workers st') i k \<longleftrightarrow> holds_at (workers st) i k \<and> (fst k \<noteq> p \<or> skip = Some (i, snd k))"
proof -
  from pr obtain pr where pr: "map_of (proofs st) p = Some pr" by blast
  have wf: "hm_wf (p_tasks pr)" using proofs_okD [OF ps pr] by (simp add: proof_ok_def)
  have look: "table_of (proofs st) (p, t) = map_of (p_tasks pr) t" for t by (simp add: table_of_def pr)
  from core_deleted [OF core, of p] obtain pol where
    pol: "ap_on_proof_deleted P st p = st\<lparr>policy := pol\<rparr>" "pv_queued V pol = pv_queued V (policy st)"
      "core V {k \<in> C. fst k \<noteq> p} Y T (st\<lparr>policy := pol\<rparr>)" .
  let ?st1 = "st\<lparr>policy := pol, proofs := hm_remove p (proofs st)\<rparr>"
  have ts: "same_hold T (p, t_id task) task" if "task \<in> set (hm_values (p_tasks pr))" for task
  proof -
    from that obtain t where "(t, task) \<in> set (p_tasks pr)" by (auto simp: hm_values_def)
    then have "map_of (p_tasks pr) t = Some task" using wf by (simp add: hm_wf_mem)
    with explainsD(2) [OF T, of t task] show ?thesis by (simp add: look)
  qed
  have "fold (release_assignment P p skip) (hm_values (p_tasks pr)) (?st1, False) = (st', r)"
    using del by (simp add: delete_proof_def pol(1) pr release_remaining_assignments_def)
  moreover have "core V {k \<in> C. fst k \<noteq> p} Y T ?st1" using pol(3) by simp
  ultimately have "core V {k \<in> C. fst k \<noteq> p} Y T st' \<and>
      released V p skip (hm_values (p_tasks pr)) ?st1 st'"
    by (intro release_fold [OF _ _ Y ts]) auto
  then have core': "core V {k \<in> C. fst k \<noteq> p} Y T st'"
    and rel: "released V p skip (hm_values (p_tasks pr)) ?st1 st'" by simp_all
  show "core V {k \<in> C. fst k \<noteq> p} Y T st'" by (rule core')
  show "proofs st' = hm_remove p (proofs st)" "shutting_down st' = shutting_down st"
    "pv_queued V (policy st') = pv_queued V (policy st)"
    using releasedD(1-3) [OF rel] pol(2) by simp_all
  show "holds_at (workers st') i k \<longleftrightarrow> holds_at (workers st) i k \<and> (fst k \<noteq> p \<or> skip = Some (i, snd k))"
  proof
    assume h: "holds_at (workers st') i k"
    then have h0: "holds_at (workers st) i k" using releasedD(4) [OF rel] by fastforce
    have "skip = Some (i, snd k)" if p: "fst k = p"
    proof -
      from h0 obtain w where "map_of (workers st) i = Some w" "k \<in> set (w_active_tasks w)"
        by (auto simp: holds_at_def)
      from worker_okD [OF holds_okD [OF coreD(2) [OF core] this(1)] this(2)] have "T k \<noteq> None" by auto
      with explainsD(3) [OF T, of "snd k"] p obtain task where task: "map_of (p_tasks pr) (snd k) = Some task"
        by (auto simp: look)
      then have "task \<in> set (hm_values (p_tasks pr))" by (force simp: hm_values_def dest: map_of_SomeD)
      moreover have "t_id task = snd k" using explainsD(2) [OF T, of "snd k" task] task by (simp add: look)
      moreover have "k = (p, snd k)" using p by auto
      ultimately show ?thesis using releasedD(6) [OF rel, of task i] h by metis
    qed
    with h0 show "holds_at (workers st) i k \<and> (fst k \<noteq> p \<or> skip = Some (i, snd k))" by blast
  next
    assume "holds_at (workers st) i k \<and> (fst k \<noteq> p \<or> skip = Some (i, snd k))"
    then show "holds_at (workers st') i k" using releasedD(5) [OF rel, of i k] by simp
  qed
qed

text \<open>The policy hook for one task followed by the update of its worker.\<close>

lemma release_hold:
  assumes core: "core V C Y T st" and w: "map_of (workers st) i = Some w" and k: "k \<in> set (w_active_tasks w)"
    and C: "k \<in> C \<or> (\<forall>k' \<in> C. fst k' \<noteq> fst k)" and task0: "T k = Some task0" "t_data task0 = t_data task"
    and w': "w' = without_task k (task_weight_of task) w \<or> w' = settled (without_task k (task_weight_of task) w)"
  obtains pol where
    "ap_post_task_update_state P st t (task_weight_of task) (fst k) (task_type task) = st\<lparr>policy := pol\<rparr>"
    and "pv_queued V pol = pv_queued V (policy st)"
    and "core V (C - {k}) (insert k Y) T (st\<lparr>policy := pol, workers := hm_insert i w' (workers st)\<rparr>)"
    and "held (hm_insert i w' (workers st)) = held (workers st) - {k}"
proof -
  obtain pol where pol: "ap_post_task_update_state P st t (task_weight_of task) (fst k) (task_type task) =
      st\<lparr>policy := pol\<rparr>" "pv_queued V pol = pv_queued V (policy st)" "core V (C - {k}) Y T (st\<lparr>policy := pol\<rparr>)"
  proof (cases "k \<in> C")
    case True
    from core_uncharge [OF core True task0(1) refl, of "task_weight_of task" "task_type task" t] task0(2)
    show thesis by (metis that)
  next
    case False
    with C have "\<And>k'. k' \<in> C \<Longrightarrow> fst k' \<noteq> fst k" and "C - {k} = C" by auto
    with core_uncharge_null [OF core this(1), of t "task_weight_of task" "task_type task"]
    show thesis by (metis that)
  qed
  note drop = core_drop_hold [OF pol(3) _ k task0(1), of i w']
  from drop w w' task0(2) pol(1,2) that show thesis by simp
qed

lemma inv_after_delete:
  assumes core: "core V (held (workers st)) {k. fst k = p} T st"
    and gone: "\<And>k. k \<in> held (workers st) \<Longrightarrow> fst k \<noteq> p" and ps: "proofs_ok (proofs st)"
    and T: "\<And>k. table_of (proofs st) k = (if fst k = p then None else T k)"
  shows "coord_inv V st"
proof -
  have "table_step (held (workers st)) (held (workers st)) T (table_of (proofs st))"
    unfolding table_step_def
  proof (intro conjI allI impI ballI)
    fix k task
    assume "table_of (proofs st) k = Some task"
    then have t: "T k = Some task" unfolding T by (simp split: if_splits)
    moreover have "hold_status (t_status task)" if "k \<in> held (workers st)"
      using held_table [OF coreD(2) [OF core] that] t by (metis option.inject)
    ultimately show "\<exists>task'. T k = Some task' \<and> t_id task = t_id task' \<and> t_data task = t_data task' \<and>
        (final_status (t_status task') \<longrightarrow> final_status (t_status task)) \<and>
        (k \<in> held (workers st) \<longrightarrow> t_worker task = t_worker task' \<and> hold_status (t_status task))" by blast
  next
    fix k
    assume "k \<in> held (workers st) \<union> held (workers st)"
    then have k: "k \<in> held (workers st)" by simp
    with held_table [OF coreD(2) [OF core] k] gone [OF k] show "table_of (proofs st) k \<noteq> None"
      unfolding T by (metis option.distinct(1))
  qed
  from core_table_step [OF core this]
  have "core V (held (workers st)) ({} \<union> {k. fst k = p}) (table_of (proofs st)) st" by simp
  then have "core V (held (workers st)) {} (table_of (proofs st)) st"
    by (rule core_arrive) (simp add: T)
  with ps show ?thesis by (simp add: coord_inv_def)
qed

text \<open>
  A proof is removed while at most one of its tasks is still to be released by the caller, who then
  does so.  \<open>T\<close> is the table that explains the holds; off the removed proof it is the stored one.
\<close>

lemma delete_core_facts:
  assumes core: "core V (held (workers st)) {} T st" and ps: "proofs_ok (proofs st)"
    and pr: "map_of (proofs st) p \<noteq> None" and T: "explains T p (proofs st)"
    and del: "delete_proof P p skip st = (st', r)"
  shows "core V {k \<in> held (workers st). fst k \<noteq> p} {k. fst k = p} T st'"
    and "proofs st' = hm_remove p (proofs st)"
    and "proofs_ok (proofs st')" and "table_of (proofs st') k = (if fst k = p then None else T k)"
    and "holds_at (workers st') i k \<longleftrightarrow> holds_at (workers st) i k \<and> (fst k \<noteq> p \<or> skip = Some (i, snd k))"
proof -
  have core': "core V (held (workers st)) {k. fst k = p} T st" by (rule core_weaken [OF core]) simp
  note d = delete_proof_core [OF core' subset_refl ps pr T del]
  show "core V {k \<in> held (workers st). fst k \<noteq> p} {k. fst k = p} T st'"
    and "proofs st' = hm_remove p (proofs st)" by (fact d)+
  from ps show "proofs_ok (proofs st')" unfolding d(2) by (rule proofs_ok_remove)
  show "table_of (proofs st') k = (if fst k = p then None else T k)"
    unfolding d(2) table_of_remove using explainsD(1) [OF T, of k] by simp
  show "holds_at (workers st') i k \<longleftrightarrow> holds_at (workers st) i k \<and> (fst k \<noteq> p \<or> skip = Some (i, snd k))"
    by (rule d(5))
qed

lemma inv_deleted:
  assumes core: "core V (held (workers st)) {} T st" and ps: "proofs_ok (proofs st)"
    and pr: "map_of (proofs st) p \<noteq> None" and T: "explains T p (proofs st)"
    and del: "delete_proof P p skip st = (st', r)"
    and none: "\<And>i t. skip = Some (i, t) \<Longrightarrow> \<not> holds_at (workers st) i (p, t)"
  shows "coord_inv V st'"
proof -
  note d = delete_core_facts [OF core ps pr T del]
  have at: "holds_at (workers st') i k \<longleftrightarrow> holds_at (workers st) i k \<and> fst k \<noteq> p" for i k
    using none [of i "snd k"] unfolding d(5) by (cases k) auto
  have H: "held (workers st') = {k \<in> held (workers st). fst k \<noteq> p}"
    by (rule set_eqI) (simp add: held_holds_at at)
  show ?thesis
    by (rule inv_after_delete [OF _ _ d(3,4)]) (use d(1) H in auto)
qed

lemma inv_deleted_release:
  assumes core: "core V (held (workers st)) {} T st" and ps: "proofs_ok (proofs st)"
    and pr: "map_of (proofs st) p \<noteq> None" and T: "explains T p (proofs st)"
    and del: "delete_proof P p (Some (i, t)) st = (st1, r)" and st2: "same_sched st1 st2"
    and task0: "T (p, t) = Some task0" "t_data task0 = t_data task"
    and w: "map_of (workers st2) i = Some w" "(p, t) \<in> set (w_active_tasks w)"
    and w': "w' = without_task (p, t) (task_weight_of task) w \<or>
             w' = settled (without_task (p, t) (task_weight_of task) w)"
  obtains pol where
    "ap_post_task_update_state P st2 t (task_weight_of task) p (task_type task) = st2\<lparr>policy := pol\<rparr>"
    and "coord_inv V (st2\<lparr>policy := pol, workers := hm_insert i w' (workers st2)\<rparr>)"
proof -
  note d1 = delete_core_facts [OF core ps pr T del]
  have d: "core V {k \<in> held (workers st). fst k \<noteq> p} {k. fst k = p} T st2" "proofs_ok (proofs st2)"
    "\<And>k. table_of (proofs st2) k = (if fst k = p then None else T k)"
    "\<And>j k. holds_at (workers st2) j k \<longleftrightarrow> holds_at (workers st) j k \<and> (fst k \<noteq> p \<or> Some (i, t) = Some (j, snd k))"
    using d1 core_same_sched [OF st2] st2 by (simp_all add: same_sched_def)
  let ?C = "{k \<in> held (workers st). fst k \<noteq> p}" and ?k = "(p, t)"
  have "?k \<in> ?C \<or> (\<forall>k' \<in> ?C. fst k' \<noteq> fst ?k)" by simp
  from release_hold [OF d(1) w this task0 w', of t] obtain pol where
    pol: "ap_post_task_update_state P st2 t (task_weight_of task) (fst ?k) (task_type task) = st2\<lparr>policy := pol\<rparr>"
      "core V (?C - {?k}) (insert ?k {k. fst k = p}) T
         (st2\<lparr>policy := pol, workers := hm_insert i w' (workers st2)\<rparr>)"
      "held (hm_insert i w' (workers st2)) = held (workers st2) - {?k}" .
  have H: "held (hm_insert i w' (workers st2)) = ?C"
    unfolding pol(3) by (rule set_eqI) (auto simp: held_holds_at d(4) split_paired_all)
  have "insert ?k {k. fst k = p} = {k. fst k = p}" and "?C - {?k} = ?C" by auto
  with pol(2) H have "core V (held (hm_insert i w' (workers st2))) {k. fst k = p} T
      (st2\<lparr>policy := pol, workers := hm_insert i w' (workers st2)\<rparr>)" by simp
  then have "coord_inv V (st2\<lparr>policy := pol, workers := hm_insert i w' (workers st2)\<rparr>)"
    using d(2,3) H by (intro inv_after_delete) auto
  with pol(1) that show thesis by simp
qed

end

end
