(* ===== verification/Coord_Handlers.thy ===== *)
theory Coord_Handlers
  imports Coord_Preserve
begin

text \<open>
  The handlers of the coordinator keep the invariant.  Two of them need an assumption about their
  arguments: a new task has a fresh id and a weight below \<open>2 ^ 31\<close>, and the fleet has a total capacity
  below \<open>2 ^ 31\<close>.
\<close>

section \<open>Admissible requests\<close>

definition fresh_task :: "'p PolicyView \<Rightarrow> TaskId \<Rightarrow> 'p CoordinatorState \<Rightarrow> bool" where
  "fresh_task V i st \<longleftrightarrow>
     (\<forall>p. (p, i) \<notin> held (workers st) \<and> (p, i) \<notin> queued_keys V (policy st) \<and>
          table_of (proofs st) (p, i) = None)"

definition room_for_task :: "ProofId \<Rightarrow> 'p CoordinatorState \<Rightarrow> bool" where
  "room_for_task p st \<longleftrightarrow>
     (case map_of (proofs st) p of None \<Rightarrow> True | Some proof \<Rightarrow> length (p_tasks proof) + 1 < 2 ^ 32)"

lemma inv_frame [simp]:
  "coord_inv V (st\<lparr>wire := m\<rparr>) = coord_inv V st"
  "coord_inv V (st\<lparr>total_tasks := n\<rparr>) = coord_inv V st"
  "coord_inv V (st\<lparr>gpu_busy_ms_total := n\<rparr>) = coord_inv V st"
  "coord_inv V (st\<lparr>gpu_available_ms_total := n\<rparr>) = coord_inv V st"
  "coord_inv V (st\<lparr>gpu_available_last_tick := n\<rparr>) = coord_inv V st"
  "coord_inv V (st\<lparr>proofs_tx := tx\<rparr>) = coord_inv V st"
  "coord_inv V (st\<lparr>execute_only_mode := b\<rparr>) = coord_inv V st"
  "coord_inv V (st\<lparr>worker_heartbeat_timeout_secs := n\<rparr>) = coord_inv V st"
  "coord_inv V (send msg st) = coord_inv V st"
  by (simp_all add: coord_inv_def) (simp_all add: send_def)

lemma invD:
  assumes "coord_inv V st"
  shows "proofs_ok (proofs st)" and "core V (held (workers st)) {} (table_of (proofs st)) st"
  using assms by (simp_all add: coord_inv_def)

text \<open>
  How a handler ends: in a state that satisfies the invariant and stores the proofs \<open>ps\<close>, possibly
  followed by a run of the assignment loop.
\<close>

definition settles ::
  "'p AssignmentPolicy \<Rightarrow> 'p PolicyView \<Rightarrow> (ProofId, Proof) hash_map \<Rightarrow> 'p CoordinatorState \<Rightarrow> bool" where
  "settles P V ps st' \<longleftrightarrow>
     (\<exists>st now. coord_inv V st \<and> proofs st = ps \<and> (st' = st \<or> st' = ap_assign_tasks P now st))"

lemma settlesI:
  "coord_inv V st \<Longrightarrow> proofs st = ps \<Longrightarrow> settles P V ps st"
  "coord_inv V st \<Longrightarrow> proofs st = ps \<Longrightarrow> settles P V ps (ap_assign_tasks P now st)"
  unfolding settles_def by blast+

text \<open>
  How the stored tasks may change in an operation that leaves the effects \<open>effs\<close>.  The effects
  account for the end of a task if they close its message channel and notify all its subscribers of a
  final status.  Nothing appears; an unfinished task neither vanishes nor finishes unless the effects
  account for it, and it keeps its subscribers; a success stays a success; the payload of a task
  never changes.
\<close>

definition notified :: "effect list \<Rightarrow> key \<Rightarrow> string set" where
  "notified effs k =
     {s. \<exists>ss status. Notify ss (fst k) (snd k) status \<in> set effs \<and> final_status status \<and> s \<in> set ss}"

definition accounts :: "effect list \<Rightarrow> key \<Rightarrow> Task \<Rightarrow> bool" where
  "accounts effs k task \<longleftrightarrow>
     CloseChannel (snd k) \<in> set effs \<and> set (t_subscribers task) \<subseteq> notified effs k"

definition task_evolves :: "bool \<Rightarrow> Task \<Rightarrow> Task option \<Rightarrow> bool" where
  "task_evolves accounted task later \<longleftrightarrow>
     (case later of
        None \<Rightarrow> accounted \<or> final_status (t_status task)
      | Some task' \<Rightarrow>
          t_id task' = t_id task \<and> t_data task' = t_data task \<and> t_created_at task' = t_created_at task \<and>
          (t_status task = Succeeded \<longrightarrow> t_status task' = Succeeded) \<and>
          (final_status (t_status task) \<longrightarrow> final_status (t_status task')) \<and>
          (final_status (t_status task') \<longrightarrow> accounted \<or> final_status (t_status task)) \<and>
          (\<not> final_status (t_status task') \<longrightarrow> set (t_subscribers task) \<subseteq> set (t_subscribers task')))"

definition evolves :: "effect list \<Rightarrow> table \<Rightarrow> table \<Rightarrow> bool" where
  "evolves effs T T' \<longleftrightarrow>
     (\<forall>k. case T k of None \<Rightarrow> T' k = None | Some task \<Rightarrow> task_evolves (accounts effs k task) task (T' k))"

lemma accountsI:
  "CloseChannel (snd k) \<in> set effs \<Longrightarrow> Notify (t_subscribers task) (fst k) (snd k) status \<in> set effs \<Longrightarrow>
     final_status status \<Longrightarrow> accounts effs k task"
  unfolding accounts_def notified_def by blast

lemma accounts_mono: "accounts effs k task \<Longrightarrow> set effs \<subseteq> set effs' \<Longrightarrow> accounts effs' k task"
  unfolding accounts_def notified_def by fast

lemma accounts_fewer:
  "accounts effs k task' \<Longrightarrow> set (t_subscribers task) \<subseteq> set (t_subscribers task') \<Longrightarrow> accounts effs k task"
  unfolding accounts_def by blast

lemma evolvesD:
  assumes "evolves effs T T'"
  shows "T k = None \<Longrightarrow> T' k = None" and "T k = Some task \<Longrightarrow> task_evolves (accounts effs k task) task (T' k)"
  using spec [OF assms [unfolded evolves_def], of k] by simp_all

lemma evolvesI:
  assumes "\<And>k. T k = None \<Longrightarrow> T' k = None"
    and "\<And>k task. T k = Some task \<Longrightarrow> task_evolves (accounts effs k task) task (T' k)"
  shows "evolves effs T T'"
  unfolding evolves_def
proof
  fix k
  show "case T k of None \<Rightarrow> T' k = None | Some task \<Rightarrow> task_evolves (accounts effs k task) task (T' k)"
    using assms by (cases "T k") simp_all
qed

lemma task_evolves_refl [simp]: "task_evolves b task (Some task)"
  by (simp add: task_evolves_def)

lemma evolves_refl [simp]: "evolves effs T T"
  by (rule evolvesI) simp_all

lemma evolves_trans:
  assumes "evolves effs T T'" and "evolves effs' T' T''"
  shows "evolves (effs @ effs') T T''"
proof (rule evolvesI)
  fix k
  show "T'' k = None" if "T k = None"
    using that by (intro evolvesD(1) [OF assms(2)] evolvesD(1) [OF assms(1)])
  fix task
  assume T: "T k = Some task"
  note first = evolvesD(2) [OF assms(1) T]
  have left: "accounts effs k task \<Longrightarrow> accounts (effs @ effs') k task" by (erule accounts_mono) simp
  show "task_evolves (accounts (effs @ effs') k task) task (T'' k)"
  proof (cases "T' k")
    case None
    with first left evolvesD(1) [OF assms(2) None] show ?thesis by (auto simp: task_evolves_def)
  next
    case (Some task')
    have right: "accounts (effs @ effs') k task"
      if "accounts effs' k task'" and "\<not> final_status (t_status task')"
    proof -
      have "accounts (effs @ effs') k task'" by (rule accounts_mono [OF that(1)]) simp
      then show ?thesis by (rule accounts_fewer) (use first Some that(2) in \<open>simp add: task_evolves_def\<close>)
    qed
    from first evolvesD(2) [OF assms(2) Some] left right show ?thesis
      by (auto simp: Some task_evolves_def split: option.splits)
  qed
qed

lemma evolves_update:
  "T k = Some task \<Longrightarrow> task_evolves (accounts effs k task) task (Some task') \<Longrightarrow> evolves effs T (T(k \<mapsto> task'))"
  by (rule evolvesI) (auto split: if_splits)

section \<open>New proofs and tasks\<close>

lemma worker_ok_cong:
  assumes "worker_ok T i w" and "\<And>k. k \<in> set (w_active_tasks w) \<Longrightarrow> T' k = T k"
  shows "worker_ok T' i w"
  using assms unfolding worker_ok_def by simp

lemma core_new_task:
  assumes core: "core V (held (workers st)) {} T st"
    and k: "T k = None" "k \<notin> held (workers st)" "k \<notin> queued_keys V (policy st)"
    and task: "t_id task = snd k" "td_proof_id (t_data task) = fst k" "task_weight_of task < 2 ^ 31"
  shows "core V (held (workers st)) {k} (T(k \<mapsto> task)) st"
proof -
  note c = coreD [OF core]
  have tab: "table_ok (T(k \<mapsto> task))"
    unfolding table_ok_def using table_okD [OF c(1)] task by (auto simp: fun_upd_def)
  have notin: "k \<notin> set (w_active_tasks w)" if "map_of (workers st) i = Some w" for i w
    using heldI [OF that] k(2) by blast
  have "holds_ok (T(k \<mapsto> task)) (workers st)"
    unfolding holds_ok_def
  proof (intro conjI allI impI)
    fix i w
    assume w: "map_of (workers st) i = Some w"
    show "worker_ok (T(k \<mapsto> task)) i w"
      by (rule worker_ok_cong [OF holds_okD [OF c(2) w]]) (use notin [OF w] in auto)
  qed (use c(2) in \<open>simp add: holds_ok_def\<close>)
  moreover have "queue_ok V (T(k \<mapsto> task)) (held (workers st)) (policy st)"
    using queue_ok_update [OF c(3) k(3), of task] unfolding queue_ok_def by blast
  moreover have "loads_ok (T(k \<mapsto> task)) (workers st)" if "loads_ok T (workers st)"
    unfolding loads_ok_def
  proof (intro allI impI)
    fix i w
    assume w: "map_of (workers st) i = Some w"
    from loads_okD [OF that w] notin [OF w] show "loaded (T(k \<mapsto> task)) w"
      by (simp add: loaded_def load_update)
  qed
  moreover have "charges_ok V (held (workers st)) (T(k \<mapsto> task)) (policy st)"
    if ch: "charges_ok V (held (workers st)) T (policy st)"
  proof -
    have "sum (charge_in V (T(k \<mapsto> task))) {k' \<in> held (workers st). fst k' = p} =
        sum (charge_in V T) {k' \<in> held (workers st). fst k' = p}" for p
      by (intro sum_cong_on) (use k(2) in \<open>auto simp: charge_in_def\<close>)
    with ch show ?thesis unfolding charges_ok_def by presburger
  qed
  moreover have "placed V {k} (T(k \<mapsto> task)) (held (workers st)) (policy st)"
    if pl: "placed V {} T (held (workers st)) (policy st)"
    unfolding placed_def
  proof (intro allI impI)
    fix k' task'
    assume t: "(T(k \<mapsto> task)) k' = Some task'" "\<not> final_status (t_status task')" "queueable V (task_type task')"
    show "k' \<in> {k} \<or> k' \<in> held (workers st) \<or> k' \<in> queued_keys V (policy st)"
    proof (cases "k' = k")
      case False
      with t(1) have "T k' = Some task'" by simp
      from placedD [OF pl this t(2,3)] show ?thesis by simp
    qed simp
  qed
  ultimately show ?thesis using c tab by (simp add: core_def)
qed

context assignment_policy
begin

lemma settles_inv: "settles P V ps st \<Longrightarrow> coord_inv V st"
  unfolding settles_def using inv_assign by blast

lemma inv_initial: "coord_inv V (initial_state (ap_default P) now tick)"
  using default_view
  by (simp add: coord_inv_def initial_state_def core_def proofs_ok_def table_ok_def table_of_def holds_ok_def
      queue_ok_def capacity_def loads_ok_def charges_ok_def placed_def)

lemma create_task_internal_settles:
  assumes inv: "coord_inv V st" and fresh: "fresh_task V i st" and weight: "td_weight data < 2 ^ 31"
    and room: "room_for_task (td_proof_id data) st"
  shows "\<exists>ps. settles P V ps (snd (create_task_internal P now i data st)) \<and> table_of (proofs st) \<subseteq>\<^sub>m table_of ps"
proof (cases "map_of (proofs st) (td_proof_id data)")
  case None
  with inv settlesI(1) [of V "st\<lparr>total_tasks := u64_add (total_tasks st) 1\<rparr>" "proofs st"] show ?thesis
    by (intro exI [of _ "proofs st"]) (simp add: create_task_internal_def)
next
  case (Some pr)
  let ?task = "new_task now i data" and ?k = "(td_proof_id data, i)"
  let ?pr = "pr\<lparr>p_active_tasks := u32_add (p_active_tasks pr) 1, p_tasks := hm_insert i ?task (p_tasks pr)\<rparr>"
  let ?ps = "hm_insert (td_proof_id data) ?pr (proofs st)"
  let ?st2 = "st\<lparr>total_tasks := u64_add (total_tasks st) 1, proofs := ?ps\<rparr>"
  note ps = invD(1) [OF inv] and core = invD(2) [OF inv]
  from fresh have new: "table_of (proofs st) ?k = None" "?k \<notin> held (workers st)" "?k \<notin> queued_keys V (policy st)"
    by (simp_all add: fresh_task_def)
  have none: "map_of (p_tasks pr) i = None" using new(1) Some by (simp add: table_of_def)
  have pr: "proof_ok (td_proof_id data) pr" by (rule proofs_okD [OF ps Some])
  have len: "length (p_tasks pr) + 1 < 2 ^ 32" using room Some by (simp add: room_for_task_def)
  have "p_active_tasks pr + 1 < 2 ^ 32"
    using pr live_count_le [of "p_tasks pr"] len unfolding proof_ok_def by linarith
  then have "proof_ok (td_proof_id data) ?pr"
    using pr none len
    by (simp add: proof_ok_def live_count_insert_new length_insert_new new_task_def)
  with ps have ps2: "proofs_ok ?ps" by (rule proofs_ok_insert)
  have T: "table_of ?ps = (table_of (proofs st))(?k \<mapsto> ?task)"
    by (rule table_of_insert [OF Some]) simp
  have "core V (held (workers st)) {?k} (table_of ?ps) st"
    unfolding T by (rule core_new_task [OF core new]) (use weight in \<open>simp_all add: new_task_def\<close>)
  then have core2: "core V (held (workers st)) ({} \<union> {?k}) (table_of ?ps) ?st2" by simp
  from core_enqueue [OF core2, of ?task ?task] obtain pol where
    "ap_enqueue_task P ?st2 ?task = ?st2\<lparr>policy := pol\<rparr>"
    "core V (held (workers st)) {} (table_of ?ps) (?st2\<lparr>policy := pol\<rparr>)"
    using new T by (auto simp: new_task_def)
  with ps2 have "coord_inv V (ap_enqueue_task P ?st2 ?task)" "proofs (ap_enqueue_task P ?st2 ?task) = ?ps"
    by (simp_all add: coord_inv_def)
  note ends = settlesI(2) [OF this]
  moreover have "table_of (proofs st) \<subseteq>\<^sub>m table_of ?ps" unfolding T using new(1) by (auto simp: map_le_def)
  ultimately show ?thesis
    by (intro exI [of _ ?ps]) (simp add: create_task_internal_def Let_def Some)
qed

end

lemma inv_new_proof:
  assumes inv: "coord_inv V st" and new: "map_of (proofs st) p = None"
  shows "coord_inv V (st\<lparr>proofs := hm_insert p (Proof_new now p e) (proofs st)\<rparr>)"
proof -
  have "table_of (hm_insert p (Proof_new now p e) (proofs st)) = table_of (proofs st)"
    using new by (auto simp: table_of_def fun_eq_iff Proof_new_def)
  moreover have "proof_ok p (Proof_new now p e)" by (simp add: proof_ok_def Proof_new_def live_count_def)
  ultimately show ?thesis
    using invD [OF inv] proofs_ok_insert [of "proofs st" p "Proof_new now p e"] by (simp add: coord_inv_def)
qed

lemma inv_create_dummy_proof: "coord_inv V st \<Longrightarrow> coord_inv V (snd (create_dummy_proof now p e st))"
  by (simp add: create_dummy_proof_def inv_new_proof)

context assignment_policy
begin

lemma create_proof_settles:
  assumes inv: "coord_inv V st" and fresh: "fresh_task V i st" and weight: "weight mod 2 ^ 32 < 2 ^ 31"
  shows "\<exists>ps. settles P V ps (snd (create_proof P now i weight request st)) \<and> table_of (proofs st) \<subseteq>\<^sub>m table_of ps"
proof (cases "shutting_down st \<or> map_of (proofs st) (cpr_proof_id request) \<noteq> None")
  case True
  with settlesI(1) [OF inv refl] show ?thesis
    by (intro exI [of _ "proofs st"]) (auto simp: create_proof_def)
next
  case False
  let ?p = "cpr_proof_id request"
  let ?st1 = "st\<lparr>proofs := hm_insert ?p (Proof_new now ?p (expiry (cpr_expires_at request))) (proofs st)\<rparr>"
  from False have "coord_inv V ?st1" by (intro inv_new_proof [OF inv]) simp
  moreover have "fresh_task V i ?st1"
    using fresh False by (auto simp: fresh_task_def table_of_def Proof_new_def)
  moreover have "room_for_task ?p ?st1" by (simp add: room_for_task_def Proof_new_def)
  moreover have "table_of (proofs ?st1) = table_of (proofs st)"
    using False by (auto simp: table_of_def fun_eq_iff Proof_new_def)
  ultimately show ?thesis
    using False weight create_task_internal_settles [of ?st1 i
      "\<lparr>td_task_type = (if execute_only_mode st then ExecuteOnly else Controller),
        td_inputs = cpr_inputs request, td_outputs = cpr_outputs request,
        td_metadata = ''{}'', td_proof_id = ?p, td_parent_id = None,
        td_weight = weight mod 2 ^ 32, td_requester = cpr_requester request\<rparr>" now]
    by (simp add: create_proof_def Let_def)
qed

end

section \<open>Completing a task\<close>

text \<open>A stored task moves on while its identity, its data and its holder stay.\<close>

lemma inv_update_task:
  assumes inv: "coord_inv V st" and pr: "map_of (proofs st) p = Some pr" "map_of (p_tasks pr) t = Some task"
    and task': "t_id task' = t_id task" "t_data task' = t_data task" "t_worker task' = t_worker task"
      "final_status (t_status task) \<Longrightarrow> final_status (t_status task')"
      "(p, t) \<in> held (workers st) \<Longrightarrow> hold_status (t_status task')"
    and pr': "p_id pr' = p_id pr" "p_tasks pr' = hm_insert t task' (p_tasks pr)"
      "p_active_tasks pr' + live task = p_active_tasks pr + live task'"
  shows "coord_inv V (st\<lparr>proofs := hm_insert p pr' (proofs st)\<rparr>)"
proof -
  note ps = invD(1) [OF inv] and core = invD(2) [OF inv]
  let ?T = "table_of (proofs st)"
  have "p_id pr' = p" using proofs_okD [OF ps pr(1)] pr'(1) by (simp add: proof_ok_def)
  from proof_ok_update [OF proofs_okD [OF ps pr(1)] pr(2) this pr'(2,3)]
  have ps': "proofs_ok (hm_insert p pr' (proofs st))" by (rule proofs_ok_insert [OF ps])
  have T: "table_of (hm_insert p pr' (proofs st)) = ?T((p, t) \<mapsto> task')"
    by (rule table_of_insert [OF pr(1) pr'(2)])
  have k: "?T (p, t) = Some task" by (rule table_of_lookup [OF pr])
  have there: "?T k' \<noteq> None" if "k' \<in> held (workers st)" for k'
    using held_table [OF coreD(2) [OF core] that] by auto
  have "table_step (held (workers st)) (held (workers st)) ?T (?T((p, t) \<mapsto> task'))"
    by (rule table_step_update [OF coreD(2) [OF core] k]) (use task' there in simp_all)
  from core_table_step [OF core this] ps' show ?thesis by (simp add: coord_inv_def T)
qed

lemma succeed_task_simps [simp]:
  "t_id (succeed_task i task) = t_id task" "t_data (succeed_task i task) = t_data task"
  "t_worker (succeed_task i task) = t_worker task" "t_status (succeed_task i task) = Succeeded"
  by (simp_all add: succeed_task_def)

lemma u32_sub_one: "0 < n \<Longrightarrow> n < 2 ^ 32 \<Longrightarrow> u32_sub n 1 = n - 1"
  by (rule wrapping_sub_eq) simp_all

text \<open>The counter of a proof is positive, and small, as long as one of its tasks is unfinished.\<close>

lemma active_tasks_pos:
  assumes "proof_ok p pr" and "map_of (p_tasks pr) t = Some task" and "\<not> final_status (t_status task)"
  shows "0 < p_active_tasks pr" and "p_active_tasks pr < 2 ^ 32"
    and "u32_sub (p_active_tasks pr) 1 = p_active_tasks pr - 1"
proof -
  show pos: "0 < p_active_tasks pr" using assms live_count_pos by (simp add: proof_ok_def)
  show lt: "p_active_tasks pr < 2 ^ 32"
    using assms(1) live_count_le [of "p_tasks pr"] unfolding proof_ok_def by linarith
  show "u32_sub (p_active_tasks pr) 1 = p_active_tasks pr - 1" by (rule u32_sub_one [OF pos lt])
qed

lemma inv_succeed:
  assumes inv: "coord_inv V st" and pr: "map_of (proofs st) p = Some pr" "map_of (p_tasks pr) t = Some task"
  shows "coord_inv V (st\<lparr>proofs := hm_insert p (succeed_in_proof i t task pr) (proofs st)\<rparr>)"
proof (rule inv_update_task [OF inv pr, where task' = "succeed_task i task"])
  note ok = proofs_okD [OF invD(1) [OF inv] pr(1)]
  show "p_active_tasks (succeed_in_proof i t task pr) + live task =
      p_active_tasks pr + live (succeed_task i task)"
    using active_tasks_pos [OF ok pr(2)] by (simp add: succeed_in_proof_def)
qed (simp_all add: succeed_in_proof_def hold_status_def)

context assignment_policy
begin

lemma release_slot_eq:
  "release_slot P i k tw st =
     (if holds_at (workers st) i k
      then (st\<lparr>workers := hm_insert i (settled (without_task k tw (the (map_of (workers st) i)))) (workers st)\<rparr>, True)
      else (st, False))"
  by (auto simp: release_slot_def holds_at_def settle_eq split: option.splits)

text \<open>The release of a finished task of a proof that stays.\<close>

lemma inv_release:
  assumes inv: "coord_inv V st" and task0: "table_of (proofs st) k = Some task0" "t_data task0 = t_data task"
      "final_status (t_status task0)"
    and w: "map_of (workers st) i = Some w" "k \<in> set (w_active_tasks w)"
    and w': "w' = without_task k (task_weight_of task) w \<or> w' = settled (without_task k (task_weight_of task) w)"
  obtains pol where
    "ap_post_task_update_state P st t (task_weight_of task) (fst k) (task_type task) = st\<lparr>policy := pol\<rparr>"
    and "coord_inv V (st\<lparr>policy := pol, workers := hm_insert i w' (workers st)\<rparr>)"
proof -
  note core = invD(2) [OF inv]
  have "k \<in> held (workers st) \<or> (\<forall>k' \<in> held (workers st). fst k' \<noteq> fst k)" using heldI [OF w] by blast
  from release_hold [OF core w this task0(1,2) w', of t] obtain pol where
    pol: "ap_post_task_update_state P st t (task_weight_of task) (fst k) (task_type task) = st\<lparr>policy := pol\<rparr>"
      "core V (held (workers st) - {k}) (insert k {}) (table_of (proofs st))
         (st\<lparr>policy := pol, workers := hm_insert i w' (workers st)\<rparr>)"
      "held (hm_insert i w' (workers st)) = held (workers st) - {k}" .
  have "core V (held (workers st) - {k}) {} (table_of (proofs st))
      (st\<lparr>policy := pol, workers := hm_insert i w' (workers st)\<rparr>)"
    by (rule core_arrive [where D = "{k}"]) (use pol(2) task0 in auto)
  with invD(1) [OF inv] pol that show thesis by (simp add: coord_inv_def)
qed

lemma inv_finish_kept:
  assumes inv: "coord_inv V st" and task0: "table_of (proofs st) (p, t) = Some task0" "t_data task0 = t_data task"
      "final_status (t_status task0)" and n: "n \<noteq> 0"
  shows "settles P V (proofs st) (finish_completion P now i p t task n credit gpu_ms st)"
proof -
  define st2 where "st2 = (if credit then st\<lparr>gpu_busy_ms_total := saturating_add 64 (gpu_busy_ms_total st) gpu_ms\<rparr> else st)"
  have inv2: "coord_inv V st2" using inv by (simp add: st2_def)
  have T: "table_of (proofs st2) (p, t) = Some task0" using task0 by (simp add: st2_def)
  show ?thesis
  proof (cases "holds_at (workers st2) i (p, t)")
    case True
    then obtain w where w: "map_of (workers st2) i = Some w" "(p, t) \<in> set (w_active_tasks w)"
      by (auto simp: holds_at_def)
    let ?w' = "settled (without_task (p, t) (task_weight_of task) w)"
    from inv_release [OF inv2 T task0(2,3) w, of ?w' t] obtain pol where
      pol: "ap_post_task_update_state P st2 t (task_weight_of task) p (task_type task) = st2\<lparr>policy := pol\<rparr>"
        "coord_inv V (st2\<lparr>policy := pol, workers := hm_insert i ?w' (workers st2)\<rparr>)" by auto
    have "release_slot P i (p, t) (task_weight_of task) (st2\<lparr>policy := pol\<rparr>) =
        (st2\<lparr>policy := pol, workers := hm_insert i ?w' (workers st2)\<rparr>, True)"
      using True w by (simp add: release_slot_eq)
    then have "finish_completion P now i p t task n credit gpu_ms st =
        ap_assign_tasks P now (st2\<lparr>policy := pol, workers := hm_insert i ?w' (workers st2)\<rparr>)"
      using n w pol(1) by (simp add: finish_completion_def Let_def flip: st2_def)
    moreover have "proofs st2 = proofs st" by (simp add: st2_def)
    ultimately show ?thesis using settlesI(2) [OF pol(2)] by simp
  next
    case False
    then have "finish_completion P now i p t task n credit gpu_ms st = st2"
      using n by (auto simp: finish_completion_def Let_def release_slot_eq holds_at_def split: option.splits
          simp flip: st2_def)
    with settlesI(1) [OF inv2] show ?thesis by (simp add: st2_def)
  qed
qed

lemma inv_finish_deleted:
  assumes inv: "coord_inv V st" and pr: "map_of (proofs st) p \<noteq> None"
    and task0: "table_of (proofs st) (p, t) = Some task0" "t_data task0 = t_data task"
  shows "settles P V (hm_remove p (proofs st)) (finish_completion P now i p t task 0 credit gpu_ms st)"
proof -
  note ps = invD(1) [OF inv] and core = invD(2) [OF inv]
  note T = explains_refl [OF coreD(1) [OF core], of p]
  obtain st1 r where del: "delete_proof P p (Some (i, t)) st = (st1, r)" by fastforce
  define st2 where "st2 = st1\<lparr>gpu_busy_ms_total :=
    (if credit then saturating_add 64 (gpu_busy_ms_total st1) gpu_ms else gpu_busy_ms_total st1)\<rparr>"
  have st2: "(if credit then st1\<lparr>gpu_busy_ms_total := saturating_add 64 (gpu_busy_ms_total st1) gpu_ms\<rparr> else st1) = st2"
    by (simp add: st2_def)
  have same: "same_sched st1 st2" by (simp add: same_sched_def st2_def)
  have at: "holds_at (workers st2) i (p, t) \<longleftrightarrow> holds_at (workers st) i (p, t)"
    using delete_core_facts(5) [OF core ps pr T del, of i "(p, t)"] by (simp add: st2_def)
  have ps2: "proofs st2 = hm_remove p (proofs st)"
    using delete_core_facts(2) [OF core ps pr T del] by (simp add: st2_def)
  show ?thesis
  proof (cases "holds_at (workers st2) i (p, t)")
    case True
    then obtain w where w: "map_of (workers st2) i = Some w" "(p, t) \<in> set (w_active_tasks w)"
      by (auto simp: holds_at_def)
    let ?w' = "settled (without_task (p, t) (task_weight_of task) w)"
    from inv_deleted_release [OF core ps pr T del same task0 w, of ?w'] obtain pol where
      pol: "ap_post_task_update_state P st2 t (task_weight_of task) p (task_type task) = st2\<lparr>policy := pol\<rparr>"
        "coord_inv V (st2\<lparr>policy := pol, workers := hm_insert i ?w' (workers st2)\<rparr>)" by auto
    have "release_slot P i (p, t) (task_weight_of task) (st2\<lparr>policy := pol\<rparr>) =
        (st2\<lparr>policy := pol, workers := hm_insert i ?w' (workers st2)\<rparr>, True)"
      using True w by (simp add: release_slot_eq)
    then have "finish_completion P now i p t task 0 credit gpu_ms st =
        ap_assign_tasks P now (st2\<lparr>policy := pol, workers := hm_insert i ?w' (workers st2)\<rparr>)"
      using w pol(1) by (simp add: finish_completion_def Let_def del st2)
    with settlesI(2) [OF pol(2)] ps2 show ?thesis by simp
  next
    case False
    then have fin: "finish_completion P now i p t task 0 credit gpu_ms st =
        (if r then ap_assign_tasks P now st2 else st2)"
      by (auto simp: finish_completion_def Let_def del st2 release_slot_eq holds_at_def split: option.splits)
    have "coord_inv V st1"
      by (rule inv_deleted [OF core ps pr T del]) (use False at in auto)
    then have "coord_inv V st2" by (simp add: st2_def)
    from settlesI [OF this ps2] show ?thesis unfolding fin by simp
  qed
qed

lemma complete_task_settles:
  assumes inv: "coord_inv V st" and run: "complete_task P now i p t m st = Inr (effs, st')"
  obtains pr task where "map_of (proofs st) p = Some pr" and "map_of (p_tasks pr) t = Some task"
    and "t_status task \<noteq> Succeeded \<Longrightarrow> accounts effs (p, t) task"
    and "settles P V
      (if p_active_tasks (succeed_in_proof i t task pr) = 0
       then hm_remove p (hm_insert p (succeed_in_proof i t task pr) (proofs st))
       else hm_insert p (succeed_in_proof i t task pr) (proofs st)) st'"
proof -
  from run obtain pr task where pr: "map_of (proofs st) p = Some pr" "map_of (p_tasks pr) t = Some task"
    by (auto simp: complete_task_def split: option.splits)
  let ?pr = "succeed_in_proof i t task pr"
  let ?st1 = "st\<lparr>proofs := hm_insert p ?pr (proofs st)\<rparr>"
  have st': "st' = finish_completion P now i p t task (p_active_tasks ?pr)
      (fst (credit_attempt i (t_gpu_attempts task))) (tm_gpu_ms m) ?st1"
    and effs: "t_status task \<noteq> Succeeded \<Longrightarrow> accounts effs (p, t) task"
    using run by (auto simp: complete_task_def pr Let_def success_proof_law success_state_law accounts_def notified_def)
  note inv1 = inv_succeed [OF inv pr, of i]
  have T: "table_of (proofs ?st1) (p, t) = Some (succeed_task i task)"
    by (simp add: table_of_def succeed_in_proof_def)
  have "settles P V (if p_active_tasks ?pr = 0 then hm_remove p (proofs ?st1) else proofs ?st1) st'"
  proof (cases "p_active_tasks ?pr = 0")
    case True
    have "settles P V (hm_remove p (proofs ?st1)) st'"
      unfolding st' True by (rule inv_finish_deleted [OF inv1 _ T]) simp_all
    with True show ?thesis by simp
  next
    case False
    have "settles P V (proofs ?st1) st'"
      unfolding st' by (rule inv_finish_kept [OF inv1 T _ _ False]) simp_all
    with False show ?thesis by simp
  qed
  then have "settles P V (if p_active_tasks ?pr = 0 then hm_remove p (hm_insert p ?pr (proofs st))
      else hm_insert p ?pr (proofs st)) st'" by (auto split: if_splits)
  with pr effs that show thesis by blast
qed

lemma inv_complete_task:
  "coord_inv V st \<Longrightarrow> complete_task P now i p t m st = Inr (effs, st') \<Longrightarrow> coord_inv V st'"
  by (erule (1) complete_task_settles) (rule settles_inv)

section \<open>Failing a proof\<close>

lemma delete_missing:
  assumes inv: "coord_inv V st" and none: "map_of (proofs st) p = None"
  shows "coord_inv V (fst (delete_proof P p skip st)) \<and> proofs (fst (delete_proof P p skip st)) = proofs st"
proof -
  note ps = invD(1) [OF inv] and core = invD(2) [OF inv]
  from core_deleted [OF core, of p] obtain pol where
    pol: "ap_on_proof_deleted P st p = st\<lparr>policy := pol\<rparr>"
      "core V {k \<in> held (workers st). fst k \<noteq> p} {} (table_of (proofs st)) (st\<lparr>policy := pol\<rparr>)" .
  have "fst k \<noteq> p" if "k \<in> held (workers st)" for k
  proof -
    from held_table [OF coreD(2) [OF core] that] obtain task where "table_of (proofs st) k = Some task" .
    with none show ?thesis by (auto simp: table_of_def)
  qed
  then have "{k \<in> held (workers st). fst k \<noteq> p} = held (workers st)" by blast
  with pol ps show ?thesis
    by (simp add: delete_proof_def none coord_inv_def)
qed

lemma inv_tear_down:
  assumes inv: "coord_inv V st"
  shows "coord_inv V (snd (tear_down_proof P p notify extra None st)) \<and>
    proofs (snd (tear_down_proof P p notify extra None st)) = hm_remove p (proofs st)"
proof -
  note ps = invD(1) [OF inv] and core = invD(2) [OF inv]
  have "coord_inv V (fst (delete_proof P p None st)) \<and>
      proofs (fst (delete_proof P p None st)) = hm_remove p (proofs st)"
  proof (cases "map_of (proofs st) p")
    case None
    then have "hm_remove p (proofs st) = proofs st" by (simp add: map_of_eq_None_iff)
    with delete_missing [OF inv None] show ?thesis by simp
  next
    case (Some pr)
    obtain st1 r where del: "delete_proof P p None st = (st1, r)" by fastforce
    have "coord_inv V st1"
      by (rule inv_deleted [OF core ps _ explains_refl [OF coreD(1) [OF core]] del]) (simp_all add: Some)
    with del delete_core_facts(2) [OF core ps _ explains_refl [OF coreD(1) [OF core]] del] Some
    show ?thesis by simp
  qed
  then show ?thesis
    by (simp add: tear_down_proof_def Let_def send_def split: option.splits)
qed

lemma inv_fail_proof:
  assumes inv: "coord_inv V st" and run: "fail_proof_internal P p blamed notify extra None st = Inr (effs, st')"
  shows "coord_inv V st'"
proof -
  from run have "st' = st \<or> st' = snd (tear_down_proof P p notify extra None st)"
    by (auto simp: fail_proof_internal_def split: if_splits option.splits prod.splits)
  with inv inv_tear_down [OF inv] show ?thesis by auto
qed

section \<open>Failing a task\<close>

lemma release_failed_eq:
  assumes "ap_post_task_update_state P st t (task_weight_of task) p (task_type task) = st\<lparr>policy := pol\<rparr>"
    and "map_of (workers st) i = Some w"
  shows "release_failed P now i p t task st =
    (let st2 = st\<lparr>policy := pol, workers := hm_insert i (without_task (p, t) (task_weight_of task) w) (workers st)\<rparr>
     in ap_assign_tasks P now (if t_status task = FailedRetryable then ap_enqueue_task P st2 task else st2))"
  using assms by (simp add: release_failed_def Let_def)

text \<open>The failed task belongs to a proof that is being removed.\<close>

lemma inv_fail_deleted:
  assumes core: "core V (held (workers st)) {} T st" and ps: "proofs_ok (proofs st)"
    and pr: "map_of (proofs st) p \<noteq> None" and T: "explains T p (proofs st)"
    and at: "holds_at (workers st) i (p, t)" and del: "delete_proof P p (Some (i, t)) st = (st1, r)"
    and st2: "same_sched st1 st2" and task0: "T (p, t) = Some task0" "t_data task0 = t_data task"
    and fatal: "t_status task = FailedFatal"
  shows "settles P V (hm_remove p (proofs st)) (release_failed P now i p t task st2)"
proof -
  have "holds_at (workers st2) i (p, t)"
    using delete_core_facts(5) [OF core ps pr T del, of i "(p, t)"] at st2 by (simp add: same_sched_def)
  then obtain w where w: "map_of (workers st2) i = Some w" "(p, t) \<in> set (w_active_tasks w)"
    by (auto simp: holds_at_def)
  let ?w' = "without_task (p, t) (task_weight_of task) w"
  from inv_deleted_release [OF core ps pr T del st2 task0 w, of ?w'] obtain pol where
    pol: "ap_post_task_update_state P st2 t (task_weight_of task) p (task_type task) = st2\<lparr>policy := pol\<rparr>"
      "coord_inv V (st2\<lparr>policy := pol, workers := hm_insert i ?w' (workers st2)\<rparr>)" by auto
  have "proofs st2 = hm_remove p (proofs st)"
    using delete_core_facts(2) [OF core ps pr T del] st2 by (simp add: same_sched_def)
  with settlesI(2) [OF pol(2)] show ?thesis
    by (simp add: release_failed_eq [OF pol(1) w(1)] fatal)
qed

text \<open>The failed task belongs to a proof that stays: it is finished, or queued again.\<close>

lemma inv_fail_kept:
  assumes core: "core V (held (workers st)) {} T st" and ps: "proofs_ok (proofs st)"
    and pr: "map_of (proofs st) p \<noteq> None" and task0: "T (p, t) = Some task0"
    and tab: "table_of (proofs st) = T((p, t) \<mapsto> task)"
    and task: "t_id task = t_id task0" "t_data task = t_data task0" "\<not> final_status (t_status task0)"
      "t_status task = FailedFatal \<or> t_status task = FailedRetryable"
    and w: "map_of (workers st) i = Some w" "(p, t) \<in> set (w_active_tasks w)"
  shows "settles P V (proofs st) (release_failed P now i p t task st)"
proof -
  let ?k = "(p, t)" and ?w' = "without_task (p, t) (task_weight_of task) w"
  note c = coreD [OF core]
  have H: "?k \<in> held (workers st)" by (rule heldI [OF w])
  from release_hold [OF core w _ task0, of task ?w' t] H task obtain pol where
    pol: "ap_post_task_update_state P st t (task_weight_of task) p (task_type task) = st\<lparr>policy := pol\<rparr>"
      "pv_queued V pol = pv_queued V (policy st)"
      "core V (held (workers st) - {?k}) {?k} T (st\<lparr>policy := pol, workers := hm_insert i ?w' (workers st)\<rparr>)"
      "held (hm_insert i ?w' (workers st)) = held (workers st) - {?k}" by auto
  let ?st2 = "st\<lparr>policy := pol, workers := hm_insert i ?w' (workers st)\<rparr>"
  have there: "T k \<noteq> None" if "k \<in> held (workers st)" for k
    using held_table [OF c(2) that] by auto
  have "table_step (held (workers ?st2)) (held (workers st) - {?k}) T (T(?k \<mapsto> task))"
    by (rule table_step_update [OF c(2) task0 task(1,2)]) (use task(3) pol(4) there in auto)
  from core_table_step [OF pol(3) this] have core2:
    "core V (held (workers ?st2)) ({} \<union> {?k}) (table_of (proofs ?st2)) ?st2" using pol(4) by (simp add: tab)
  have "coord_inv V (if t_status task = FailedRetryable then ap_enqueue_task P ?st2 task else ?st2) \<and>
      proofs (if t_status task = FailedRetryable then ap_enqueue_task P ?st2 task else ?st2) = proofs st"
  proof (cases "t_status task = FailedRetryable")
    case True
    have nq: "?k \<notin> queued_keys V (policy ?st2)"
      using H c(3) pol(2) unfolding queued_keys_def queue_ok_def by auto
    have k: "t_id task = snd ?k" using table_okD [OF c(1) task0] task(1) by simp
    have nh: "?k \<notin> held (workers ?st2)" using pol(4) by simp
    have T2: "table_of (proofs ?st2) ?k = Some task" by (simp add: tab)
    have pr2: "map_of (proofs ?st2) (fst ?k) \<noteq> None" using pr by simp
    from core_enqueue [OF core2 T2 nh nq pr2 k refl] obtain pol' where
      "ap_enqueue_task P ?st2 task = ?st2\<lparr>policy := pol'\<rparr>"
      "core V (held (workers ?st2)) {} (table_of (proofs ?st2)) (?st2\<lparr>policy := pol'\<rparr>)" .
    with True ps show ?thesis by (simp add: coord_inv_def)
  next
    case False
    with task(4) have "final_status (t_status task)" by simp
    then have "core V (held (workers ?st2)) {} (table_of (proofs ?st2)) ?st2"
      by (intro core_arrive [OF core2]) (simp add: tab)
    with False ps show ?thesis by (simp add: coord_inv_def)
  qed
  then show ?thesis
    unfolding release_failed_eq [OF pol(1) w(1)] Let_def by (intro settlesI(2)) auto
qed

end

lemma explains_update:
  assumes "table_ok T" and "T (p, t) = Some task" and "table_of ps = T((p, t) \<mapsto> task')"
    and "t_id task' = t_id task" and "t_data task' = t_data task" and "t_worker task' = t_worker task"
  shows "explains T p ps"
  unfolding explains_def same_hold_def
  using assms table_okD [OF assms(1)] by (auto simp: fun_upd_def split: if_splits)

lemma fail_in_task_simps [simp]:
  "t_id (fail_in_task b task) = t_id task" "t_data (fail_in_task b task) = t_data task"
  "t_worker (fail_in_task b task) = t_worker task" "t_status (fail_in_task b task) = failure_status b task"
  by (simp_all add: fail_in_task_def)

lemma failure_status_cases: "failure_status b task = FailedFatal \<or> failure_status b task = FailedRetryable"
  by (simp add: failure_status_def)

lemma manual_fail_fatal: "manual_proof_fail b task \<Longrightarrow> failure_status b task = FailedFatal"
  by (auto simp: manual_proof_fail_def failure_status_def)

lemma fail_in_proof_ok:
  assumes ok: "proof_ok p pr" and task: "map_of (p_tasks pr) t = Some task" and live: "\<not> final_status (t_status task)"
  shows "proof_ok p (fail_in_proof b t task pr)"
    and "failure_status b task = FailedRetryable \<Longrightarrow> p_active_tasks (fail_in_proof b t task pr) \<noteq> 0"
proof -
  note pos = active_tasks_pos [OF ok task live]
  show "proof_ok p (fail_in_proof b t task pr)"
  proof (rule proof_ok_update [OF ok task, where task' = "fail_in_task b task"])
    show "p_active_tasks (fail_in_proof b t task pr) + live task = p_active_tasks pr + live (fail_in_task b task)"
      using pos live failure_status_cases [of b task] by (auto simp: fail_in_proof_def final_status_def)
  qed (use ok in \<open>simp_all add: fail_in_proof_def proof_ok_def\<close>)
  show "failure_status b task = FailedRetryable \<Longrightarrow> p_active_tasks (fail_in_proof b t task pr) \<noteq> 0"
    using pos by (simp add: fail_in_proof_def)
qed

context assignment_policy
begin

lemma inv_ignore_failure:
  assumes inv: "coord_inv V st" and task: "table_of (proofs st) (p, t) = Some task" "t_status task = Succeeded"
    and w: "map_of (workers st) i = Some w" "(p, t) \<in> set (w_active_tasks w)"
  shows "settles P V (proofs st) (ignore_failure P now i p t task st)"
proof -
  let ?w' = "settled (without_task (p, t) (task_weight_of task) w)"
  from inv_release [OF inv task(1) refl _ w, of ?w' t] task(2) obtain pol where
    pol: "ap_post_task_update_state P st t (task_weight_of task) p (task_type task) = st\<lparr>policy := pol\<rparr>"
      "coord_inv V (st\<lparr>policy := pol, workers := hm_insert i ?w' (workers st)\<rparr>)" by auto
  from settlesI(2) [OF pol(2)] show ?thesis
    by (simp add: ignore_failure_def Let_def pol(1) w(1) settle_eq [OF refl])
qed

text \<open>A failed task whose proof survives or goes, in the three ways \<open>fail_task\<close> can end.\<close>

lemma fail_proof_internal_skip:
  assumes run: "fail_proof_internal P p None True None skip st = Inr (effs, st')"
    and pr: "map_of (proofs st) p \<noteq> None" and core: "core V C Y T st"
  shows "shutting_down st \<and> st' = st \<or>
    same_sched (fst (delete_proof P p skip st)) st' \<and> effs = fail_effects p (the (map_of (proofs st) p))"
proof (cases "shutting_down st")
  case True
  with run show ?thesis by (simp add: fail_proof_internal_def)
next
  case False
  from core_deleted [OF core, of p] obtain pol where "ap_on_proof_deleted P st p = st\<lparr>policy := pol\<rparr>" .
  with False run pr show ?thesis
    by (auto simp: fail_proof_internal_def tear_down_proof_def Let_def same_sched_def send_def split: option.splits)
qed

lemma fail_task_lookups:
  assumes "fail_task P now i p t b st = Inr res"
  obtains w pr task where "map_of (workers st) i = Some w" "(p, t) \<in> set (w_active_tasks w)"
    and "map_of (proofs st) p = Some pr" "map_of (p_tasks pr) t = Some task"
proof (cases "map_of (workers st) i")
  case None
  with assms show thesis by (simp add: fail_task_def)
next
  case w: (Some w)
  then have h: "(p, t) \<in> set (w_active_tasks w)"
    using assms by (auto simp: fail_task_def split: if_splits)
  show thesis
  proof (cases "map_of (proofs st) p")
    case None
    with assms w h show thesis by (simp add: fail_task_def)
  next
    case (Some pr)
    with assms w h that [OF w h Some] show thesis by (cases "map_of (p_tasks pr) t") (simp_all add: fail_task_def)
  qed
qed

lemma fail_task_manual:
  assumes run: "fail_task P now i p t b st = Inr (effs, st')"
    and w: "map_of (workers st) i = Some w" "(p, t) \<in> set (w_active_tasks w)"
    and pr: "map_of (proofs st) p = Some pr" "map_of (p_tasks pr) t = Some task" "t_status task \<noteq> Succeeded"
    and manual: "manual_proof_fail b task"
  obtains effs' st3 where
    "fail_proof_internal P p None True None (Some (i, t))
       (st\<lparr>proofs := hm_insert p (fail_in_proof b t task pr) (proofs st)\<rparr>) = Inr (effs', st3)"
    and "insert (CloseChannel t) (set effs') \<subseteq> set effs"
    and "failure_status b task = FailedFatal \<Longrightarrow> accounts effs (p, t) task"
    and "st' = release_failed P now i p t (fail_in_task b task) st3"
proof -
  let ?f = "fail_proof_internal P p None True None (Some (i, t))
    (st\<lparr>proofs := hm_insert p (fail_in_proof b t task pr) (proofs st)\<rparr>)"
  from run w pr manual have "?f \<noteq> Inl e" for e by (auto simp: fail_task_def Let_def split: sum.splits)
  then obtain effs' st3 where f: "?f = Inr (effs', st3)" by (cases ?f) (auto split: prod.splits)
  from run w pr manual f
  have "insert (CloseChannel t) (set effs') \<subseteq> set effs" "st' = release_failed P now i p t (fail_in_task b task) st3"
    "failure_status b task = FailedFatal \<Longrightarrow> accounts effs (p, t) task"
    by (auto simp: fail_task_def Let_def fail_in_task_def intro: accountsI [of _ _ _ FailedFatal])
  from that [OF f this(1,3,2)] show thesis .
qed

lemma fail_task_auto:
  assumes run: "fail_task P now i p t b st = Inr (effs, st')"
    and w: "map_of (workers st) i = Some w" "(p, t) \<in> set (w_active_tasks w)"
    and pr: "map_of (proofs st) p = Some pr" "map_of (p_tasks pr) t = Some task" "t_status task \<noteq> Succeeded"
    and manual: "\<not> manual_proof_fail b task"
    and del: "delete_proof P p (Some (i, t)) (st\<lparr>proofs := hm_insert p (fail_in_proof b t task pr) (proofs st)\<rparr>) = (std, r)"
  shows "failure_status b task = FailedFatal \<Longrightarrow> accounts effs (p, t) task"
    and "st' = release_failed P now i p t (fail_in_task b task)
    (if p_active_tasks (fail_in_proof b t task pr) = 0 then std
     else st\<lparr>proofs := hm_insert p (fail_in_proof b t task pr) (proofs st)\<rparr>)"
  using run w pr manual del by (auto simp: fail_task_def Let_def intro: accountsI [of _ _ _ FailedFatal])

text \<open>The outcomes of \<open>fail_task\<close> for a task that had not succeeded.\<close>

lemma fail_live_settles:
  assumes inv: "coord_inv V st" and run: "fail_task P now i p t b st = Inr (effs, st')"
    and w: "map_of (workers st) i = Some w" "(p, t) \<in> set (w_active_tasks w)"
    and pr: "map_of (proofs st) p = Some pr" "map_of (p_tasks pr) t = Some task" "t_status task \<noteq> Succeeded"
    and ps': "ps' = hm_insert p (fail_in_proof b t task pr) (proofs st)"
  shows "(failure_status b task = FailedFatal \<longrightarrow> accounts effs (p, t) task) \<and>
    (settles P V ps' st' \<or>
     settles P V (hm_remove p ps') st' \<and>
       (p_active_tasks (fail_in_proof b t task pr) = 0 \<or> set (fail_effects p (fail_in_proof b t task pr)) \<subseteq> set effs))"
proof -
  note ps = invD(1) [OF inv] and core = invD(2) [OF inv]
  let ?T = "table_of (proofs st)"
  have k: "?T (p, t) = Some task" by (rule table_of_lookup [OF pr(1,2)])
  from worker_okD [OF holds_okD [OF coreD(2) [OF core] w(1)] w(2)]
  obtain task' where "?T (p, t) = Some task'" "hold_status (t_status task')" .
  with k pr(3) have live: "\<not> final_status (t_status task)" by (auto simp: hold_status_def)
  let ?task = "fail_in_task b task" and ?pr = "fail_in_proof b t task pr"
  define st1 where "st1 = st\<lparr>proofs := hm_insert p ?pr (proofs st)\<rparr>"
  have st1: "proofs st1 = ps'" "map_of (proofs st1) p = Some ?pr" by (simp_all add: st1_def ps')
  note ok = fail_in_proof_ok [OF proofs_okD [OF ps pr(1)] pr(2) live, of b]
  have ps1: "proofs_ok (proofs st1)" using proofs_ok_insert [OF ps ok(1)] by (simp add: st1_def)
  have pr1: "map_of (proofs st1) p \<noteq> None" by (simp add: st1_def)
  have tab: "table_of (proofs st1) = ?T((p, t) \<mapsto> ?task)"
    using table_of_insert [OF pr(1), of ?pr t ?task] by (simp add: st1_def fail_in_proof_def)
  have core1: "core V (held (workers st1)) {} ?T st1" using core by (simp add: st1_def)
  have ex: "explains ?T p (proofs st1)"
    by (rule explains_update [OF coreD(1) [OF core] k tab]) simp_all
  have w1: "map_of (workers st1) i = Some w" using w(1) by (simp add: st1_def)
  then have at1: "holds_at (workers st1) i (p, t)" using w(2) by (auto simp: holds_at_def)
  obtain std r where del: "delete_proof P p (Some (i, t)) st1 = (std, r)" by fastforce
  have kept: "settles P V ps' (release_failed P now i p t ?task st1)"
    using inv_fail_kept [OF core1 ps1 pr1 k tab _ _ live _ w1 w(2), of now] failure_status_cases [of b task]
    by (simp add: st1)
  have gone: "settles P V (hm_remove p ps') (release_failed P now i p t ?task st2)"
    if "same_sched std st2" and "failure_status b task = FailedFatal" for st2
    using inv_fail_deleted [OF core1 ps1 pr1 ex at1 del that(1) k, of ?task now] that(2) by (simp add: st1)
  show ?thesis
  proof (cases "manual_proof_fail b task")
    case True
    from fail_task_manual [OF run w pr True] obtain effs' st3 where
      f: "fail_proof_internal P p None True None (Some (i, t)) st1 = Inr (effs', st3)"
      and effs: "insert (CloseChannel t) (set effs') \<subseteq> set effs"
        "failure_status b task = FailedFatal \<Longrightarrow> accounts effs (p, t) task"
      and st': "st' = release_failed P now i p t ?task st3" unfolding st1_def by blast
    from fail_proof_internal_skip [OF f pr1 core1] del
    have "st3 = st1 \<or> same_sched std st3 \<and> effs' = fail_effects p ?pr" by (auto simp: st1(2))
    then show ?thesis
      unfolding st' using kept gone [OF _ manual_fail_fatal [OF True]] effs by blast
  next
    case manual: False
    note auto = fail_task_auto [OF run w pr manual del [unfolded st1_def]]
    have same: "same_sched std std" by (simp add: same_sched_def)
    show ?thesis
    proof (cases "p_active_tasks ?pr = 0")
      case True
      with ok(2) failure_status_cases [of b task] have "failure_status b task = FailedFatal" by blast
      from gone [OF same this] True auto show ?thesis by simp
    next
      case False
      with kept auto show ?thesis by (simp add: st1_def)
    qed
  qed
qed

lemma inv_fail_task:
  assumes inv: "coord_inv V st" and run: "fail_task P now i p t b st = Inr (effs, st')"
  shows "coord_inv V st'"
proof -
  from fail_task_lookups [OF run] obtain w pr task where
    w: "map_of (workers st) i = Some w" "(p, t) \<in> set (w_active_tasks w)"
    and pr: "map_of (proofs st) p = Some pr" "map_of (p_tasks pr) t = Some task" .
  show ?thesis
  proof (cases "t_status task = Succeeded")
    case True
    with run have "st' = ignore_failure P now i p t task st" by (simp add: fail_task_def w pr)
    with settles_inv [OF inv_ignore_failure [OF inv table_of_lookup [OF pr] True w]] show ?thesis by simp
  next
    case False
    from fail_live_settles [OF inv run w pr False refl] show ?thesis by (blast intro: settles_inv)
  qed
qed

section \<open>Workers leaving\<close>

lemma requeue_step:
  assumes core: "core V (held (workers st) \<union> set (k # ks)) (set (k # ks)) (table_of (proofs st)) st"
    and ps: "proofs_ok (proofs st)" and dist: "distinct (k # ks)"
    and free: "set (k # ks) \<inter> held (workers st) = {}" "set (k # ks) \<inter> queued_keys V (policy st) = {}"
    and there: "\<forall>k' \<in> set (k # ks). table_of (proofs st) k' \<noteq> None"
    and st': "st' = requeue_task P k st"
  shows "core V (held (workers st') \<union> set ks) (set ks) (table_of (proofs st')) st'"
    and "proofs_ok (proofs st')" and "workers st' = workers st"
    and "set ks \<inter> queued_keys V (policy st') = {}"
    and "\<forall>k' \<in> set ks. table_of (proofs st') k' \<noteq> None"
    and "evolves [] (table_of (proofs st)) (table_of (proofs st'))"
proof -
  from there obtain stored where T: "table_of (proofs st) k = Some stored" by auto
  then obtain pr where pr: "map_of (proofs st) (fst k) = Some pr" "map_of (p_tasks pr) (snd k) = Some stored"
    by (auto simp: table_of_def split: option.splits)
  let ?task = "stored\<lparr>t_dead_worker_requeue_count := saturating_add 32 (t_dead_worker_requeue_count stored) 1\<rparr>"
  let ?pr = "pr\<lparr>p_tasks := hm_insert (snd k) ?task (p_tasks pr)\<rparr>"
  let ?ps = "hm_insert (fst k) ?pr (proofs st)"
  let ?st1 = "st\<lparr>proofs := ?ps\<rparr>"
  have tab: "table_of ?ps = (table_of (proofs st))(k \<mapsto> ?task)"
    using table_of_insert [OF pr(1), of ?pr "snd k" ?task] by simp
  have "proof_ok (fst k) ?pr"
    by (rule proof_ok_update [OF proofs_okD [OF ps pr(1)] pr(2), where task' = ?task])
      (use proofs_okD [OF ps pr(1)] in \<open>simp_all add: proof_ok_def\<close>)
  with ps have ps1: "proofs_ok ?ps" by (rule proofs_ok_insert)
  have nk: "k \<notin> held (workers st)" "k \<notin> queued_keys V (policy st)" "k \<notin> set ks" using free dist by auto
  have id: "t_id stored = snd k" using table_okD [OF coreD(1) [OF core] T] by simp
  have held_there: "table_of (proofs st) k' \<noteq> None" if "k' \<in> held (workers st)" for k'
    using held_table [OF coreD(2) [OF core] that] by auto
  have step: "table_step (held (workers st)) (held (workers st) \<union> set (k # ks)) (table_of (proofs st)) (table_of ?ps)"
    unfolding tab by (rule table_step_update [OF coreD(2) [OF core] T]) (use nk held_there there in auto)
  have core1: "core V (held (workers st) \<union> set (k # ks)) (set (k # ks)) (table_of ?ps) ?st1"
    using core_table_step [OF core step] by simp
  have k1: "k \<in> held (workers st) \<union> set (k # ks)" by simp
  have T1: "table_of ?ps k = Some ?task" unfolding tab by simp
  from core_uncharge [OF core1 k1 T1 refl refl refl, of "t_id ?task"] obtain pol where
    pol: "ap_post_task_update_state P ?st1 (t_id ?task) (task_weight_of ?task) (fst k) (task_type ?task) = ?st1\<lparr>policy := pol\<rparr>"
      "pv_queued V pol = pv_queued V (policy ?st1)"
      "core V (held (workers st) \<union> set (k # ks) - {k}) (set (k # ks)) (table_of ?ps) (?st1\<lparr>policy := pol\<rparr>)" .
  have C: "held (workers st) \<union> set (k # ks) - {k} = held (workers st) \<union> set ks" using nk by auto
  have core2: "core V (held (workers st) \<union> set ks) (set ks \<union> {k}) (table_of ?ps) (?st1\<lparr>policy := pol\<rparr>)"
    using pol(3) unfolding C by simp
  have q: "queued_keys V pol = queued_keys V (policy st)" using pol(2) by (simp add: queued_keys_def)
  from core_enqueue [OF core2 T1, of ?task] nk q id obtain pol' where
    e: "ap_enqueue_task P (?st1\<lparr>policy := pol\<rparr>) ?task = ?st1\<lparr>policy := pol'\<rparr>"
      "queued_keys V pol' \<subseteq> insert k (queued_keys V (policy st))"
      "core V (held (workers st) \<union> set ks) (set ks) (table_of ?ps) (?st1\<lparr>policy := pol'\<rparr>)" by auto
  have eq: "st' = ?st1\<lparr>policy := pol'\<rparr>"
    using pol(1) e(1) by (simp add: st' requeue_task_def pr Let_def)
  show "core V (held (workers st') \<union> set ks) (set ks) (table_of (proofs st')) st'" using e(3) by (simp add: eq)
  show "proofs_ok (proofs st')" using ps1 by (simp add: eq)
  show "workers st' = workers st" by (simp add: eq)
  show "set ks \<inter> queued_keys V (policy st') = {}" using e(2) free(2) nk by (auto simp: eq)
  show "\<forall>k' \<in> set ks. table_of (proofs st') k' \<noteq> None"
  proof -
    have "proofs st' = ?ps" by (simp add: eq)
    with there show ?thesis unfolding \<open>proofs st' = ?ps\<close> tab by simp
  qed
  have "evolves [] (table_of (proofs st)) (table_of ?ps)"
    unfolding tab by (rule evolves_update [where T = "table_of (proofs st)", OF T]) (simp add: task_evolves_def)
  then show "evolves [] (table_of (proofs st)) (table_of (proofs st'))" by (simp add: eq)
qed

lemma requeue_fold:
  assumes "core V (held (workers st) \<union> set ks) (set ks) (table_of (proofs st)) st"
    and "proofs_ok (proofs st)" and "distinct ks" and "set ks \<inter> held (workers st) = {}"
    and "set ks \<inter> queued_keys V (policy st) = {}" and "\<forall>k \<in> set ks. table_of (proofs st) k \<noteq> None"
  shows "coord_inv V (fold (requeue_task P) ks st) \<and>
    evolves [] (table_of (proofs st)) (table_of (proofs (fold (requeue_task P) ks st)))"
  using assms
proof (induction ks arbitrary: st)
  case Nil
  then show ?case by (simp add: coord_inv_def)
next
  case (Cons k ks)
  note step = requeue_step [OF Cons.prems(1-6) refl]
  have "coord_inv V (fold (requeue_task P) ks (requeue_task P k st)) \<and>
      evolves [] (table_of (proofs (requeue_task P k st)))
        (table_of (proofs (fold (requeue_task P) ks (requeue_task P k st))))"
    by (rule Cons.IH [OF step(1,2) _ _ step(4,5)]) (use Cons.prems(3,4) step(3) in auto)
  with evolves_trans [OF step(6)] show ?case by auto
qed

lemma remove_worker_internal_step:
  assumes inv: "coord_inv V st"
  shows "coord_inv V (remove_worker_internal P i st) \<and>
    evolves [] (table_of (proofs st)) (table_of (proofs (remove_worker_internal P i st)))"
proof (cases "map_of (workers st) i")
  case None
  with inv show ?thesis by (simp add: remove_worker_internal_def)
next
  case (Some w)
  note ps = invD(1) [OF inv] and core = invD(2) [OF inv]
  note rem = core_remove_worker [OF core Some]
  let ?st1 = "st\<lparr>workers := hm_remove i (workers st)\<rparr>"
  have sub: "set (w_active_tasks w) \<subseteq> held (workers st)" by (blast intro: heldI [OF Some])
  have C: "held (workers ?st1) \<union> set (w_active_tasks w) = held (workers st)" using rem(2) sub by auto
  have "coord_inv V (fold (requeue_task P) (w_active_tasks w) ?st1) \<and>
      evolves [] (table_of (proofs ?st1)) (table_of (proofs (fold (requeue_task P) (w_active_tasks w) ?st1)))"
  proof (rule requeue_fold)
    show "core V (held (workers ?st1) \<union> set (w_active_tasks w)) (set (w_active_tasks w))
        (table_of (proofs ?st1)) ?st1"
      unfolding C using rem(1) by simp
    show "distinct (w_active_tasks w)" using holds_okD [OF coreD(2) [OF core] Some] by (simp add: worker_ok_def)
    show "set (w_active_tasks w) \<inter> queued_keys V (policy ?st1) = {}"
      using sub coreD(3) [OF core] unfolding queued_keys_def queue_ok_def by auto
    show "\<forall>k \<in> set (w_active_tasks w). table_of (proofs ?st1) k \<noteq> None"
    proof
      fix k
      assume "k \<in> set (w_active_tasks w)"
      with sub have "k \<in> held (workers st)" by blast
      from held_table [OF coreD(2) [OF core] this] obtain task where "table_of (proofs st) k = Some task" .
      then show "table_of (proofs ?st1) k \<noteq> None" by simp
    qed
  qed (use ps rem(2) in simp_all)
  then show ?thesis by (simp add: remove_worker_internal_def Some Let_def empty_law)
qed

lemmas inv_remove_worker_internal = remove_worker_internal_step [THEN conjunct1]

lemma inv_remove_worker: "coord_inv V st \<Longrightarrow> coord_inv V (remove_worker P now i st)"
  unfolding remove_worker_def by (intro inv_assign inv_remove_worker_internal)

lemma inv_cleanup_dead_workers:
  assumes "coord_inv V st"
  shows "coord_inv V (cleanup_dead_workers P now dead st)"
proof -
  have "coord_inv V (fold (remove_worker_internal P) dead st)"
    using assms by (induction dead arbitrary: st) (simp_all add: inv_remove_worker_internal)
  with assms show ?thesis by (simp add: cleanup_dead_workers_def inv_assign)
qed

section \<open>Workers joining, draining and reporting\<close>

lemma core_add_worker:
  assumes core: "core V C Y T st" and new: "map_of (workers st) i = None"
    and w: "w_id w = i" "w_active_tasks w = []" "w_weight w = 0"
    and cap: "capacity (workers st) + w_max_weight w < 2 ^ 31"
  shows "core V C Y T (st\<lparr>workers := hm_insert i w (workers st)\<rparr>)"
    and "held (hm_insert i w (workers st)) = held (workers st)"
proof -
  show H: "held (hm_insert i w (workers st)) = held (workers st)"
    by (simp add: held_insert_new [OF new] w)
  have "worker_ok T i w" by (simp add: worker_ok_def w)
  moreover have "loaded T w" by (simp add: loaded_def load_def w)
  ultimately show "core V C Y T (st\<lparr>workers := hm_insert i w (workers st)\<rparr>)"
    using coreD [OF core] cap
    by (simp add: core_def H holds_ok_insert loads_ok_insert capacity_insert_new [OF new])
qed

lemma add_worker_settles:
  assumes inv: "coord_inv V st"
    and cap: "map_of (workers st) i = None \<Longrightarrow> capacity (workers st) + max_weight < 2 ^ 31"
  shows "settles P V (proofs st) (snd (add_worker P now i wt max_weight ch identity st))"
proof (cases "map_of (workers st) i")
  case None
  let ?w = "Worker_new now i wt max_weight ch identity"
  have new: "w_id ?w = i" "w_active_tasks ?w = []" "w_weight ?w = 0" "w_max_weight ?w = max_weight"
    by (simp_all add: Worker_new_def)
  have "capacity (workers st) + w_max_weight ?w < 2 ^ 31" using cap [OF None] new(4) by simp
  note add = core_add_worker [OF invD(2) [OF inv] None new(1-3) this]
  have "coord_inv V (st\<lparr>workers := hm_insert i ?w (workers st)\<rparr>)"
    using invD(1) [OF inv] add by (simp add: coord_inv_def)
  from settlesI(2) [OF this] show ?thesis by (simp add: add_worker_def None)
next
  case (Some w)
  note keep = core_keep_worker [OF invD(2) [OF inv] Some, of "w\<lparr>w_channel := ch, w_identity := identity\<rparr>"]
  from keep invD(1) [OF inv] show ?thesis
    by (intro settlesI(1)) (simp_all add: add_worker_def Some coord_inv_def)
qed

lemma inv_close_worker:
  assumes inv: "coord_inv V st" and run: "close_worker i st = Inr st'"
  shows "coord_inv V st'"
proof -
  from run obtain w where w: "map_of (workers st) i = Some w"
    and st': "st' = st\<lparr>workers := hm_insert i (w\<lparr>w_closed := True\<rparr>) (workers st)\<rparr>"
    by (auto simp: close_worker_def split: option.splits)
  note keep = core_keep_worker [OF invD(2) [OF inv] w, of "w\<lparr>w_closed := True\<rparr>"]
  from keep invD(1) [OF inv] show ?thesis by (simp add: st' coord_inv_def)
qed

text \<open>The weight a heartbeat computes is the load of the worker.\<close>

lemma assigned_weight_load:
  assumes ok: "worker_ok (table_of (proofs st)) i w" and small: "load (table_of (proofs st)) w < 2 ^ 32"
  shows "assigned_weight st (w_active_tasks w) = load (table_of (proofs st)) w"
proof -
  let ?T = "table_of (proofs st)"
  have "map task_weight_of (List.map_filter (task_at st) ks) = map (weight_in ?T) ks"
    if "\<forall>k \<in> set ks. \<exists>task. ?T k = Some task" for ks
    using that by (induction ks) (auto simp: map_filter_simps task_at_table_of)
  moreover have "\<forall>k \<in> set (w_active_tasks w). \<exists>task. ?T k = Some task"
    using ok unfolding worker_ok_def by blast
  ultimately have "map task_weight_of (List.map_filter (task_at st) (w_active_tasks w)) =
      map (weight_in ?T) (w_active_tasks w)" by blast
  moreover have "sum_list (map (weight_in ?T) (w_active_tasks w)) = load ?T w"
    using ok unfolding load_def worker_ok_def by (simp add: sum_list_distinct_conv_sum_set)
  ultimately show ?thesis using small by (simp add: assigned_weight_def)
qed

lemma missing_tasks_none:
  assumes "worker_ok (table_of (proofs st)) i w"
  shows "missing_tasks st w reported = []"
proof -
  have "task_at st k \<noteq> None" if "k \<in> set (w_active_tasks w)" for k
  proof -
    from worker_okD [OF assms that] obtain task where "table_of (proofs st) k = Some task" .
    then show ?thesis by (simp add: task_at_table_of)
  qed
  then show ?thesis by (auto simp: missing_tasks_def filter_empty_conv)
qed

lemma inv_receive_heartbeat:
  assumes inv: "coord_inv V st" and w: "map_of (workers st) i = Some w"
  shows "coord_inv V (receive_heartbeat P i (w\<lparr>w_last_heartbeat := n\<rparr>) reported st)"
  using invD(1) [OF inv] core_keep_worker [OF invD(2) [OF inv] w, of "w\<lparr>w_last_heartbeat := n\<rparr>"]
  by (simp add: receive_heartbeat_def Let_def coord_inv_def)

lemma inv_reconcile:
  assumes inv: "coord_inv V st" and w: "map_of (workers st) i = Some w"
  shows "coord_inv V (st\<lparr>workers := hm_insert i (settled (reconcile_worker st [] w)) (workers st)\<rparr>)"
proof -
  let ?T = "table_of (proofs st)" and ?w' = "settled (reconcile_worker st [] w)"
  note core = invD(2) [OF inv]
  have ok: "worker_ok ?T i w" by (rule holds_okD [OF coreD(2) [OF core] w])
  have weight: "w_weight ?w' = load ?T ?w'" if run: "\<not> shutting_down st"
  proof -
    have "load ?T w < 2 ^ 32"
      using loads_okD [OF coreD(8) [OF core run] w] max_weight_le_capacity [OF w] coreD(6) [OF core]
      by (simp add: loaded_def)
    from assigned_weight_load [OF ok this] show ?thesis
      by (intro settled_weight) (simp add: reconcile_worker_def load_def)
  qed
  have w': "w_id ?w' = i" "w_max_weight ?w' = w_max_weight w" "w_active_tasks ?w' = w_active_tasks w"
    using ok by (simp_all add: reconcile_worker_def worker_ok_def)
  have dist: "distinct (w_active_tasks ?w')" using ok w'(3) by (simp add: worker_ok_def)
  from core_shrink_worker [OF core w w'(1,2) dist _ weight] invD(1) [OF inv] w'(3)
  show ?thesis by (simp add: coord_inv_def)
qed

lemma handle_heartbeat_settles:
  assumes inv: "coord_inv V st" and run: "handle_heartbeat P now i pids tids n st = Inr st'"
  shows "settles P V (proofs st) st'"
proof -
  from run obtain w where w: "map_of (workers st) i = Some w"
    by (auto simp: handle_heartbeat_def split: option.splits)
  let ?w1 = "w\<lparr>w_last_heartbeat := as_secs now\<rparr>"
  define st2 where "st2 = receive_heartbeat P i ?w1 (zip pids tids) st"
  have inv2: "coord_inv V st2" unfolding st2_def by (rule inv_receive_heartbeat [OF inv w])
  have w1: "map_of (workers st2) i = Some ?w1" by (simp add: st2_def receive_heartbeat_def Let_def)
  have ok: "worker_ok (table_of (proofs st2)) i ?w1" by (rule holds_okD [OF coreD(2) [OF invD(2) [OF inv2]] w1])
  let ?w2 = "reconcile_worker st2 [] ?w1"
  let ?st3 = "st2\<lparr>workers := hm_insert i (settled ?w2) (workers st2)\<rparr>"
  have id: "w_id ?w2 = i" using worker_ok_id [OF ok] by (simp add: reconcile_worker_def)
  have "st' = (if w_active_tasks ?w2 = [] then ap_assign_tasks P now ?st3 else ?st3)"
    using run
    unfolding handle_heartbeat_def w Let_def option.case st2_def [symmetric] missing_tasks_none [OF ok]
      settle_eq [OF id]
    by simp
  moreover have "proofs ?st3 = proofs st" by (simp add: st2_def receive_heartbeat_def Let_def)
  ultimately show ?thesis using settlesI [OF inv_reconcile [OF inv2 w1]] by simp
qed

section \<open>Expired proofs and shutdown\<close>

lemma inv_fail_expired:
  assumes "coord_inv V st"
  shows "coord_inv V (snd (fail_expired P ids st))"
  using assms
proof (induction ids arbitrary: st)
  case (Cons i ids)
  show ?case
  proof (cases "fail_proof_internal P i None False None None st")
    case (Inl e)
    with Cons show ?thesis by simp
  next
    case (Inr res)
    obtain effs st1 where res: "res = (effs, st1)" by fastforce
    from inv_fail_proof [OF Cons.prems] Inr res have "coord_inv V st1" by blast
    from Cons.IH [OF this] Inr res show ?thesis by (cases "fail_expired P ids st1") simp
  qed
qed simp

lemma inv_cleanup_expired: "coord_inv V st \<Longrightarrow> coord_inv V (snd (cleanup_cancel_expired_proofs P now ids st))"
  using inv_fail_expired [of st ids] inv_assign
  by (simp add: cleanup_cancel_expired_proofs_def split: prod.splits) (metis prod.sel(2))

end

lemma map_of_clear: "map_of (map (\<lambda>(i, w). (i, f w)) ws) i = map_option f (map_of ws i)"
  by (induction ws) auto

lemma inv_shutdown:
  assumes inv: "coord_inv V st"
  shows "coord_inv V (shutdown_state st)"
proof -
  note ps = invD(1) [OF inv] and core = invD(2) [OF inv]
  note c = coreD [OF core]
  define ws where "ws = map (\<lambda>(i, w). (i, w\<lparr>w_active_tasks := []\<rparr>)) (workers st)"
  have look: "map_of ws i = map_option (\<lambda>w. w\<lparr>w_active_tasks := []\<rparr>) (map_of (workers st) i)" for i
    unfolding ws_def by (rule map_of_clear)
  have H: "held ws = {}" by (auto simp: held_def look)
  have "map fst ws = map fst (workers st)" by (auto simp: ws_def)
  then have "hm_wf ws" using c(2) by (simp add: holds_ok_def hm_wf_def)
  moreover have "worker_ok (table_of (proofs st)) i w" if "map_of ws i = Some w" for i w
    using that worker_ok_id [OF holds_okD [OF c(2)], of i] by (auto simp: look worker_ok_def)
  ultimately have "holds_ok (table_of (proofs st)) ws" unfolding holds_ok_def by blast
  moreover have "capacity ws = capacity (workers st)"
    unfolding capacity_def ws_def by (auto intro!: arg_cong [where f = sum_list])
  moreover have "queue_ok V (table_of (proofs st)) {} (policy st)"
    using c(3) unfolding queue_ok_def by blast
  ultimately show ?thesis
    using ps c by (simp add: coord_inv_def core_def shutdown_state_def H flip: ws_def)
qed

lemma subscribe_tasks_step:
  assumes "coord_inv V st" and "map_of (proofs st) p = Some pr"
  shows "coord_inv V (st\<lparr>proofs := hm_insert p (snd (subscribe_tasks s p ts pr)) (proofs st)\<rparr>) \<and>
    evolves [] (table_of (proofs st)) (table_of (hm_insert p (snd (subscribe_tasks s p ts pr)) (proofs st)))"
  using assms
proof (induction ts arbitrary: st pr)
  case Nil
  then have "hm_insert p pr (proofs st) = proofs st" by (simp add: map_of_insert_triv)
  with Nil show ?case by simp
next
  case (Cons t ts)
  show ?case
  proof (cases "\<exists>task. map_of (p_tasks pr) t = Some task \<and> \<not> final_status (t_status task)")
    case True
    then obtain task where task: "map_of (p_tasks pr) t = Some task" "\<not> final_status (t_status task)" by blast
    let ?task = "task\<lparr>t_subscribers := hs_insert s (t_subscribers task)\<rparr>"
    let ?pr = "pr\<lparr>p_tasks := hm_insert t ?task (p_tasks pr)\<rparr>"
    let ?st = "st\<lparr>proofs := hm_insert p ?pr (proofs st)\<rparr>"
    note core = invD(2) [OF Cons.prems(1)]
    have "coord_inv V ?st"
    proof (rule inv_update_task [OF Cons.prems task(1), where task' = ?task])
      assume "(p, t) \<in> held (workers st)"
      from held_table [OF coreD(2) [OF core] this] table_of_lookup [OF Cons.prems(2) task(1)]
      show "hold_status (t_status ?task)" by auto
    qed simp_all
    from Cons.IH [OF this, of ?pr]
    have IH: "coord_inv V (?st\<lparr>proofs := hm_insert p (snd (subscribe_tasks s p ts ?pr)) (proofs st)\<rparr>) \<and>
        evolves [] (table_of (proofs ?st)) (table_of (hm_insert p (snd (subscribe_tasks s p ts ?pr)) (proofs st)))"
      by simp
    have "table_of (proofs ?st) = (table_of (proofs st))((p, t) \<mapsto> ?task)"
      using table_of_insert [OF Cons.prems(2), of ?pr t ?task] by simp
    then have "evolves [] (table_of (proofs st)) (table_of (proofs ?st))"
      using evolves_update [where T = "table_of (proofs st)", OF table_of_lookup [OF Cons.prems(2) task(1)], of "[]" ?task]
      by (auto simp: task_evolves_def)
    from evolves_trans [OF this] IH task show ?thesis by auto
  next
    case False
    then have "snd (subscribe_tasks s p (t # ts) pr) = snd (subscribe_tasks s p ts pr)"
      by (auto split: option.splits prod.splits)
    with Cons.IH [OF Cons.prems] show ?thesis by simp
  qed
qed

lemma subscribe_in_state_step:
  assumes "coord_inv V st"
  shows "coord_inv V (snd (subscribe_in_state s p ts st)) \<and>
    evolves [] (table_of (proofs st)) (table_of (proofs (snd (subscribe_in_state s p ts st))))"
  using assms subscribe_tasks_step [OF assms, of p _ s ts]
  by (auto simp: subscribe_in_state_def split: option.splits prod.splits)

lemma inv_settings:
  "coord_inv V st \<Longrightarrow> coord_inv V (set_proofs_tx tx st)"
  "coord_inv V st \<Longrightarrow> coord_inv V (set_execute_only_mode b st)"
  "coord_inv V st \<Longrightarrow> coord_inv V (set_worker_heartbeat_timeout n st)"
  "coord_inv V st \<Longrightarrow> coord_inv V (send_heartbeats st)"
  "coord_inv V st \<Longrightarrow> complete_proof p extra st = Inr st' \<Longrightarrow> coord_inv V st'"
  by (auto simp: set_proofs_tx_def set_execute_only_mode_def set_worker_heartbeat_timeout_def
      send_heartbeats_def complete_proof_def split: option.splits)

end
