(* ===== verification/Coord_Evolve.thy ===== *)
theory Coord_Evolve
  imports Coord_Handlers
begin

text \<open>
  How the operations of the coordinator change the stored tasks.  Each operation is shown to let the
  task table evolve in the sense of \<^const>\<open>evolves\<close>, relative to the effects it leaves: an
  unfinished task never vanishes or finishes silently.
\<close>

lemma task_evolves_mono: "task_evolves b task later \<Longrightarrow> (b \<Longrightarrow> b') \<Longrightarrow> task_evolves b' task later"
  by (auto simp: task_evolves_def split: option.splits)

lemma evolves_mono: "evolves effs T T' \<Longrightarrow> set effs \<subseteq> set effs' \<Longrightarrow> evolves effs' T T'"
  by (rule evolvesI) (auto elim: evolvesD(1) intro: task_evolves_mono [OF evolvesD(2)] accounts_mono)

section \<open>Removing a proof\<close>

lemma live_count_zero: "live_count ts = 0 \<Longrightarrow> map_of ts t = Some task \<Longrightarrow> final_status (t_status task)"
  by (induction ts) (auto simp: live_count_def split: if_splits)

text \<open>Dropping a proof is harmless for the tasks that are finished or accounted for.\<close>

lemma evolves_remove:
  assumes pr: "map_of ps p = Some pr"
    and gone: "\<And>t task. map_of (p_tasks pr) t = Some task \<Longrightarrow> final_status (t_status task) \<or> accounts effs (p, t) task"
  shows "evolves effs (table_of ps) (table_of (hm_remove p ps))"
proof (rule evolvesI)
  fix k task
  assume T: "table_of ps k = Some task"
  show "task_evolves (accounts effs k task) task (table_of (hm_remove p ps) k)"
  proof (cases "fst k = p")
    case True
    with T pr have "map_of (p_tasks pr) (snd k) = Some task" by (simp add: table_of_def)
    from gone [OF this] True show ?thesis by (cases k) (auto simp: table_of_def task_evolves_def)
  qed (use T in \<open>simp add: table_of_def\<close>)
qed (auto simp: table_of_def split: option.splits)

lemma evolves_remove_finished:
  assumes "proofs_ok ps" and "map_of ps p = Some pr" and "p_active_tasks pr = 0"
  shows "evolves [] (table_of ps) (table_of (hm_remove p ps))"
  by (rule evolves_remove [OF assms(2)])
    (use proofs_okD [OF assms(1,2)] assms(3) in \<open>auto simp: proof_ok_def intro: live_count_zero\<close>)

lemma evolves_remove_failed:
  assumes "table_ok (table_of ps)" and "map_of ps p = Some pr"
  shows "evolves (fail_effects p pr) (table_of ps) (table_of (hm_remove p ps))"
proof (rule evolves_remove [OF assms(2)])
  fix t task
  assume t: "map_of (p_tasks pr) t = Some task"
  have "t_id task = t" using table_okD [OF assms(1) table_of_lookup [OF assms(2) t]] by simp
  then have mem: "task \<in> set (hm_values (p_tasks pr))" "CloseChannel t = CloseChannel (t_id task)"
    using map_of_SomeD [OF t] by (force simp: hm_values_def)+
  have "accounts (fail_effects p pr) (p, t) task"
  proof (cases "t_subscribers task = []")
    case True
    with mem show ?thesis by (auto simp: accounts_def fail_effects_def)
  next
    case False
    with mem \<open>t_id task = t\<close> show ?thesis by (intro accountsI [of _ _ _ FailedFatal]) (auto simp: fail_effects_def)
  qed
  then show "final_status (t_status task) \<or> accounts (fail_effects p pr) (p, t) task" by simp
qed

section \<open>Assignments\<close>

lemma evolves_assign_step:
  assumes "assign_step V now st st'" and "tasks_keyed st"
  shows "evolves [] (table_of (proofs st)) (table_of (proofs st'))"
  using assms
proof cases
  case (start q pol task worker)
  let ?k = "(q_proof_id q, q_id q)"
  have T: "table_of (proofs st) ?k = Some task" using start(3) by (simp add: task_at_table_of)
  have keyed: "t_id task = q_id q" "td_proof_id (t_data task) = q_proof_id q"
    using assms(2) start(3) unfolding tasks_keyed_def by blast+
  have "table_of (proofs st') = (table_of (proofs st))(?k \<mapsto> mark_running worker task)"
  proof
    fix k
    show "table_of (proofs st') k = ((table_of (proofs st))(?k \<mapsto> mark_running worker task)) k"
      using start_task_lookup [of st task now worker "fst k" "snd k"] start(3) keyed
      by (cases k) (auto simp: start(1) task_at_table_of)
  qed
  moreover have "task_evolves b task (Some (mark_running worker task))" for b
    using start(4) by (auto simp: task_evolves_def mark_running_def)
  ultimately show ?thesis
    using evolves_update [where T = "table_of (proofs st)", OF T, of "[]"] by simp
qed simp

context assignment_policy
begin

lemma assign_evolves:
  assumes "coord_inv V st"
  shows "evolves [] (table_of (proofs st)) (table_of (proofs (ap_assign_tasks P now st)))"
proof -
  have ok: "sched_ok V st" by (rule inv_sched_ok [OF assms])
  have "sched_ok V st' \<and> evolves [] (table_of (proofs st)) (table_of (proofs st'))"
    if "(assign_step V now)\<^sup>*\<^sup>* st st'" for st'
    using that
  proof (induction rule: rtranclp_induct)
    case base
    with ok show ?case by simp
  next
    case (step y z)
    then have "evolves [] (table_of (proofs y)) (table_of (proofs z))"
      by (intro evolves_assign_step) (simp_all add: sched_ok_def)
    with step evolves_trans show ?case by (fastforce dest: sched_ok_assign_step)
  qed
  with assign_law [OF ok] show ?thesis by blast
qed

lemma settles_evolves: "settles P V ps st' \<Longrightarrow> evolves [] (table_of ps) (table_of (proofs st'))"
  unfolding settles_def using assign_evolves by auto

lemma evolves_settles:
  "evolves effs T (table_of ps) \<Longrightarrow> settles P V ps st' \<Longrightarrow> evolves effs T (table_of (proofs st'))"
  using evolves_trans [of effs T "table_of ps" "[]"] settles_evolves by simp

section \<open>Reports of workers\<close>

lemma complete_task_evolves:
  assumes inv: "coord_inv V st" and run: "complete_task P now i p t m st = Inr (effs, st')"
  shows "evolves effs (table_of (proofs st)) (table_of (proofs st'))"
proof -
  from complete_task_settles [OF inv run] obtain pr task where
    pr: "map_of (proofs st) p = Some pr" "map_of (p_tasks pr) t = Some task"
    and eff: "t_status task \<noteq> Succeeded \<Longrightarrow> accounts effs (p, t) task"
    and settles: "settles P V
      (if p_active_tasks (succeed_in_proof i t task pr) = 0
       then hm_remove p (hm_insert p (succeed_in_proof i t task pr) (proofs st))
       else hm_insert p (succeed_in_proof i t task pr) (proofs st)) st'" by blast
  let ?pr = "succeed_in_proof i t task pr" and ?T = "table_of (proofs st)"
  let ?ps = "hm_insert p (succeed_in_proof i t task pr) (proofs st)"
  note inv1 = inv_succeed [OF inv pr, of i]
  have "table_of ?ps = ?T((p, t) \<mapsto> succeed_task i task)"
    using table_of_insert [OF pr(1), of ?pr t "succeed_task i task"] by (simp add: succeed_in_proof_def)
  then have step: "evolves effs ?T (table_of ?ps)"
    using evolves_update [where T = ?T, OF table_of_lookup [OF pr], of effs "succeed_task i task"] eff
    by (cases "t_status task = Succeeded") (simp_all add: task_evolves_def succeed_task_def)
  show ?thesis
  proof (cases "p_active_tasks ?pr = 0")
    case True
    have "evolves [] (table_of ?ps) (table_of (hm_remove p ?ps))"
      by (rule evolves_remove_finished [of _ _ ?pr]) (use invD(1) [OF inv1] True in simp_all)
    from evolves_trans [OF step this] settles True show ?thesis by (simp add: evolves_settles)
  next
    case False
    with step settles show ?thesis by (simp add: evolves_settles)
  qed
qed

lemma fail_task_evolves:
  assumes inv: "coord_inv V st" and run: "fail_task P now i p t b st = Inr (effs, st')"
  shows "evolves effs (table_of (proofs st)) (table_of (proofs st'))"
proof -
  from fail_task_lookups [OF run] obtain w pr task where
    w: "map_of (workers st) i = Some w" "(p, t) \<in> set (w_active_tasks w)"
    and pr: "map_of (proofs st) p = Some pr" "map_of (p_tasks pr) t = Some task" .
  let ?pr = "fail_in_proof b t task pr" and ?T = "table_of (proofs st)"
  let ?ps = "hm_insert p (fail_in_proof b t task pr) (proofs st)"
  have k: "?T (p, t) = Some task" by (rule table_of_lookup [OF pr])
  show ?thesis
  proof (cases "t_status task = Succeeded")
    case True
    with run have "st' = ignore_failure P now i p t task st" by (simp add: fail_task_def w pr)
    with settles_evolves [OF inv_ignore_failure [OF inv k True w]] evolves_mono [of "[]"] show ?thesis by simp
  next
    case False
    note ends = fail_live_settles [OF inv run w pr False refl]
    have tab: "table_of ?ps = ?T((p, t) \<mapsto> fail_in_task b task)"
      using table_of_insert [OF pr(1), of ?pr t "fail_in_task b task"] by (simp add: fail_in_proof_def)
    have live: "\<not> final_status (t_status task)"
      using worker_okD [OF holds_okD [OF coreD(2) [OF invD(2) [OF inv]] w(1)] w(2)] k False
      by (fastforce simp: hold_status_def)
    have "task_evolves (accounts effs (p, t) task) task (Some (fail_in_task b task))"
      using ends live failure_status_cases [of b task] by (auto simp: task_evolves_def fail_in_task_def)
    then have step: "evolves effs ?T (table_of ?ps)"
      using evolves_update [where T = ?T, OF k, of "effs"] by (simp add: tab)
    have ps: "proofs_ok ?ps"
      using proofs_ok_insert [OF invD(1) [OF inv] fail_in_proof_ok(1) [OF proofs_okD [OF invD(1) [OF inv] pr(1)] pr(2) live]] .
    have "table_ok (table_of ?ps)"
      using table_okD [OF coreD(1) [OF invD(2) [OF inv]]] k
      unfolding tab table_ok_def by (auto simp: fail_in_task_def split: if_splits)
    then have failed: "evolves (fail_effects p ?pr) (table_of ?ps) (table_of (hm_remove p ?ps))"
      by (rule evolves_remove_failed) simp
    from ends consider "settles P V ?ps st'"
      | "settles P V (hm_remove p ?ps) st'" "p_active_tasks ?pr = 0"
      | "settles P V (hm_remove p ?ps) st'" "set (fail_effects p ?pr) \<subseteq> set effs" by (elim conjE disjE) simp_all
    then show ?thesis
    proof cases
      case 1
      with step show ?thesis by (rule evolves_settles)
    next
      case 2
      have "evolves [] (table_of ?ps) (table_of (hm_remove p ?ps))"
        by (rule evolves_remove_finished [OF ps, of _ ?pr]) (use 2 in simp_all)
      from evolves_trans [OF step this] 2(1) show ?thesis by (simp add: evolves_settles)
    next
      case 3
      have "evolves (effs @ fail_effects p ?pr) ?T (table_of (hm_remove p ?ps))"
        by (rule evolves_trans [OF step failed])
      with 3(2) have "evolves effs ?T (table_of (hm_remove p ?ps))" by (elim evolves_mono) auto
      from evolves_settles [OF this 3(1)] show ?thesis .
    qed
  qed
qed

section \<open>Failing and expiring proofs\<close>

lemma fail_proof_internal_evolves:
  assumes inv: "coord_inv V st" and run: "fail_proof_internal P p blamed notify extra None st = Inr (effs, st')"
  shows "evolves effs (table_of (proofs st)) (table_of (proofs st'))"
proof -
  from run have "st' = st \<or> (effs, st') = tear_down_proof P p notify extra None st"
    by (auto simp: fail_proof_internal_def split: if_splits option.splits prod.splits)
  then show ?thesis
  proof
    assume td: "(effs, st') = tear_down_proof P p notify extra None st"
    have ps: "proofs st' = hm_remove p (proofs st)" using inv_tear_down [OF inv] td by (metis snd_conv)
    show ?thesis
    proof (cases "map_of (proofs st) p")
      case None
      then have "hm_remove p (proofs st) = proofs st" by (simp add: map_of_eq_None_iff)
      with ps show ?thesis by simp
    next
      case (Some pr)
      from deleted_law [OF coreD(4) [OF invD(2) [OF inv]], of p]
      have "proofs (ap_on_proof_deleted P st p) = proofs st" by auto
      with td Some have "effs = fail_effects p pr" by (simp add: tear_down_proof_def Let_def)
      with evolves_remove_failed [OF coreD(1) [OF invD(2) [OF inv]] Some] ps show ?thesis by simp
    qed
  qed simp
qed

lemma fail_expired_evolves:
  assumes "coord_inv V st"
  shows "evolves (fst (fail_expired P ids st)) (table_of (proofs st))
    (table_of (proofs (snd (fail_expired P ids st))))"
  using assms
proof (induction ids arbitrary: st)
  case (Cons i ids)
  show ?case
  proof (cases "fail_proof_internal P i None False None None st")
    case (Inl e)
    with Cons show ?thesis by simp
  next
    case (Inr res)
    obtain effs st1 where res: "res = (effs, st1)" by fastforce
    note run = Inr [unfolded res]
    from evolves_trans [OF fail_proof_internal_evolves [OF Cons.prems run] Cons.IH [OF inv_fail_proof [OF Cons.prems run]]]
    show ?thesis by (cases "fail_expired P ids st1") (simp add: run)
  qed
qed simp

lemma cleanup_expired_evolves:
  assumes "coord_inv V st" and "cleanup_cancel_expired_proofs P now ids st = (effs, st')"
  shows "evolves effs (table_of (proofs st)) (table_of (proofs st'))"
proof (cases "ids = []")
  case False
  obtain effs1 st1 where f: "fail_expired P ids st = (effs1, st1)" by fastforce
  from assms(2) f False have "effs = effs1" "st' = ap_assign_tasks P now st1"
    by (simp_all add: cleanup_cancel_expired_proofs_def)
  with evolves_trans [OF fail_expired_evolves [OF assms(1), of ids] assign_evolves [OF inv_fail_expired [OF assms(1)]]] f
  show ?thesis by simp
qed (use assms in \<open>simp add: cleanup_cancel_expired_proofs_def\<close>)

section \<open>Workers joining, reporting and leaving\<close>

lemma remove_workers_step:
  assumes "coord_inv V st"
  shows "coord_inv V (fold (remove_worker_internal P) ids st) \<and>
    evolves [] (table_of (proofs st)) (table_of (proofs (fold (remove_worker_internal P) ids st)))"
  using assms
proof (induction ids arbitrary: st)
  case (Cons i ids)
  note step = remove_worker_internal_step [OF Cons.prems, of i]
  from Cons.IH [OF step [THEN conjunct1]] evolves_trans [OF step [THEN conjunct2]] show ?case by auto
qed simp

lemma assign_after_evolves:
  assumes "coord_inv V st1" and "evolves effs T (table_of (proofs st1))"
  shows "evolves effs T (table_of (proofs (ap_assign_tasks P now st1)))"
  using evolves_trans [OF assms(2) assign_evolves [OF assms(1)]] by simp

lemma remove_worker_evolves:
  "coord_inv V st \<Longrightarrow> evolves [] (table_of (proofs st)) (table_of (proofs (remove_worker P now i st)))"
  unfolding remove_worker_def using remove_worker_internal_step by (intro assign_after_evolves) blast+

lemma cleanup_dead_workers_evolves:
  "coord_inv V st \<Longrightarrow> evolves [] (table_of (proofs st)) (table_of (proofs (cleanup_dead_workers P now dead st)))"
  unfolding cleanup_dead_workers_def using remove_workers_step by (auto intro: assign_after_evolves)

end

end
