(* ===== verification/Telemetry.thy ===== *)
theory Telemetry
  imports Coordinator "HOL-Library.Char_ord" "HOL-Library.List_Lexorder" "HOL-Library.Product_Lexorder"
begin

text \<open>
  What the coordinator reports about the cluster (\<open>bin/coordinator/src/lib.rs\<close>): the component
  manifest, the GPU classes, the GPU availability integral and the statistics of \<open>get_info\<close>.
\<close>

section \<open>Components and GPU nodes\<close>

fun worker_component_name :: "WorkerType \<Rightarrow> string option" where
  "worker_component_name CpuWorker = Some ''cpu-node''"
| "worker_component_name GpuWorker = Some ''gpu-node''"
| "worker_component_name AllWorker = Some ''gpu-node''"
| "worker_component_name UnspecifiedWorkerType = None"
| "worker_component_name NoneWorker = None"

definition is_connected_gpu_node :: "WorkerType \<Rightarrow> nat \<Rightarrow> nat \<Rightarrow> nat \<Rightarrow> bool" where
  "is_connected_gpu_node worker_type last_heartbeat now heartbeat_timeout_secs =
     ((worker_type = GpuWorker \<or> worker_type = AllWorker) \<and>
      saturating_sub now last_heartbeat \<le> heartbeat_timeout_secs)"

definition connected_gpu_nodes :: "nat \<Rightarrow> 'p CoordinatorState \<Rightarrow> Worker list" where
  "connected_gpu_nodes now st =
     filter (\<lambda>worker. is_connected_gpu_node (w_worker_type worker) (w_last_heartbeat worker) now
               (worker_heartbeat_timeout_secs st)) (hm_values (workers st))"

section \<open>GPU classes\<close>

record GpuClassCount =
  gc_name :: string
  gc_memory_total_bytes :: nat
  gc_node_count :: nat

definition count_node ::
  "string \<times> nat \<Rightarrow> (string \<times> nat, nat) hash_map \<Rightarrow> (string \<times> nat, nat) hash_map" where
  "count_node node counts =
     hm_insert node (u32_add (case map_of counts node of None \<Rightarrow> 0 | Some n \<Rightarrow> n) 1) counts"

definition gpu_class :: "(string \<times> nat) \<times> nat \<Rightarrow> GpuClassCount" where
  "gpu_class e =
     \<lparr>gc_name = fst (fst e), gc_memory_total_bytes = snd (fst e), gc_node_count = snd e\<rparr>"

definition group_gpu_classes :: "(string \<times> nat) list \<Rightarrow> GpuClassCount list" where
  "group_gpu_classes nodes =
     sort_key (\<lambda>c. (gc_name c, gc_memory_total_bytes c)) (map gpu_class (fold count_node nodes []))"

section \<open>The availability integral\<close>

definition advance_gpu_available_ms :: "nat \<Rightarrow> nat \<Rightarrow> Duration \<Rightarrow> nat" where
  "advance_gpu_available_ms total_ms gpu_nodes elapsed =
     saturating_add 64 total_ms (saturating_mul 64 gpu_nodes (min (as_millis elapsed) (uint_max 64)))"

text \<open>\<open>tick\<close> is the reading of the monotonic clock.\<close>

definition advance_gpu_available_integral ::
  "Instant \<Rightarrow> nat \<Rightarrow> 'p CoordinatorState \<Rightarrow> 'p CoordinatorState" where
  "advance_gpu_available_integral tick now st =
     (let gpu_nodes = length (connected_gpu_nodes now st) mod 2 ^ 32;
          elapsed = tick - gpu_available_last_tick st
      in st\<lparr>gpu_available_last_tick := tick,
            gpu_available_ms_total :=
              advance_gpu_available_ms (gpu_available_ms_total st) gpu_nodes elapsed\<rparr>)"

definition accumulate_gpu_available_ms ::
  "Instant \<Rightarrow> SystemTime \<Rightarrow> 'p CoordinatorState \<Rightarrow> 'p CoordinatorState" where
  "accumulate_gpu_available_ms tick now st = advance_gpu_available_integral tick (as_secs now) st"

section \<open>Snapshots\<close>

record ClusterComponentInfo =
  cc_component :: string
  cc_version :: string
  cc_git_sha :: string
  cc_image_tag :: string

record ClusterCapacitySnapshot =
  cs_observed_at :: nat
  cs_counters_since :: nat
  cs_gpu_nodes :: nat
  cs_gpu_available_ms_total :: nat
  cs_gpu_busy_ms_total :: nat
  cs_gpus :: "GpuClassCount list"

record ClusterInfo =
  ci_components :: "ClusterComponentInfo list"
  ci_capacity :: ClusterCapacitySnapshot

definition worker_component :: "Worker \<Rightarrow> ClusterComponentInfo option" where
  "worker_component w =
     map_option (\<lambda>name. \<lparr>cc_component = name, cc_version = wi_version (w_identity w),
                         cc_git_sha = wi_git_sha (w_identity w),
                         cc_image_tag = wi_image_tag (w_identity w)\<rparr>)
       (worker_component_name (w_worker_type w))"

text \<open>\<open>own\<close> is the coordinator's build identity, fixed at compile time and by the environment.\<close>

definition get_cluster_info ::
  "ClusterComponentInfo \<Rightarrow> Instant \<Rightarrow> SystemTime \<Rightarrow> 'p CoordinatorState \<Rightarrow> ClusterInfo \<times> 'p CoordinatorState" where
  "get_cluster_info own tick now st =
     (let observed_at = as_secs now;
          st1 = advance_gpu_available_integral tick observed_at st;
          components = own # List.map_filter worker_component (hm_values (workers st1));
          gpus = group_gpu_classes
                   (map (\<lambda>w. (wi_gpu_name (w_identity w), wi_gpu_memory_total_bytes (w_identity w)))
                     (connected_gpu_nodes observed_at st1))
      in (\<lparr>ci_components = components,
           ci_capacity =
             \<lparr>cs_observed_at = observed_at, cs_counters_since = counters_since st1,
              cs_gpu_nodes = wrapping_sum 32 (map gc_node_count gpus),
              cs_gpu_available_ms_total = gpu_available_ms_total st1,
              cs_gpu_busy_ms_total = gpu_busy_ms_total st1, cs_gpus = gpus\<rparr>\<rparr>, st1))"

record GetStatsResponse =
  gs_total_tasks :: nat
  gs_active_tasks :: nat
  gs_cpu_workers :: nat
  gs_gpu_workers :: nat
  gs_cpu_utilization_current :: nat
  gs_cpu_utilization_max :: nat
  gs_gpu_utilization_current :: nat
  gs_gpu_utilization_max :: nat
  gs_active_proofs :: nat
  gs_cpu_queue :: nat
  gs_gpu_queue :: nat
  gs_active_subscribers :: nat

definition workers_of_type :: "WorkerType \<Rightarrow> 'p CoordinatorState \<Rightarrow> Worker list" where
  "workers_of_type wt st = filter (\<lambda>w. w_worker_type w = wt) (hm_values (workers st))"

text \<open>\<open>get_info\<close>, with the number of subscribers as argument; version strings are left out.\<close>

definition get_info :: "'p AssignmentPolicy \<Rightarrow> nat \<Rightarrow> 'p CoordinatorState \<Rightarrow> GetStatsResponse" where
  "get_info P subscriber_count st =
     \<lparr>gs_total_tasks = total_tasks st,
      gs_active_tasks = wrapping_sum 32 (map p_active_tasks (hm_values (proofs st))),
      gs_cpu_workers = length (workers_of_type CpuWorker st) mod 2 ^ 32,
      gs_gpu_workers = length (workers_of_type GpuWorker st) mod 2 ^ 32,
      gs_cpu_utilization_current = wrapping_sum 32 (map w_weight (workers_of_type CpuWorker st)),
      gs_cpu_utilization_max = wrapping_sum 32 (map w_max_weight (workers_of_type CpuWorker st)),
      gs_gpu_utilization_current = wrapping_sum 32 (map w_weight (workers_of_type GpuWorker st)),
      gs_gpu_utilization_max = wrapping_sum 32 (map w_max_weight (workers_of_type GpuWorker st)),
      gs_active_proofs = length (proofs st) mod 2 ^ 32,
      gs_cpu_queue = ap_cpu_queue_len P st,
      gs_gpu_queue = ap_gpu_queue_len P st,
      gs_active_subscribers = subscriber_count mod 2 ^ 32\<rparr>"

section \<open>Grouping\<close>

lemma count_nodes:
  assumes "length nodes < 2 ^ 32"
  shows "hm_wf (fold count_node nodes [])"
    and "map_of (fold count_node nodes []) k = (if k \<in> set nodes then Some (count_list nodes k) else None)"
proof -
  have "hm_wf (fold count_node nodes []) \<and>
      (\<forall>k. map_of (fold count_node nodes []) k = (if k \<in> set nodes then Some (count_list nodes k) else None))"
    using assms
  proof (induction nodes rule: rev_induct)
    case (snoc n ns)
    have "count_list ns n \<le> length ns" by (rule count_le_length)
    with snoc.prems have "count_list ns n + 1 < 2 ^ 32" by simp
    with snoc show ?case by (auto simp: count_node_def)
  qed simp
  then show "hm_wf (fold count_node nodes [])"
    and "map_of (fold count_node nodes []) k = (if k \<in> set nodes then Some (count_list nodes k) else None)"
    by blast+
qed

lemma gpu_class_simps [simp]:
  "gc_name (gpu_class e) = fst (fst e)" "gc_memory_total_bytes (gpu_class e) = snd (fst e)"
  "gc_node_count (gpu_class e) = snd e"
  by (simp_all add: gpu_class_def)

lemma group_gpu_classes_spec:
  assumes "length nodes < 2 ^ 32"
  shows "group_gpu_classes nodes =
    map (\<lambda>k. gpu_class (k, count_list nodes k)) (sorted_list_of_set (set nodes))"
proof -
  let ?m = "fold count_node nodes []" and ?key = "\<lambda>c. (gc_name c, gc_memory_total_bytes c)"
  note counts = count_nodes [OF assms]
  have keys: "map ?key (map gpu_class ?m) = map fst ?m" by simp
  have "set (map fst ?m) = set nodes"
  proof -
    have "set (map fst ?m) = {k. map_of ?m k \<noteq> None}" by (auto simp: map_of_eq_None_iff)
    then show ?thesis using counts(2) by (auto split: if_splits)
  qed
  then have key_set: "set (map ?key (group_gpu_classes nodes)) = set nodes"
    unfolding group_gpu_classes_def by (simp flip: keys add: image_image)
  have "mset (map ?key (group_gpu_classes nodes)) = mset (map fst ?m)"
    unfolding group_gpu_classes_def keys [symmetric] by (simp only: mset_map mset_sort)
  then have "distinct (map ?key (group_gpu_classes nodes))"
    using counts(1) unfolding hm_wf_def by (metis mset_eq_imp_distinct_iff)
  moreover have "sorted (map ?key (group_gpu_classes nodes))"
    unfolding group_gpu_classes_def by (rule sorted_sort_key)
  ultimately have sorted: "map ?key (group_gpu_classes nodes) = sorted_list_of_set (set nodes)"
    using key_set by (metis sorted_list_of_set.idem_if_sorted_distinct)
  have "c = gpu_class (?key c, count_list nodes (?key c))" if "c \<in> set (group_gpu_classes nodes)" for c
  proof -
    from that obtain e where e: "e \<in> set ?m" "c = gpu_class e" by (auto simp: group_gpu_classes_def)
    then have "map_of ?m (fst e) = Some (snd e)" using counts(1) by (simp add: hm_wf_mem [symmetric])
    then have "snd e = count_list nodes (fst e)" using counts(2) [of "fst e"] by (auto split: if_splits)
    then show ?thesis unfolding e(2) by (simp add: gpu_class_def)
  qed
  then have "group_gpu_classes nodes =
      map (\<lambda>k. gpu_class (k, count_list nodes k)) (map ?key (group_gpu_classes nodes))"
    by (simp add: map_idI)
  then show ?thesis unfolding sorted .
qed

lemma group_gpu_classes_total:
  "length nodes < 2 ^ 32 \<Longrightarrow> sum_list (map gc_node_count (group_gpu_classes nodes)) = length nodes"
  using sum_count_set [of nodes "set nodes"]
  by (simp add: group_gpu_classes_spec comp_def sum_list_distinct_conv_sum_set)

section \<open>Liveness tests and the integral\<close>

lemma connected_iff_not_dead:
  "beat + timeout < 2 ^ 64 \<Longrightarrow>
     saturating_sub now beat \<le> timeout \<longleftrightarrow> \<not> (u64_add beat timeout < now)"
  by (auto simp: saturating_sub_def)

lemma integral_mono:
  "gpu_available_ms_total st \<le> uint_max 64 \<Longrightarrow>
     gpu_available_ms_total st \<le> gpu_available_ms_total (advance_gpu_available_integral tick now st) \<and>
     gpu_available_ms_total (advance_gpu_available_integral tick now st) \<le> uint_max 64"
  by (simp add: advance_gpu_available_integral_def Let_def advance_gpu_available_ms_def saturating_add_mono)

end
