(* ===== verification/Coord_Reach.thy ===== *)
theory Coord_Reach
  imports Coord_Evolve Telemetry
begin

text \<open>
  The coordinator as a state machine.  Every operation that takes the write lock is one step, in any
  order and with any arguments; \<open>effs\<close> are the effects the step leaves to be carried out on channels
  and subscribers.  What the steps take for granted is what the callers ensure: generated task ids
  are new, weights stay below \<open>2\<^sup>3\<^sup>1\<close>, the workers together offer less than \<open>2\<^sup>3\<^sup>1\<close>, and a
  proof has fewer than \<open>2\<^sup>3\<^sup>2\<close> tasks.

  The step relation is instantiated with both policies in the root theory.
\<close>

section \<open>Steps\<close>

inductive coord_step ::
  "'p AssignmentPolicy \<Rightarrow> 'p PolicyView \<Rightarrow> effect list \<Rightarrow> 'p CoordinatorState \<Rightarrow> 'p CoordinatorState \<Rightarrow> bool"
  for P :: "'p AssignmentPolicy" and V :: "'p PolicyView" where
  step_create_proof:
    "fresh_task V i st \<Longrightarrow> weight mod 2 ^ 32 < 2 ^ 31 \<Longrightarrow>
     coord_step P V [] st (snd (create_proof P now i weight request st))"
| step_create_dummy_proof:
    "coord_step P V [] st (snd (create_dummy_proof now p e st))"
| step_create_task:
    "fresh_task V i st \<Longrightarrow> td_weight data < 2 ^ 31 \<Longrightarrow> room_for_task (td_proof_id data) st \<Longrightarrow>
     coord_step P V [] st (snd (create_task_internal P now i data st))"
| step_complete_task:
    "complete_task P now i p t m st = Inr (effs, st') \<Longrightarrow> coord_step P V effs st st'"
| step_fail_task:
    "fail_task P now i p t retryable st = Inr (effs, st') \<Longrightarrow> coord_step P V effs st st'"
| step_fail_proof:
    "fail_proof P p blamed notify extra st = Inr (effs, st') \<Longrightarrow> coord_step P V effs st st'"
| step_complete_proof:
    "complete_proof p extra st = Inr st' \<Longrightarrow> coord_step P V [] st st'"
| step_add_worker:
    "(map_of (workers st) i = None \<Longrightarrow> capacity (workers st) + max_weight < 2 ^ 31) \<Longrightarrow>
     coord_step P V [] st (snd (add_worker P now i wt max_weight ch identity st))"
| step_remove_worker:
    "coord_step P V [] st (remove_worker P now i st)"
| step_close_worker:
    "close_worker i st = Inr st' \<Longrightarrow> coord_step P V [] st st'"
| step_cleanup_dead_workers:
    "coord_step P V [] st (cleanup_dead_workers P now dead st)"
| step_heartbeat:
    "handle_heartbeat P now i pids tids n st = Inr st' \<Longrightarrow> coord_step P V [] st st'"
| step_expire:
    "cleanup_cancel_expired_proofs P now expired st = (effs, st') \<Longrightarrow> coord_step P V effs st st'"
| step_subscribe:
    "coord_step P V [] st (snd (subscribe_in_state sub p ts st))"
| step_shutdown:
    "coord_step P V [] st (shutdown_state st)"
| step_send_heartbeats:
    "coord_step P V [] st (send_heartbeats st)"
| step_accumulate:
    "coord_step P V [] st (accumulate_gpu_available_ms tick now st)"
| step_set_proofs_tx:
    "coord_step P V [] st (set_proofs_tx tx st)"
| step_set_execute_only:
    "coord_step P V [] st (set_execute_only_mode b st)"
| step_set_timeout:
    "coord_step P V [] st (set_worker_heartbeat_timeout secs st)"

inductive coord_reachable :: "'p AssignmentPolicy \<Rightarrow> 'p PolicyView \<Rightarrow> 'p CoordinatorState \<Rightarrow> bool"
  for P :: "'p AssignmentPolicy" and V :: "'p PolicyView" where
  initially: "coord_reachable P V (initial_state (ap_default P) now tick)"
| stepped: "coord_reachable P V st \<Longrightarrow> coord_step P V effs st st' \<Longrightarrow> coord_reachable P V st'"

text \<open>Between two states every task of the first evolves; tasks of the second may be new.\<close>

definition tasks_evolve :: "effect list \<Rightarrow> 'p CoordinatorState \<Rightarrow> 'p CoordinatorState \<Rightarrow> bool" where
  "tasks_evolve effs st st' \<longleftrightarrow>
     (\<forall>p t task. get_task_internal st p t = Some task \<longrightarrow>
        task_evolves (accounts effs (p, t) task) task (get_task_internal st' p t))"

lemma tasks_evolveI:
  "evolves effs T (table_of (proofs st')) \<Longrightarrow> table_of (proofs st) \<subseteq>\<^sub>m T \<Longrightarrow> tasks_evolve effs st st'"
  unfolding tasks_evolve_def task_at_table_of by (metis domI evolvesD(2) map_le_def snd_conv)

lemma tasks_evolve_same: "proofs st' = proofs st \<Longrightarrow> tasks_evolve effs st st'"
  by (rule tasks_evolveI [of _ "table_of (proofs st)"]) simp_all

lemma tasks_evolve_dummy: "tasks_evolve [] st (snd (create_dummy_proof now p e st))"
  by (auto simp: tasks_evolve_def create_dummy_proof_def get_task_internal_def split: option.splits)

section \<open>Steps keep the invariant\<close>

context assignment_policy
begin

lemma settles_step:
  assumes "settles P V ps st'" and "table_of (proofs st) \<subseteq>\<^sub>m table_of ps"
  shows "coord_inv V st' \<and> tasks_evolve [] st st'"
  using settles_inv [OF assms(1)] tasks_evolveI [OF settles_evolves [OF assms(1)] assms(2)] by simp

lemma evolves_step:
  "coord_inv V st' \<Longrightarrow> evolves effs (table_of (proofs st)) (table_of (proofs st')) \<Longrightarrow>
     coord_inv V st' \<and> tasks_evolve effs st st'"
  using tasks_evolveI [of effs "table_of (proofs st)" st' st] by simp

lemma step_preserves:
  assumes "coord_step P V effs st st'" and inv: "coord_inv V st"
  shows "coord_inv V st' \<and> tasks_evolve effs st st'"
  using assms(1)
proof cases
  case (step_create_proof i weight now request)
  from create_proof_settles [OF inv step_create_proof(3,4), of now request] step_create_proof(1,2)
  show ?thesis by (auto dest: settles_step)
next
  case (step_create_task i data now)
  from create_task_internal_settles [OF inv step_create_task(3-5), of now] step_create_task(1,2)
  show ?thesis by (auto dest: settles_step)
next
  case (step_create_dummy_proof now p e)
  with inv tasks_evolve_dummy show ?thesis by (simp add: inv_create_dummy_proof)
next
  case (step_complete_task now i p t m)
  then show ?thesis by (intro evolves_step inv_complete_task [OF inv] complete_task_evolves [OF inv])
next
  case (step_fail_task now i p t retryable)
  then show ?thesis by (intro evolves_step inv_fail_task [OF inv] fail_task_evolves [OF inv])
next
  case (step_fail_proof p blamed notify extra)
  then show ?thesis
    unfolding fail_proof_def
    by (intro evolves_step inv_fail_proof [OF inv] fail_proof_internal_evolves [OF inv])
next
  case (step_complete_proof p extra)
  then have "proofs st' = proofs st" by (auto simp: complete_proof_def send_def split: option.splits)
  with step_complete_proof inv show ?thesis by (auto intro: inv_settings(5) tasks_evolve_same)
next
  case (step_add_worker i max_weight now wt ch identity)
  have "settles P V (proofs st) st'"
    unfolding step_add_worker(2) by (rule add_worker_settles [OF inv step_add_worker(3)])
  from settles_step [OF this, of st] step_add_worker(1) show ?thesis by simp
next
  case (step_remove_worker now i)
  with inv show ?thesis by (auto intro!: evolves_step inv_remove_worker remove_worker_evolves)
next
  case (step_close_worker i)
  then have "proofs st' = proofs st" by (auto simp: close_worker_def split: option.splits)
  with step_close_worker inv_close_worker [OF inv] show ?thesis by (auto intro: tasks_evolve_same)
next
  case (step_cleanup_dead_workers now dead)
  with inv show ?thesis by (auto intro!: evolves_step inv_cleanup_dead_workers cleanup_dead_workers_evolves)
next
  case (step_heartbeat now i pids tids n)
  from settles_step [OF handle_heartbeat_settles [OF inv step_heartbeat(2)] map_le_refl] step_heartbeat(1) show ?thesis by simp
next
  case (step_expire now expired)
  have "coord_inv V st'" using inv_cleanup_expired [OF inv, of now expired] step_expire by simp
  then show ?thesis by (rule evolves_step [OF _ cleanup_expired_evolves [OF inv step_expire]])
next
  case (step_subscribe sub p ts)
  from subscribe_in_state_step [OF inv, of sub p ts] step_subscribe evolves_step [of st' "[]" st] show ?thesis by simp
next
  case step_shutdown
  with inv_shutdown [OF inv] show ?thesis by (auto intro: tasks_evolve_same simp: shutdown_state_def)
next
  case step_send_heartbeats
  with inv show ?thesis by (auto intro: tasks_evolve_same simp: send_heartbeats_def)
next
  case (step_accumulate tick now)
  with inv show ?thesis
    by (auto intro: tasks_evolve_same simp: accumulate_gpu_available_ms_def advance_gpu_available_integral_def Let_def)
next
  case (step_set_proofs_tx tx)
  with inv show ?thesis by (auto intro: tasks_evolve_same simp: set_proofs_tx_def)
next
  case (step_set_execute_only b)
  with inv show ?thesis by (auto intro: tasks_evolve_same simp: set_execute_only_mode_def)
next
  case (step_set_timeout secs)
  with inv show ?thesis by (auto intro: tasks_evolve_same simp: set_worker_heartbeat_timeout_def)
qed

lemma reachable_inv: "coord_reachable P V st \<Longrightarrow> coord_inv V st"
  by (induction rule: coord_reachable.induct) (use inv_initial step_preserves in blast)+

lemma reachable_evolve:
  "coord_reachable P V st \<Longrightarrow> coord_step P V effs st st' \<Longrightarrow> tasks_evolve effs st st'"
  using step_preserves reachable_inv by blast

end

section \<open>What the invariant says\<close>

definition single_holder :: "'p CoordinatorState \<Rightarrow> bool" where
  "single_holder st \<longleftrightarrow>
     (\<forall>i v k. map_of (workers st) i = Some v \<longrightarrow> k \<in> set (w_active_tasks v) \<longrightarrow>
        (\<exists>task. task_at st k = Some task \<and> t_worker task = Some i \<and> t_status task \<in> {Running, Succeeded}) \<and>
        (\<forall>j w. map_of (workers st) j = Some w \<longrightarrow> k \<in> set (w_active_tasks w) \<longrightarrow> j = i))"

definition held_weight :: "'p CoordinatorState \<Rightarrow> Worker \<Rightarrow> nat" where
  "held_weight st w =
     (\<Sum>k \<in> set (w_active_tasks w). case task_at st k of None \<Rightarrow> 0 | Some task \<Rightarrow> task_weight_of task)"

definition unfinished :: "Proof \<Rightarrow> TaskId set" where
  "unfinished pr = {t. \<exists>task. map_of (p_tasks pr) t = Some task \<and> \<not> final_status (t_status task)}"

definition no_task_lost :: "'p PolicyView \<Rightarrow> 'p CoordinatorState \<Rightarrow> bool" where
  "no_task_lost V st \<longleftrightarrow>
     (\<forall>p t task. get_task_internal st p t = Some task \<longrightarrow> \<not> final_status (t_status task) \<longrightarrow>
        queueable V (task_type task) \<longrightarrow>
        (p, t) \<in> held (workers st) \<or> (p, t) \<in> queued_keys V (policy st))"

definition queued_once :: "'p PolicyView \<Rightarrow> 'p CoordinatorState \<Rightarrow> bool" where
  "queued_once V st \<longleftrightarrow>
     (\<forall>k. size (filter_mset (\<lambda>q. qkey q = k) (pv_queued V (policy st))) \<le> 1 \<and>
          (k \<in> queued_keys V (policy st) \<longrightarrow> k \<notin> held (workers st)))"

lemma inv_single_holder: "coord_inv V st \<Longrightarrow> single_holder st"
proof -
  assume "coord_inv V st"
  then have ok: "holds_ok (table_of (proofs st)) (workers st)" by (simp add: coord_inv_def core_def)
  show ?thesis
    unfolding single_holder_def task_at_table_of
  proof (intro allI impI conjI)
    fix i v k
    assume i: "map_of (workers st) i = Some v" and k: "k \<in> set (w_active_tasks v)"
    from worker_okD [OF holds_okD [OF ok i] k]
    show "\<exists>task. table_of (proofs st) (fst k, snd k) = Some task \<and> t_worker task = Some i \<and>
        t_status task \<in> {Running, Succeeded}" by (auto simp: hold_status_def)
    show "j = i" if "map_of (workers st) j = Some w" "k \<in> set (w_active_tasks w)" for j w
      using unique_holder [OF ok that i k] .
  qed
qed

lemma held_weight_load: "held_weight st w = load (table_of (proofs st)) w"
  by (simp add: held_weight_def load_def weight_in_def task_at_table_of)

lemma live_count_unfinished:
  "hm_wf ts \<Longrightarrow> live_count ts = card {t. \<exists>task. map_of ts t = Some task \<and> \<not> final_status (t_status task)}"
proof (induction ts)
  case (Cons e ts)
  let ?U = "\<lambda>ts. {t. \<exists>task. map_of ts t = Some task \<and> \<not> final_status (t_status task)}"
  obtain t task where e: "e = (t, task)" by fastforce
  from Cons.prems have wf: "hm_wf ts" and t: "map_of ts t = None" by (auto dest: hm_wf_ConsD simp: e)
  have "?U (e # ts) = (if final_status (t_status task) then ?U ts else insert t (?U ts))"
    using t by (auto simp: e)
  moreover have "t \<notin> ?U ts" using t by simp
  ultimately show ?case using Cons.IH [OF wf] by (simp add: live_count_def e)
qed (simp add: live_count_def)

lemma inv_counter: "coord_inv V st \<Longrightarrow> map_of (proofs st) p = Some pr \<Longrightarrow> p_active_tasks pr = card (unfinished pr)"
  using proofs_okD [of "proofs st" p pr]
  by (simp add: coord_inv_def proof_ok_def unfinished_def live_count_unfinished)

lemma inv_no_task_lost: "coord_inv V st \<Longrightarrow> \<not> shutting_down st \<Longrightarrow> no_task_lost V st"
  unfolding coord_inv_def core_def placed_def no_task_lost_def task_at_table_of by blast

lemma inv_queued_once: "coord_inv V st \<Longrightarrow> queued_once V st"
  unfolding coord_inv_def core_def queue_ok_def queued_once_def queued_keys_def by blast

lemma inv_weights:
  assumes "coord_inv V st" and "\<not> shutting_down st" and "map_of (workers st) i = Some w"
  shows "w_weight w = held_weight st w \<and> w_weight w \<le> w_max_weight w"
  using loads_okD [OF coreD(8) [OF invD(2) [OF assms(1)] assms(2)] assms(3)]
  by (simp add: held_weight_load loaded_def)

end
