(* ===== verification/Channels.thy ===== *)
theory Channels
  imports Coord_State "HOL-Library.Sublist"
begin

text \<open>
  The message channel of a task (\<open>MessageChannelState\<close> in \<open>bin/coordinator/src/lib.rs\<close>): a buffer of
  all payloads, the live subscribers, and a closed flag.  Each operation returns the new channel and
  the messages it delivered, in order.  The receiving end of a stream can go away at any time; the
  predicate \<open>alive\<close> says which receivers a send still reaches.
\<close>

section \<open>The channel\<close>

record MessageChannelInner =
  mc_subscribers :: "channel list"
  mc_buffer :: "nat list list"
  mc_closed :: bool
  mc_closed_at :: "Instant option"

type_synonym delivery = "channel \<times> MessageStreamResponse"

definition MessageChannel_default :: MessageChannelInner where
  "MessageChannel_default =
     \<lparr>mc_subscribers = [], mc_buffer = [], mc_closed = False, mc_closed_at = None\<rparr>"

definition push ::
  "(channel \<Rightarrow> bool) \<Rightarrow> nat list \<Rightarrow> MessageChannelInner \<Rightarrow> MessageChannelInner \<times> delivery list" where
  "push alive payload ch =
     (if mc_closed ch then (ch, [])
      else let subs = filter alive (mc_subscribers ch)
           in (ch\<lparr>mc_buffer := mc_buffer ch @ [payload], mc_subscribers := subs\<rparr>,
               map (\<lambda>tx. (tx, Payload payload)) subs))"

definition attach_subscriber ::
  "channel \<Rightarrow> nat \<Rightarrow> MessageChannelInner \<Rightarrow> MessageChannelInner \<times> delivery list" where
  "attach_subscriber tx start_offset ch =
     (let replay = map (\<lambda>payload. (tx, Payload payload)) (drop start_offset (mc_buffer ch))
      in if mc_closed ch then (ch, replay @ [(tx, EndOfStream)])
         else (ch\<lparr>mc_subscribers := mc_subscribers ch @ [tx]\<rparr>, replay))"

text \<open>The body of \<open>close_task_channel\<close> for an existing entry.\<close>

definition close_channel ::
  "(channel \<Rightarrow> bool) \<Rightarrow> Instant \<Rightarrow> MessageChannelInner \<Rightarrow> MessageChannelInner \<times> delivery list" where
  "close_channel alive now ch =
     (if mc_closed ch then (ch, [])
      else (ch\<lparr>mc_closed := True, mc_closed_at := Some now, mc_subscribers := []\<rparr>,
            map (\<lambda>tx. (tx, EndOfStream)) (filter alive (mc_subscribers ch))))"

section \<open>Histories of a channel\<close>

text \<open>
  A history of one channel: its state, the position in the buffer from which each attached receiver
  reads, the receivers that have gone away, and everything delivered so far.  A receiver attached
  beyond the end of the buffer reads from the end.
\<close>

inductive channel_history ::
  "MessageChannelInner \<Rightarrow> (channel \<rightharpoonup> nat) \<Rightarrow> channel set \<Rightarrow> delivery list \<Rightarrow> bool" where
  opened: "channel_history MessageChannel_default Map.empty {} []"
| pushed:
    "channel_history ch start dead log \<Longrightarrow> dead \<subseteq> dead' \<Longrightarrow>
     push (\<lambda>tx. tx \<notin> dead') payload ch = (ch', out) \<Longrightarrow>
     channel_history ch' start dead' (log @ out)"
| attached:
    "channel_history ch start dead log \<Longrightarrow> start tx = None \<Longrightarrow> tx \<notin> dead \<Longrightarrow>
     attach_subscriber tx start_offset ch = (ch', out) \<Longrightarrow>
     channel_history ch' (start(tx \<mapsto> min start_offset (length (mc_buffer ch)))) dead (log @ out)"
| closed:
    "channel_history ch start dead log \<Longrightarrow> dead \<subseteq> dead' \<Longrightarrow>
     close_channel (\<lambda>tx. tx \<notin> dead') now ch = (ch', out) \<Longrightarrow>
     channel_history ch' start dead' (log @ out)"

definition stream_of :: "channel \<Rightarrow> delivery list \<Rightarrow> MessageStreamResponse list" where
  "stream_of tx log = map snd (filter (\<lambda>d. fst d = tx) log)"

text \<open>What a receiver reading from a position is owed.\<close>

definition owed :: "nat \<Rightarrow> MessageChannelInner \<Rightarrow> MessageStreamResponse list" where
  "owed pos ch = map Payload (drop pos (mc_buffer ch)) @ (if mc_closed ch then [EndOfStream] else [])"

lemma stream_of_append [simp]: "stream_of tx (log @ out) = stream_of tx log @ stream_of tx out"
  by (simp add: stream_of_def)

lemma stream_of_Nil [simp]: "stream_of tx [] = []"
  by (simp add: stream_of_def)

lemma stream_of_broadcast:
  "distinct txs \<Longrightarrow> stream_of tx (map (\<lambda>t. (t, m)) txs) = (if tx \<in> set txs then [m] else [])"
  by (induction txs) (auto simp: stream_of_def)

lemma stream_of_replay:
  "stream_of tx (map (\<lambda>p. (t, f p)) ps) = (if t = tx then map f ps else [])"
  by (induction ps) (auto simp: stream_of_def)

text \<open>
  The invariant: open channels list exactly the attached receivers that were not found dead, all
  streams are prefixes of what is owed, and those of listed or living receivers are all of it.
\<close>

definition channel_ok :: "MessageChannelInner \<Rightarrow> (channel \<rightharpoonup> nat) \<Rightarrow> channel set \<Rightarrow> delivery list \<Rightarrow> bool" where
  "channel_ok ch start dead log \<longleftrightarrow>
     distinct (mc_subscribers ch) \<and> set (mc_subscribers ch) \<subseteq> dom start \<and>
     (mc_closed ch \<longrightarrow> mc_subscribers ch = []) \<and>
     (\<forall>tx. start tx = None \<longrightarrow> stream_of tx log = []) \<and>
     (\<forall>tx pos. start tx = Some pos \<longrightarrow>
        pos \<le> length (mc_buffer ch) \<and> prefix (stream_of tx log) (owed pos ch) \<and>
        (tx \<in> set (mc_subscribers ch) \<or> tx \<notin> dead \<longrightarrow> stream_of tx log = owed pos ch) \<and>
        (tx \<notin> dead \<longrightarrow> \<not> mc_closed ch \<longrightarrow> tx \<in> set (mc_subscribers ch)))"

lemma channel_okD:
  assumes "channel_ok ch start dead log"
  shows "distinct (mc_subscribers ch)" and "set (mc_subscribers ch) \<subseteq> dom start"
    and "mc_closed ch \<Longrightarrow> mc_subscribers ch = []"
    and "start tx = None \<Longrightarrow> stream_of tx log = []"
    and "start tx = Some pos \<Longrightarrow> pos \<le> length (mc_buffer ch)"
    and "start tx = Some pos \<Longrightarrow> prefix (stream_of tx log) (owed pos ch)"
    and "start tx = Some pos \<Longrightarrow> tx \<in> set (mc_subscribers ch) \<or> tx \<notin> dead \<Longrightarrow> stream_of tx log = owed pos ch"
    and "start tx = Some pos \<Longrightarrow> tx \<notin> dead \<Longrightarrow> \<not> mc_closed ch \<Longrightarrow> tx \<in> set (mc_subscribers ch)"
  using assms unfolding channel_ok_def by blast+

lemma channel_ok_dead: "channel_ok ch start dead log \<Longrightarrow> dead \<subseteq> dead' \<Longrightarrow> channel_ok ch start dead' log"
  unfolding channel_ok_def by blast

lemma owed_push:
  "\<not> mc_closed ch \<Longrightarrow> pos \<le> length (mc_buffer ch) \<Longrightarrow>
     owed pos (ch\<lparr>mc_buffer := mc_buffer ch @ [p], mc_subscribers := s\<rparr>) = owed pos ch @ [Payload p]"
  by (simp add: owed_def)

lemma owed_close:
  "\<not> mc_closed ch \<Longrightarrow>
     owed pos (ch\<lparr>mc_closed := True, mc_closed_at := t, mc_subscribers := s\<rparr>) = owed pos ch @ [EndOfStream]"
  by (simp add: owed_def)

lemma channel_ok_push:
  assumes ok: "channel_ok ch start dead log" and run: "push (\<lambda>tx. tx \<notin> dead) p ch = (ch', out)"
  shows "channel_ok ch' start dead (log @ out)"
proof (cases "mc_closed ch")
  case True
  with ok run show ?thesis by (simp add: push_def)
next
  case False
  let ?subs = "filter (\<lambda>tx. tx \<notin> dead) (mc_subscribers ch)"
  from run False have ch': "ch' = ch\<lparr>mc_buffer := mc_buffer ch @ [p], mc_subscribers := ?subs\<rparr>"
    and out: "out = map (\<lambda>tx. (tx, Payload p)) ?subs" by (auto simp: push_def Let_def)
  note d = channel_okD [OF ok]
  have o: "stream_of tx out = (if tx \<in> set ?subs then [Payload p] else [])" for tx
    unfolding out by (rule stream_of_broadcast) (simp add: d(1))
  show ?thesis
    unfolding channel_ok_def
  proof (intro conjI allI impI)
    fix tx pos
    assume orig: "start tx = Some pos"
    have owed': "owed pos ch' = owed pos ch @ [Payload p]"
      unfolding ch' by (rule owed_push [OF False d(5) [OF orig]])
    show "pos \<le> length (mc_buffer ch')" using d(5) [OF orig] by (simp add: ch')
    have eq: "stream_of tx (log @ out) = owed pos ch'" if "tx \<in> set ?subs"
      using that d(7) [OF orig] by (simp add: o owed')
    show "prefix (stream_of tx (log @ out)) (owed pos ch')"
      using eq d(6) [OF orig] by (cases "tx \<in> set ?subs") (auto simp: o owed')
    show "tx \<in> set (mc_subscribers ch')" if "tx \<notin> dead" "\<not> mc_closed ch'"
      using d(8) [OF orig that(1) False] that(1) by (simp add: ch')
    then show "stream_of tx (log @ out) = owed pos ch'" if "tx \<in> set (mc_subscribers ch') \<or> tx \<notin> dead"
      using that eq False by (auto simp: ch')
  next
    fix tx
    assume "start tx = None"
    then have "tx \<notin> set ?subs" using d(2) by auto
    with d(4) [OF \<open>start tx = None\<close>] show "stream_of tx (log @ out) = []" by (simp add: o)
  qed (use d(1,2) False in \<open>auto simp: ch'\<close>)
qed

lemma channel_ok_attach:
  assumes ok: "channel_ok ch start dead log" and new: "start tx = None" "tx \<notin> dead"
    and run: "attach_subscriber tx off ch = (ch', out)"
  shows "channel_ok ch' (start(tx \<mapsto> min off (length (mc_buffer ch)))) dead (log @ out)"
proof -
  note d = channel_okD [OF ok]
  let ?pos = "min off (length (mc_buffer ch))"
  have buf: "mc_buffer ch' = mc_buffer ch" "mc_closed ch' = mc_closed ch"
    and subs: "mc_subscribers ch' = (if mc_closed ch then mc_subscribers ch else mc_subscribers ch @ [tx])"
    using run by (auto simp: attach_subscriber_def Let_def split: if_splits)
  have owed': "owed pos ch' = owed pos ch" for pos by (simp add: owed_def buf)
  have drop: "drop ?pos (mc_buffer ch) = drop off (mc_buffer ch)" by (simp add: min_def)
  have o: "stream_of tx' out = (if tx' = tx then owed ?pos ch else [])" for tx'
    using run unfolding owed_def drop
    by (auto simp: attach_subscriber_def Let_def stream_of_replay stream_of_def [of _ "[_]"] split: if_splits)
  have tx: "tx \<notin> set (mc_subscribers ch)" using d(2) new(1) by auto
  show ?thesis
    unfolding channel_ok_def
  proof (intro conjI allI impI)
    fix tx' pos
    assume orig: "(start(tx \<mapsto> ?pos)) tx' = Some pos"
    show "pos \<le> length (mc_buffer ch')" using orig d(5) [of tx'] by (auto simp: buf split: if_splits)
    show "prefix (stream_of tx' (log @ out)) (owed pos ch')"
      using orig d(4) [OF new(1)] d(6) [of tx'] by (auto simp: o owed' split: if_splits)
    show "stream_of tx' (log @ out) = owed pos ch'" if "tx' \<in> set (mc_subscribers ch') \<or> tx' \<notin> dead"
      using that orig d(4) [OF new(1)] d(7) [of tx'] by (auto simp: o owed' subs split: if_splits)
    show "tx' \<in> set (mc_subscribers ch')" if "tx' \<notin> dead" "\<not> mc_closed ch'"
      using that orig d(8) [of tx'] by (auto simp: subs buf split: if_splits)
  next
    fix tx'
    assume "(start(tx \<mapsto> ?pos)) tx' = None"
    with d(4) [of tx'] show "stream_of tx' (log @ out) = []" by (auto simp: o split: if_splits)
  qed (use d(1-3) tx in \<open>auto simp: subs buf\<close>)
qed

lemma channel_ok_close:
  assumes ok: "channel_ok ch start dead log" and run: "close_channel (\<lambda>tx. tx \<notin> dead) now ch = (ch', out)"
  shows "channel_ok ch' start dead (log @ out)"
proof (cases "mc_closed ch")
  case True
  with ok run show ?thesis by (simp add: close_channel_def)
next
  case False
  let ?subs = "filter (\<lambda>tx. tx \<notin> dead) (mc_subscribers ch)"
  from run False have ch': "ch' = ch\<lparr>mc_closed := True, mc_closed_at := Some now, mc_subscribers := []\<rparr>"
    and out: "out = map (\<lambda>tx. (tx, EndOfStream)) ?subs" by (auto simp: close_channel_def)
  note d = channel_okD [OF ok]
  have o: "stream_of tx out = (if tx \<in> set ?subs then [EndOfStream] else [])" for tx
    unfolding out by (rule stream_of_broadcast) (simp add: d(1))
  have owed': "owed pos ch' = owed pos ch @ [EndOfStream]" for pos
    unfolding ch' by (rule owed_close [OF False])
  show ?thesis
    unfolding channel_ok_def
  proof (intro conjI allI impI)
    fix tx pos
    assume orig: "start tx = Some pos"
    show "pos \<le> length (mc_buffer ch')" using d(5) [OF orig] by (simp add: ch')
    have eq: "stream_of tx (log @ out) = owed pos ch'" if "tx \<in> set ?subs"
      using that d(7) [OF orig] by (simp add: o owed')
    show "prefix (stream_of tx (log @ out)) (owed pos ch')"
      using eq d(6) [OF orig] by (cases "tx \<in> set ?subs") (auto simp: o owed')
    show "stream_of tx (log @ out) = owed pos ch'" if "tx \<in> set (mc_subscribers ch') \<or> tx \<notin> dead"
      using that eq d(8) [OF orig _ False] by (auto simp: ch')
    show "tx \<in> set (mc_subscribers ch')" if "\<not> mc_closed ch'" using that by (simp add: ch')
  next
    fix tx
    assume none: "start tx = None"
    then have "tx \<notin> set ?subs" using d(2) by auto
    with d(4) [OF none] show "stream_of tx (log @ out) = []" by (simp add: o)
  qed (simp_all add: ch')
qed

lemma channel_history_ok: "channel_history ch start dead log \<Longrightarrow> channel_ok ch start dead log"
proof (induction rule: channel_history.induct)
  case opened
  show ?case by (simp add: channel_ok_def MessageChannel_default_def)
next
  case (pushed ch start dead log dead' payload ch' out)
  show ?case by (rule channel_ok_push [OF channel_ok_dead [OF pushed.IH pushed.hyps(2)] pushed.hyps(3)])
next
  case (attached ch start dead log tx off ch' out)
  then show ?case by (intro channel_ok_attach)
next
  case (closed ch start dead log dead' now ch' out)
  show ?case by (rule channel_ok_close [OF channel_ok_dead [OF closed.IH closed.hyps(2)] closed.hyps(3)])
qed

end
