(* ===== verification/Coord_Service.thy ===== *)
theory Coord_Service
  imports Coord_Reach Channels
begin

text \<open>
  The coordinator with everything around the locked state (\<open>Coordinator<P>\<close> in
  \<open>bin/coordinator/src/lib.rs\<close>): the subscribers to task results and the message channels of the
  tasks.  An operation on the locked state runs first and its effects, closing channels and notifying
  subscribers, are carried out here.  Whatever touches a channel entry does so under the guard of the
  entry or under the read lock, and whatever closes one holds the write lock, so each operation is one
  step.  \<open>c_sub_wire\<close> and \<open>c_streams\<close> record what was sent to subscribers and on streams; \<open>alive\<close> says
  which receivers of streams still exist.
\<close>

section \<open>State\<close>

record Subscriber =
  sb_tx :: channel
  sb_active_subscriptions :: "TaskId hash_set"
  sb_proof_id :: ProofId
  sb_last_update :: SystemTime

record 'p Coordinator =
  c_state :: "'p CoordinatorState"
  c_subscribers :: "(string, Subscriber) hash_map"
  c_task_channels :: "(TaskId, MessageChannelInner) hash_map"
  c_sub_wire :: "(channel \<times> ServerSubMessage) list"
  c_streams :: "delivery list"

definition Coordinator_new :: "'p AssignmentPolicy \<Rightarrow> SystemTime \<Rightarrow> Instant \<Rightarrow> 'p Coordinator" where
  "Coordinator_new P now tick =
     \<lparr>c_state = initial_state (ap_default P) now tick, c_subscribers = [], c_task_channels = [],
      c_sub_wire = [], c_streams = []\<rparr>"

section \<open>Effects\<close>

definition close_task_channel :: "(channel \<Rightarrow> bool) \<Rightarrow> Instant \<Rightarrow> TaskId \<Rightarrow> 'p Coordinator \<Rightarrow> 'p Coordinator" where
  "close_task_channel alive tick task_id c =
     (case map_of (c_task_channels c) task_id of
        None \<Rightarrow> c
      | Some ch \<Rightarrow>
          (let (ch', out) = close_channel alive tick ch
           in c\<lparr>c_task_channels := hm_insert task_id ch' (c_task_channels c), c_streams := c_streams c @ out\<rparr>))"

definition notify_subscriber :: "TaskId \<Rightarrow> TaskStatus \<Rightarrow> string \<Rightarrow> 'p Coordinator \<Rightarrow> 'p Coordinator" where
  "notify_subscriber task_id task_status sub_id c =
     (case map_of (c_subscribers c) sub_id of
        None \<Rightarrow> c
      | Some sub \<Rightarrow>
          c\<lparr>c_subscribers :=
              hm_insert sub_id (sub\<lparr>sb_active_subscriptions := hs_remove task_id (sb_active_subscriptions sub)\<rparr>)
                (c_subscribers c),
            c_sub_wire := c_sub_wire c @ [(sb_tx sub, TaskResult task_id task_status)]\<rparr>)"

definition notify_subscribers ::
  "string hash_set \<Rightarrow> ProofId \<Rightarrow> TaskId \<Rightarrow> TaskStatus \<Rightarrow> 'p Coordinator \<Rightarrow> 'p Coordinator" where
  "notify_subscribers subscribers proof_id task_id task_status =
     fold (notify_subscriber task_id task_status) subscribers"

fun run_effect :: "(channel \<Rightarrow> bool) \<Rightarrow> Instant \<Rightarrow> effect \<Rightarrow> 'p Coordinator \<Rightarrow> 'p Coordinator" where
  "run_effect alive tick (CloseChannel t) c = close_task_channel alive tick t c"
| "run_effect alive tick (Notify subs p t s) c = notify_subscribers subs p t s c"

definition run_effects :: "(channel \<Rightarrow> bool) \<Rightarrow> Instant \<Rightarrow> effect list \<Rightarrow> 'p Coordinator \<Rightarrow> 'p Coordinator" where
  "run_effects alive tick effs c = fold (run_effect alive tick) effs c"

text \<open>An operation on the locked state together with its effects.\<close>

definition perform ::
  "(channel \<Rightarrow> bool) \<Rightarrow> Instant \<Rightarrow> ('p CoordinatorState \<Rightarrow> (effect list \<times> 'p CoordinatorState) result) \<Rightarrow>
     'p Coordinator \<Rightarrow> Status option \<times> 'p Coordinator" where
  "perform alive tick f c =
     (case f (c_state c) of
        Inl e \<Rightarrow> (Some e, c)
      | Inr (effs, st') \<Rightarrow> (None, run_effects alive tick effs (c\<lparr>c_state := st'\<rparr>)))"

section \<open>Subscribers\<close>

definition COORDINATOR_PERIODIC_INTERVAL :: Duration where
  "COORDINATOR_PERIODIC_INTERVAL = from_secs 10"

definition cleanup_dead_subscribers :: "SystemTime \<Rightarrow> 'p Coordinator \<Rightarrow> 'p Coordinator" where
  "cleanup_dead_subscribers now c =
     (let kept = filter (\<lambda>(i, sub). now - sb_last_update sub \<le> 2 * COORDINATOR_PERIODIC_INTERVAL) (c_subscribers c)
      in c\<lparr>c_subscribers := kept,
           c_sub_wire := c_sub_wire c @ map (\<lambda>(i, sub). (sb_tx sub, SubHeartbeat)) kept\<rparr>)"

text \<open>\<open>add_subscriptions\<close>: the entry of the subscriber is updated before the write lock is taken.\<close>

definition touch_subscription :: "SystemTime \<Rightarrow> TaskId list \<Rightarrow> Subscriber \<Rightarrow> Subscriber" where
  "touch_subscription now task_ids sub =
     sub\<lparr>sb_active_subscriptions := fold hs_insert task_ids (sb_active_subscriptions sub), sb_last_update := now\<rparr>"

definition register_subscription ::
  "string \<Rightarrow> channel \<Rightarrow> ProofId \<Rightarrow> TaskId list \<Rightarrow> 'p Coordinator \<Rightarrow> 'p Coordinator" where
  "register_subscription sub_id tx proof_id task_ids c =
     (let (msgs, st') = subscribe_in_state sub_id proof_id task_ids (c_state c)
      in c\<lparr>c_state := st', c_sub_wire := c_sub_wire c @ map (Pair tx) msgs\<rparr>)"

definition add_subscriptions ::
  "SystemTime \<Rightarrow> string \<Rightarrow> TaskId list \<Rightarrow> 'p Coordinator \<Rightarrow> Status option \<times> 'p Coordinator" where
  "add_subscriptions now sub_id task_ids c =
     (case map_of (c_subscribers c) sub_id of
        None \<Rightarrow> (Some (NotFound (''subscriber '' @ sub_id @ '' not found'')), c)
      | Some sub \<Rightarrow>
          (let c1 = c\<lparr>c_subscribers := hm_insert sub_id (touch_subscription now task_ids sub) (c_subscribers c)\<rparr>
           in (None, if task_ids = [] then c1
                     else register_subscription sub_id (sb_tx sub) (sb_proof_id sub) task_ids c1)))"

definition create_subscriber ::
  "SystemTime \<Rightarrow> string \<Rightarrow> ProofId \<Rightarrow> TaskId list \<Rightarrow> channel \<Rightarrow> 'p Coordinator \<Rightarrow> Status option \<times> 'p Coordinator" where
  "create_subscriber now sub_id proof_id task_ids tx c =
     (let sub = (case map_of (c_subscribers c) sub_id of
                   Some sub \<Rightarrow> sub\<lparr>sb_tx := tx, sb_last_update := now\<rparr>
                 | None \<Rightarrow> \<lparr>sb_tx = tx, sb_active_subscriptions = [], sb_proof_id = proof_id, sb_last_update = now\<rparr>);
          c1 = c\<lparr>c_subscribers := hm_insert sub_id sub (c_subscribers c)\<rparr>
      in if task_ids = [] then (None, c1) else add_subscriptions now sub_id task_ids c1)"

section \<open>Message channels\<close>

text \<open>\<open>STALE_THRESHOLD\<close>, and the sweep that drops channels closed for longer.\<close>

definition STALE_THRESHOLD :: Duration where
  "STALE_THRESHOLD = from_secs 60"

definition stale :: "Instant \<Rightarrow> MessageChannelInner \<Rightarrow> bool" where
  "stale tick ch =
     (case mc_closed_at ch of None \<Rightarrow> False | Some closed_at \<Rightarrow> tick - closed_at > STALE_THRESHOLD)"

definition cleanup_stale_task_channels :: "Instant \<Rightarrow> 'p Coordinator \<Rightarrow> 'p Coordinator" where
  "cleanup_stale_task_channels tick c =
     c\<lparr>c_task_channels := filter (\<lambda>(t, ch). \<not> stale tick ch) (c_task_channels c)\<rparr>"

definition task_can_still_send :: "'p CoordinatorState \<Rightarrow> TaskId \<Rightarrow> bool" where
  "task_can_still_send st task_id =
     list_ex (\<lambda>proof. case map_of (p_tasks proof) task_id of
                        None \<Rightarrow> False | Some task \<Rightarrow> \<not> final_status (t_status task)) (hm_values (proofs st))"

definition open_channel :: "TaskId \<Rightarrow> 'p Coordinator \<Rightarrow> MessageChannelInner" where
  "open_channel task_id c =
     (case map_of (c_task_channels c) task_id of None \<Rightarrow> MessageChannel_default | Some ch \<Rightarrow> ch)"

definition put_channel ::
  "TaskId \<Rightarrow> MessageChannelInner \<times> delivery list \<Rightarrow> 'p Coordinator \<Rightarrow> 'p Coordinator" where
  "put_channel task_id r c =
     c\<lparr>c_task_channels := hm_insert task_id (fst r) (c_task_channels c), c_streams := c_streams c @ snd r\<rparr>"

definition send_task_message ::
  "(channel \<Rightarrow> bool) \<Rightarrow> TaskId \<Rightarrow> nat list \<Rightarrow> 'p Coordinator \<Rightarrow> 'p Coordinator" where
  "send_task_message alive task_id payload c =
     (case map_of (c_task_channels c) task_id of
        Some ch \<Rightarrow> put_channel task_id (push alive payload ch) c
      | None \<Rightarrow>
          (if task_can_still_send (c_state c) task_id
           then put_channel task_id (push alive payload (open_channel task_id c)) c
           else c))"

definition subscribe_task_channel :: "TaskId \<Rightarrow> nat \<Rightarrow> channel \<Rightarrow> 'p Coordinator \<Rightarrow> 'p Coordinator" where
  "subscribe_task_channel task_id start_offset tx c =
     (case map_of (c_task_channels c) task_id of
        Some ch \<Rightarrow> put_channel task_id (attach_subscriber tx start_offset ch) c
      | None \<Rightarrow>
          (if task_can_still_send (c_state c) task_id
           then put_channel task_id (attach_subscriber tx start_offset (open_channel task_id c)) c
           else c\<lparr>c_streams := c_streams c @ [(tx, EndOfStream)]\<rparr>))"

definition shutdown :: "(channel \<Rightarrow> bool) \<Rightarrow> Instant \<Rightarrow> 'p Coordinator \<Rightarrow> 'p Coordinator" where
  "shutdown alive tick c =
     (let c1 = c\<lparr>c_state := shutdown_state (c_state c)\<rparr>;
          c2 = fold (close_task_channel alive tick) (map fst (c_task_channels c1)) c1
      in c2\<lparr>c_sub_wire := c_sub_wire c2 @ map (\<lambda>sub. (sb_tx sub, SubEndOfStream)) (hm_values (c_subscribers c2))\<rparr>)"

section \<open>Steps of the service\<close>

inductive service_step :: "'p AssignmentPolicy \<Rightarrow> 'p PolicyView \<Rightarrow> 'p Coordinator \<Rightarrow> 'p Coordinator \<Rightarrow> bool"
  for P :: "'p AssignmentPolicy" and V :: "'p PolicyView" where
  svc_state:
    "coord_step P V effs (c_state c) st' \<Longrightarrow>
     service_step P V c (run_effects alive tick effs (c\<lparr>c_state := st'\<rparr>))"
| svc_create_subscriber: "service_step P V c (snd (create_subscriber now s p ts tx c))"
| svc_add_subscriptions: "service_step P V c (snd (add_subscriptions now s ts c))"
| svc_register: "service_step P V c (register_subscription s tx p ts c)"
| svc_dead_subscribers: "service_step P V c (cleanup_dead_subscribers now c)"
| svc_stale_channels: "service_step P V c (cleanup_stale_task_channels tick c)"
| svc_send: "service_step P V c (send_task_message alive t payload c)"
| svc_subscribe: "service_step P V c (subscribe_task_channel t offset tx c)"
| svc_shutdown: "service_step P V c (shutdown alive tick c)"

inductive service_reachable :: "'p AssignmentPolicy \<Rightarrow> 'p PolicyView \<Rightarrow> 'p Coordinator \<Rightarrow> bool"
  for P :: "'p AssignmentPolicy" and V :: "'p PolicyView" where
  svc_init: "service_reachable P V (Coordinator_new P now tick)"
| svc_step: "service_reachable P V c \<Longrightarrow> service_step P V c c' \<Longrightarrow> service_reachable P V c'"

section \<open>What effects do\<close>

abbreviation open_at :: "'p Coordinator \<Rightarrow> TaskId \<Rightarrow> MessageChannelInner \<Rightarrow> bool" where
  "open_at c t ch \<equiv> map_of (c_task_channels c) t = Some ch \<and> \<not> mc_closed ch"

lemma close_channel_closed [simp]: "mc_closed (fst (close_channel alive tick ch))"
  by (simp add: close_channel_def)

lemma close_task_channel_simps [simp]:
  "c_state (close_task_channel alive tick t c) = c_state c"
  "c_subscribers (close_task_channel alive tick t c) = c_subscribers c"
  "c_sub_wire (close_task_channel alive tick t c) = c_sub_wire c"
  "hm_wf (c_task_channels c) \<Longrightarrow> hm_wf (c_task_channels (close_task_channel alive tick t c))"
  "fst ` set (c_task_channels (close_task_channel alive tick t c)) = fst ` set (c_task_channels c)"
  by (auto simp: close_task_channel_def dom_update dest: map_of_SomeD intro: rev_image_eqI
      split: option.splits prod.splits)

lemma open_at_close:
  "open_at (close_task_channel alive tick t c) t' ch \<Longrightarrow> open_at c t' ch \<and> t' \<noteq> t"
  by (auto simp: close_task_channel_def split: option.splits prod.splits if_splits)
    (metis close_channel_closed fst_conv)

lemma notify_subscriber_simps [simp]:
  "c_state (notify_subscriber t s i c) = c_state c"
  "c_task_channels (notify_subscriber t s i c) = c_task_channels c"
  by (simp_all add: notify_subscriber_def split: option.splits)

lemma notify_subscribers_simps [simp]:
  "c_state (notify_subscribers ss p t s c) = c_state c"
  "c_task_channels (notify_subscribers ss p t s c) = c_task_channels c"
  unfolding notify_subscribers_def by (induction ss arbitrary: c) simp_all

lemma run_effect_state [simp]: "c_state (run_effect alive tick e c) = c_state c"
  by (cases e) simp_all

lemma run_effects_Cons [simp]:
  "run_effects alive tick [] c = c"
  "run_effects alive tick (e # effs) c = run_effects alive tick effs (run_effect alive tick e c)"
  by (simp_all add: run_effects_def)

lemma run_effects_state [simp]: "c_state (run_effects alive tick effs c) = c_state c"
  by (induction effs arbitrary: c) simp_all

lemma run_effects_wf: "hm_wf (c_task_channels c) \<Longrightarrow> hm_wf (c_task_channels (run_effects alive tick effs c))"
proof (induction effs arbitrary: c)
  case (Cons e effs)
  then show ?case by (cases e) simp_all
qed simp

lemma open_at_run_effects:
  "open_at (run_effects alive tick effs c) t ch \<Longrightarrow> open_at c t ch \<and> CloseChannel t \<notin> set effs"
proof (induction effs arbitrary: c)
  case (Cons e effs)
  then have "open_at (run_effects alive tick effs (run_effect alive tick e c)) t ch" by simp
  from Cons.IH [OF this] show ?case
  proof (cases e)
    case (CloseChannel t')
    with \<open>_ \<and> CloseChannel t \<notin> set effs\<close> open_at_close [of alive tick t' c t ch] show ?thesis by auto
  qed simp
qed simp

lemma open_at_close_all:
  "open_at (fold (close_task_channel alive tick) ts c) t ch \<Longrightarrow> open_at c t ch \<and> t \<notin> set ts"
proof (induction ts arbitrary: c)
  case (Cons t' ts)
  then have "open_at (fold (close_task_channel alive tick) ts (close_task_channel alive tick t' c)) t ch" by simp
  from Cons.IH [OF this] open_at_close [of alive tick t' c t ch] show ?case by auto
qed simp

section \<open>Open channels belong to live tasks\<close>

lemma task_can_still_send_iff:
  assumes "hm_wf (proofs st)"
  shows "task_can_still_send st t \<longleftrightarrow>
    (\<exists>p task. get_task_internal st p t = Some task \<and> \<not> final_status (t_status task))"
proof -
  have mem: "(p, pr) \<in> set (proofs st) \<longleftrightarrow> map_of (proofs st) p = Some pr" for p pr
    by (rule hm_wf_mem [OF assms])
  have "task_can_still_send st t \<longleftrightarrow>
      (\<exists>p pr task. (p, pr) \<in> set (proofs st) \<and> map_of (p_tasks pr) t = Some task \<and> \<not> final_status (t_status task))"
    by (force simp: task_can_still_send_def list_ex_iff hm_values_def split: option.splits)
  then show ?thesis unfolding mem by (auto simp: get_task_internal_def split: option.splits)
qed

definition channels_live :: "'p Coordinator \<Rightarrow> bool" where
  "channels_live c \<longleftrightarrow> (\<forall>t ch. open_at c t ch \<longrightarrow> task_can_still_send (c_state c) t)"

definition service_inv :: "'p PolicyView \<Rightarrow> 'p Coordinator \<Rightarrow> bool" where
  "service_inv V c \<longleftrightarrow> coord_inv V (c_state c) \<and> hm_wf (c_task_channels c) \<and> channels_live c"

lemma service_invI:
  assumes "coord_inv V (c_state c)" and "hm_wf (c_task_channels c)"
    and "\<And>t ch. open_at c t ch \<Longrightarrow> task_can_still_send (c_state c) t"
  shows "service_inv V c"
  using assms unfolding service_inv_def channels_live_def by blast

lemma inv_proofs_wf: "coord_inv V st \<Longrightarrow> hm_wf (proofs st)"
  by (simp add: coord_inv_def proofs_ok_def)

lemma still_sending:
  assumes evolve: "tasks_evolve effs st st'" and inv: "coord_inv V st" "coord_inv V st'"
    and live: "task_can_still_send st t" and kept: "CloseChannel t \<notin> set effs"
  shows "task_can_still_send st' t"
proof -
  from live obtain p task where task: "get_task_internal st p t = Some task" "\<not> final_status (t_status task)"
    by (auto simp: task_can_still_send_iff [OF inv_proofs_wf [OF inv(1)]])
  with evolve have "task_evolves (accounts effs (p, t) task) task (get_task_internal st' p t)"
    by (auto simp: tasks_evolve_def)
  with task kept obtain task' where "get_task_internal st' p t = Some task'" "\<not> final_status (t_status task')"
    by (auto simp: task_evolves_def accounts_def split: option.splits)
  then show ?thesis by (auto simp: task_can_still_send_iff [OF inv_proofs_wf [OF inv(2)]])
qed

lemma open_at_filter:
  assumes "hm_wf (c_task_channels c)" and "open_at (cleanup_stale_task_channels tick c) t ch"
  shows "open_at c t ch"
  using assms map_of_SomeD [of "c_task_channels (cleanup_stale_task_channels tick c)" t ch]
  by (auto simp: cleanup_stale_task_channels_def hm_wf_mem)

lemma service_inv_put:
  assumes inv: "service_inv V c" and live: "task_can_still_send (c_state c) t \<or> mc_closed (fst r)"
  shows "service_inv V (put_channel t r c)"
  using assms by (intro service_invI) (auto simp: service_inv_def channels_live_def put_channel_def split: if_splits)

lemma push_closed [simp]: "mc_closed (fst (push alive payload ch)) = mc_closed ch"
  by (simp add: push_def Let_def)

lemma attach_closed [simp]: "mc_closed (fst (attach_subscriber tx n ch)) = mc_closed ch"
  by (simp add: attach_subscriber_def Let_def)

lemma service_inv_channel:
  assumes "service_inv V c" and "map_of (c_task_channels c) t = Some ch"
  shows "task_can_still_send (c_state c) t \<or> mc_closed ch"
  using assms by (auto simp: service_inv_def channels_live_def)

context assignment_policy
begin

lemma service_state_step:
  assumes step: "coord_step P V effs (c_state c) st'" and inv: "service_inv V c"
  shows "service_inv V (run_effects alive tick effs (c\<lparr>c_state := st'\<rparr>))"
proof (rule service_invI)
  from inv have old: "coord_inv V (c_state c)" and wf: "hm_wf (c_task_channels c)" and live: "channels_live c"
    by (simp_all add: service_inv_def)
  note new = step_preserves [OF step old]
  show "coord_inv V (c_state (run_effects alive tick effs (c\<lparr>c_state := st'\<rparr>)))" using new by simp
  show "hm_wf (c_task_channels (run_effects alive tick effs (c\<lparr>c_state := st'\<rparr>)))" using wf by (simp add: run_effects_wf)
  fix t ch
  assume "open_at (run_effects alive tick effs (c\<lparr>c_state := st'\<rparr>)) t ch"
  from open_at_run_effects [OF this] live have "task_can_still_send (c_state c) t" "CloseChannel t \<notin> set effs"
    by (auto simp: channels_live_def)
  from still_sending [OF conjunct2 [OF new] old conjunct1 [OF new] this]
  show "task_can_still_send (c_state (run_effects alive tick effs (c\<lparr>c_state := st'\<rparr>))) t" by simp
qed

lemma service_inv_register:
  assumes "service_inv V c"
  shows "service_inv V (register_subscription s tx p ts c)"
proof -
  obtain msgs st' where r: "subscribe_in_state s p ts (c_state c) = (msgs, st')" by fastforce
  have "coord_step P V [] (c_state c) st'" using step_subscribe [of P V "c_state c" s p ts] by (simp add: r)
  from service_state_step [OF this assms] show ?thesis
    by (simp add: register_subscription_def r service_inv_def channels_live_def)
qed

lemma service_inv_subscribers: "service_inv V c \<Longrightarrow> service_inv V (c\<lparr>c_subscribers := ss\<rparr>)"
  by (simp add: service_inv_def channels_live_def)

lemma service_inv_add_subscriptions: "service_inv V c \<Longrightarrow> service_inv V (snd (add_subscriptions now s ts c))"
  by (auto simp: add_subscriptions_def Let_def intro: service_inv_register service_inv_subscribers split: option.splits)

lemma service_inv_shutdown:
  assumes "service_inv V c"
  shows "service_inv V (shutdown alive tick c)"
proof -
  let ?c1 = "c\<lparr>c_state := shutdown_state (c_state c)\<rparr>"
  let ?c2 = "fold (close_task_channel alive tick) (map fst (c_task_channels ?c1)) ?c1"
  have frame: "c_state (fold (close_task_channel alive tick) ts d) = c_state d \<and>
      (hm_wf (c_task_channels d) \<longrightarrow> hm_wf (c_task_channels (fold (close_task_channel alive tick) ts d)))"
    for ts and d :: "'a Coordinator"
    by (induction ts arbitrary: d) simp_all
  have "\<not> open_at ?c2 t ch" for t ch
    using open_at_close_all [of alive tick "map fst (c_task_channels ?c1)" ?c1 t ch]
    by (force dest: map_of_SomeD)
  moreover have "coord_inv V (shutdown_state (c_state c))"
    using assms inv_shutdown unfolding service_inv_def by blast
  ultimately show ?thesis
    using assms frame [of "map fst (c_task_channels ?c1)" ?c1]
    by (auto simp: shutdown_def Let_def service_inv_def channels_live_def)
qed

lemma service_step_inv:
  assumes "service_step P V c c'" and inv: "service_inv V c"
  shows "service_inv V c'"
  using assms(1)
proof cases
  case (svc_state effs st' alive tick)
  then show ?thesis using service_state_step [OF _ inv] by simp
next
  case (svc_create_subscriber now s p ts tx)
  with inv show ?thesis
    by (auto simp: create_subscriber_def Let_def intro: service_inv_add_subscriptions service_inv_subscribers)
next
  case (svc_stale_channels tick)
  have "hm_wf (c_task_channels c)" using inv by (simp add: service_inv_def)
  then have "hm_wf (c_task_channels c')" and "open_at c' t ch \<Longrightarrow> open_at c t ch" for t ch
    using open_at_filter [of c tick t ch] svc_stale_channels
    by (auto simp: cleanup_stale_task_channels_def hm_wf_def distinct_map_filter)
  with inv show ?thesis
    by (intro service_invI) (auto simp: svc_stale_channels cleanup_stale_task_channels_def service_inv_def channels_live_def)
next
  case (svc_send alive t payload)
  with inv service_inv_channel [OF inv, of t] show ?thesis
    by (auto simp: send_task_message_def intro!: service_inv_put split: option.splits)
next
  case (svc_subscribe t offset tx)
  with inv service_inv_channel [OF inv, of t] show ?thesis
    by (auto simp: subscribe_task_channel_def intro!: service_inv_put split: option.splits)
      (simp add: service_inv_def channels_live_def)
next
  case (svc_dead_subscribers now)
  with inv show ?thesis by (simp add: cleanup_dead_subscribers_def Let_def service_inv_def channels_live_def)
qed (use inv in \<open>auto intro: service_inv_add_subscriptions service_inv_register service_inv_shutdown\<close>)

lemma service_reachable_inv: "service_reachable P V c \<Longrightarrow> service_inv V c"
proof (induction rule: service_reachable.induct)
  case (svc_init now tick)
  show ?case using inv_initial by (simp add: service_inv_def channels_live_def Coordinator_new_def)
qed (rule service_step_inv)

end

lemma inv_channels_live:
  assumes "service_inv V c" and "open_at c t ch"
  shows "\<exists>p task. get_task_internal (c_state c) p t = Some task \<and> \<not> final_status (t_status task)"
  using assms task_can_still_send_iff [OF inv_proofs_wf, of V "c_state c" t]
  by (auto simp: service_inv_def channels_live_def)

section \<open>No subscriber misses the end of a task\<close>

definition sub_at :: "'p Coordinator \<Rightarrow> string \<Rightarrow> channel \<Rightarrow> bool" where
  "sub_at c s tx \<longleftrightarrow> (\<exists>sub. map_of (c_subscribers c) s = Some sub \<and> sb_tx sub = tx)"

lemma sub_at_notify [simp]: "sub_at (notify_subscriber t st i c) s tx = sub_at c s tx"
  by (auto simp: sub_at_def notify_subscriber_def split: option.splits)

lemma wire_notify: "set (c_sub_wire c) \<subseteq> set (c_sub_wire (notify_subscriber t st i c))"
  by (auto simp: notify_subscriber_def split: option.splits)

lemma notify_subscribers_effect:
  "(sub_at (notify_subscribers ss p t st c) s tx = sub_at c s tx) \<and>
   set (c_sub_wire c) \<subseteq> set (c_sub_wire (notify_subscribers ss p t st c)) \<and>
   (sub_at c s tx \<longrightarrow> s \<in> set ss \<longrightarrow> (tx, TaskResult t st) \<in> set (c_sub_wire (notify_subscribers ss p t st c)))"
  unfolding notify_subscribers_def
proof (induction ss arbitrary: c)
  case (Cons i ss)
  have "(tx, TaskResult t st) \<in> set (c_sub_wire (notify_subscriber t st i c))" if "sub_at c s tx" "s = i"
    using that by (auto simp: notify_subscriber_def sub_at_def)
  with Cons.IH [of "notify_subscriber t st i c"] wire_notify [of c t st i] show ?case by auto
qed simp

lemma run_effect_subscribers:
  "(sub_at (run_effect alive tick e c) s tx = sub_at c s tx) \<and>
   set (c_sub_wire c) \<subseteq> set (c_sub_wire (run_effect alive tick e c))"
proof (cases e)
  case (Notify ss p t st)
  with notify_subscribers_effect [of ss p t st c s tx] show ?thesis by simp
qed (simp add: sub_at_def)

lemma run_effects_notify:
  assumes "Notify ss p t st \<in> set effs" and "s \<in> set ss" and "sub_at c s tx"
  shows "(tx, TaskResult t st) \<in> set (c_sub_wire (run_effects alive tick effs c))"
proof -
  have mono: "set (c_sub_wire c) \<subseteq> set (c_sub_wire (run_effects alive tick effs c))" for effs and c :: "'a Coordinator"
    by (induction effs arbitrary: c) (use run_effect_subscribers in fastforce)+
  show ?thesis
    using assms
  proof (induction effs arbitrary: c)
    case (Cons e effs)
    show ?case
    proof (cases "e = Notify ss p t st")
      case True
      with Cons.prems(2,3) notify_subscribers_effect [of ss p t st c s tx] mono [of "run_effect alive tick e c" effs]
      show ?thesis by auto
    next
      case False
      with Cons.prems have "Notify ss p t st \<in> set effs" by simp
      from Cons.IH [OF this Cons.prems(2)] Cons.prems(3) run_effect_subscribers [of alive tick e c s tx]
      show ?thesis by simp
    qed
  qed simp
qed

text \<open>
  An unfinished task remembers the subscriber, or a final status of the task was sent to it.
  \<open>no_end_missed\<close> says that one of the two follows for every connected subscriber of every unfinished task.
\<close>

definition waits_for :: "'p CoordinatorState \<Rightarrow> ProofId \<Rightarrow> TaskId \<Rightarrow> string \<Rightarrow> bool" where
  "waits_for st p t s \<longleftrightarrow>
     (\<exists>task. get_task_internal st p t = Some task \<and> \<not> final_status (t_status task) \<and> s \<in> set (t_subscribers task))"

definition was_told :: "channel \<Rightarrow> TaskId \<Rightarrow> 'p Coordinator \<Rightarrow> bool" where
  "was_told tx t c \<longleftrightarrow> (\<exists>status. final_status status \<and> (tx, TaskResult t status) \<in> set (c_sub_wire c))"

definition no_end_missed :: "'p Coordinator \<Rightarrow> 'p Coordinator \<Rightarrow> bool" where
  "no_end_missed c c' \<longleftrightarrow>
     (\<forall>p t s tx. waits_for (c_state c) p t s \<longrightarrow> sub_at c s tx \<longrightarrow> waits_for (c_state c') p t s \<or> was_told tx t c')"

context assignment_policy
begin

lemma subscriber_hears_at:
  assumes inv: "service_inv V c" and step: "coord_step P V effs (c_state c) st'"
    and task: "get_task_internal (c_state c) p t = Some task" "\<not> final_status (t_status task)"
    and sub: "s \<in> set (t_subscribers task)" "sub_at c s tx"
  shows "waits_for st' p t s \<or> was_told tx t (run_effects alive tick effs (c\<lparr>c_state := st'\<rparr>))"
proof -
  from inv have "coord_inv V (c_state c)" by (simp add: service_inv_def)
  from step_preserves [OF step this] task
  have ev: "task_evolves (accounts effs (p, t) task) task (get_task_internal st' p t)"
    unfolding tasks_evolve_def by blast
  show ?thesis
  proof (cases "accounts effs (p, t) task")
    case True
    with sub(1) obtain ss status where n: "Notify ss p t status \<in> set effs" "final_status status" "s \<in> set ss"
      by (auto simp: accounts_def notified_def)
    have "sub_at (c\<lparr>c_state := st'\<rparr>) s tx" using sub(2) by (simp add: sub_at_def)
    from run_effects_notify [OF n(1,3) this, of alive tick] n(2) show ?thesis unfolding was_told_def by blast
  next
    case False
    with ev task(2) sub(1) show ?thesis by (auto simp: task_evolves_def waits_for_def split: option.splits)
  qed
qed

lemma subscriber_hears:
  assumes "service_reachable P V c" and "coord_step P V effs (c_state c) st'"
  shows "no_end_missed c (run_effects alive tick effs (c\<lparr>c_state := st'\<rparr>))"
  unfolding no_end_missed_def
proof (intro allI impI)
  fix p t s tx
  assume "waits_for (c_state c) p t s" and sub: "sub_at c s tx"
  then obtain task where "get_task_internal (c_state c) p t = Some task" "\<not> final_status (t_status task)"
    "s \<in> set (t_subscribers task)" by (auto simp: waits_for_def)
  from subscriber_hears_at [OF service_reachable_inv [OF assms(1)] assms(2) this sub]
  show "waits_for (c_state (run_effects alive tick effs (c\<lparr>c_state := st'\<rparr>))) p t s \<or>
      was_told tx t (run_effects alive tick effs (c\<lparr>c_state := st'\<rparr>))" by simp
qed

end

text \<open>Subscribing leaves no gap: each task is answered at once or remembers the subscriber.\<close>

lemma subscribe_tasks_mono:
  "map_of (p_tasks pr) t = Some task \<Longrightarrow>
     \<exists>task'. map_of (p_tasks (snd (subscribe_tasks s p ts pr))) t = Some task' \<and>
       t_status task' = t_status task \<and> set (t_subscribers task) \<subseteq> set (t_subscribers task')"
proof (induction ts arbitrary: pr task)
  case (Cons u ts)
  show ?case
  proof (cases "\<exists>old. map_of (p_tasks pr) u = Some old \<and> \<not> final_status (t_status old)")
    case False
    then have "snd (subscribe_tasks s p (u # ts) pr) = snd (subscribe_tasks s p ts pr)"
      by (auto split: option.splits prod.splits)
    with Cons show ?thesis by simp
  next
    case True
    then obtain old where old: "map_of (p_tasks pr) u = Some old" "\<not> final_status (t_status old)" by blast
    let ?old = "old\<lparr>t_subscribers := hs_insert s (t_subscribers old)\<rparr>"
    let ?pr = "pr\<lparr>p_tasks := hm_insert u ?old (p_tasks pr)\<rparr>"
    from Cons.prems old(1) obtain mid where "map_of (p_tasks ?pr) t = Some mid" "t_status mid = t_status task"
      "set (t_subscribers task) \<subseteq> set (t_subscribers mid)" by (cases "t = u") auto
    with Cons.IH [of ?pr mid] old show ?thesis by auto
  qed
qed simp

lemma subscribe_tasks_complete:
  "t \<in> set ts \<Longrightarrow>
     UnknownTask p t \<in> set (fst (subscribe_tasks s p ts pr)) \<or>
     (\<exists>status. final_status status \<and> TaskResult t status \<in> set (fst (subscribe_tasks s p ts pr))) \<or>
     (\<exists>task. map_of (p_tasks (snd (subscribe_tasks s p ts pr))) t = Some task \<and>
        \<not> final_status (t_status task) \<and> s \<in> set (t_subscribers task))"
proof (induction ts arbitrary: pr)
  case (Cons u ts)
  show ?case
  proof (cases "t = u")
    case False
    with Cons.prems Cons.IH show ?thesis by (auto split: option.splits prod.splits) (metis fst_conv snd_conv)+
  next
    case True
    show ?thesis
    proof (cases "map_of (p_tasks pr) u")
      case None
      with True show ?thesis by (auto split: prod.splits)
    next
      case (Some old)
      show ?thesis
      proof (cases "final_status (t_status old)")
        case True
        with Some \<open>t = u\<close> show ?thesis by (auto split: prod.splits)
      next
        case False
        let ?old = "old\<lparr>t_subscribers := hs_insert s (t_subscribers old)\<rparr>"
        let ?pr = "pr\<lparr>p_tasks := hm_insert u ?old (p_tasks pr)\<rparr>"
        from subscribe_tasks_mono [of ?pr u ?old s p ts] False
        obtain task where "map_of (p_tasks (snd (subscribe_tasks s p ts ?pr))) u = Some task"
          "t_status task = t_status old" "s \<in> set (t_subscribers task)" by auto
        with False Some \<open>t = u\<close> show ?thesis by simp
      qed
    qed
  qed
qed simp

lemma register_complete:
  assumes "t \<in> set ts"
  shows "(tx, UnknownTask p t) \<in> set (c_sub_wire (register_subscription s tx p ts c)) \<or>
    was_told tx t (register_subscription s tx p ts c) \<or> waits_for (c_state (register_subscription s tx p ts c)) p t s"
proof (cases "map_of (proofs (c_state c)) p")
  case None
  with assms show ?thesis by (auto simp: register_subscription_def subscribe_in_state_def)
next
  case (Some pr)
  obtain msgs pr1 where r: "subscribe_tasks s p ts pr = (msgs, pr1)" by fastforce
  from subscribe_tasks_complete [OF assms, of p s pr] Some r show ?thesis
    by (auto simp: register_subscription_def subscribe_in_state_def was_told_def waits_for_def get_task_internal_def)
qed

end
