(* ===== verification/Server.thy ===== *)
theory Server
  imports Coord_Service
begin

text \<open>
  The gRPC front of the coordinator (\<open>bin/coordinator/src/server.rs\<close>).  Each remote procedure of the
  \<open>WorkerService\<close> is one definition over the service state; \<open>serve\<close> dispatches on the request.  Behind
  every subscription stands a forwarding task with a map of unacknowledged messages, which it sends
  again until they are acknowledged or given up.

  Decoding of the JSON metadata of a completed task is a parameter, since it is done by a library;
  clock readings and generated identifiers are arguments.
\<close>

section \<open>Forwarding to one subscriber\<close>

record SubMessage =
  sm_id :: string
  sm_body :: ServerSubMessage

text \<open>The triple the source keeps for a message: time of the last send, the message, the number of resends.\<close>

record Unacked =
  ua_last_acked :: SystemTime
  ua_msg :: SubMessage
  ua_retries :: nat

type_synonym unacked_map = "(string, Unacked) hash_map"

text \<open>A message from the coordinator is remembered and sent on.\<close>

definition forward_message ::
  "SystemTime \<Rightarrow> bool \<Rightarrow> SubMessage \<Rightarrow> unacked_map \<Rightarrow> unacked_map \<times> SubMessage list" where
  "forward_message now tx_open msg unacked =
     (hm_insert (sm_id msg) \<lparr>ua_last_acked = now, ua_msg = msg, ua_retries = 0\<rparr> unacked, if tx_open then [msg] else [])"

text \<open>
  One entry in the periodic pass: the entry to keep, if any, and what was sent.  \<open>sent\<close> tells whether
  the send, if it is made, succeeds.
\<close>

definition resend_entry :: "SystemTime \<Rightarrow> bool \<Rightarrow> Unacked \<Rightarrow> Unacked option \<times> SubMessage list" where
  "resend_entry now sent e =
     (if now - ua_last_acked e > from_secs 4
      then if \<not> sent then (None, [])
           else if u32_add (ua_retries e) 1 > 3 then (None, [ua_msg e])
           else (Some (e\<lparr>ua_last_acked := now, ua_retries := u32_add (ua_retries e) 1\<rparr>), [ua_msg e])
      else (Some e, []))"

fun resend_pass :: "SystemTime \<Rightarrow> (string \<Rightarrow> bool) \<Rightarrow> unacked_map \<Rightarrow> unacked_map \<times> SubMessage list" where
  "resend_pass now sent [] = ([], [])"
| "resend_pass now sent ((i, e) # es) =
     (let (keep, out) = resend_entry now (sent i) e;
          (es', outs) = resend_pass now sent es
      in ((case keep of None \<Rightarrow> es' | Some e' \<Rightarrow> (i, e') # es'), out @ outs))"

definition resend_tick ::
  "SystemTime \<Rightarrow> bool \<Rightarrow> (string \<Rightarrow> bool) \<Rightarrow> unacked_map \<Rightarrow> unacked_map \<times> SubMessage list" where
  "resend_tick now tx_open sent unacked = (if tx_open then resend_pass now sent unacked else (unacked, []))"

text \<open>Whether the forwarding task ends after a pass.\<close>

definition forwarding_done :: "bool \<Rightarrow> bool \<Rightarrow> SubMessage list \<Rightarrow> unacked_map \<Rightarrow> bool" where
  "forwarding_done tx_open outer_closed outer unacked =
     ((unacked = [] \<or> \<not> tx_open) \<and> outer_closed \<and> outer = [])"

section \<open>The service\<close>

record GenericSubscriberHandler =
  gs_unacked :: unacked_map
  gs_sender_handle :: nat

record 'p GenericWorkerService =
  ws_subscribers :: "(string, GenericSubscriberHandler) hash_map"
  ws_coordinator :: "'p Coordinator"
  ws_sent :: "(channel \<times> SubMessage) list"

definition GenericWorkerService_default ::
  "'p AssignmentPolicy \<Rightarrow> SystemTime \<Rightarrow> Instant \<Rightarrow> 'p GenericWorkerService" where
  "GenericWorkerService_default P now tick =
     \<lparr>ws_subscribers = [], ws_coordinator = Coordinator_new P now tick, ws_sent = []\<rparr>"

text \<open>The end of a forwarding task removes the handler, unless a newer task has replaced it.\<close>

definition remove_handler :: "string \<Rightarrow> nat \<Rightarrow> 'p GenericWorkerService \<Rightarrow> 'p GenericWorkerService" where
  "remove_handler sub_id task_id s =
     (case map_of (ws_subscribers s) sub_id of
        None \<Rightarrow> s
      | Some h \<Rightarrow>
          (if gs_sender_handle h = task_id
           then s\<lparr>ws_subscribers := hm_remove sub_id (ws_subscribers s)\<rparr> else s))"

section \<open>Requests\<close>

record OpenRequest =
  or_worker_id :: WorkerId
  or_worker_type :: WorkerType
  or_max_weight :: nat
  or_version :: string
  or_git_sha :: string
  or_image_tag :: string
  or_gpu_name :: string
  or_gpu_memory_total_bytes :: nat
  or_location :: "string option"

text \<open>What a handler needs besides the request: clocks, a fresh identifier, the environment, the decoder.\<close>

record Ctx =
  cx_now :: SystemTime
  cx_tick :: Instant
  cx_id :: string
  cx_alive :: "channel \<Rightarrow> bool"
  cx_controller_weight :: nat
  cx_from_json :: "string \<Rightarrow> TaskMetadata option"
  cx_handle :: nat

abbreviation on_state :: "('p CoordinatorState \<Rightarrow> 'p CoordinatorState) \<Rightarrow> 'p Coordinator \<Rightarrow> 'p Coordinator" where
  "on_state f c \<equiv> c\<lparr>c_state := f (c_state c)\<rparr>"

definition rpc_open :: "'p AssignmentPolicy \<Rightarrow> Ctx \<Rightarrow> OpenRequest \<Rightarrow> channel \<Rightarrow> 'p Coordinator \<Rightarrow> 'p Coordinator" where
  "rpc_open P cx hb tx =
     on_state (\<lambda>st. snd (add_worker P (cx_now cx) (or_worker_id hb) (or_worker_type hb) (or_max_weight hb) tx
       \<lparr>wi_version = or_version hb, wi_git_sha = or_git_sha hb, wi_image_tag = or_image_tag hb,
        wi_gpu_name = or_gpu_name hb, wi_gpu_memory_total_bytes = or_gpu_memory_total_bytes hb,
        wi_location = (case or_location hb of None \<Rightarrow> [] | Some l \<Rightarrow> l)\<rparr> st))"

text \<open>Running a state operation that can fail and has no effects on channels.\<close>

definition plain :: "('p CoordinatorState \<Rightarrow> 'p CoordinatorState result) \<Rightarrow> 'p Coordinator \<Rightarrow> Status option \<times> 'p Coordinator" where
  "plain f c =
     (case f (c_state c) of Inl e \<Rightarrow> (Some e, c) | Inr st' \<Rightarrow> (None, c\<lparr>c_state := st'\<rparr>))"

definition rpc_close :: "WorkerId \<Rightarrow> 'p Coordinator \<Rightarrow> Status option \<times> 'p Coordinator" where
  "rpc_close worker_id = plain (close_worker worker_id)"

definition rpc_heartbeat ::
  "'p AssignmentPolicy \<Rightarrow> Ctx \<Rightarrow> WorkerId \<Rightarrow> ProofId list \<Rightarrow> TaskId list \<Rightarrow> nat \<Rightarrow> 'p Coordinator \<Rightarrow>
     Status option \<times> 'p Coordinator" where
  "rpc_heartbeat P cx worker_id active_task_proof_ids active_task_ids current_weight =
     plain (handle_heartbeat P (cx_now cx) worker_id active_task_proof_ids active_task_ids current_weight)"

definition rpc_complete_task ::
  "'p AssignmentPolicy \<Rightarrow> Ctx \<Rightarrow> WorkerId \<Rightarrow> ProofId \<Rightarrow> TaskId \<Rightarrow> string \<Rightarrow> 'p Coordinator \<Rightarrow>
     Status option \<times> 'p Coordinator" where
  "rpc_complete_task P cx worker_id proof_id task_id metadata =
     perform (cx_alive cx) (cx_tick cx)
       (complete_task P (cx_now cx) worker_id proof_id task_id
          (case cx_from_json cx metadata of None \<Rightarrow> \<lparr>tm_gpu_ms = 0\<rparr> | Some m \<Rightarrow> m))"

definition rpc_fail_task ::
  "'p AssignmentPolicy \<Rightarrow> Ctx \<Rightarrow> WorkerId \<Rightarrow> ProofId \<Rightarrow> TaskId \<Rightarrow> bool \<Rightarrow> 'p Coordinator \<Rightarrow>
     Status option \<times> 'p Coordinator" where
  "rpc_fail_task P cx worker_id proof_id task_id retryable =
     perform (cx_alive cx) (cx_tick cx) (fail_task P (cx_now cx) worker_id proof_id task_id retryable)"

definition as_answer :: "'a result \<times> 'p CoordinatorState \<Rightarrow> 'p Coordinator \<Rightarrow> 'a result \<times> 'p Coordinator" where
  "as_answer r c = (fst r, c\<lparr>c_state := snd r\<rparr>)"

text \<open>A request without data panics in the spawned task, before the coordinator is called.\<close>

definition rpc_create_task ::
  "'p AssignmentPolicy \<Rightarrow> Ctx \<Rightarrow> TaskData option \<Rightarrow> 'p Coordinator \<Rightarrow> (TaskId result \<times> 'p Coordinator) option" where
  "rpc_create_task P cx data c =
     (case data of
        None \<Rightarrow> None
      | Some d \<Rightarrow> Some (as_answer (create_task_internal P (cx_now cx) (cx_id cx) d (c_state c)) c))"

definition rpc_get_task_statuses ::
  "ProofId \<Rightarrow> TaskId list \<Rightarrow> 'p Coordinator \<Rightarrow> (TaskStatus \<times> TaskId list) list result" where
  "rpc_get_task_statuses proof_id task_ids c = get_task_statuses proof_id task_ids (c_state c)"

definition rpc_complete_proof :: "ProofId \<Rightarrow> string option \<Rightarrow> 'p Coordinator \<Rightarrow> Status option \<times> 'p Coordinator" where
  "rpc_complete_proof proof_id extra_data = plain (complete_proof proof_id extra_data)"

definition rpc_fail_proof ::
  "'p AssignmentPolicy \<Rightarrow> Ctx \<Rightarrow> ProofId \<Rightarrow> TaskId option \<Rightarrow> string option \<Rightarrow> 'p Coordinator \<Rightarrow>
     Status option \<times> 'p Coordinator" where
  "rpc_fail_proof P cx proof_id task_id extra_data =
     perform (cx_alive cx) (cx_tick cx) (fail_proof P proof_id task_id True extra_data)"

definition rpc_create_proof ::
  "'p AssignmentPolicy \<Rightarrow> Ctx \<Rightarrow> CreateProofRequest \<Rightarrow> 'p Coordinator \<Rightarrow> TaskId result \<times> 'p Coordinator" where
  "rpc_create_proof P cx request c =
     as_answer (create_proof P (cx_now cx) (cx_id cx) (cx_controller_weight cx) request (c_state c)) c"

definition rpc_create_dummy_proof :: "Ctx \<Rightarrow> ProofId \<Rightarrow> int \<Rightarrow> 'p Coordinator \<Rightarrow> string result \<times> 'p Coordinator" where
  "rpc_create_dummy_proof cx proof_id expires_at c =
     as_answer (create_dummy_proof (cx_now cx) proof_id expires_at (c_state c)) c"

definition rpc_cancel_proof ::
  "'p AssignmentPolicy \<Rightarrow> Ctx \<Rightarrow> ProofId \<Rightarrow> 'p Coordinator \<Rightarrow> Status option \<times> 'p Coordinator" where
  "rpc_cancel_proof P cx proof_id =
     perform (cx_alive cx) (cx_tick cx) (fail_proof P proof_id None True None)"

text \<open>
  Opening a subscription: the stream is greeted, the forwarding task is started (with the old map of
  unacknowledged messages, if the subscriber was known) and the coordinator learns the new channel.
\<close>

definition rpc_open_sub ::
  "Ctx \<Rightarrow> string \<Rightarrow> ProofId \<Rightarrow> TaskId list \<Rightarrow> channel \<Rightarrow> channel \<Rightarrow> 'p GenericWorkerService \<Rightarrow>
     Status option \<times> 'p GenericWorkerService" where
  "rpc_open_sub cx sub_id proof_id task_ids tx outer_tx s =
     (let unacked = (case map_of (ws_subscribers s) sub_id of None \<Rightarrow> [] | Some h \<Rightarrow> gs_unacked h);
          (e, c) = create_subscriber (cx_now cx) sub_id proof_id task_ids outer_tx (ws_coordinator s)
      in (e, s\<lparr>ws_sent := ws_sent s @ [(tx, \<lparr>sm_id = cx_id cx, sm_body = SubHeartbeat\<rparr>)],
               ws_subscribers := hm_insert sub_id \<lparr>gs_unacked = unacked, gs_sender_handle = cx_handle cx\<rparr> (ws_subscribers s),
               ws_coordinator := c\<rparr>))"

definition rpc_update_sub :: "Ctx \<Rightarrow> string \<Rightarrow> TaskId list \<Rightarrow> 'p Coordinator \<Rightarrow> Status option \<times> 'p Coordinator" where
  "rpc_update_sub cx sub_id task_ids = add_subscriptions (cx_now cx) sub_id task_ids"

definition rpc_ack_sub :: "string \<Rightarrow> string \<Rightarrow> 'p GenericWorkerService \<Rightarrow> Status option \<times> 'p GenericWorkerService" where
  "rpc_ack_sub sub_id msg_id s =
     (case map_of (ws_subscribers s) sub_id of
        None \<Rightarrow> (Some (NotFound ''Unknown subscription''), s)
      | Some h \<Rightarrow>
          (None, s\<lparr>ws_subscribers := hm_insert sub_id (h\<lparr>gs_unacked := hm_remove msg_id (gs_unacked h)\<rparr>)
                                     (ws_subscribers s)\<rparr>))"

definition rpc_get_stats :: "'p AssignmentPolicy \<Rightarrow> 'p Coordinator \<Rightarrow> GetStatsResponse" where
  "rpc_get_stats P c = get_info P (length (c_subscribers c)) (c_state c)"

definition rpc_subscribe_task_messages :: "TaskId \<Rightarrow> nat \<Rightarrow> channel \<Rightarrow> 'p Coordinator \<Rightarrow> 'p Coordinator" where
  "rpc_subscribe_task_messages task_id start_offset tx = subscribe_task_channel task_id start_offset tx"

definition rpc_send_task_message :: "Ctx \<Rightarrow> TaskId \<Rightarrow> nat list \<Rightarrow> 'p Coordinator \<Rightarrow> 'p Coordinator" where
  "rpc_send_task_message cx task_id payload = send_task_message (cx_alive cx) task_id payload"

section \<open>Dispatch\<close>

datatype Rpc =
    Open OpenRequest channel
  | Close WorkerId
  | Heartbeat WorkerId "ProofId list" "TaskId list" nat
  | CompleteTask WorkerId ProofId TaskId string
  | FailTask WorkerId ProofId TaskId bool
  | CreateTask "TaskData option"
  | GetTaskStatuses ProofId "TaskId list"
  | CompleteProof ProofId "string option"
  | FailProof ProofId "TaskId option" "string option"
  | CreateProof CreateProofRequest
  | CreateDummyProof ProofId int
  | CancelProof ProofId
  | OpenSub string ProofId "TaskId list" channel channel
  | UpdateSub string "TaskId list"
  | AckSub string string
  | Healthcheck
  | GetStats
  | SubscribeTaskMessages TaskId nat channel
  | SendTaskMessage TaskId "nat list"

abbreviation on_coordinator :: "('p Coordinator \<Rightarrow> 'p Coordinator) \<Rightarrow> 'p GenericWorkerService \<Rightarrow> 'p GenericWorkerService" where
  "on_coordinator f s \<equiv> s\<lparr>ws_coordinator := f (ws_coordinator s)\<rparr>"

fun serve :: "'p AssignmentPolicy \<Rightarrow> Ctx \<Rightarrow> Rpc \<Rightarrow> 'p GenericWorkerService \<Rightarrow> 'p GenericWorkerService" where
  "serve P cx (Open hb tx) = on_coordinator (rpc_open P cx hb tx)"
| "serve P cx (Close w) = on_coordinator (\<lambda>c. snd (rpc_close w c))"
| "serve P cx (Heartbeat w ps ts n) = on_coordinator (\<lambda>c. snd (rpc_heartbeat P cx w ps ts n c))"
| "serve P cx (CompleteTask w p t m) = on_coordinator (\<lambda>c. snd (rpc_complete_task P cx w p t m c))"
| "serve P cx (FailTask w p t b) = on_coordinator (\<lambda>c. snd (rpc_fail_task P cx w p t b c))"
| "serve P cx (CreateTask data) =
     on_coordinator (\<lambda>c. case rpc_create_task P cx data c of None \<Rightarrow> c | Some r \<Rightarrow> snd r)"
| "serve P cx (GetTaskStatuses p ts) = id"
| "serve P cx (CompleteProof p x) = on_coordinator (\<lambda>c. snd (rpc_complete_proof p x c))"
| "serve P cx (FailProof p t x) = on_coordinator (\<lambda>c. snd (rpc_fail_proof P cx p t x c))"
| "serve P cx (CreateProof request) = on_coordinator (\<lambda>c. snd (rpc_create_proof P cx request c))"
| "serve P cx (CreateDummyProof p e) = on_coordinator (\<lambda>c. snd (rpc_create_dummy_proof cx p e c))"
| "serve P cx (CancelProof p) = on_coordinator (\<lambda>c. snd (rpc_cancel_proof P cx p c))"
| "serve P cx (OpenSub s p ts tx otx) = (\<lambda>srv. snd (rpc_open_sub cx s p ts tx otx srv))"
| "serve P cx (UpdateSub s ts) = on_coordinator (\<lambda>c. snd (rpc_update_sub cx s ts c))"
| "serve P cx (AckSub s m) = (\<lambda>srv. snd (rpc_ack_sub s m srv))"
| "serve P cx Healthcheck = id"
| "serve P cx GetStats = id"
| "serve P cx (SubscribeTaskMessages t n tx) = on_coordinator (rpc_subscribe_task_messages t n tx)"
| "serve P cx (SendTaskMessage t payload) = on_coordinator (rpc_send_task_message cx t payload)"

text \<open>
  What the service takes for granted of a request: the generated task id is new, weights and the total
  capacity stay below \<open>2\<^sup>3\<^sup>1\<close>, and the proof has room for another task.
\<close>

fun request_ok :: "'p PolicyView \<Rightarrow> Ctx \<Rightarrow> Rpc \<Rightarrow> 'p CoordinatorState \<Rightarrow> bool" where
  "request_ok V cx (Open hb tx) st \<longleftrightarrow>
     map_of (workers st) (or_worker_id hb) = None \<longrightarrow> capacity (workers st) + or_max_weight hb < 2 ^ 31"
| "request_ok V cx (CreateTask (Some d)) st \<longleftrightarrow>
     fresh_task V (cx_id cx) st \<and> td_weight d < 2 ^ 31 \<and> room_for_task (td_proof_id d) st"
| "request_ok V cx (CreateProof request) st \<longleftrightarrow>
     fresh_task V (cx_id cx) st \<and> cx_controller_weight cx mod 2 ^ 32 < 2 ^ 31"
| "request_ok V cx _ st \<longleftrightarrow> True"

section \<open>Every request is a step of the service\<close>

lemma svc_quiet: "coord_step P V [] (c_state c) st' \<Longrightarrow> service_step P V c (c\<lparr>c_state := st'\<rparr>)"
  using svc_state [of P V "[]" c st'] by simp

lemma perform_step:
  assumes "\<And>effs st'. f (c_state c) = Inr (effs, st') \<Longrightarrow> coord_step P V effs (c_state c) st'"
  shows "snd (perform alive tick f c) = c \<or> service_step P V c (snd (perform alive tick f c))"
  using assms by (auto simp: perform_def intro: svc_state split: sum.splits prod.splits)

lemma plain_step:
  assumes "\<And>st'. f (c_state c) = Inr st' \<Longrightarrow> coord_step P V [] (c_state c) st'"
  shows "snd (plain f c) = c \<or> service_step P V c (snd (plain f c))"
  using assms by (auto simp: plain_def intro: svc_quiet split: sum.splits)

lemma serve_step:
  assumes "request_ok V cx r (c_state (ws_coordinator s))"
  shows "ws_coordinator (serve P cx r s) = ws_coordinator s \<or>
    service_step P V (ws_coordinator s) (ws_coordinator (serve P cx r s))"
proof (cases r)
  case (Open hb tx)
  with assms show ?thesis by (simp add: rpc_open_def svc_quiet step_add_worker)
next
  case (Close w)
  then show ?thesis using plain_step [of "close_worker w"] step_close_worker by (fastforce simp: rpc_close_def)
next
  case (Heartbeat w ps ts n)
  then show ?thesis
    using plain_step [of "handle_heartbeat P (cx_now cx) w ps ts n"] step_heartbeat by (fastforce simp: rpc_heartbeat_def)
next
  case (CompleteTask w p t m)
  then show ?thesis by (simp add: rpc_complete_task_def perform_step step_complete_task)
next
  case (FailTask w p t b)
  then show ?thesis by (simp add: rpc_fail_task_def perform_step step_fail_task)
next
  case (CreateTask data)
  with assms show ?thesis
    by (cases data) (simp_all add: rpc_create_task_def as_answer_def svc_quiet step_create_task)
next
  case (CompleteProof p x)
  then show ?thesis using plain_step [of "complete_proof p x"] step_complete_proof by (fastforce simp: rpc_complete_proof_def)
next
  case (FailProof p t x)
  then show ?thesis by (simp add: rpc_fail_proof_def perform_step step_fail_proof)
next
  case (CreateProof request)
  with assms show ?thesis by (simp add: rpc_create_proof_def as_answer_def svc_quiet step_create_proof)
next
  case (CreateDummyProof p e)
  then show ?thesis by (simp add: rpc_create_dummy_proof_def as_answer_def svc_quiet step_create_dummy_proof)
next
  case (CancelProof p)
  then show ?thesis by (simp add: rpc_cancel_proof_def perform_step step_fail_proof)
next
  case (OpenSub i p ts tx otx)
  then show ?thesis
    using svc_create_subscriber [of P V "ws_coordinator s" "cx_now cx" i p ts otx]
    by (cases "create_subscriber (cx_now cx) i p ts otx (ws_coordinator s)") (simp add: rpc_open_sub_def Let_def)
next
  case (UpdateSub i ts)
  then show ?thesis by (simp add: rpc_update_sub_def svc_add_subscriptions)
next
  case (AckSub i m)
  then show ?thesis by (simp add: rpc_ack_sub_def split: option.splits)
qed (simp_all add: rpc_subscribe_task_messages_def rpc_send_task_message_def svc_subscribe svc_send)

section \<open>Delivery to subscribers\<close>

text \<open>
  The life of the map of unacknowledged messages of one subscriber: messages arrive with new
  identifiers, passes are made, acknowledgements come in.  \<open>log\<close> is what was sent, \<open>received\<close> what came
  from the coordinator, \<open>acked\<close> the acknowledged identifiers and \<open>broken\<close> the messages dropped because a
  send failed.
\<close>

inductive forwarding :: "unacked_map \<Rightarrow> SubMessage list \<Rightarrow> SubMessage list \<Rightarrow> string set \<Rightarrow> string set \<Rightarrow> bool" where
  fw_start: "forwarding [] [] [] {} {}"
| fw_receive:
    "forwarding m log received acked broken \<Longrightarrow> \<forall>r \<in> set received. sm_id r \<noteq> sm_id msg \<Longrightarrow>
     forward_message now tx_open msg m = (m', out) \<Longrightarrow>
     forwarding m' (log @ out) (received @ [msg]) acked broken"
| fw_tick:
    "forwarding m log received acked broken \<Longrightarrow> resend_tick now tx_open sent m = (m', out) \<Longrightarrow>
     forwarding m' (log @ out) received acked (broken \<union> {i. tx_open \<and> \<not> sent i})"
| fw_ack:
    "forwarding m log received acked broken \<Longrightarrow>
     forwarding (hm_remove i m) log received (insert i acked) broken"

definition sends :: "SubMessage \<Rightarrow> SubMessage list \<Rightarrow> nat" where
  "sends msg log = count_list log msg"

text \<open>
  The invariant: an entry that was sent again \<open>r\<close> times has been sent \<open>r\<close> or \<open>r + 1\<close> times in all (the
  first send is skipped when the stream is already gone), and no message leaves the map unless it was
  acknowledged, its stream broke, or it has been sent at least four times.
\<close>

definition keyed_map :: "unacked_map \<Rightarrow> bool" where
  "keyed_map m \<longleftrightarrow> hm_wf m \<and> (\<forall>i e. map_of m i = Some e \<longrightarrow> sm_id (ua_msg e) = i)"

definition unacked_ok :: "SubMessage list \<Rightarrow> SubMessage list \<Rightarrow> Unacked \<Rightarrow> bool" where
  "unacked_ok log received e \<longleftrightarrow>
     ua_msg e \<in> set received \<and> ua_retries e \<le> 3 \<and>
     ua_retries e \<le> sends (ua_msg e) log \<and> sends (ua_msg e) log \<le> ua_retries e + 1"

definition forwarding_ok :: "unacked_map \<Rightarrow> SubMessage list \<Rightarrow> SubMessage list \<Rightarrow> string set \<Rightarrow> string set \<Rightarrow> bool" where
  "forwarding_ok m log received acked broken \<longleftrightarrow>
     keyed_map m \<and> distinct (map sm_id received) \<and>
     (\<forall>i e. map_of m i = Some e \<longrightarrow> unacked_ok log received e) \<and>
     (\<forall>msg. sends msg log \<le> 5 \<and> (msg \<notin> set received \<longrightarrow> sends msg log = 0)) \<and>
     (\<forall>msg. msg \<in> set received \<longrightarrow>
        map_of m (sm_id msg) \<noteq> None \<or> sm_id msg \<in> acked \<or> sm_id msg \<in> broken \<or> 4 \<le> sends msg log)"

lemma sends_simps [simp]:
  "sends msg [] = 0" "sends msg (log @ out) = sends msg log + sends msg out"
  "sends msg [m] = (if m = msg then 1 else 0)"
  by (simp_all add: sends_def)

lemma forwarding_okD:
  assumes "forwarding_ok m log received acked broken"
  shows "keyed_map m" and "distinct (map sm_id received)"
    and "map_of m i = Some e \<Longrightarrow> unacked_ok log received e"
    and "sends msg log \<le> 5" and "msg \<notin> set received \<Longrightarrow> sends msg log = 0"
    and "msg \<in> set received \<Longrightarrow>
      map_of m (sm_id msg) \<noteq> None \<or> sm_id msg \<in> acked \<or> sm_id msg \<in> broken \<or> 4 \<le> sends msg log"
  using assms unfolding forwarding_ok_def by blast+

lemma keyed_mapD: "keyed_map m \<Longrightarrow> map_of m i = Some e \<Longrightarrow> sm_id (ua_msg e) = i"
  by (simp add: keyed_map_def)

lemma keyed_map_Cons: "keyed_map ((i, e) # es) \<Longrightarrow> keyed_map es \<and> map_of es i = None \<and> sm_id (ua_msg e) = i"
  unfolding keyed_map_def using hm_wf_ConsD [of "(i, e)" es] by (auto split: if_splits) (metis option.distinct(1))

lemma resend_pass_keys: "fst ` set (fst (resend_pass now sent m)) \<subseteq> fst ` set m"
proof (induction m)
  case (Cons x m)
  obtain i e where x: "x = (i, e)" by fastforce
  obtain m' out where "resend_pass now sent m = (m', out)" by fastforce
  with Cons.IH show ?case by (auto simp: x split: option.splits prod.splits)
qed simp

lemma resend_pass_lookup:
  "keyed_map m \<Longrightarrow> hm_wf (fst (resend_pass now sent m)) \<and>
     map_of (fst (resend_pass now sent m)) i =
       (case map_of m i of None \<Rightarrow> None | Some e \<Rightarrow> fst (resend_entry now (sent i) e))"
proof (induction m)
  case (Cons x es)
  obtain j e where x: "x = (j, e)" by fastforce
  from Cons.prems have k: "keyed_map es" "map_of es j = None" by (auto dest: keyed_map_Cons simp: x)
  obtain keep out where r: "resend_entry now (sent j) e = (keep, out)" by fastforce
  obtain es' outs where p: "resend_pass now sent es = (es', outs)" by fastforce
  have new: "map_of es' j = None"
    using resend_pass_keys [of now sent es] k(2) p by (auto simp: map_of_eq_None_iff)
  from Cons.IH [OF k(1)] new k(2) show ?case
    by (cases "i = j"; cases keep) (auto simp: x r p hm_wf_def map_of_eq_None_iff [symmetric])
qed simp

lemma resend_entry_sent: "m \<in> set (snd (resend_entry now b e)) \<Longrightarrow> m = ua_msg e"
  by (auto simp: resend_entry_def split: if_splits)

lemma resend_pass_sends:
  "keyed_map m \<Longrightarrow> sends msg (snd (resend_pass now sent m)) =
     (case map_of m (sm_id msg) of None \<Rightarrow> 0 | Some e \<Rightarrow> sends msg (snd (resend_entry now (sent (sm_id msg)) e)))"
proof (induction m)
  case (Cons x es)
  obtain j e where x: "x = (j, e)" by fastforce
  from Cons.prems have k: "keyed_map es" "map_of es j = None" "sm_id (ua_msg e) = j"
    by (auto dest: keyed_map_Cons simp: x)
  have "sends msg (snd (resend_entry now (sent j) e)) = 0" if "sm_id msg \<noteq> j"
    using that k(3) resend_entry_sent [of msg now "sent j" e] by (auto simp: sends_def count_list_0_iff)
  with Cons.IH [OF k(1)] k(2) show ?case by (auto simp: x split: prod.splits option.splits)
qed simp

lemma received_unique:
  "distinct (map sm_id received) \<Longrightarrow> a \<in> set received \<Longrightarrow> b \<in> set received \<Longrightarrow> sm_id a = sm_id b \<Longrightarrow> a = b"
  by (auto simp: distinct_map dest: inj_onD)

lemma forwarding_ok_receive:
  assumes ok: "forwarding_ok m log received acked broken" and new: "\<forall>r \<in> set received. sm_id r \<noteq> sm_id msg"
    and f: "forward_message now tx_open msg m = (m', out)"
  shows "forwarding_ok m' (log @ out) (received @ [msg]) acked broken"
proof -
  note d = forwarding_okD [OF ok]
  let ?e = "\<lparr>ua_last_acked = now, ua_msg = msg, ua_retries = 0\<rparr>"
  from f have m': "m' = hm_insert (sm_id msg) ?e m" and out: "sends x out \<le> (if x = msg then 1 else 0)" for x
    by (auto simp: forward_message_def)
  have fresh: "msg \<notin> set received" "sends msg log = 0" using new d(5) by (auto intro: d(5))
  have keyed: "keyed_map m'" using d(1) by (auto simp: m' keyed_map_def)
  have old: "unacked_ok (log @ out) (received @ [msg]) e" if "map_of m i = Some e" for i e
  proof -
    note e = d(3) [OF that]
    then have "ua_msg e \<noteq> msg" using fresh by (auto simp: unacked_ok_def)
    with e out [of "ua_msg e"] show ?thesis by (simp add: unacked_ok_def)
  qed
  have "unacked_ok (log @ out) (received @ [msg]) e" if "map_of m' i = Some e" for i e
  proof (cases "i = sm_id msg")
    case True
    with that fresh out [of msg] show ?thesis by (auto simp: m' unacked_ok_def)
  next
    case False
    with that have "map_of m i = Some e" by (simp add: m')
    then show ?thesis by (rule old)
  qed
  moreover have "sends x (log @ out) \<le> 5 \<and> (x \<notin> set (received @ [msg]) \<longrightarrow> sends x (log @ out) = 0)" for x
    using d(4) [of x] d(5) [of x] out [of x] fresh(2) by (cases "x = msg") auto
  moreover have "map_of m' (sm_id x) \<noteq> None \<or> sm_id x \<in> acked \<or> sm_id x \<in> broken \<or> 4 \<le> sends x (log @ out)"
    if "x \<in> set (received @ [msg])" for x
    using that d(6) [of x] by (auto simp: m')
  moreover have "distinct (map sm_id (received @ [msg]))" using d(2) new by auto
  ultimately show ?thesis using keyed unfolding forwarding_ok_def by blast
qed

lemma resend_entry_cases:
  assumes "ua_retries e \<le> 3"
  obtains (kept) "fst (resend_entry now b e) = Some e" "snd (resend_entry now b e) = []"
  | (broken) "fst (resend_entry now b e) = None" "snd (resend_entry now b e) = []" "\<not> b"
  | (gave_up) "fst (resend_entry now b e) = None" "snd (resend_entry now b e) = [ua_msg e]" "ua_retries e = 3"
  | (again) t where
      "fst (resend_entry now b e) = Some (e\<lparr>ua_last_acked := t, ua_retries := ua_retries e + 1\<rparr>)"
      "snd (resend_entry now b e) = [ua_msg e]" "ua_retries e + 1 \<le> 3"
proof (cases "from_secs 4 < now - ua_last_acked e \<and> b")
  case True
  have "u32_add (ua_retries e) 1 = ua_retries e + 1" using assms by simp
  then have r: "resend_entry now b e =
      (if ua_retries e + 1 > 3 then (None, [ua_msg e])
       else (Some (e\<lparr>ua_last_acked := now, ua_retries := ua_retries e + 1\<rparr>), [ua_msg e]))"
    using True by (simp add: resend_entry_def)
  show thesis
  proof (cases "ua_retries e + 1 > 3")
    case True
    with r assms gave_up show thesis by simp
  next
    case False
    with r again [of now] show thesis by simp
  qed
next
  case False
  then show thesis
    using kept broken by (cases "from_secs 4 < now - ua_last_acked e") (simp_all add: resend_entry_def)
qed

lemma forwarding_ok_tick:
  assumes ok: "forwarding_ok m log received acked broken" and tick: "resend_pass now sent m = (m', out)"
  shows "forwarding_ok m' (log @ out) received acked (broken \<union> {i. \<not> sent i})"
proof -
  note d = forwarding_okD [OF ok]
  have look: "hm_wf m'" "map_of m' i = (case map_of m i of None \<Rightarrow> None | Some e \<Rightarrow> fst (resend_entry now (sent i) e))" for i
    using resend_pass_lookup [OF d(1), of now sent i] by (simp_all add: tick)
  have out: "sends x out = (case map_of m (sm_id x) of None \<Rightarrow> 0 | Some e \<Rightarrow> sends x (snd (resend_entry now (sent (sm_id x)) e)))" for x
    using resend_pass_sends [OF d(1), of x now sent] by (simp add: tick)
  have entry: "sm_id (ua_msg e') = i \<and> unacked_ok (log @ out) received e'" if e': "map_of m' i = Some e'" for i e'
  proof -
    from e' look(2) [of i] obtain e where e: "map_of m i = Some e" "fst (resend_entry now (sent i) e) = Some e'"
      by (auto split: option.splits)
    note k = keyed_mapD [OF d(1) e(1)] and eok = d(3) [OF e(1)]
    then have "ua_retries e \<le> 3" by (simp add: unacked_ok_def)
    then show ?thesis
      by (cases rule: resend_entry_cases [of e now "sent i"])
        (use e k eok out [of "ua_msg e"] in \<open>auto simp: unacked_ok_def\<close>)
  qed
  have sent: "sends x (log @ out) \<le> 5 \<and> (x \<notin> set received \<longrightarrow> sends x (log @ out) = 0) \<and>
      (x \<in> set received \<longrightarrow> map_of m' (sm_id x) \<noteq> None \<or> sm_id x \<in> acked \<or> sm_id x \<in> broken \<union> {i. \<not> sent i} \<or>
         4 \<le> sends x (log @ out))" for x
  proof (cases "map_of m (sm_id x)")
    case None
    with d(4,5,6) [of x] out [of x] look(2) [of "sm_id x"] show ?thesis by auto
  next
    case (Some e)
    note k = keyed_mapD [OF d(1) Some] and eok = d(3) [OF Some]
    then have r: "ua_retries e \<le> 3" and mem: "ua_msg e \<in> set received" by (simp_all add: unacked_ok_def)
    show ?thesis
    proof (cases "x = ua_msg e")
      case True
      with k look(2) [of "sm_id x"] Some out [of x] eok mem d(4) [of x] show ?thesis
        by (cases rule: resend_entry_cases [OF r, of now "sent (sm_id x)"]) (auto simp: unacked_ok_def)
    next
      case False
      with k mem received_unique [OF d(2)] have "x \<notin> set received" by metis
      moreover have "sends x (snd (resend_entry now (sent (sm_id x)) e)) = 0"
        using False resend_entry_sent [of x now "sent (sm_id x)" e] by (auto simp: sends_def count_list_0_iff)
      ultimately show ?thesis using Some out [of x] d(5) [of x] by simp
    qed
  qed
  from look(1) entry sent d(2) show ?thesis unfolding forwarding_ok_def keyed_map_def by blast
qed

lemma forwarding_inv: "forwarding m log received acked broken \<Longrightarrow> forwarding_ok m log received acked broken"
proof (induction rule: forwarding.induct)
  case fw_start
  show ?case by (simp add: forwarding_ok_def keyed_map_def)
next
  case (fw_receive m log received acked broken msg now tx_open m' out)
  then show ?case by (blast intro: forwarding_ok_receive)
next
  case (fw_tick m log received acked broken now tx_open sent m' out)
  then show ?case
    using forwarding_ok_tick [of m log received acked broken now sent m' out]
    by (cases tx_open) (simp_all add: resend_tick_def)
next
  case (fw_ack m log received acked broken i)
  note d = forwarding_okD [OF fw_ack.IH]
  show ?case
    unfolding forwarding_ok_def keyed_map_def
    using d d(1) [unfolded keyed_map_def] by (auto split: if_splits)
qed

section \<open>Unacknowledged messages do not stay for ever\<close>

text \<open>Entries that were sent again at least \<open>n\<close> times and last at \<open>now\<close> or before.\<close>

definition retried :: "nat \<Rightarrow> SystemTime \<Rightarrow> unacked_map \<Rightarrow> bool" where
  "retried n now m \<longleftrightarrow>
     keyed_map m \<and> (\<forall>i e. map_of m i = Some e \<longrightarrow> n \<le> ua_retries e \<and> ua_retries e \<le> 3 \<and> ua_last_acked e \<le> now)"

lemma retried_pass:
  assumes m: "retried n past m" and now: "past + from_secs 4 < now"
  shows "retried (n + 1) now (fst (resend_pass now sent m))"
proof -
  have key: "keyed_map m" using m by (simp add: retried_def)
  have "sm_id (ua_msg e') = i \<and> n + 1 \<le> ua_retries e' \<and> ua_retries e' \<le> 3 \<and> ua_last_acked e' \<le> now"
    if "map_of (fst (resend_pass now sent m)) i = Some e'" for i e'
  proof -
    from that resend_pass_lookup [OF key, of now sent i] obtain e where e: "map_of m i = Some e"
      "fst (resend_entry now (sent i) e) = Some e'" by (auto split: option.splits)
    with m have "n \<le> ua_retries e" "ua_retries e \<le> 3" "ua_last_acked e \<le> past" by (simp_all add: retried_def)
    with e keyed_mapD [OF key e(1)] now show ?thesis by (auto simp: resend_entry_def split: if_splits)
  qed
  with resend_pass_lookup [OF key, of now sent] show ?thesis unfolding retried_def keyed_map_def by blast
qed

lemma retried_empty: "retried 4 now m \<Longrightarrow> m = []"
proof (cases m)
  case (Cons x xs)
  assume "retried 4 now m"
  moreover have "map_of m (fst x) = Some (snd x)" by (simp add: Cons)
  ultimately have "4 \<le> ua_retries (snd x) \<and> ua_retries (snd x) \<le> 3" unfolding retried_def by blast
  then show ?thesis by linarith
qed

lemma forwarding_drains_aux:
  assumes "retried 0 t0 m" and "t0 + from_secs 4 < t1" and "t1 + from_secs 4 < t2" and "t2 + from_secs 4 < t3"
    and "t3 + from_secs 4 < t4"
  shows "fst (resend_pass t4 sent (fst (resend_pass t3 sent (fst (resend_pass t2 sent (fst (resend_pass t1 sent m))))))) = []"
    (is "?m = []")
proof -
  have "retried 4 t4 ?m"
    using retried_pass [OF retried_pass [OF retried_pass [OF retried_pass [OF assms(1,2)] assms(3)] assms(4)] assms(5), of sent sent sent sent]
    by (simp add: eval_nat_numeral)
  then show ?thesis by (rule retried_empty)
qed

end
