(* ===== verification/Policy_Default.thy ===== *)
theory Policy_Default
  imports Server
begin

text \<open>
  \<open>DefaultPolicy\<close> (\<open>bin/coordinator/src/policy/default.rs\<close>): one CPU and one GPU queue, each served in
  priority order until no worker fits the task on top.  The assignment loops carry the length of
  their queue as fuel; every iteration of a well-formed policy removes one entry, so the fuel never
  cuts a loop short (the facts \<open>default_gpu.loop_exhausted\<close> and \<open>default_cpu.loop_exhausted\<close>).
\<close>

section \<open>The policy\<close>

record DefaultPolicy =
  dp_cpu_queue :: task_heap
  dp_gpu_queue :: task_heap

abbreviation dp_pop_cpu :: "DefaultPolicy CoordinatorState \<Rightarrow> DefaultPolicy CoordinatorState" where
  "dp_pop_cpu st \<equiv> st\<lparr>policy := (policy st)\<lparr>dp_cpu_queue := heap_pop (dp_cpu_queue (policy st))\<rparr>\<rparr>"

abbreviation dp_pop_gpu :: "DefaultPolicy CoordinatorState \<Rightarrow> DefaultPolicy CoordinatorState" where
  "dp_pop_gpu st \<equiv> st\<lparr>policy := (policy st)\<lparr>dp_gpu_queue := heap_pop (dp_gpu_queue (policy st))\<rparr>\<rparr>"

definition default_enqueue_task ::
  "Env \<Rightarrow> DefaultPolicy CoordinatorState \<Rightarrow> Task \<Rightarrow> DefaultPolicy CoordinatorState" where
  "default_enqueue_task E st task =
     (case get_queued_task st task of
        None \<Rightarrow> st\<lparr>panicked := True\<rparr>
      | Some q \<Rightarrow>
          (case worker_type_from_task_type E (task_type task) of
             CpuWorker \<Rightarrow>
               st\<lparr>policy := (policy st)\<lparr>dp_cpu_queue := heap_push q (dp_cpu_queue (policy st))\<rparr>\<rparr>
           | GpuWorker \<Rightarrow>
               st\<lparr>policy := (policy st)\<lparr>dp_gpu_queue := heap_push q (dp_gpu_queue (policy st))\<rparr>\<rparr>
           | _ \<Rightarrow> st))"

text \<open>\<open>DefaultPolicy::assign_task\<close>: the new state and the id of the worker the task went to.\<close>

definition default_assign_task ::
  "Env \<Rightarrow> SystemTime \<Rightarrow> DefaultPolicy CoordinatorState \<Rightarrow> Task \<Rightarrow>
     DefaultPolicy CoordinatorState \<times> WorkerId option" where
  "default_assign_task E now st task =
     (let worker_type = worker_type_from_task_type E (task_type task)
      in if worker_type = NoneWorker then (st, None)
         else case best_worker worker_type (task_weight_of task) (workers st) of
                None \<Rightarrow> (st, None)
              | Some worker \<Rightarrow>
                  (let st1 = start_task now task worker st
                   in (case worker_type of
                         CpuWorker \<Rightarrow> dp_pop_cpu st1
                       | GpuWorker \<Rightarrow> dp_pop_gpu st1
                       | _ \<Rightarrow> st1,
                       Some (w_id worker))))"

text \<open>The two \<open>while\<close> loops of \<open>assign_tasks\<close>.\<close>

definition default_gpu_loop ::
  "Env \<Rightarrow> SystemTime \<Rightarrow> nat \<Rightarrow> DefaultPolicy CoordinatorState \<Rightarrow> DefaultPolicy CoordinatorState" where
  "default_gpu_loop E now =
     queue_loop (\<lambda>st. heap_peek (dp_gpu_queue (policy st))) (\<lambda>st _. dp_pop_gpu st) (default_assign_task E now)"

definition default_cpu_loop ::
  "Env \<Rightarrow> SystemTime \<Rightarrow> nat \<Rightarrow> DefaultPolicy CoordinatorState \<Rightarrow> DefaultPolicy CoordinatorState" where
  "default_cpu_loop E now =
     queue_loop (\<lambda>st. heap_peek (dp_cpu_queue (policy st))) (\<lambda>st _. dp_pop_cpu st) (default_assign_task E now)"

definition default_assign_tasks ::
  "Env \<Rightarrow> SystemTime \<Rightarrow> DefaultPolicy CoordinatorState \<Rightarrow> DefaultPolicy CoordinatorState" where
  "default_assign_tasks E now st =
     (if shutting_down st \<or> (dp_gpu_queue (policy st) = [] \<and> dp_cpu_queue (policy st) = []) then st
      else let st1 = default_gpu_loop E now (length (dp_gpu_queue (policy st))) st
           in default_cpu_loop E now (length (dp_cpu_queue (policy st1))) st1)"

text \<open>The trait implementation; the remaining functions are the ones the source leaves empty.\<close>

definition default_policy :: "Env \<Rightarrow> DefaultPolicy AssignmentPolicy" where
  "default_policy E =
     \<lparr>ap_default = \<lparr>dp_cpu_queue = [], dp_gpu_queue = []\<rparr>,
      ap_enqueue_task = default_enqueue_task E,
      ap_post_task_success_update_proof = (\<lambda>proof _. proof),
      ap_post_task_success_update_state = (\<lambda>st _. st),
      ap_post_task_update_state = (\<lambda>st _ _ _ _. st),
      ap_post_worker_empty = (\<lambda>st w. (st, w\<lparr>w_next_free_time := 0, w_weight := 0\<rparr>)),
      ap_get_task_input_metadata = (\<lambda>_ _. []),
      ap_assign_tasks = default_assign_tasks E,
      ap_cpu_queue_len = (\<lambda>st. length (dp_cpu_queue (policy st)) mod 2 ^ 32),
      ap_gpu_queue_len = (\<lambda>st. length (dp_gpu_queue (policy st)) mod 2 ^ 32),
      ap_on_proof_deleted = (\<lambda>st _. st)\<rparr>"

section \<open>The view of the policy\<close>

definition default_wf :: "Env \<Rightarrow> DefaultPolicy \<Rightarrow> bool" where
  "default_wf E pol \<longleftrightarrow>
     (\<forall>q \<in> set (dp_cpu_queue pol). worker_type_from_task_type E (q_task_type q) = CpuWorker) \<and>
     (\<forall>q \<in> set (dp_gpu_queue pol). worker_type_from_task_type E (q_task_type q) = GpuWorker)"

definition default_view :: "Env \<Rightarrow> DefaultPolicy PolicyView" where
  "default_view E =
     \<lparr>pv_queued = (\<lambda>pol. mset (dp_cpu_queue pol) + mset (dp_gpu_queue pol)),
      pv_charge = (\<lambda>_ _. 0),
      pv_charged = (\<lambda>_. False),
      pv_class = worker_type_from_task_type E,
      pv_wf = default_wf E\<rparr>"

lemma default_view_simps [simp]:
  "pv_queued (default_view E) pol = mset (dp_cpu_queue pol) + mset (dp_gpu_queue pol)"
  "pv_charge (default_view E) pol p = 0"
  "pv_charged (default_view E) tt = False"
  "pv_class (default_view E) = worker_type_from_task_type E"
  "pv_wf (default_view E) = default_wf E"
  by (simp_all add: default_view_def)

lemma default_wf_pop [simp]:
  "default_wf E pol \<Longrightarrow> default_wf E (pol\<lparr>dp_cpu_queue := heap_pop (dp_cpu_queue pol)\<rparr>)"
  "default_wf E pol \<Longrightarrow> default_wf E (pol\<lparr>dp_gpu_queue := heap_pop (dp_gpu_queue pol)\<rparr>)"
  using set_heap_pop unfolding default_wf_def by fastforce+

section \<open>One iteration of a loop\<close>

lemma default_pop_gpu_step:
  assumes "sched_ok (default_view E) st" and q: "heap_peek (dp_gpu_queue (policy st)) = Some q"
    and "\<forall>task. get_task_internal st (q_proof_id q) (q_id q) = Some task \<longrightarrow> final_status (t_status task)"
  shows "assign_step (default_view E) now st (dp_pop_gpu st)"
  using assms task_heap.peek_split [OF q]
  by (intro assign_step.drop_stale) (simp_all add: sched_ok_def default_view_def)

lemma default_pop_cpu_step:
  assumes "sched_ok (default_view E) st" and q: "heap_peek (dp_cpu_queue (policy st)) = Some q"
    and "\<forall>task. get_task_internal st (q_proof_id q) (q_id q) = Some task \<longrightarrow> final_status (t_status task)"
  shows "assign_step (default_view E) now st (dp_pop_cpu st)"
  using assms task_heap.peek_split [OF q]
  by (intro assign_step.drop_stale) (simp_all add: sched_ok_def default_view_def)

lemma sched_ok_queue_class:
  assumes ok: "sched_ok (default_view E) st"
    and task: "get_task_internal st (q_proof_id q) (q_id q) = Some task"
  shows "q \<in> set (dp_gpu_queue (policy st)) \<Longrightarrow> worker_type_from_task_type E (task_type task) = GpuWorker"
    and "q \<in> set (dp_cpu_queue (policy st)) \<Longrightarrow> worker_type_from_task_type E (task_type task) = CpuWorker"
proof -
  from ok have typed: "queue_typed (default_view E) st" and wf: "default_wf E (policy st)"
    by (simp_all add: sched_ok_def)
  have tt: "q \<in># pv_queued (default_view E) (policy st) \<Longrightarrow> task_type task = q_task_type q"
    by (rule queue_typedD [OF typed _ task])
  show "q \<in> set (dp_gpu_queue (policy st)) \<Longrightarrow> worker_type_from_task_type E (task_type task) = GpuWorker"
    and "q \<in> set (dp_cpu_queue (policy st)) \<Longrightarrow> worker_type_from_task_type E (task_type task) = CpuWorker"
    using tt wf by (auto simp: default_wf_def)
qed

lemma default_assign_task_gpu:
  assumes ok: "sched_ok (default_view E) st" and q: "heap_peek (dp_gpu_queue (policy st)) = Some q"
    and task: "get_task_internal st (q_proof_id q) (q_id q) = Some task"
    and live: "\<not> final_status (t_status task)"
    and res: "default_assign_task E now st task = (st1, Some i)"
  shows "assign_step (default_view E) now st st1"
    and "dp_gpu_queue (policy st1) = heap_pop (dp_gpu_queue (policy st))"
proof -
  from sched_ok_queue_class(1) [OF ok task heap_peek_mem [OF q]]
  have wt: "worker_type_from_task_type E (task_type task) = GpuWorker" .
  with res obtain w where
    w: "best_worker GpuWorker (task_weight_of task) (workers st) = Some w"
    and st1: "st1 = (start_task now task w st)\<lparr>policy :=
                (policy st)\<lparr>dp_gpu_queue := heap_pop (dp_gpu_queue (policy st))\<rparr>\<rparr>"
    by (auto simp: default_assign_task_def Let_def split: option.splits)
  show "assign_step (default_view E) now st st1"
    unfolding st1 using ok task_heap.peek_split [OF q] w wt task live
    by (intro assign_step.start [where q = q and task = task])
      (simp_all add: sched_ok_def default_view_def fun_eq_iff)
  show "dp_gpu_queue (policy st1) = heap_pop (dp_gpu_queue (policy st))"
    by (simp add: st1)
qed

lemma default_assign_task_cpu:
  assumes ok: "sched_ok (default_view E) st" and q: "heap_peek (dp_cpu_queue (policy st)) = Some q"
    and task: "get_task_internal st (q_proof_id q) (q_id q) = Some task"
    and live: "\<not> final_status (t_status task)"
    and res: "default_assign_task E now st task = (st1, Some i)"
  shows "assign_step (default_view E) now st st1"
    and "dp_cpu_queue (policy st1) = heap_pop (dp_cpu_queue (policy st))"
proof -
  from sched_ok_queue_class(2) [OF ok task heap_peek_mem [OF q]]
  have wt: "worker_type_from_task_type E (task_type task) = CpuWorker" .
  with res obtain w where
    w: "best_worker CpuWorker (task_weight_of task) (workers st) = Some w"
    and st1: "st1 = (start_task now task w st)\<lparr>policy :=
                (policy st)\<lparr>dp_cpu_queue := heap_pop (dp_cpu_queue (policy st))\<rparr>\<rparr>"
    by (auto simp: default_assign_task_def Let_def split: option.splits)
  show "assign_step (default_view E) now st st1"
    unfolding st1 using ok task_heap.peek_split [OF q] w wt task live
    by (intro assign_step.start [where q = q and task = task])
      (simp_all add: sched_ok_def default_view_def fun_eq_iff)
  show "dp_cpu_queue (policy st1) = heap_pop (dp_cpu_queue (policy st))"
    by (simp add: st1)
qed

lemma default_assign_task_None:
  "default_assign_task E now st task = (st1, None) \<Longrightarrow>
     st1 = st \<and> (worker_type_from_task_type E (task_type task) = NoneWorker \<or>
        best_worker (worker_type_from_task_type E (task_type task)) (task_weight_of task) (workers st) = None)"
  by (auto simp: default_assign_task_def Let_def split: if_splits option.splits)

section \<open>The loops\<close>

interpretation default_gpu: assign_loop "default_view E" now
    "\<lambda>st. heap_peek (dp_gpu_queue (policy st))" "\<lambda>st _. dp_pop_gpu st" "default_assign_task E now"
    "\<lambda>st. length (dp_gpu_queue (policy st))" GpuWorker
proof (unfold_locales, goal_cases)
  case (1 st q)
  then show ?case using heap_pop_length by fastforce
next
  case (2 st q)
  then show ?case using default_pop_gpu_step heap_pop_length by fastforce
next
  case (3 st q task st1 i)
  then show ?case using default_assign_task_gpu [OF 3] heap_pop_length [of _ q] by simp
next
  case (4 st q task st1)
  then show ?case
    using default_assign_task_None [OF 4(5)] sched_ok_queue_class(1) [OF 4(1,3) heap_peek_mem [OF 4(2)]]
    by auto
qed

interpretation default_cpu: assign_loop "default_view E" now
    "\<lambda>st. heap_peek (dp_cpu_queue (policy st))" "\<lambda>st _. dp_pop_cpu st" "default_assign_task E now"
    "\<lambda>st. length (dp_cpu_queue (policy st))" CpuWorker
proof (unfold_locales, goal_cases)
  case (1 st q)
  then show ?case using heap_pop_length by fastforce
next
  case (2 st q)
  then show ?case using default_pop_cpu_step heap_pop_length by fastforce
next
  case (3 st q task st1 i)
  then show ?case using default_assign_task_cpu [OF 3] heap_pop_length [of _ q] by simp
next
  case (4 st q task st1)
  then show ?case
    using default_assign_task_None [OF 4(5)] sched_ok_queue_class(2) [OF 4(1,3) heap_peek_mem [OF 4(2)]]
    by auto
qed

lemma default_assign_tasks_steps:
  assumes ok: "sched_ok (default_view E) st"
  shows "(assign_step (default_view E) now)\<^sup>*\<^sup>* st (default_assign_tasks E now st)"
proof -
  let ?st1 = "default_gpu_loop E now (length (dp_gpu_queue (policy st))) st"
  have g: "(assign_step (default_view E) now)\<^sup>*\<^sup>* st ?st1"
    unfolding default_gpu_loop_def by (rule default_gpu.loop_steps [OF ok])
  have "sched_ok (default_view E) ?st1"
    unfolding default_gpu_loop_def by (rule default_gpu.sched_ok_loop [OF ok])
  then have "(assign_step (default_view E) now)\<^sup>*\<^sup>* ?st1
      (default_cpu_loop E now (length (dp_cpu_queue (policy ?st1))) ?st1)"
    unfolding default_cpu_loop_def by (rule default_cpu.loop_steps)
  with g show ?thesis
    by (simp add: default_assign_tasks_def Let_def rtranclp_trans [OF g])
qed

interpretation default: assignment_policy "default_policy E" "default_view E"
proof (unfold_locales, goal_cases)
  case (2 st task q)
  then show ?case
    by (intro exI [of _ "policy (default_enqueue_task E st task)"])
      (auto simp: default_policy_def default_enqueue_task_def default_wf_def heap_push_def
        get_queued_task_def queueable_def fun_eq_iff split: option.splits WorkerType.splits)
next
  case (5 st t tw p tt)
  then show ?case
    by (intro exI [of _ "policy st"]) (simp add: default_policy_def fun_eq_iff)
next
  case (7 st p)
  then show ?case
    by (intro exI [of _ "policy st"]) (simp add: default_policy_def fun_eq_iff)
next
  case (8 st now)
  then show ?case using default_assign_tasks_steps by (simp add: default_policy_def)
qed (simp_all add: default_policy_def default_wf_def default_assign_tasks_def fun_eq_iff)

end
