(* ===== verification/Policy_Balanced.thy ===== *)
theory Policy_Balanced
  imports Server
begin

text \<open>
  \<open>BalancedPolicy\<close> (\<open>bin/coordinator/src/policy/balanced.rs\<close>), the policy the shipped coordinator runs:
  one CPU queue, one GPU queue per proof, and the GPU weight currently assigned to each proof.  GPU
  tasks are taken from the proof with the least assigned weight.
\<close>

section \<open>The policy\<close>

record BalancedPolicy =
  bp_cpu_queue :: task_heap
  bp_gpu_queues :: "(ProofId, task_heap) hash_map"
  bp_proof_gpu_weights :: "(ProofId, nat) hash_map"

definition bp_weight :: "BalancedPolicy \<Rightarrow> ProofId \<Rightarrow> nat" where
  "bp_weight pol p = (case map_of (bp_proof_gpu_weights pol) p of None \<Rightarrow> 0 | Some w \<Rightarrow> w)"

text \<open>
  The loop of \<open>find_next_balanced_task\<close> over the GPU queues, with \<open>best_result\<close>, \<open>lowest_weight\<close> and
  \<open>oldest_time\<close> as accumulators.
\<close>

fun scan_queues ::
  "BalancedPolicy \<Rightarrow> (ProofId \<times> task_heap) list \<Rightarrow> QueuedTask option \<Rightarrow> nat \<Rightarrow> SystemTime \<Rightarrow> QueuedTask option"
where
  "scan_queues pol [] best lowest oldest = best"
| "scan_queues pol ((p, queue) # qs) best lowest oldest =
     (case heap_peek queue of
        None \<Rightarrow> scan_queues pol qs best lowest oldest
      | Some q \<Rightarrow>
          (if bp_weight pol p < lowest \<or> (bp_weight pol p = lowest \<and> q_proof_created_at q < oldest)
           then scan_queues pol qs (Some q) (bp_weight pol p) (q_proof_created_at q)
           else scan_queues pol qs best lowest oldest))"

definition find_next_balanced_task :: "BalancedPolicy \<Rightarrow> QueuedTask option" where
  "find_next_balanced_task pol = scan_queues pol (bp_gpu_queues pol) None (uint_max 32) 0"

text \<open>Popping the queue of one proof, and dropping the queue when it is empty.\<close>

definition pop_gpu_queue :: "ProofId \<Rightarrow> BalancedPolicy \<Rightarrow> BalancedPolicy" where
  "pop_gpu_queue p pol =
     (case map_of (bp_gpu_queues pol) p of
        None \<Rightarrow> pol
      | Some queue \<Rightarrow>
          pol\<lparr>bp_gpu_queues :=
                (if heap_pop queue = [] then hm_remove p (bp_gpu_queues pol)
                 else hm_insert p (heap_pop queue) (bp_gpu_queues pol))\<rparr>)"

definition pop_cpu_queue :: "BalancedPolicy \<Rightarrow> BalancedPolicy" where
  "pop_cpu_queue pol = pol\<lparr>bp_cpu_queue := heap_pop (bp_cpu_queue pol)\<rparr>"

abbreviation on_policy :: "('p \<Rightarrow> 'p) \<Rightarrow> 'p CoordinatorState \<Rightarrow> 'p CoordinatorState" where
  "on_policy f st \<equiv> st\<lparr>policy := f (policy st)\<rparr>"

definition add_gpu_weight :: "ProofId \<Rightarrow> nat \<Rightarrow> BalancedPolicy \<Rightarrow> BalancedPolicy" where
  "add_gpu_weight p w pol =
     pol\<lparr>bp_proof_gpu_weights := hm_insert p (u32_add (bp_weight pol p) w) (bp_proof_gpu_weights pol)\<rparr>"

text \<open>\<open>BalancedPolicy::assign_task\<close>.\<close>

definition balanced_assign_task ::
  "Env \<Rightarrow> SystemTime \<Rightarrow> BalancedPolicy CoordinatorState \<Rightarrow> Task \<Rightarrow>
     BalancedPolicy CoordinatorState \<times> WorkerId option" where
  "balanced_assign_task E now st task =
     (let worker_type = worker_type_from_task_type E (task_type task);
          proof_id = td_proof_id (t_data task)
      in if worker_type = NoneWorker then (st, None)
         else case best_worker worker_type (task_weight_of task) (workers st) of
                None \<Rightarrow> (st, None)
              | Some worker \<Rightarrow>
                  (let st1 = start_task now task worker st;
                       st2 = (if worker_type = GpuWorker
                              then on_policy (add_gpu_weight proof_id (task_weight_of task)) st1 else st1)
                   in (case worker_type of
                         CpuWorker \<Rightarrow> on_policy pop_cpu_queue st2
                       | GpuWorker \<Rightarrow> on_policy (pop_gpu_queue proof_id) st2
                       | _ \<Rightarrow> st2,
                       Some (w_id worker))))"

definition balanced_enqueue_task ::
  "Env \<Rightarrow> BalancedPolicy CoordinatorState \<Rightarrow> Task \<Rightarrow> BalancedPolicy CoordinatorState" where
  "balanced_enqueue_task E st task =
     (case get_queued_task st task of
        None \<Rightarrow> st\<lparr>panicked := True\<rparr>
      | Some q \<Rightarrow>
          (case worker_type_from_task_type E (task_type task) of
             CpuWorker \<Rightarrow> on_policy (\<lambda>pol. pol\<lparr>bp_cpu_queue := heap_push q (bp_cpu_queue pol)\<rparr>) st
           | GpuWorker \<Rightarrow>
               on_policy (\<lambda>pol. pol\<lparr>bp_gpu_queues :=
                  hm_insert (td_proof_id (t_data task))
                    (heap_push q (case map_of (bp_gpu_queues pol) (td_proof_id (t_data task)) of
                                    None \<Rightarrow> [] | Some queue \<Rightarrow> queue))
                    (bp_gpu_queues pol)\<rparr>) st
           | _ \<Rightarrow> st))"

definition balanced_post_task_update_state ::
  "Env \<Rightarrow> BalancedPolicy CoordinatorState \<Rightarrow> TaskId \<Rightarrow> nat \<Rightarrow> ProofId \<Rightarrow> TaskType \<Rightarrow>
     BalancedPolicy CoordinatorState" where
  "balanced_post_task_update_state E st task_id task_weight proof_id tt =
     (if worker_type_from_task_type E tt = GpuWorker
      then case map_of (bp_proof_gpu_weights (policy st)) proof_id of
             None \<Rightarrow> st
           | Some current \<Rightarrow>
               on_policy (\<lambda>pol. pol\<lparr>bp_proof_gpu_weights :=
                  (if saturating_sub current task_weight = 0
                   then hm_remove proof_id (bp_proof_gpu_weights pol)
                   else hm_insert proof_id (saturating_sub current task_weight)
                          (bp_proof_gpu_weights pol))\<rparr>) st
      else st)"

definition balanced_on_proof_deleted ::
  "BalancedPolicy CoordinatorState \<Rightarrow> ProofId \<Rightarrow> BalancedPolicy CoordinatorState" where
  "balanced_on_proof_deleted st proof_id =
     on_policy (\<lambda>pol. pol\<lparr>bp_proof_gpu_weights := hm_remove proof_id (bp_proof_gpu_weights pol)\<rparr>) st"

text \<open>The two \<open>while\<close> loops of \<open>assign_tasks\<close>.\<close>

definition gpu_queue_total :: "BalancedPolicy \<Rightarrow> nat" where
  "gpu_queue_total pol = sum_list (map (\<lambda>e. length (snd e)) (bp_gpu_queues pol))"

definition balanced_gpu_loop ::
  "Env \<Rightarrow> SystemTime \<Rightarrow> nat \<Rightarrow> BalancedPolicy CoordinatorState \<Rightarrow> BalancedPolicy CoordinatorState" where
  "balanced_gpu_loop E now =
     queue_loop (\<lambda>st. find_next_balanced_task (policy st))
       (\<lambda>st q. on_policy (pop_gpu_queue (q_proof_id q)) st) (balanced_assign_task E now)"

definition balanced_cpu_loop ::
  "Env \<Rightarrow> SystemTime \<Rightarrow> nat \<Rightarrow> BalancedPolicy CoordinatorState \<Rightarrow> BalancedPolicy CoordinatorState" where
  "balanced_cpu_loop E now =
     queue_loop (\<lambda>st. heap_peek (bp_cpu_queue (policy st)))
       (\<lambda>st _. on_policy pop_cpu_queue st) (balanced_assign_task E now)"

definition balanced_assign_tasks ::
  "Env \<Rightarrow> SystemTime \<Rightarrow> BalancedPolicy CoordinatorState \<Rightarrow> BalancedPolicy CoordinatorState" where
  "balanced_assign_tasks E now st =
     (if shutting_down st \<or> (bp_gpu_queues (policy st) = [] \<and> bp_cpu_queue (policy st) = []) then st
      else let st1 = balanced_gpu_loop E now (gpu_queue_total (policy st)) st
           in balanced_cpu_loop E now (length (bp_cpu_queue (policy st1))) st1)"

definition balanced_policy :: "Env \<Rightarrow> BalancedPolicy AssignmentPolicy" where
  "balanced_policy E =
     \<lparr>ap_default = \<lparr>bp_cpu_queue = [], bp_gpu_queues = [], bp_proof_gpu_weights = []\<rparr>,
      ap_enqueue_task = balanced_enqueue_task E,
      ap_post_task_success_update_proof = (\<lambda>proof _. proof),
      ap_post_task_success_update_state = (\<lambda>st _. st),
      ap_post_task_update_state = balanced_post_task_update_state E,
      ap_post_worker_empty = (\<lambda>st w. (st, w\<lparr>w_next_free_time := 0, w_weight := 0\<rparr>)),
      ap_get_task_input_metadata = (\<lambda>_ _. []),
      ap_assign_tasks = balanced_assign_tasks E,
      ap_cpu_queue_len = (\<lambda>st. length (bp_cpu_queue (policy st)) mod 2 ^ 32),
      ap_gpu_queue_len = (\<lambda>st. wrapping_sum 32 (map (\<lambda>e. length (snd e) mod 2 ^ 32) (bp_gpu_queues (policy st)))),
      ap_on_proof_deleted = balanced_on_proof_deleted\<rparr>"

section \<open>The view of the policy\<close>

definition gpu_contents :: "BalancedPolicy \<Rightarrow> QueuedTask multiset" where
  "gpu_contents pol = sum_list (map (\<lambda>e. mset (snd e)) (bp_gpu_queues pol))"

definition balanced_wf :: "Env \<Rightarrow> BalancedPolicy \<Rightarrow> bool" where
  "balanced_wf E pol \<longleftrightarrow>
     hm_wf (bp_gpu_queues pol) \<and>
     (\<forall>q \<in> set (bp_cpu_queue pol). worker_type_from_task_type E (q_task_type q) = CpuWorker) \<and>
     (\<forall>p queue q. map_of (bp_gpu_queues pol) p = Some queue \<longrightarrow> q \<in> set queue \<longrightarrow>
        q_proof_id q = p \<and> worker_type_from_task_type E (q_task_type q) = GpuWorker)"

definition balanced_view :: "Env \<Rightarrow> BalancedPolicy PolicyView" where
  "balanced_view E =
     \<lparr>pv_queued = (\<lambda>pol. mset (bp_cpu_queue pol) + gpu_contents pol),
      pv_charge = bp_weight,
      pv_charged = (\<lambda>tt. worker_type_from_task_type E tt = GpuWorker),
      pv_class = worker_type_from_task_type E,
      pv_wf = balanced_wf E\<rparr>"

lemma balanced_view_simps [simp]:
  "pv_queued (balanced_view E) pol = mset (bp_cpu_queue pol) + gpu_contents pol"
  "pv_charge (balanced_view E) = bp_weight"
  "pv_charged (balanced_view E) tt = (worker_type_from_task_type E tt = GpuWorker)"
  "pv_class (balanced_view E) = worker_type_from_task_type E"
  "pv_wf (balanced_view E) = balanced_wf E"
  by (simp_all add: balanced_view_def)

lemma bp_weight_frame [simp]:
  "bp_weight (pol\<lparr>bp_cpu_queue := c\<rparr>) = bp_weight pol"
  "bp_weight (pol\<lparr>bp_gpu_queues := g\<rparr>) = bp_weight pol"
  "gpu_contents (pol\<lparr>bp_cpu_queue := c\<rparr>) = gpu_contents pol"
  "gpu_contents (pol\<lparr>bp_proof_gpu_weights := w\<rparr>) = gpu_contents pol"
  "gpu_queue_total (pol\<lparr>bp_proof_gpu_weights := w\<rparr>) = gpu_queue_total pol"
  by (simp_all add: bp_weight_def gpu_contents_def gpu_queue_total_def fun_eq_iff)

lemma balanced_wf_frame [simp]:
  "balanced_wf E (pol\<lparr>bp_proof_gpu_weights := w\<rparr>) = balanced_wf E pol"
  by (simp add: balanced_wf_def)

lemma size_gpu_contents: "size (gpu_contents pol) = gpu_queue_total pol"
proof -
  have "size (sum_list (map (\<lambda>e. mset (snd e)) m)) = sum_list (map (\<lambda>e. length (snd e)) m)"
    for m :: "(ProofId \<times> task_heap) list"
    by (induction m) simp_all
  then show ?thesis by (simp add: gpu_contents_def gpu_queue_total_def)
qed

lemma in_gpu_contents:
  "q \<in># gpu_contents pol \<longleftrightarrow> (\<exists>e \<in> set (bp_gpu_queues pol). q \<in> set (snd e))"
proof -
  have "q \<in># sum_list (map (\<lambda>e. mset (snd e)) m) \<longleftrightarrow> (\<exists>e \<in> set m. q \<in> set (snd e))"
    for m :: "(ProofId \<times> task_heap) list"
    by (induction m) auto
  then show ?thesis by (simp add: gpu_contents_def)
qed

lemma balanced_wfD:
  assumes "balanced_wf E pol" and "map_of (bp_gpu_queues pol) p = Some queue" and "q \<in> set queue"
  shows "q_proof_id q = p" and "worker_type_from_task_type E (q_task_type q) = GpuWorker"
  using assms unfolding balanced_wf_def by blast+

lemma balanced_wf_gpu_class:
  assumes wf: "balanced_wf E pol" and q: "q \<in># gpu_contents pol"
  shows "worker_type_from_task_type E (q_task_type q) = GpuWorker"
proof -
  from q obtain p queue where "(p, queue) \<in> set (bp_gpu_queues pol)" and "q \<in> set queue"
    by (auto simp: in_gpu_contents)
  moreover then have "map_of (bp_gpu_queues pol) p = Some queue"
    using wf by (simp add: balanced_wf_def hm_wf_mem)
  ultimately show ?thesis using balanced_wfD(2) [OF wf] by blast
qed

section \<open>Choosing the next GPU task\<close>

lemma scan_queues_mem:
  "scan_queues pol qs best lowest oldest = Some q \<Longrightarrow>
     best = Some q \<or> (\<exists>p queue. (p, queue) \<in> set qs \<and> heap_peek queue = Some q)"
proof (induction qs arbitrary: best lowest oldest)
  case (Cons e qs)
  obtain p queue where e: "e = (p, queue)" by fastforce
  show ?case
    using Cons.prems Cons.IH unfolding e
    by (auto split: option.splits if_splits) (metis (no_types, lifting) option.inject)+
qed simp

lemma find_next_mem:
  assumes wf: "balanced_wf E pol" and q: "find_next_balanced_task pol = Some q"
  obtains queue where "map_of (bp_gpu_queues pol) (q_proof_id q) = Some queue" and "heap_peek queue = Some q"
proof -
  from q obtain p queue where e: "(p, queue) \<in> set (bp_gpu_queues pol)" and top: "heap_peek queue = Some q"
    unfolding find_next_balanced_task_def by (auto dest: scan_queues_mem)
  from e wf have m: "map_of (bp_gpu_queues pol) p = Some queue" by (simp add: balanced_wf_def hm_wf_mem)
  from balanced_wfD(1) [OF wf m heap_peek_mem [OF top]] m top show thesis by (intro that) simp_all
qed

text \<open>
  The choice is fair: it prefers the proof with less assigned GPU weight and, between equally loaded
  proofs, the older one, whatever the iteration order of the hash map.
\<close>

definition prefers :: "BalancedPolicy \<Rightarrow> QueuedTask \<Rightarrow> QueuedTask \<Rightarrow> bool" where
  "prefers pol q r \<longleftrightarrow>
     bp_weight pol (q_proof_id q) < bp_weight pol (q_proof_id r) \<or>
     (bp_weight pol (q_proof_id q) = bp_weight pol (q_proof_id r) \<and> q_proof_created_at q \<le> q_proof_created_at r)"

lemma scan_queues_prefers:
  assumes "\<forall>(p, queue) \<in> set qs. \<forall>r. heap_peek queue = Some r \<longrightarrow> q_proof_id r = p"
    and "\<forall>b. best = Some b \<longrightarrow> lowest = bp_weight pol (q_proof_id b) \<and> oldest = q_proof_created_at b"
    and "scan_queues pol qs best lowest oldest = Some q"
  shows "(bp_weight pol (q_proof_id q) < lowest \<or>
           (bp_weight pol (q_proof_id q) = lowest \<and> q_proof_created_at q \<le> oldest)) \<and>
         (\<forall>(p, queue) \<in> set qs. \<forall>r. heap_peek queue = Some r \<longrightarrow> prefers pol q r)"
  using assms
proof (induction qs arbitrary: best lowest oldest)
  case (Cons e qs)
  obtain p queue where e: "e = (p, queue)" by fastforce
  have keyed: "\<forall>(p, queue) \<in> set qs. \<forall>r. heap_peek queue = Some r \<longrightarrow> q_proof_id r = p"
    using Cons.prems(1) by simp
  show ?case
  proof (cases "heap_peek queue")
    case None
    with Cons.IH [OF keyed Cons.prems(2)] Cons.prems(3) show ?thesis unfolding e by simp
  next
    case (Some r)
    have r: "q_proof_id r = p" using Cons.prems(1) Some unfolding e by simp
    show ?thesis
    proof (cases "bp_weight pol p < lowest \<or> (bp_weight pol p = lowest \<and> q_proof_created_at r < oldest)")
      case True
      with Cons.prems(3) Some have "scan_queues pol qs (Some r) (bp_weight pol p) (q_proof_created_at r) = Some q"
        unfolding e by simp
      from Cons.IH [OF keyed _ this] r True Some show ?thesis
        unfolding e by (auto simp: prefers_def)
    next
      case False
      with Cons.prems(3) Some have "scan_queues pol qs best lowest oldest = Some q"
        unfolding e by simp
      from Cons.IH [OF keyed Cons.prems(2) this] r False Some show ?thesis
        unfolding e by (auto simp: prefers_def)
    qed
  qed
qed (auto simp: prefers_def)

lemma scan_queues_Some: "scan_queues pol qs (Some b) lowest oldest \<noteq> None"
  by (induction pol qs "Some b" lowest oldest arbitrary: b rule: scan_queues.induct)
    (auto split: option.splits)

lemma scan_queues_None:
  "scan_queues pol qs None lowest 0 = None \<longleftrightarrow>
     (\<forall>(p, queue) \<in> set qs. queue = [] \<or> lowest \<le> bp_weight pol p)"
  by (induction qs) (auto simp: scan_queues_Some heap_peek_None split: option.splits if_splits)

section \<open>Popping\<close>

lemma pop_gpu_queue_contents:
  assumes wf: "balanced_wf E pol" and q: "find_next_balanced_task pol' = Some q"
    and same: "bp_gpu_queues pol' = bp_gpu_queues pol" and wf': "balanced_wf E pol'"
  shows "gpu_contents pol = add_mset q (gpu_contents (pop_gpu_queue (q_proof_id q) pol))"
    and "balanced_wf E (pop_gpu_queue (q_proof_id q) pol)"
    and "bp_weight (pop_gpu_queue (q_proof_id q) pol) = bp_weight pol"
    and "bp_cpu_queue (pop_gpu_queue (q_proof_id q) pol) = bp_cpu_queue pol"
proof -
  obtain queue where m: "map_of (bp_gpu_queues pol) (q_proof_id q) = Some queue"
    and top: "heap_peek queue = Some q"
    using find_next_mem [OF wf' q] same by auto
  have hw: "hm_wf (bp_gpu_queues pol)" using wf by (simp add: balanced_wf_def)
  have split: "mset queue = add_mset q (mset (heap_pop queue))" by (rule task_heap.peek_split [OF top])
  let ?f = "\<lambda>e :: ProofId \<times> task_heap. mset (snd e)"
  have rem: "sum_list (map ?f (hm_remove (q_proof_id q) (bp_gpu_queues pol))) + mset queue = gpu_contents pol"
    using sum_entries_remove [OF hw m, of ?f] by (simp add: gpu_contents_def)
  have ins: "sum_list (map ?f (hm_insert (q_proof_id q) (heap_pop queue) (bp_gpu_queues pol))) + mset queue =
      gpu_contents pol + mset (heap_pop queue)"
    using sum_entries_insert [OF hw m, of ?f "heap_pop queue"] by (simp add: gpu_contents_def)
  show "gpu_contents pol = add_mset q (gpu_contents (pop_gpu_queue (q_proof_id q) pol))"
  proof (cases "heap_pop queue = []")
    case True
    with rem split show ?thesis by (simp add: pop_gpu_queue_def m gpu_contents_def [of "_\<lparr>bp_gpu_queues := _\<rparr>"])
  next
    case False
    with ins split show ?thesis by (simp add: pop_gpu_queue_def m gpu_contents_def [of "_\<lparr>bp_gpu_queues := _\<rparr>"])
  qed
  show "balanced_wf E (pop_gpu_queue (q_proof_id q) pol)"
    unfolding balanced_wf_def
  proof (intro conjI allI impI)
    fix p queue' r
    assume "map_of (bp_gpu_queues (pop_gpu_queue (q_proof_id q) pol)) p = Some queue'" and r: "r \<in> set queue'"
    then have "map_of (bp_gpu_queues pol) p = Some queue' \<or>
        p = q_proof_id q \<and> queue' = heap_pop queue"
      by (auto simp: pop_gpu_queue_def m split: if_splits)
    then have "\<exists>queue''. map_of (bp_gpu_queues pol) p = Some queue'' \<and> r \<in> set queue''"
      using r m set_heap_pop [of queue] by auto
    then show "q_proof_id r = p" and "worker_type_from_task_type E (q_task_type r) = GpuWorker"
      using balanced_wfD [OF wf] by blast+
  qed (use wf hw in \<open>auto simp: pop_gpu_queue_def m balanced_wf_def\<close>)
  show "bp_weight (pop_gpu_queue (q_proof_id q) pol) = bp_weight pol"
    and "bp_cpu_queue (pop_gpu_queue (q_proof_id q) pol) = bp_cpu_queue pol"
    by (simp_all add: pop_gpu_queue_def m)
qed

lemma pop_cpu_queue_simps [simp]:
  "gpu_contents (pop_cpu_queue pol) = gpu_contents pol"
  "bp_weight (pop_cpu_queue pol) = bp_weight pol"
  "bp_gpu_queues (pop_cpu_queue pol) = bp_gpu_queues pol"
  "bp_cpu_queue (pop_cpu_queue pol) = heap_pop (bp_cpu_queue pol)"
  by (simp_all add: pop_cpu_queue_def)

lemma balanced_wf_pop_cpu [simp]: "balanced_wf E pol \<Longrightarrow> balanced_wf E (pop_cpu_queue pol)"
  using set_heap_pop unfolding balanced_wf_def pop_cpu_queue_def by fastforce

lemma add_gpu_weight_simps [simp]:
  "gpu_contents (add_gpu_weight p w pol) = gpu_contents pol"
  "bp_gpu_queues (add_gpu_weight p w pol) = bp_gpu_queues pol"
  "bp_cpu_queue (add_gpu_weight p w pol) = bp_cpu_queue pol"
  "balanced_wf E (add_gpu_weight p w pol) = balanced_wf E pol"
  "bp_weight (add_gpu_weight p w pol) p' =
     (if p' = p then u32_add (bp_weight pol p) w else bp_weight pol p')"
  by (simp_all add: add_gpu_weight_def) (simp add: bp_weight_def)

section \<open>The loops\<close>

lemma sched_ok_balanced_class:
  assumes ok: "sched_ok (balanced_view E) st"
    and task: "get_task_internal st (q_proof_id q) (q_id q) = Some task"
  shows "q \<in># gpu_contents (policy st) \<Longrightarrow> worker_type_from_task_type E (task_type task) = GpuWorker"
    and "q \<in> set (bp_cpu_queue (policy st)) \<Longrightarrow> worker_type_from_task_type E (task_type task) = CpuWorker"
proof -
  from ok have typed: "queue_typed (balanced_view E) st" and wf: "balanced_wf E (policy st)"
    by (simp_all add: sched_ok_def)
  have tt: "q \<in># pv_queued (balanced_view E) (policy st) \<Longrightarrow> task_type task = q_task_type q"
    by (rule queue_typedD [OF typed _ task])
  show "q \<in># gpu_contents (policy st) \<Longrightarrow> worker_type_from_task_type E (task_type task) = GpuWorker"
    using tt balanced_wf_gpu_class [OF wf] by simp
  show "q \<in> set (bp_cpu_queue (policy st)) \<Longrightarrow> worker_type_from_task_type E (task_type task) = CpuWorker"
    using tt wf by (simp add: balanced_wf_def)
qed

lemma find_next_contents:
  "balanced_wf E pol \<Longrightarrow> find_next_balanced_task pol = Some q \<Longrightarrow> q \<in># gpu_contents pol"
  using pop_gpu_queue_contents(1) [of E pol pol q] by simp

lemma balanced_assign_task_None:
  "balanced_assign_task E now st task = (st1, None) \<Longrightarrow>
     st1 = st \<and> (worker_type_from_task_type E (task_type task) = NoneWorker \<or>
        best_worker (worker_type_from_task_type E (task_type task)) (task_weight_of task) (workers st) = None)"
  by (auto simp: balanced_assign_task_def Let_def split: if_splits option.splits)

lemma balanced_assign_task_gpu:
  assumes ok: "sched_ok (balanced_view E) st" and q: "find_next_balanced_task (policy st) = Some q"
    and task: "get_task_internal st (q_proof_id q) (q_id q) = Some task"
    and live: "\<not> final_status (t_status task)"
    and res: "balanced_assign_task E now st task = (st1, Some i)"
  shows "assign_step (balanced_view E) now st st1 \<and> gpu_queue_total (policy st1) < gpu_queue_total (policy st)"
proof -
  from ok have wf: "balanced_wf E (policy st)" by (simp add: sched_ok_def)
  from sched_ok_balanced_class(1) [OF ok task find_next_contents [OF wf q]]
  have wt: "worker_type_from_task_type E (task_type task) = GpuWorker" .
  from sched_ok_task [OF ok task] have p: "td_proof_id (t_data task) = q_proof_id q" by simp
  let ?charged = "add_gpu_weight (q_proof_id q) (task_weight_of task) (policy st)"
  from res wt obtain w where
    w: "best_worker GpuWorker (task_weight_of task) (workers st) = Some w"
    and st1: "st1 = (start_task now task w st)\<lparr>policy := pop_gpu_queue (q_proof_id q) ?charged\<rparr>"
    by (auto simp: balanced_assign_task_def Let_def p split: option.splits)
  have wf': "balanced_wf E ?charged" using wf by simp
  note pop = pop_gpu_queue_contents [OF wf' q add_gpu_weight_simps(2) [symmetric] wf]
  have "assign_step (balanced_view E) now st st1"
    unfolding st1 using w wt task live pop
    by (intro assign_step.start [where q = q and task = task]) (simp_all add: fun_eq_iff)
  moreover have "gpu_queue_total (policy st) = Suc (gpu_queue_total (policy st1))"
    using arg_cong [OF pop(1), of size] by (simp add: st1 flip: size_gpu_contents)
  ultimately show ?thesis by simp
qed

lemma balanced_assign_task_cpu:
  assumes ok: "sched_ok (balanced_view E) st" and q: "heap_peek (bp_cpu_queue (policy st)) = Some q"
    and task: "get_task_internal st (q_proof_id q) (q_id q) = Some task"
    and live: "\<not> final_status (t_status task)"
    and res: "balanced_assign_task E now st task = (st1, Some i)"
  shows "assign_step (balanced_view E) now st st1 \<and>
    length (bp_cpu_queue (policy st1)) < length (bp_cpu_queue (policy st))"
proof -
  from ok have wf: "balanced_wf E (policy st)" by (simp add: sched_ok_def)
  from sched_ok_balanced_class(2) [OF ok task heap_peek_mem [OF q]]
  have wt: "worker_type_from_task_type E (task_type task) = CpuWorker" .
  from res wt obtain w where
    w: "best_worker CpuWorker (task_weight_of task) (workers st) = Some w"
    and st1: "st1 = (start_task now task w st)\<lparr>policy := pop_cpu_queue (policy st)\<rparr>"
    by (auto simp: balanced_assign_task_def Let_def split: option.splits)
  have "assign_step (balanced_view E) now st st1"
    unfolding st1 using w wt task live wf task_heap.peek_split [OF q]
    by (intro assign_step.start [where q = q and task = task]) (simp_all add: fun_eq_iff)
  then show ?thesis using heap_pop_length [OF q] by (simp add: st1)
qed

interpretation balanced_gpu: assign_loop "balanced_view E" now
    "\<lambda>st. find_next_balanced_task (policy st)" "\<lambda>st q. on_policy (pop_gpu_queue (q_proof_id q)) st"
    "balanced_assign_task E now" "\<lambda>st. gpu_queue_total (policy st)" GpuWorker
proof (unfold_locales, goal_cases)
  case (1 st q)
  then have "q \<in># gpu_contents (policy st)" by (intro find_next_contents [of E]) (simp_all add: sched_ok_def)
  then show ?case by (auto simp flip: size_gpu_contents simp: size_eq_0_iff_empty gr0_conv_Suc
        dest!: multi_member_split)
next
  case (2 st q)
  then have wf: "balanced_wf E (policy st)" by (simp add: sched_ok_def)
  note pop = pop_gpu_queue_contents [OF wf 2(2) refl wf]
  from 2(3) pop have "assign_step (balanced_view E) now st (on_policy (pop_gpu_queue (q_proof_id q)) st)"
    by (intro assign_step.drop_stale) simp_all
  moreover have "gpu_queue_total (policy st) = Suc (gpu_queue_total (pop_gpu_queue (q_proof_id q) (policy st)))"
    using arg_cong [OF pop(1), of size] by (simp flip: size_gpu_contents)
  ultimately show ?case by simp
next
  case (3 st q task st1 i)
  then show ?case by (rule balanced_assign_task_gpu)
next
  case (4 st q task st1)
  then have wf: "balanced_wf E (policy st)" by (simp add: sched_ok_def)
  show ?case
    using balanced_assign_task_None [OF 4(5)]
      sched_ok_balanced_class(1) [OF 4(1,3) find_next_contents [OF wf 4(2)]] by auto
qed

interpretation balanced_cpu: assign_loop "balanced_view E" now
    "\<lambda>st. heap_peek (bp_cpu_queue (policy st))" "\<lambda>st _. on_policy pop_cpu_queue st"
    "balanced_assign_task E now" "\<lambda>st. length (bp_cpu_queue (policy st))" CpuWorker
proof (unfold_locales, goal_cases)
  case (1 st q)
  then show ?case using heap_pop_length by fastforce
next
  case (2 st q)
  then have "assign_step (balanced_view E) now st (on_policy pop_cpu_queue st)"
    using task_heap.peek_split [OF 2(2)]
    by (intro assign_step.drop_stale) (simp_all add: sched_ok_def)
  then show ?case using heap_pop_length [OF 2(2)] by simp
next
  case (3 st q task st1 i)
  then show ?case by (rule balanced_assign_task_cpu)
next
  case (4 st q task st1)
  then show ?case
    using balanced_assign_task_None [OF 4(5)]
      sched_ok_balanced_class(2) [OF 4(1,3) heap_peek_mem [OF 4(2)]] by auto
qed

lemma balanced_assign_tasks_steps:
  assumes ok: "sched_ok (balanced_view E) st"
  shows "(assign_step (balanced_view E) now)\<^sup>*\<^sup>* st (balanced_assign_tasks E now st)"
proof -
  let ?st1 = "balanced_gpu_loop E now (gpu_queue_total (policy st)) st"
  have g: "(assign_step (balanced_view E) now)\<^sup>*\<^sup>* st ?st1"
    unfolding balanced_gpu_loop_def by (rule balanced_gpu.loop_steps [OF ok])
  have "sched_ok (balanced_view E) ?st1"
    unfolding balanced_gpu_loop_def by (rule balanced_gpu.sched_ok_loop [OF ok])
  then have "(assign_step (balanced_view E) now)\<^sup>*\<^sup>* ?st1
      (balanced_cpu_loop E now (length (bp_cpu_queue (policy ?st1))) ?st1)"
    unfolding balanced_cpu_loop_def by (rule balanced_cpu.loop_steps)
  with g show ?thesis
    by (simp add: balanced_assign_tasks_def Let_def rtranclp_trans [OF g])
qed

section \<open>The policy keeps the contract\<close>

lemma balanced_enqueue_law:
  assumes wf: "balanced_wf E (policy st)" and q: "get_queued_task st task = Some q"
  shows "\<exists>pol. balanced_enqueue_task E st task = st\<lparr>policy := pol\<rparr> \<and> balanced_wf E pol \<and>
    bp_weight pol = bp_weight (policy st) \<and>
    mset (bp_cpu_queue pol) + gpu_contents pol =
      (if queueable (balanced_view E) (task_type task)
       then add_mset q (mset (bp_cpu_queue (policy st)) + gpu_contents (policy st))
       else mset (bp_cpu_queue (policy st)) + gpu_contents (policy st))"
proof (cases "worker_type_from_task_type E (task_type task) = GpuWorker")
  case True
  define queues where "queues = bp_gpu_queues (policy st)"
  define old where "old = (case map_of queues (td_proof_id (t_data task)) of None \<Rightarrow> [] | Some queue \<Rightarrow> queue)"
  define pol where "pol = (policy st)\<lparr>bp_gpu_queues := hm_insert (td_proof_id (t_data task)) (heap_push q old) queues\<rparr>"
  let ?f = "\<lambda>e :: ProofId \<times> task_heap. mset (snd e)"
  have qp: "q_proof_id q = td_proof_id (t_data task)" "q_task_type q = task_type task"
    using q by (auto simp: get_queued_task_def split: option.splits)
  have hw: "hm_wf queues" using wf by (simp add: balanced_wf_def queues_def)
  have "gpu_contents pol = add_mset q (gpu_contents (policy st))"
  proof (cases "map_of queues (td_proof_id (t_data task))")
    case None
    with sum_entries_insert_new [OF None, of ?f "heap_push q old"] show ?thesis
      by (simp add: pol_def gpu_contents_def old_def heap_push_def queues_def)
  next
    case (Some queue)
    with sum_entries_insert [OF hw Some, of ?f "heap_push q old"] show ?thesis
      by (simp add: pol_def gpu_contents_def old_def heap_push_def queues_def)
  qed
  moreover have "balanced_wf E pol"
    unfolding balanced_wf_def
  proof (intro conjI allI impI)
    fix p queue r
    assume "map_of (bp_gpu_queues pol) p = Some queue" and "r \<in> set queue"
    then have "r = q \<and> p = q_proof_id q \<or> (\<exists>queue'. map_of queues p = Some queue' \<and> r \<in> set queue')"
      by (auto simp: pol_def old_def heap_push_def qp split: if_splits option.splits)
    then have "q_proof_id r = p \<and> worker_type_from_task_type E (q_task_type r) = GpuWorker"
      using balanced_wfD [OF wf] True qp unfolding queues_def by auto
    then show "q_proof_id r = p" and "worker_type_from_task_type E (q_task_type r) = GpuWorker"
      by simp_all
  qed (use wf hw in \<open>auto simp: pol_def balanced_wf_def\<close>)
  moreover have "balanced_enqueue_task E st task = st\<lparr>policy := pol\<rparr>"
    by (simp add: balanced_enqueue_task_def q True pol_def old_def queues_def)
  ultimately show ?thesis using True by (intro exI [of _ pol]) (simp add: pol_def queueable_def)
next
  case False
  have "q_task_type q = task_type task"
    using q by (auto simp: get_queued_task_def split: option.splits)
  with False wf show ?thesis
    by (intro exI [of _ "policy (balanced_enqueue_task E st task)"])
      (auto simp: balanced_enqueue_task_def q balanced_wf_def heap_push_def queueable_def split: WorkerType.splits)
qed

lemma balanced_release_law:
  "\<exists>pol. balanced_post_task_update_state E st t tw p tt = st\<lparr>policy := pol\<rparr> \<and>
     balanced_wf E pol = balanced_wf E (policy st) \<and>
     mset (bp_cpu_queue pol) + gpu_contents pol = mset (bp_cpu_queue (policy st)) + gpu_contents (policy st) \<and>
     bp_weight pol =
       (\<lambda>p'. if worker_type_from_task_type E tt = GpuWorker \<and> p' = p then bp_weight (policy st) p - tw
             else bp_weight (policy st) p')"
  by (intro exI [of _ "policy (balanced_post_task_update_state E st t tw p tt)"])
    (auto simp: balanced_post_task_update_state_def saturating_sub_def bp_weight_def fun_eq_iff
      split: option.splits)

interpretation balanced: assignment_policy "balanced_policy E" "balanced_view E"
proof (unfold_locales, goal_cases)
  case (2 st task q)
  then show ?case
    using balanced_enqueue_law [of E st task q] unfolding balanced_view_simps
    by (simp add: balanced_policy_def split del: if_split)
next
  case (5 st t tw p tt)
  then show ?case
    using balanced_release_law [of E st t tw p tt] unfolding balanced_view_simps
    by (auto simp: balanced_policy_def)
next
  case (7 st p)
  then show ?case
    by (intro exI [of _ "policy (balanced_on_proof_deleted st p)"])
      (auto simp: balanced_policy_def balanced_on_proof_deleted_def bp_weight_def fun_eq_iff)
next
  case (8 st now)
  then show ?case using balanced_assign_tasks_steps by (simp add: balanced_policy_def)
qed (simp_all add: balanced_policy_def balanced_wf_def balanced_assign_tasks_def gpu_contents_def
      bp_weight_def fun_eq_iff)

section \<open>The recorded weights are exact\<close>

definition held_gpu_weight :: "Env \<Rightarrow> 'p CoordinatorState \<Rightarrow> ProofId \<Rightarrow> nat" where
  "held_gpu_weight E st p =
     (\<Sum>k \<in> {k \<in> held (workers st). fst k = p}.
        case task_at st k of
          None \<Rightarrow> 0
        | Some task \<Rightarrow>
            if worker_type_from_task_type E (task_type task) = GpuWorker then task_weight_of task else 0)"

lemma inv_gpu_weights:
  assumes "coord_inv (balanced_view E) st" and "\<not> shutting_down st"
  shows "bp_weight (policy st) p = held_gpu_weight E st p"
proof -
  have eq: "(\<lambda>k. case task_at st k of None \<Rightarrow> 0
      | Some task \<Rightarrow> if worker_type_from_task_type E (task_type task) = GpuWorker then task_weight_of task else 0) =
      charge_in (balanced_view E) (table_of (proofs st))"
    by (rule ext) (simp add: charge_in_def task_at_table_of split: option.splits)
  from assms have "charges_ok (balanced_view E) (held (workers st)) (table_of (proofs st)) (policy st)"
    by (simp add: coord_inv_def core_def)
  then show ?thesis unfolding held_gpu_weight_def eq by (simp add: charges_ok_def)
qed

end
