(* ===== verification/Api.thy ===== *)
theory Api
  imports Telemetry
begin

text \<open>
  The cluster API (\<open>bin/api/src/service.rs\<close>): the table of proof requests and the component manifest.
  The table is a map from ids to rows; a statement \<open>UPDATE \<dots> WHERE\<close> changes the rows its condition
  selects, \<open>INSERT\<close> fails on an existing key, and \<open>SELECT \<dots> ORDER BY \<dots> LIMIT \<dots> OFFSET\<close> is a window of
  the sorted selection.  Text is ordered bytewise.  Columns of type \<open>BIGINT\<close> are signed 64-bit values;
  the conversions of the source are written out.  \<open>avail\<close> says whether the database answers.
\<close>

section \<open>Machine integers at the database\<close>

definition as_i64 :: "nat \<Rightarrow> int" where
  "as_i64 n = (if n mod 2 ^ 64 < 2 ^ 63 then int (n mod 2 ^ 64) else int (n mod 2 ^ 64) - 2 ^ 64)"

definition as_u64 :: "int \<Rightarrow> nat" where
  "as_u64 i = nat (i mod 2 ^ 64)"

lemma as_u64_as_i64: "n < 2 ^ 64 \<Longrightarrow> as_u64 (as_i64 n) = n"
proof -
  assume n: "n < 2 ^ 64"
  then have "n mod 2 ^ 64 = n" by simp
  moreover have "(int n - 2 ^ 64) mod 2 ^ 64 = int n" using n by simp
  moreover have "int n mod 2 ^ 64 = int n" using n by simp
  ultimately show ?thesis by (simp only: as_u64_def as_i64_def split: if_split) simp
qed

section \<open>Rows and messages\<close>

datatype ProofRequestStatus =
    StPending
  | StCompleted
  | StFailed
  | StCancelled
  | StOther int

record ExecutionResult =
  er_status :: int
  er_failure_cause :: int
  er_cycles :: nat
  er_gas :: nat
  er_public_values_hash :: "nat list"

record DbProofRequest =
  db_id :: string
  db_proof_status :: ProofRequestStatus
  db_requester :: "nat list"
  db_execution_status :: "int option"
  db_execution_failure_cause :: "int option"
  db_execution_cycles :: "int option"
  db_execution_gas :: "int option"
  db_execution_public_values_hash :: "nat list option"
  db_stdin_artifact_id :: string
  db_program_artifact_id :: string
  db_proof_artifact_id :: "string option"
  db_options_artifact_id :: "string option"
  db_cycle_limit :: "int option"
  db_gas_limit :: "int option"
  db_deadline :: int
  db_handled :: bool
  db_metadata :: string
  db_created_at :: SystemTime
  db_updated_at :: SystemTime
  db_extra_data :: "string option"
  db_scheduled_by :: "string option"
  db_stdin_private :: bool

record ProofRequest =
  rq_id :: string
  rq_proof_status :: ProofRequestStatus
  rq_requester :: "nat list"
  rq_execution_result :: "ExecutionResult option"
  rq_stdin_artifact_id :: string
  rq_program_artifact_id :: string
  rq_proof_artifact_id :: "string option"
  rq_options_artifact_id :: "string option"
  rq_cycle_limit :: "nat option"
  rq_gas_limit :: "nat option"
  rq_deadline :: nat
  rq_handled :: bool
  rq_metadata :: string
  rq_created_at :: nat
  rq_updated_at :: nat
  rq_extra_data :: "string option"
  rq_scheduled_by :: "string option"
  rq_stdin_private :: bool

text \<open>\<open>into_proto\<close>; \<open>None\<close> is a panic on a missing execution column.\<close>

definition execution_of :: "DbProofRequest \<Rightarrow> ExecutionResult option option" where
  "execution_of row =
     (case db_execution_status row of
        None \<Rightarrow> Some None
      | Some status \<Rightarrow>
          (case (db_execution_failure_cause row, db_execution_cycles row, db_execution_gas row,
                 db_execution_public_values_hash row) of
             (Some cause, Some cycles, Some gas, Some hash) \<Rightarrow>
               Some (Some \<lparr>er_status = status, er_failure_cause = cause, er_cycles = as_u64 cycles,
                           er_gas = as_u64 gas, er_public_values_hash = hash\<rparr>)
           | _ \<Rightarrow> None))"

definition into_proto :: "DbProofRequest \<Rightarrow> ProofRequest option" where
  "into_proto row =
     (case execution_of row of
        None \<Rightarrow> None
      | Some execution \<Rightarrow>
          Some \<lparr>rq_id = db_id row, rq_proof_status = db_proof_status row, rq_requester = db_requester row,
                rq_execution_result = execution, rq_stdin_artifact_id = db_stdin_artifact_id row,
                rq_program_artifact_id = db_program_artifact_id row,
                rq_proof_artifact_id = db_proof_artifact_id row,
                rq_options_artifact_id = db_options_artifact_id row,
                rq_cycle_limit = map_option as_u64 (db_cycle_limit row),
                rq_gas_limit = map_option as_u64 (db_gas_limit row), rq_deadline = as_u64 (db_deadline row),
                rq_handled = db_handled row, rq_metadata = db_metadata row, rq_created_at = as_secs (db_created_at row),
                rq_updated_at = as_secs (db_updated_at row), rq_extra_data = db_extra_data row,
                rq_scheduled_by = db_scheduled_by row, rq_stdin_private = db_stdin_private row\<rparr>)"

record ProofRequestCreateRequest =
  cr_proof_id :: string
  cr_requester :: "nat list"
  cr_stdin_artifact_id :: string
  cr_program_artifact_id :: string
  cr_options_artifact_id :: "string option"
  cr_proof_artifact_id :: "string option"
  cr_cycle_limit :: nat
  cr_deadline :: nat
  cr_gas_limit :: nat
  cr_scheduled_by :: "string option"
  cr_stdin_private :: bool

record ProofRequestUpdateRequest =
  up_proof_id :: string
  up_proof_status :: "ProofRequestStatus option"
  up_handled :: "bool option"
  up_deadline :: "nat option"
  up_execution_result :: "ExecutionResult option"
  up_metadata :: "string option"
  up_extra_data :: "string option"

definition no_update :: "string \<Rightarrow> ProofRequestUpdateRequest" where
  "no_update i =
     \<lparr>up_proof_id = i, up_proof_status = None, up_handled = None, up_deadline = None,
      up_execution_result = None, up_metadata = None, up_extra_data = None\<rparr>"

record ProofRequestListRequest =
  ls_proof_status :: "ProofRequestStatus list"
  ls_execution_status :: "int list"
  ls_minimum_deadline :: "nat option"
  ls_handled :: "bool option"
  ls_scheduled_by :: "string option"
  ls_limit :: "nat option"
  ls_offset :: "nat option"

type_synonym db = "(string, DbProofRequest) hash_map"

section \<open>Operations\<close>

definition new_row :: "SystemTime \<Rightarrow> ProofRequestCreateRequest \<Rightarrow> DbProofRequest" where
  "new_row now req =
     \<lparr>db_id = cr_proof_id req, db_proof_status = StPending, db_requester = cr_requester req,
      db_execution_status = None, db_execution_failure_cause = None, db_execution_cycles = None,
      db_execution_gas = None, db_execution_public_values_hash = None,
      db_stdin_artifact_id = cr_stdin_artifact_id req, db_program_artifact_id = cr_program_artifact_id req,
      db_proof_artifact_id = cr_proof_artifact_id req, db_options_artifact_id = cr_options_artifact_id req,
      db_cycle_limit = Some (as_i64 (cr_cycle_limit req)), db_gas_limit = Some (as_i64 (cr_gas_limit req)),
      db_deadline = as_i64 (cr_deadline req), db_handled = False, db_metadata = ''null'',
      db_created_at = now, db_updated_at = now, db_extra_data = None,
      db_scheduled_by = cr_scheduled_by req, db_stdin_private = cr_stdin_private req\<rparr>"

definition proof_request_create ::
  "bool \<Rightarrow> SystemTime \<Rightarrow> ProofRequestCreateRequest \<Rightarrow> db \<Rightarrow> Status option \<times> db" where
  "proof_request_create avail now req db =
     (if \<not> avail then (Some (Internal ''Failed to create proof request''), db)
      else if map_of db (cr_proof_id req) \<noteq> None
      then (Some (AlreadyExists ''proof request already exists''), db)
      else (None, hm_insert (cr_proof_id req) (new_row now req) db))"

definition proof_request_cancel :: "bool \<Rightarrow> string \<Rightarrow> db \<Rightarrow> Status option \<times> db" where
  "proof_request_cancel avail proof_id db =
     (if \<not> avail then (Some (Internal ''Failed to cancel proof request''), db)
      else (None, case map_of db proof_id of
                    None \<Rightarrow> db
                  | Some row \<Rightarrow>
                      (if db_proof_status row = StPending
                       then hm_insert proof_id (row\<lparr>db_proof_status := StCancelled\<rparr>) db else db)))"

text \<open>The \<open>SET\<close> clause the request builds.\<close>

definition set_columns :: "ProofRequestUpdateRequest \<Rightarrow> DbProofRequest \<Rightarrow> DbProofRequest" where
  "set_columns req row =
     (let row1 = (case up_proof_status req of None \<Rightarrow> row | Some s \<Rightarrow> row\<lparr>db_proof_status := s\<rparr>);
          row2 = (case up_handled req of None \<Rightarrow> row1 | Some h \<Rightarrow> row1\<lparr>db_handled := h\<rparr>);
          row3 = (case up_deadline req of None \<Rightarrow> row2 | Some d \<Rightarrow> row2\<lparr>db_deadline := as_i64 d\<rparr>);
          row4 = (case up_execution_result req of
                    None \<Rightarrow> row3
                  | Some e \<Rightarrow>
                      row3\<lparr>db_execution_status := Some (er_status e),
                           db_execution_failure_cause := Some (er_failure_cause e),
                           db_execution_cycles := Some (as_i64 (er_cycles e)),
                           db_execution_gas := Some (as_i64 (er_gas e)),
                           db_execution_public_values_hash := Some (er_public_values_hash e)\<rparr>);
          row5 = (case up_metadata req of None \<Rightarrow> row4 | Some m \<Rightarrow> row4\<lparr>db_metadata := m\<rparr>)
      in (case up_extra_data req of None \<Rightarrow> row5 | Some x \<Rightarrow> row5\<lparr>db_extra_data := Some x\<rparr>))"

definition proof_request_update :: "bool \<Rightarrow> ProofRequestUpdateRequest \<Rightarrow> db \<Rightarrow> Status option \<times> db" where
  "proof_request_update avail req db =
     (let guard_pending = (up_proof_status req \<noteq> None)
      in if req = no_update (up_proof_id req) then (Some (InvalidArgument ''No updates specified''), db)
         else if \<not> avail then (Some (Internal ''Failed to update proof request''), db)
         else case map_of db (up_proof_id req) of
                Some row \<Rightarrow>
                  (if guard_pending \<and> db_proof_status row \<noteq> StPending then (None, db)
                   else (None, hm_insert (up_proof_id req) (set_columns req row) db))
              | None \<Rightarrow>
                  (if guard_pending then (None, db)
                   else (Some (NotFound (''Proof request '' @ up_proof_id req @ '' not found'')), db)))"

text \<open>Reading: a row that \<open>into_proto\<close> rejects is a panic, \<open>None\<close>.\<close>

definition proof_request_get :: "bool \<Rightarrow> string \<Rightarrow> db \<Rightarrow> ProofRequest option result option" where
  "proof_request_get avail proof_id db =
     (if \<not> avail then Some (Inl (Internal ''Failed to get proof request''))
      else case map_of db proof_id of
             None \<Rightarrow> Some (Inr None)
           | Some row \<Rightarrow> map_option (\<lambda>r. Inr (Some r)) (into_proto row))"

definition list_matches :: "ProofRequestListRequest \<Rightarrow> DbProofRequest \<Rightarrow> bool" where
  "list_matches req row =
     ((ls_proof_status req \<noteq> [] \<longrightarrow> db_proof_status row \<in> set (ls_proof_status req)) \<and>
      (ls_execution_status req \<noteq> [] \<longrightarrow>
         (case db_execution_status row of None \<Rightarrow> False | Some s \<Rightarrow> s \<in> set (ls_execution_status req))) \<and>
      (case ls_minimum_deadline req of None \<Rightarrow> True | Some d \<Rightarrow> db_deadline row \<ge> as_i64 d) \<and>
      (case ls_handled req of None \<Rightarrow> True | Some h \<Rightarrow> db_handled row = h) \<and>
      (case ls_scheduled_by req of None \<Rightarrow> True | Some s \<Rightarrow> db_scheduled_by row = Some s))"

definition list_order :: "DbProofRequest \<Rightarrow> nat \<times> string" where
  "list_order row = (db_created_at row, db_id row)"

definition list_limit :: "ProofRequestListRequest \<Rightarrow> nat" where
  "list_limit req = min (case ls_limit req of None \<Rightarrow> 10 | Some n \<Rightarrow> n) 1000"

definition list_offset :: "ProofRequestListRequest \<Rightarrow> nat" where
  "list_offset req = min (case ls_offset req of None \<Rightarrow> 0 | Some n \<Rightarrow> n) (2 ^ 31 - 1)"

definition selected_rows :: "ProofRequestListRequest \<Rightarrow> db \<Rightarrow> DbProofRequest list" where
  "selected_rows req db = sort_key list_order (filter (list_matches req) (hm_values db))"

fun all_protos :: "DbProofRequest list \<Rightarrow> ProofRequest list option" where
  "all_protos [] = Some []"
| "all_protos (row # rows) =
     (case (into_proto row, all_protos rows) of (Some r, Some rs) \<Rightarrow> Some (r # rs) | _ \<Rightarrow> None)"

definition proof_request_list :: "bool \<Rightarrow> ProofRequestListRequest \<Rightarrow> db \<Rightarrow> ProofRequest list result option" where
  "proof_request_list avail req db =
     (if \<not> avail then Some (Inl (Internal ''Failed to list proof requests''))
      else map_option Inr (all_protos (take (list_limit req) (drop (list_offset req) (selected_rows req db)))))"

section \<open>The component manifest\<close>

record ClusterComponentManifest =
  cm_components :: "ClusterComponentInfo list"
  cm_updated_at :: nat
  cm_capacity :: "ClusterCapacitySnapshot option"

definition set_cluster_component_info ::
  "SystemTime \<Rightarrow> ClusterComponentInfo list \<Rightarrow> ClusterCapacitySnapshot option \<Rightarrow>
     ClusterComponentManifest \<Rightarrow> ClusterComponentManifest" where
  "set_cluster_component_info now components capacity manifest =
     \<lparr>cm_components = components, cm_updated_at = as_secs now, cm_capacity = capacity\<rparr>"

section \<open>The table over time\<close>

inductive api_step :: "db \<Rightarrow> db \<Rightarrow> bool" where
  api_create: "proof_request_create avail now req db = (e, db') \<Longrightarrow> api_step db db'"
| api_cancel: "proof_request_cancel avail i db = (e, db') \<Longrightarrow> api_step db db'"
| api_update: "proof_request_update avail req db = (e, db') \<Longrightarrow> api_step db db'"

text \<open>Keys agree with the ids of the rows, and the execution columns are written together.\<close>

definition row_ok :: "string \<Rightarrow> DbProofRequest \<Rightarrow> bool" where
  "row_ok i row \<longleftrightarrow> db_id row = i \<and> execution_of row \<noteq> None"

definition db_ok :: "db \<Rightarrow> bool" where
  "db_ok db \<longleftrightarrow> hm_wf db \<and> (\<forall>i row. map_of db i = Some row \<longrightarrow> row_ok i row)"

lemma db_okD:
  assumes "db_ok db"
  shows "hm_wf db" and "map_of db i = Some row \<Longrightarrow> db_id row = i" and "map_of db i = Some row \<Longrightarrow> execution_of row \<noteq> None"
  using assms by (auto simp: db_ok_def row_ok_def)

lemma db_ok_insert: "db_ok db \<Longrightarrow> row_ok i row \<Longrightarrow> db_ok (hm_insert i row db)"
  by (simp add: db_ok_def)

lemma set_columns_simps [simp]:
  "db_id (set_columns req row) = db_id row"
  "db_proof_status (set_columns req row) = (case up_proof_status req of None \<Rightarrow> db_proof_status row | Some s \<Rightarrow> s)"
  by (simp_all add: set_columns_def Let_def split: option.splits)

lemma execution_of_cong:
  assumes "db_execution_status row' = db_execution_status row"
    and "db_execution_failure_cause row' = db_execution_failure_cause row"
    and "db_execution_cycles row' = db_execution_cycles row" and "db_execution_gas row' = db_execution_gas row"
    and "db_execution_public_values_hash row' = db_execution_public_values_hash row"
  shows "execution_of row' = execution_of row"
  by (simp only: execution_of_def assms)

lemma execution_of_set_columns:
  assumes "execution_of row \<noteq> None"
  shows "execution_of (set_columns req row) \<noteq> None"
proof (cases "up_execution_result req")
  case None
  then have "db_execution_status (set_columns req row) = db_execution_status row"
    "db_execution_failure_cause (set_columns req row) = db_execution_failure_cause row"
    "db_execution_cycles (set_columns req row) = db_execution_cycles row"
    "db_execution_gas (set_columns req row) = db_execution_gas row"
    "db_execution_public_values_hash (set_columns req row) = db_execution_public_values_hash row"
    by (simp_all add: set_columns_def Let_def split: option.splits)
  from execution_of_cong [OF this] assms show ?thesis by simp
next
  case (Some e)
  then have "db_execution_status (set_columns req row) = Some (er_status e)"
    "db_execution_failure_cause (set_columns req row) = Some (er_failure_cause e)"
    "db_execution_cycles (set_columns req row) = Some (as_i64 (er_cycles e))"
    "db_execution_gas (set_columns req row) = Some (as_i64 (er_gas e))"
    "db_execution_public_values_hash (set_columns req row) = Some (er_public_values_hash e)"
    by (simp_all add: set_columns_def Let_def split: option.splits)
  then show ?thesis by (simp add: execution_of_def)
qed

lemma row_ok_set_columns: "row_ok i row \<Longrightarrow> row_ok i (set_columns req row)"
  using execution_of_set_columns [of row req] by (simp add: row_ok_def)

lemma api_step_ok: "api_step db db' \<Longrightarrow> db_ok db \<Longrightarrow> db_ok db'"
proof (induction rule: api_step.induct)
  case (api_create avail now req db e db')
  have "row_ok (cr_proof_id req) (new_row now req)" by (simp add: row_ok_def new_row_def execution_of_def)
  with api_create show ?case by (auto simp: proof_request_create_def db_ok_insert split: if_splits)
next
  case (api_cancel avail i db e db')
  have "row_ok i (row\<lparr>db_proof_status := StCancelled\<rparr>)" if "map_of db i = Some row" for row
    using db_okD(2,3) [OF api_cancel(2) that] execution_of_cong [of "row\<lparr>db_proof_status := StCancelled\<rparr>" row]
    by (simp add: row_ok_def)
  with api_cancel show ?case by (auto simp: proof_request_cancel_def db_ok_insert split: if_splits option.splits)
next
  case (api_update avail req db e db')
  have "row_ok (up_proof_id req) (set_columns req row)" if "map_of db (up_proof_id req) = Some row" for row
    using api_update(2) that by (intro row_ok_set_columns) (simp add: db_ok_def)
  with api_update show ?case
    by (auto simp: proof_request_update_def Let_def db_ok_insert split: if_splits option.splits)
qed

text \<open>Rows are never deleted, and a status other than \<open>Pending\<close> never changes again.\<close>

lemma api_step_settled:
  assumes "api_step db db'" and "map_of db i = Some row"
  shows "\<exists>row'. map_of db' i = Some row' \<and>
    (db_proof_status row \<noteq> StPending \<longrightarrow> db_proof_status row' = db_proof_status row)"
  using assms
proof (induction rule: api_step.induct)
  case (api_create avail now req db e db')
  then show ?case by (auto simp: proof_request_create_def split: if_splits)
next
  case (api_cancel avail j db e db')
  then show ?case by (auto simp: proof_request_cancel_def split: if_splits option.splits)
next
  case (api_update avail req db e db')
  then show ?case by (auto simp: proof_request_update_def Let_def split: if_splits option.splits)
qed

lemma api_steps_settled:
  assumes "api_step\<^sup>*\<^sup>* db db'" and "map_of db i = Some row"
  shows "\<exists>row'. map_of db' i = Some row' \<and>
    (db_proof_status row \<noteq> StPending \<longrightarrow> db_proof_status row' = db_proof_status row)"
  using assms(1)
proof (induction rule: rtranclp_induct)
  case base
  show ?case using assms(2) by blast
next
  case (step db1 db2)
  then obtain row' where row': "map_of db1 i = Some row'"
    "db_proof_status row \<noteq> StPending \<longrightarrow> db_proof_status row' = db_proof_status row" by blast
  from api_step_settled [OF step(2) row'(1)] row'(2) show ?case by auto
qed

lemma api_steps_ok: "api_step\<^sup>*\<^sup>* db db' \<Longrightarrow> db_ok db \<Longrightarrow> db_ok db'"
  by (induction rule: rtranclp_induct) (auto intro: api_step_ok)

text \<open>A completion write that is answered with success leaves no pending row behind.\<close>

lemma completion_settles:
  assumes "proof_request_update avail req db = (None, db')" and "up_proof_status req = Some s" and "s \<noteq> StPending"
    and "map_of db' (up_proof_id req) = Some row"
  shows "db_proof_status row \<noteq> StPending"
  using assms by (auto simp: proof_request_update_def Let_def split: if_splits option.splits)

lemma update_other:
  "proof_request_update avail req db = (e, db') \<Longrightarrow> i \<noteq> up_proof_id req \<Longrightarrow> map_of db' i = map_of db i"
  by (auto simp: proof_request_update_def Let_def split: if_splits option.splits)

lemma status_update: "up_proof_status req = Some s \<Longrightarrow> req \<noteq> no_update (up_proof_id req)"
proof
  assume s: "up_proof_status req = Some s" and "req = no_update (up_proof_id req)"
  then have "up_proof_status req = up_proof_status (no_update (up_proof_id req))" by simp
  with s show False by (simp add: no_update_def)
qed

lemma completion_idempotent:
  assumes "proof_request_update True req db = (None, db')" and "up_proof_status req = Some s" and "s \<noteq> StPending"
  shows "proof_request_update avail' req db' = (if avail' then None else Some (Internal ''Failed to update proof request''), db')"
proof -
  note status_update [OF assms(2)]
  with assms show ?thesis by (auto simp: proof_request_update_def Let_def split: if_splits option.splits)
qed

section \<open>Reading\<close>

lemma into_proto_total: "execution_of row \<noteq> None \<Longrightarrow> into_proto row \<noteq> None"
  by (auto simp: into_proto_def)

lemma all_protos_total:
  "(\<forall>row \<in> set rows. execution_of row \<noteq> None) \<Longrightarrow> all_protos rows = Some (map (the \<circ> into_proto) rows)"
proof (induction rows)
  case (Cons row rows)
  from into_proto_total [of row] Cons.prems obtain r where "into_proto row = Some r" by auto
  with Cons show ?case by simp
qed simp

lemma selected_rows_set: "set (selected_rows req db) = {row \<in> snd ` set db. list_matches req row}"
  by (auto simp: selected_rows_def hm_values_def)

lemma selected_rows_ok: "db_ok db \<Longrightarrow> row \<in> set (selected_rows req db) \<Longrightarrow> execution_of row \<noteq> None"
  using hm_wf_mem [OF db_okD(1)] by (auto simp: selected_rows_set dest: db_okD(3))

lemma list_total:
  assumes "db_ok db"
  shows "proof_request_list True req db =
    Some (Inr (map (the \<circ> into_proto) (take (list_limit req) (drop (list_offset req) (selected_rows req db)))))"
proof -
  have "\<forall>row \<in> set (take (list_limit req) (drop (list_offset req) (selected_rows req db))). execution_of row \<noteq> None"
    using selected_rows_ok [OF assms] by (meson in_set_dropD in_set_takeD)
  from all_protos_total [OF this] show ?thesis by (simp add: proof_request_list_def)
qed

lemma distinct_selected_ids:
  assumes "db_ok db"
  shows "distinct (map db_id (selected_rows req db))"
proof -
  have "map db_id (hm_values db) = map fst db"
    unfolding hm_values_def map_map
  proof (rule map_cong [OF refl])
    fix e
    assume "e \<in> set db"
    then have "map_of db (fst e) = Some (snd e)"
      using hm_wf_mem [OF db_okD(1) [OF assms], of "fst e" "snd e"] by simp
    then show "(db_id \<circ> snd) e = fst e" using db_okD(2) [OF assms] by simp
  qed
  then have "distinct (map db_id (filter (list_matches req) (hm_values db)))"
    using db_okD(1) [OF assms] by (simp add: hm_wf_def distinct_map_filter)
  then show ?thesis
    unfolding selected_rows_def by (metis (no_types, lifting) distinct_map distinct_sort set_sort)
qed

lemma created_was_new:
  "proof_request_create True now req db = (None, db') \<Longrightarrow> map_of db (cr_proof_id req) = None"
  by (auto simp: proof_request_create_def split: if_splits)

lemma created_then_read:
  assumes "map_of db (cr_proof_id req) = None"
    and "cr_deadline req < 2 ^ 64" and "cr_cycle_limit req < 2 ^ 64" and "cr_gas_limit req < 2 ^ 64"
    and "proof_request_create True now req db = (None, db')"
  shows "\<exists>r. proof_request_get True (cr_proof_id req) db' = Some (Inr (Some r)) \<and>
    rq_id r = cr_proof_id req \<and> rq_proof_status r = StPending \<and> rq_requester r = cr_requester req \<and>
    rq_deadline r = cr_deadline req \<and> rq_cycle_limit r = Some (cr_cycle_limit req) \<and>
    rq_gas_limit r = Some (cr_gas_limit req) \<and> rq_stdin_artifact_id r = cr_stdin_artifact_id req \<and>
    rq_program_artifact_id r = cr_program_artifact_id req \<and> rq_handled r = False \<and>
    rq_execution_result r = None \<and> rq_stdin_private r = cr_stdin_private req"
proof -
  have "execution_of (new_row now req) = Some None" by (simp add: execution_of_def new_row_def)
  with assms show ?thesis
    by (auto simp: proof_request_create_def proof_request_get_def into_proto_def as_u64_as_i64) (simp_all add: new_row_def as_u64_as_i64)
qed

end
