(* ===== verification/Api_Client.thy ===== *)
theory Api_Client
  imports Api
begin

text \<open>
  The client of the cluster API (\<open>crates/common/src/client.rs\<close>, \<open>crates/common/src/util.rs\<close>): which
  errors are retried, and the page-by-page listing.  The schedule of the retries belongs to the
  \<open>backoff\<close> package; a retried call is the list of outcomes of its attempts, as many as that schedule
  allows.
\<close>

section \<open>Retries\<close>

fun is_transient :: "Status \<Rightarrow> bool" where
  "is_transient (Internal m) = True"
| "is_transient (Unavailable m) = True"
| "is_transient (Unknown m) = True"
| "is_transient (Cancelled m) = True"
| "is_transient (DeadlineExceeded m) = True"
| "is_transient (ResourceExhausted m) = True"
| "is_transient (Aborted m) = True"
| "is_transient (DataLoss m) = True"
| "is_transient e = False"

text \<open>One attempt under the per-attempt timeout: \<open>None\<close> is an attempt that did not finish in time.\<close>

definition with_timeout :: "'a result option \<Rightarrow> 'a result" where
  "with_timeout outcome =
     (case outcome of None \<Rightarrow> Inl (DeadlineExceeded ''cluster API attempt timed out'') | Some r \<Rightarrow> r)"

fun retry_call :: "'a result option list \<Rightarrow> 'a result option" where
  "retry_call [] = None"
| "retry_call (outcome # outcomes) =
     (case with_timeout outcome of
        Inr x \<Rightarrow> Some (Inr x)
      | Inl e \<Rightarrow> (if is_transient e \<and> outcomes \<noteq> [] then retry_call outcomes else Some (Inl e)))"

lemma retry_call_success:
  "retry_call outcomes = Some (Inr x) \<Longrightarrow> \<exists>before. \<exists>after.
     outcomes = before @ Some (Inr x) # after \<and>
     (\<forall>outcome \<in> set before. \<exists>e. with_timeout outcome = Inl e \<and> is_transient e)"
proof (induction outcomes)
  case (Cons outcome outcomes)
  show ?case
  proof (cases "with_timeout outcome")
    case (Inl e)
    with Cons.prems have t: "is_transient e" and "retry_call outcomes = Some (Inr x)" by (auto split: if_splits)
    from Cons.IH [OF this(2)] obtain before "after" where
      "outcomes = before @ Some (Inr x) # after"
      "\<forall>outcome \<in> set before. \<exists>e. with_timeout outcome = Inl e \<and> is_transient e" by blast
    with Inl t show ?thesis by (intro exI [of _ "outcome # before"] exI [of _ "after"]) auto
  next
    case (Inr y)
    with Cons.prems have "outcome = Some (Inr x)" by (auto simp: with_timeout_def split: option.splits)
    then show ?thesis by (intro exI [of _ "[]"] exI [of _ outcomes]) simp
  qed
qed simp

section \<open>Listing page by page\<close>

definition PROOF_REQUEST_PAGE_SIZE :: nat where
  "PROOF_REQUEST_PAGE_SIZE = 1000"

definition MAX_PAGES :: nat where
  "MAX_PAGES = 100"

text \<open>The loop of \<open>drain_pages\<close>: \<open>n\<close> pages are left, \<open>page_idx\<close> is the next one.\<close>

fun drain_loop :: "nat \<Rightarrow> (nat \<Rightarrow> 'a list result) \<Rightarrow> nat \<Rightarrow> nat \<Rightarrow> 'a list \<Rightarrow> 'a list result" where
  "drain_loop page_size fetch 0 page_idx all_rows = Inr all_rows"
| "drain_loop page_size fetch (Suc n) page_idx all_rows =
     (case fetch ((page_idx * page_size) mod 2 ^ 32) of
        Inl e \<Rightarrow> Inl e
      | Inr page \<Rightarrow>
          (if length page mod 2 ^ 32 \<noteq> page_size then Inr (all_rows @ page)
           else drain_loop page_size fetch n (page_idx + 1) (all_rows @ page)))"

definition drain_pages :: "nat \<Rightarrow> (nat \<Rightarrow> 'a list result) \<Rightarrow> 'a list result" where
  "drain_pages page_size fetch = drain_loop page_size fetch MAX_PAGES 0 []"

fun dedup_from :: "string list \<Rightarrow> ProofRequest list \<Rightarrow> ProofRequest list" where
  "dedup_from seen [] = []"
| "dedup_from seen (row # rows) =
     (if rq_id row \<in> set seen then dedup_from seen rows else row # dedup_from (hs_insert (rq_id row) seen) rows)"

definition dedup_by_id :: "ProofRequest list \<Rightarrow> ProofRequest list" where
  "dedup_by_id rows = dedup_from [] rows"

definition get_all_proof_requests ::
  "(ProofRequestListRequest \<Rightarrow> ProofRequest list result) \<Rightarrow> ProofRequestListRequest \<Rightarrow> ProofRequest list result" where
  "get_all_proof_requests get_proof_requests request =
     (case drain_pages PROOF_REQUEST_PAGE_SIZE
             (\<lambda>offset. get_proof_requests (request\<lparr>ls_limit := Some PROOF_REQUEST_PAGE_SIZE, ls_offset := Some offset\<rparr>)) of
        Inl e \<Rightarrow> Inl e
      | Inr rows \<Rightarrow> Inr (dedup_by_id rows))"

section \<open>What the listing returns\<close>

lemma drain_loop_window:
  assumes fetch: "\<And>offset. fetch offset = Inr (take page_size (drop offset xs))"
    and size: "0 < page_size" "(page_idx + n) * page_size < 2 ^ 32"
  shows "drain_loop page_size fetch n page_idx (take (page_idx * page_size) xs) =
    Inr (take ((page_idx + n) * page_size) xs)"
  using size(2)
proof (induction n arbitrary: page_idx)
  case (Suc n)
  let ?page = "take page_size (drop (page_idx * page_size) xs)"
  have small: "page_size < 2 ^ 32" "page_idx * page_size < 2 ^ 32"
    using Suc.prems by (auto simp: algebra_simps)
  have len: "length ?page \<le> page_size" by simp
  have join: "take (page_idx * page_size) xs @ ?page = take ((page_idx + 1) * page_size) xs"
    using take_add [of "page_idx * page_size" page_size xs] by (simp add: add.commute)
  show ?case
  proof (cases "length ?page = page_size")
    case True
    have "((page_idx + 1) + n) * page_size < 2 ^ 32" using Suc.prems by simp
    from Suc.IH [OF this] True join small show ?thesis by (simp add: fetch)
  next
    case False
    then have short: "length xs < (page_idx + 1) * page_size" by (auto simp: algebra_simps)
    have "length ?page mod 2 ^ 32 \<noteq> page_size" using False len small(1) by simp
    moreover have "take ((page_idx + Suc n) * page_size) xs = xs" "take ((page_idx + 1) * page_size) xs = xs"
      using short by (simp_all add: algebra_simps)
    ultimately show ?thesis using join small(2) by (simp add: fetch)
  qed
qed simp

lemma drain_pages_window:
  assumes "\<And>offset. fetch offset = Inr (take page_size (drop offset xs))"
    and "0 < page_size" and "MAX_PAGES * page_size < 2 ^ 32"
  shows "drain_pages page_size fetch = Inr (take (MAX_PAGES * page_size) xs)"
  using drain_loop_window [OF assms(1,2), of 0 MAX_PAGES] assms(3) by (simp add: drain_pages_def)

lemma dedup_from_distinct:
  "distinct (map rq_id rows) \<Longrightarrow> set (map rq_id rows) \<inter> set seen = {} \<Longrightarrow> dedup_from seen rows = rows"
  by (induction rows arbitrary: seen) auto

lemma dedup_from_ids:
  "distinct (map rq_id (dedup_from seen rows)) \<and>
   set (map rq_id (dedup_from seen rows)) = set (map rq_id rows) - set seen"
  by (induction rows arbitrary: seen) (auto simp: image_iff)

lemma dedup_by_id_spec:
  "distinct (map rq_id (dedup_by_id rows)) \<and> set (map rq_id (dedup_by_id rows)) = set (map rq_id rows) \<and>
   set (dedup_by_id rows) \<subseteq> set rows"
proof -
  have "set (dedup_from seen rows) \<subseteq> set rows" for seen
    by (induction rows arbitrary: seen) auto
  with dedup_from_ids [of "[]" rows] show ?thesis by (simp add: dedup_by_id_def)
qed

lemma into_proto_id: "into_proto row = Some r \<Longrightarrow> rq_id r = db_id row"
  by (auto simp: into_proto_def split: option.splits)

text \<open>Against a table that does not change meanwhile, the listing is exactly the selection.\<close>

lemma get_all_exact:
  assumes ok: "db_ok db" and few: "length (selected_rows request db) \<le> MAX_PAGES * PROOF_REQUEST_PAGE_SIZE"
  shows "get_all_proof_requests (\<lambda>req. the (proof_request_list True req db)) request =
    Inr (map (the \<circ> into_proto) (selected_rows request db))"
proof -
  let ?rows = "map (the \<circ> into_proto) (selected_rows request db)"
  let ?fetch = "\<lambda>offset. the (proof_request_list True
    (request\<lparr>ls_limit := Some PROOF_REQUEST_PAGE_SIZE, ls_offset := Some offset\<rparr>) db)"
  have fetch: "?fetch offset = Inr (take PROOF_REQUEST_PAGE_SIZE (drop offset ?rows))" for offset
  proof -
    let ?req = "request\<lparr>ls_limit := Some PROOF_REQUEST_PAGE_SIZE, ls_offset := Some offset\<rparr>"
    have sel: "selected_rows ?req db = selected_rows request db"
    proof -
      have "list_matches ?req = list_matches request" by (rule ext) (auto simp: list_matches_def split: option.splits)
      then show ?thesis by (simp add: selected_rows_def)
    qed
    have "drop (list_offset ?req) (selected_rows request db) = drop offset (selected_rows request db)"
      using few by (cases "offset \<le> 2 ^ 31 - 1") (simp_all add: list_offset_def MAX_PAGES_def PROOF_REQUEST_PAGE_SIZE_def)
    moreover have "list_limit ?req = PROOF_REQUEST_PAGE_SIZE"
      by (simp add: list_limit_def PROOF_REQUEST_PAGE_SIZE_def)
    ultimately show ?thesis
      using list_total [OF ok, of ?req] by (simp only: sel take_map drop_map option.sel)
  qed
  have "drain_pages PROOF_REQUEST_PAGE_SIZE ?fetch = Inr (take (MAX_PAGES * PROOF_REQUEST_PAGE_SIZE) ?rows)"
    by (rule drain_pages_window [OF fetch]) (simp_all add: PROOF_REQUEST_PAGE_SIZE_def MAX_PAGES_def)
  moreover have "distinct (map rq_id ?rows)"
  proof -
    have eq: "map rq_id ?rows = map db_id (selected_rows request db)"
      unfolding map_map
    proof (rule map_cong [OF refl])
      fix row
      assume "row \<in> set (selected_rows request db)"
      then have "into_proto row \<noteq> None" using selected_rows_ok [OF ok] into_proto_total by blast
      then show "(rq_id \<circ> (the \<circ> into_proto)) row = db_id row" using into_proto_id by auto
    qed
    show ?thesis unfolding eq by (rule distinct_selected_ids [OF ok])
  qed
  ultimately show ?thesis
    using few by (simp add: get_all_proof_requests_def dedup_by_id_def dedup_from_distinct)
qed

end
