(* ===== verification/Decimal.thy ===== *)
theory Decimal
  imports Prelude
begin

text \<open>
  Decimal numbers as Rust prints and parses them: \<open>to_string\<close> and \<open>str::parse\<close>, which takes an optional sign,
  needs at least one digit and rejects a value that does not fit.  And \<open>str::trim\<close>, for ASCII white space, and
  \<open>str::split\<close>.
\<close>

definition digit :: "nat \<Rightarrow> char" where
  "digit n = ''0123456789'' ! (n mod 10)"

fun show_nat :: "nat \<Rightarrow> string" where
  "show_nat n = (if n < 10 then [digit n] else show_nat (n div 10) @ [digit (n mod 10)])"

declare show_nat.simps [simp del]

definition digit_value :: "char \<Rightarrow> nat option" where
  "digit_value c = (let b = of_char c :: nat in if 48 \<le> b \<and> b \<le> 57 then Some (b - 48) else None)"

fun digits_value :: "nat \<Rightarrow> string \<Rightarrow> nat option" where
  "digits_value acc [] = Some acc"
| "digits_value acc (c # cs) = (case digit_value c of None \<Rightarrow> None | Some d \<Rightarrow> digits_value (10 * acc + d) cs)"

definition parse_uint :: "nat \<Rightarrow> string \<Rightarrow> nat option" where
  "parse_uint w s =
     (let ds = (case s of c # cs \<Rightarrow> if c = CHR ''+'' then cs else s | [] \<Rightarrow> [])
      in if ds = [] then None
         else case digits_value 0 ds of None \<Rightarrow> None | Some n \<Rightarrow> if n < 2 ^ w then Some n else None)"

lemma digit_value_digit [simp]: "n < 10 \<Longrightarrow> digit_value (digit n) = Some n"
proof -
  assume "n < 10"
  then have "n \<in> {0, 1, 2, 3, 4, 5, 6, 7, 8, 9}" by auto
  then show ?thesis by (auto simp: digit_def digit_value_def Let_def)
qed

lemma digit_range: "digit n \<in> set ''0123456789''"
  unfolding digit_def by (rule nth_mem) simp

lemma digits_value_snoc:
  "digits_value acc (cs @ [c]) =
     (case digits_value acc cs of None \<Rightarrow> None | Some n \<Rightarrow> map_option (\<lambda>d. 10 * n + d) (digit_value c))"
  by (induction cs arbitrary: acc) (auto split: option.splits)

lemma digits_value_show [simp]: "digits_value 0 (show_nat n) = Some n"
proof (induction n rule: show_nat.induct)
  case (1 n)
  then show ?case by (subst show_nat.simps) (auto simp: digits_value_snoc)
qed

lemma show_nat_chars: "set (show_nat n) \<subseteq> set ''0123456789''"
proof (induction n rule: show_nat.induct)
  case (1 n)
  then show ?case using digit_range by (subst show_nat.simps) auto
qed

lemma show_nat_nonempty [simp]: "show_nat n \<noteq> []"
  by (subst show_nat.simps) simp

lemma show_nat_inject [simp]: "show_nat m = show_nat n \<longleftrightarrow> m = n"
  by (metis digits_value_show option.inject)

lemma parse_show_nat [simp]: "n < 2 ^ w \<Longrightarrow> parse_uint w (show_nat n) = Some n"
proof -
  assume "n < 2 ^ w"
  moreover obtain c cs where s: "show_nat n = c # cs" by (cases "show_nat n") auto
  moreover have "c \<noteq> CHR ''+''" using show_nat_chars [of n] s by auto
  ultimately show ?thesis using digits_value_show [of n] by (simp add: parse_uint_def Let_def)
qed

section \<open>Signed numbers\<close>

definition show_int :: "int \<Rightarrow> string" where
  "show_int i = (if i < 0 then CHR ''-'' # show_nat (nat (- i)) else show_nat (nat i))"

definition parse_int :: "nat \<Rightarrow> string \<Rightarrow> int option" where
  "parse_int w s =
     (case s of
        [] \<Rightarrow> None
      | c # cs \<Rightarrow>
          (if c = CHR ''-''
           then if cs = [] then None
                else case digits_value 0 cs of None \<Rightarrow> None | Some n \<Rightarrow> if n \<le> 2 ^ (w - 1) then Some (- int n) else None
           else map_option int (parse_uint (w - 1) s)))"

lemma parse_show_int: "- (2 ^ (w - 1)) \<le> i \<Longrightarrow> i < 2 ^ (w - 1) \<Longrightarrow> parse_int w (show_int i) = Some i"
proof -
  assume i: "- (2 ^ (w - 1)) \<le> i" "i < 2 ^ (w - 1)"
  show ?thesis
  proof (cases "i < 0")
    case True
    have "nat (- i) \<le> 2 ^ (w - 1)" using i(1) by (simp add: nat_le_iff)
    with True show ?thesis by (simp add: parse_int_def show_int_def)
  next
    case False
    then have "nat i < 2 ^ (w - 1)" using i(2) by (simp add: nat_less_iff)
    moreover obtain c cs where s: "show_nat (nat i) = c # cs" by (cases "show_nat (nat i)") auto
    moreover have "c \<noteq> CHR ''-''" using show_nat_chars [of "nat i"] s by auto
    ultimately show ?thesis using False parse_show_nat [of "nat i" "w - 1"] by (simp add: parse_int_def show_int_def)
  qed
qed

section \<open>Pieces of text\<close>

definition is_space :: "char \<Rightarrow> bool" where
  "is_space c = (c \<in> {CHR '' '', CHR 0x09, CHR 0x0A, CHR 0x0B, CHR 0x0C, CHR 0x0D})"

definition trim :: "string \<Rightarrow> string" where
  "trim s = rev (dropWhile is_space (rev (dropWhile is_space s)))"

fun split_on :: "char \<Rightarrow> string \<Rightarrow> string list" where
  "split_on sep [] = [[]]"
| "split_on sep (c # cs) =
     (if c = sep then [] # split_on sep cs
      else case split_on sep cs of [] \<Rightarrow> [[c]] | l # ls \<Rightarrow> (c # l) # ls)"

lemma show_nat_no_space: "c \<in> set (show_nat n) \<Longrightarrow> \<not> is_space c \<and> c \<noteq> CHR 0x0A"
  using show_nat_chars [of n] by (auto simp: is_space_def)

lemma trim_show_nat [simp]: "trim (show_nat n) = show_nat n" "trim (show_nat n @ [CHR 0x0D]) = show_nat n"
proof -
  have front: "dropWhile is_space (show_nat n @ r) = show_nat n @ r" for r
    using show_nat_no_space [of "hd (show_nat n)" n] by (cases "show_nat n") auto
  have rear: "dropWhile is_space (rev (show_nat n)) = rev (show_nat n)"
    using show_nat_no_space [of "hd (rev (show_nat n))" n] by (cases "rev (show_nat n)") (auto simp: rev_swap)
  show "trim (show_nat n) = show_nat n" using front [of "[]"] rear by (simp add: trim_def)
  show "trim (show_nat n @ [CHR 0x0D]) = show_nat n" using front [of "[CHR 0x0D]"] rear by (simp add: trim_def is_space_def)
qed

text \<open>\<open>str::strip_prefix\<close>.\<close>

fun strip_prefix :: "string \<Rightarrow> string \<Rightarrow> string option" where
  "strip_prefix [] s = Some s"
| "strip_prefix (p # ps) [] = None"
| "strip_prefix (p # ps) (c # cs) = (if p = c then strip_prefix ps cs else None)"

lemma strip_prefix_append [simp]: "strip_prefix p (p @ s) = Some s"
  by (induction p) auto

lemma strip_prefix_Some: "strip_prefix p s = Some r \<longleftrightarrow> s = p @ r"
  by (induction p s rule: strip_prefix.induct) auto

end
