(* ===== verification/Cluster.thy ===== *)
theory Cluster
  imports Server Api_Client Decimal
begin

text \<open>
  The coordinator and the cluster API together (\<open>bin/coordinator/src/cluster.rs\<close>): the task that
  writes the results of proofs back to the API, the claimer that turns pending rows of the API into
  proofs and watches for rows that are gone, and the re-issue of writes that were lost.

  The three run concurrently and share \<open>task_map\<close>; a step goes from one await of a task to the next.
  A call of \<open>update_proof_request\<close> is a sequence of attempts.  An attempt reaches the table or not, and
  its answer reaches the caller or not; the call ends with an answered success or is given up.  In
  between other clients, and attempts that were thought lost, change the table (\<open>api_step\<close>), and the
  coordinator serves its workers (\<open>service_step\<close>).

  \<open>ct_recorded\<close> is not in the source: the proofs whose result was taken from the channel while the proof
  was in \<open>task_map\<close>.  JSON and hexadecimal encoding are parameters.
\<close>

section \<open>State\<close>

datatype TaskState =
    Claimed
  | Terminal ProofRequestUpdateRequest

text \<open>A running \<open>update_proof_request\<close>; \<open>wr_answered\<close> once a success has arrived.\<close>

record Write =
  wr_update :: ProofRequestUpdateRequest
  wr_answered :: bool

text \<open>Where the claimer is in its loop.\<close>

datatype Claimer =
    Sleeping
  | Claiming "ProofRequest list" "string hash_set"
  | Inserting string "ProofRequest list" "string hash_set"
  | Confirming nat "string list" "string list"

record 'p ClusterTasks =
  ct_coordinator :: "'p Coordinator"
  ct_db :: db
  ct_task_map :: "(string, TaskState) hash_map"
  ct_received :: nat
  ct_status_write :: "Write option"
  ct_claimer :: Claimer
  ct_inflight :: "string hash_set"
  ct_reissues :: "Write list"
  ct_reissued_status_writes :: nat
  ct_recorded :: "string list"

record Codec =
  cd_hex :: "nat list \<Rightarrow> string"
  cd_input_metadata :: "bool \<Rightarrow> string option"
  cd_result_metadata :: "unit option \<Rightarrow> string option"

definition cluster_init :: "'p Coordinator \<Rightarrow> db \<Rightarrow> 'p ClusterTasks" where
  "cluster_init c db =
     \<lparr>ct_coordinator = c, ct_db = db, ct_task_map = [], ct_received = 0, ct_status_write = None,
      ct_claimer = Sleeping, ct_inflight = [], ct_reissues = [], ct_reissued_status_writes = 0, ct_recorded = []\<rparr>"

section \<open>Writing results\<close>

definition remove_terminal :: "string \<Rightarrow> (string, TaskState) hash_map \<Rightarrow> (string, TaskState) hash_map" where
  "remove_terminal i task_map =
     (case map_of task_map i of Some (Terminal u) \<Rightarrow> hm_remove i task_map | _ \<Rightarrow> task_map)"

definition remove_claimed :: "string \<Rightarrow> (string, TaskState) hash_map \<Rightarrow> (string, TaskState) hash_map" where
  "remove_claimed i task_map =
     (case map_of task_map i of Some Claimed \<Rightarrow> hm_remove i task_map | _ \<Rightarrow> task_map)"

definition completion_write :: "Codec \<Rightarrow> ProofResult \<Rightarrow> ProofRequestUpdateRequest" where
  "completion_write cd r =
     (no_update (pr_id r))
       \<lparr>up_proof_status := Some (if pr_success r then StCompleted else StFailed),
        up_metadata := Some (case cd_result_metadata cd (pr_metadata r) of None \<Rightarrow> ''null'' | Some m \<Rightarrow> m),
        up_extra_data := pr_extra_data r\<rparr>"

text \<open>The results sent so far on the channel the status task reads.\<close>

definition proof_results :: "channel \<Rightarrow> wire_msg list \<Rightarrow> ProofResult list" where
  "proof_results rx ms = concat (map (\<lambda>m. case m of ToProofs ch r \<Rightarrow> (if ch = rx then [r] else []) | _ \<Rightarrow> []) ms)"

definition receive_result :: "Codec \<Rightarrow> ProofResult \<Rightarrow> 'p ClusterTasks \<Rightarrow> 'p ClusterTasks" where
  "receive_result cd r c =
     (let c1 = c\<lparr>ct_received := ct_received c + 1\<rparr>
      in case map_of (ct_task_map c) (pr_id r) of
           None \<Rightarrow> c1
         | Some state \<Rightarrow>
             (let update = completion_write cd r
              in c1\<lparr>ct_task_map := hm_insert (pr_id r) (Terminal update) (ct_task_map c1),
                    ct_status_write := Some \<lparr>wr_update = update, wr_answered = False\<rparr>,
                    ct_recorded := hs_insert (pr_id r) (ct_recorded c1)\<rparr>))"

text \<open>One attempt; \<open>heard\<close> says whether its answer arrives in time.\<close>

definition attempt_write :: "bool \<Rightarrow> bool \<Rightarrow> Write \<Rightarrow> db \<Rightarrow> Write \<times> db" where
  "attempt_write avail heard w db =
     (let (e, db') = proof_request_update avail (wr_update w) db
      in (w\<lparr>wr_answered := heard \<and> e = None\<rparr>, db'))"

definition finish_status_write :: "Write \<Rightarrow> 'p ClusterTasks \<Rightarrow> 'p ClusterTasks" where
  "finish_status_write w c =
     c\<lparr>ct_task_map := (if wr_answered w then remove_terminal (up_proof_id (wr_update w)) (ct_task_map c) else ct_task_map c),
       ct_status_write := None\<rparr>"

section \<open>Re-issuing lost writes\<close>

definition reissue_lost_status_write :: "ProofRequestUpdateRequest \<Rightarrow> 'p ClusterTasks \<Rightarrow> 'p ClusterTasks" where
  "reissue_lost_status_write update c =
     (if up_proof_id update \<in> set (ct_inflight c) then c
      else c\<lparr>ct_inflight := hs_insert (up_proof_id update) (ct_inflight c),
             ct_reissues := ct_reissues c @ [\<lparr>wr_update = update, wr_answered = False\<rparr>]\<rparr>)"

definition finish_reissue :: "nat \<Rightarrow> 'p ClusterTasks \<Rightarrow> 'p ClusterTasks" where
  "finish_reissue k c =
     (let w = ct_reissues c ! k; i = up_proof_id (wr_update w)
      in c\<lparr>ct_reissued_status_writes := ct_reissued_status_writes c + (if wr_answered w then 1 else 0),
           ct_task_map := (if wr_answered w then remove_terminal i (ct_task_map c) else ct_task_map c),
           ct_inflight := hs_remove i (ct_inflight c),
           ct_reissues := take k (ct_reissues c) @ drop (k + 1) (ct_reissues c)\<rparr>)"

definition unconfirmed :: "(string, TaskState) hash_map \<Rightarrow> ProofRequestUpdateRequest list" where
  "unconfirmed task_map = List.map_filter (\<lambda>s. case s of Terminal u \<Rightarrow> Some u | Claimed \<Rightarrow> None) (hm_values task_map)"

definition sweep :: "'p ClusterTasks \<Rightarrow> 'p ClusterTasks" where
  "sweep c = (fold reissue_lost_status_write (unconfirmed (ct_task_map c)) c)\<lparr>ct_claimer := Sleeping\<rparr>"

section \<open>Claiming\<close>

definition claim_filter :: "nat \<Rightarrow> ProofRequestListRequest" where
  "claim_filter now =
     \<lparr>ls_proof_status = [StPending], ls_execution_status = [], ls_minimum_deadline = Some now,
      ls_handled = Some False, ls_scheduled_by = None, ls_limit = None, ls_offset = None\<rparr>"

text \<open>The request for a proof; \<open>None\<close> where the claimer logs an error and skips the row.\<close>

definition claim_request :: "Codec \<Rightarrow> ProofRequest \<Rightarrow> CreateProofRequest option" where
  "claim_request cd row =
     (case rq_options_artifact_id row of None \<Rightarrow> None | Some options_artifact_id \<Rightarrow>
      case rq_cycle_limit row of None \<Rightarrow> None | Some cycle_limit \<Rightarrow>
      case rq_proof_artifact_id row of None \<Rightarrow> None | Some proof_artifact_id \<Rightarrow>
      case cd_input_metadata cd (rq_stdin_private row) of None \<Rightarrow> None | Some metadata \<Rightarrow>
        Some \<lparr>cpr_proof_id = rq_id row,
              cpr_inputs = [rq_program_artifact_id row, rq_stdin_artifact_id row, options_artifact_id,
                            show_nat cycle_limit, [], metadata],
              cpr_outputs = [proof_artifact_id], cpr_requester = cd_hex cd (rq_requester row),
              cpr_expires_at = as_i64 (rq_deadline row)\<rparr>)"

definition start_claiming :: "ProofRequest list \<Rightarrow> 'p ClusterTasks \<Rightarrow> 'p ClusterTasks" where
  "start_claiming response c = c\<lparr>ct_claimer := Claiming (rev response) []\<rparr>"

definition claim_row ::
  "'p AssignmentPolicy \<Rightarrow> Codec \<Rightarrow> Ctx \<Rightarrow> ProofRequest \<Rightarrow> ProofRequest list \<Rightarrow> string hash_set \<Rightarrow>
     'p ClusterTasks \<Rightarrow> 'p ClusterTasks" where
  "claim_row P cd cx row rows seen c =
     (let seen' = hs_insert (rq_id row) seen
      in if map_of (ct_task_map c) (rq_id row) \<noteq> None then c\<lparr>ct_claimer := Claiming rows seen'\<rparr>
         else case claim_request cd row of
                None \<Rightarrow> c\<lparr>ct_claimer := Claiming rows seen'\<rparr>
              | Some request \<Rightarrow>
                  (case as_answer (create_proof P (cx_now cx) (cx_id cx) (cx_controller_weight cx) request
                                     (c_state (ct_coordinator c))) (ct_coordinator c) of
                     (Inl e, coordinator) \<Rightarrow>
                       c\<lparr>ct_coordinator := coordinator, ct_claimer := Claiming rows seen'\<rparr>
                   | (Inr task_id, coordinator) \<Rightarrow>
                       c\<lparr>ct_coordinator := coordinator, ct_claimer := Inserting (rq_id row) rows seen'\<rparr>))"

definition insert_claim :: "string \<Rightarrow> ProofRequest list \<Rightarrow> string hash_set \<Rightarrow> 'p ClusterTasks \<Rightarrow> 'p ClusterTasks" where
  "insert_claim i rows seen c =
     c\<lparr>ct_task_map := hm_insert i Claimed (ct_task_map c), ct_claimer := Claiming rows seen\<rparr>"

section \<open>Proofs whose row is gone\<close>

definition still_pending :: "ProofRequest \<Rightarrow> nat \<Rightarrow> bool" where
  "still_pending row now \<longleftrightarrow> rq_proof_status row = StPending \<and> \<not> rq_handled row \<and> rq_deadline row \<ge> now"

text \<open>\<open>fail_missing_proofs\<close>: collecting the ids, reading one row, and failing one proof.\<close>

definition start_confirming :: "nat \<Rightarrow> string hash_set \<Rightarrow> 'p ClusterTasks \<Rightarrow> 'p ClusterTasks" where
  "start_confirming now seen c =
     c\<lparr>ct_claimer := Confirming now
         (map fst (filter (\<lambda>(i, s). s = Claimed \<and> i \<notin> set seen) (ct_task_map c))) []\<rparr>"

definition confirm_read :: "ProofRequest option result \<Rightarrow> nat \<Rightarrow> bool" where
  "confirm_read answer now =
     (case answer of
        Inr (Some row) \<Rightarrow> \<not> still_pending row now
      | Inr None \<Rightarrow> True
      | Inl e \<Rightarrow> False)"

definition confirm_fail ::
  "'p AssignmentPolicy \<Rightarrow> Ctx \<Rightarrow> string \<Rightarrow> 'p ClusterTasks \<Rightarrow> 'p ClusterTasks" where
  "confirm_fail P cx i c =
     (if map_of (ct_task_map c) i = Some Claimed
      then c\<lparr>ct_task_map := remove_claimed i (ct_task_map c),
             ct_coordinator := snd (perform (cx_alive cx) (cx_tick cx) (fail_proof P i None False None) (ct_coordinator c))\<rparr>
      else c)"

section \<open>Steps\<close>

text \<open>
  \<open>table_later db db'\<close>: the table became \<open>db'\<close> after it was \<open>db\<close>.  The pages of a listing come from
  earlier tables, one for each offset.
\<close>

definition table_later :: "db \<Rightarrow> db \<Rightarrow> bool" where
  "table_later db db' \<longleftrightarrow> db_ok db \<and> api_step\<^sup>*\<^sup>* db db'"

definition listing_from :: "(ProofRequestListRequest \<Rightarrow> db) \<Rightarrow> nat \<Rightarrow> ProofRequest list result" where
  "listing_from snap now =
     get_all_proof_requests (\<lambda>req. the (proof_request_list True req (snap req))) (claim_filter now)"

inductive cluster_step ::
  "'p AssignmentPolicy \<Rightarrow> 'p PolicyView \<Rightarrow> Codec \<Rightarrow> channel \<Rightarrow> 'p ClusterTasks \<Rightarrow> 'p ClusterTasks \<Rightarrow> bool"
  for P :: "'p AssignmentPolicy" and V :: "'p PolicyView" and cd :: Codec and rx :: channel where
  cl_table: "api_step (ct_db c) db' \<Longrightarrow> cluster_step P V cd rx c (c\<lparr>ct_db := db'\<rparr>)"
| cl_service:
    "service_step P V (ct_coordinator c) coordinator \<Longrightarrow>
     cluster_step P V cd rx c (c\<lparr>ct_coordinator := coordinator\<rparr>)"
| cl_receive:
    "ct_status_write c = None \<Longrightarrow>
     drop (ct_received c) (proof_results rx (wire (c_state (ct_coordinator c)))) = r # rs \<Longrightarrow>
     cluster_step P V cd rx c (receive_result cd r c)"
| cl_attempt:
    "ct_status_write c = Some w \<Longrightarrow> \<not> wr_answered w \<Longrightarrow> attempt_write avail heard w (ct_db c) = (w', db') \<Longrightarrow>
     cluster_step P V cd rx c (c\<lparr>ct_status_write := Some w', ct_db := db'\<rparr>)"
| cl_finish:
    "ct_status_write c = Some w \<Longrightarrow> cluster_step P V cd rx c (finish_status_write w c)"
| cl_poll:
    "ct_claimer c = Sleeping \<Longrightarrow> (\<And>req. table_later (snap req) (ct_db c)) \<Longrightarrow>
     listing_from snap now = Inr response \<Longrightarrow> cluster_step P V cd rx c (start_claiming response c)"
| cl_claim:
    "ct_claimer c = Claiming (row # rows) seen \<Longrightarrow>
     fresh_task V (cx_id cx) (c_state (ct_coordinator c)) \<Longrightarrow> cx_controller_weight cx mod 2 ^ 32 < 2 ^ 31 \<Longrightarrow>
     cluster_step P V cd rx c (claim_row P cd cx row rows seen c)"
| cl_insert:
    "ct_claimer c = Inserting i rows seen \<Longrightarrow> cluster_step P V cd rx c (insert_claim i rows seen c)"
| cl_claimed:
    "ct_claimer c = Claiming [] seen \<Longrightarrow> cluster_step P V cd rx c (start_confirming now seen c)"
| cl_read:
    "ct_claimer c = Confirming now ids gone \<Longrightarrow> i \<in> set ids \<Longrightarrow>
     proof_request_get avail i (ct_db c) = Some answer \<Longrightarrow>
     cluster_step P V cd rx c
       (c\<lparr>ct_claimer := Confirming now (removeAll i ids) (if confirm_read answer now then i # gone else gone)\<rparr>)"
| cl_fail:
    "ct_claimer c = Confirming now ids (i # gone) \<Longrightarrow>
     cluster_step P V cd rx c ((confirm_fail P cx i c)\<lparr>ct_claimer := Confirming now ids gone\<rparr>)"
| cl_sweep:
    "ct_claimer c = Confirming now [] [] \<Longrightarrow> cluster_step P V cd rx c (sweep c)"
| cl_reissue_attempt:
    "k < length (ct_reissues c) \<Longrightarrow> \<not> wr_answered (ct_reissues c ! k) \<Longrightarrow>
     attempt_write avail heard (ct_reissues c ! k) (ct_db c) = (w', db') \<Longrightarrow>
     cluster_step P V cd rx c (c\<lparr>ct_reissues := (ct_reissues c)[k := w'], ct_db := db'\<rparr>)"
| cl_reissue_finish:
    "k < length (ct_reissues c) \<Longrightarrow> cluster_step P V cd rx c (finish_reissue k c)"

inductive cluster_reachable ::
  "'p AssignmentPolicy \<Rightarrow> 'p PolicyView \<Rightarrow> Codec \<Rightarrow> channel \<Rightarrow> 'p ClusterTasks \<Rightarrow> bool"
  for P :: "'p AssignmentPolicy" and V :: "'p PolicyView" and cd :: Codec and rx :: channel where
  cl_init: "service_reachable P V c \<Longrightarrow> db_ok db \<Longrightarrow> cluster_reachable P V cd rx (cluster_init c db)"
| cl_step: "cluster_reachable P V cd rx c \<Longrightarrow> cluster_step P V cd rx c c' \<Longrightarrow> cluster_reachable P V cd rx c'"

section \<open>The table under the steps\<close>

definition row_settled :: "db \<Rightarrow> string \<Rightarrow> bool" where
  "row_settled db i \<longleftrightarrow> (\<exists>row. map_of db i = Some row \<and> db_proof_status row \<noteq> StPending)"

text \<open>What one step, or many, keep of the table.\<close>

definition table_grows :: "db \<Rightarrow> db \<Rightarrow> bool" where
  "table_grows db db' \<longleftrightarrow>
     (db_ok db \<longrightarrow> db_ok db') \<and> fst ` set db \<subseteq> fst ` set db' \<and> (\<forall>i. row_settled db i \<longrightarrow> row_settled db' i)"

lemma api_step_grows:
  assumes "api_step db db'"
  shows "table_grows db db'"
proof -
  have "i \<in> fst ` set db'" if "i \<in> fst ` set db" for i
  proof -
    from that obtain row where "map_of db i = Some row" by (metis map_of_eq_None_iff option.exhaust)
    from api_step_settled [OF assms this] show ?thesis by (auto dest: map_of_SomeD intro: rev_image_eqI)
  qed
  moreover have "row_settled db' i" if "row_settled db i" for i
    using that api_step_settled [OF assms, of i] by (force simp: row_settled_def)
  ultimately show ?thesis using api_step_ok [OF assms] unfolding table_grows_def by blast
qed

lemma table_later_ids:
  assumes "table_later db db'"
  shows "fst ` set db \<subseteq> fst ` set db'"
proof -
  from assms have "api_step\<^sup>*\<^sup>* db db'" by (simp add: table_later_def)
  then show ?thesis
  proof (induction rule: rtranclp_induct)
    case (step db1 db2)
    from api_step_grows [OF step(2)] have "fst ` set db1 \<subseteq> fst ` set db2" by (simp add: table_grows_def)
    with step(3) show ?case by (rule order_trans)
  qed simp
qed

lemma drain_loop_set:
  assumes "\<And>offset page. fetch offset = Inr page \<Longrightarrow> set page \<subseteq> S"
  shows "drain_loop sz fetch n k rows = Inr out \<Longrightarrow> set rows \<subseteq> S \<Longrightarrow> set out \<subseteq> S"
proof (induction n arbitrary: k rows)
  case (Suc n)
  obtain page where page: "fetch ((k * sz) mod 2 ^ 32) = Inr page"
    using Suc.prems(1) by (auto split: sum.splits)
  with assms Suc.prems(2) have "set (rows @ page) \<subseteq> S" by fastforce
  with Suc page show ?case by (auto split: if_splits)
qed simp

lemma listed_ids:
  assumes ok: "db_ok db" and r: "r \<in> set (map (the \<circ> into_proto) (take n (drop k (selected_rows req db))))"
  shows "rq_id r \<in> fst ` set db"
proof -
  from r obtain row where row: "row \<in> set (selected_rows req db)" "r = the (into_proto row)"
    by (auto dest: in_set_takeD in_set_dropD)
  with selected_rows_ok [OF ok] into_proto_total [of row] into_proto_id [of row]
  have "rq_id r = db_id row" by auto
  moreover from row(1) obtain i where "(i, row) \<in> set db" by (auto simp: selected_rows_set)
  then have "db_id row = i" using db_okD(2) [OF ok] hm_wf_mem [OF db_okD(1) [OF ok]] by simp
  ultimately show ?thesis using \<open>(i, row) \<in> set db\<close> by (force intro: rev_image_eqI)
qed

lemma listing_ids:
  assumes "listing_from snap now = Inr response" and later: "\<And>req. table_later (snap req) db"
  shows "rq_id ` set response \<subseteq> fst ` set db"
proof -
  let ?S = "{r. rq_id r \<in> fst ` set db}"
  have page: "set page \<subseteq> ?S" if "the (proof_request_list True req (snap req)) = Inr page" for req page
  proof -
    have ok: "db_ok (snap req)" using later [of req] by (simp add: table_later_def)
    with that have "page = map (the \<circ> into_proto) (take (list_limit req) (drop (list_offset req) (selected_rows req (snap req))))"
      by (simp add: list_total)
    with listed_ids [OF ok] table_later_ids [OF later [of req]] show ?thesis by blast
  qed
  from assms(1) obtain rows where rows: "drain_pages PROOF_REQUEST_PAGE_SIZE
      (\<lambda>offset. the (proof_request_list True ((claim_filter now)\<lparr>ls_limit := Some PROOF_REQUEST_PAGE_SIZE, ls_offset := Some offset\<rparr>)
        (snap ((claim_filter now)\<lparr>ls_limit := Some PROOF_REQUEST_PAGE_SIZE, ls_offset := Some offset\<rparr>)))) = Inr rows"
    and response: "response = dedup_by_id rows"
    by (auto simp: listing_from_def get_all_proof_requests_def split: sum.splits)
  have "set rows \<subseteq> ?S"
    using drain_loop_set [OF page rows [unfolded drain_pages_def]] by simp
  with dedup_by_id_spec [of rows] show ?thesis unfolding response by blast
qed

section \<open>No recorded result is lost\<close>

definition completion :: "ProofRequestUpdateRequest \<Rightarrow> bool" where
  "completion u \<longleftrightarrow> (\<exists>s. up_proof_status u = Some s \<and> s \<noteq> StPending)"

definition write_ok :: "db \<Rightarrow> Write \<Rightarrow> bool" where
  "write_ok db w \<longleftrightarrow> completion (wr_update w) \<and> up_proof_id (wr_update w) \<in> fst ` set db \<and>
     (wr_answered w \<longrightarrow> row_settled db (up_proof_id (wr_update w)))"

definition task_map_ok :: "db \<Rightarrow> (string, TaskState) hash_map \<Rightarrow> bool" where
  "task_map_ok db m \<longleftrightarrow> hm_wf m \<and> fst ` set m \<subseteq> fst ` set db \<and>
     (\<forall>i u. map_of m i = Some (Terminal u) \<longrightarrow> up_proof_id u = i \<and> completion u)"

definition recorded_ok :: "db \<Rightarrow> (string, TaskState) hash_map \<Rightarrow> string list \<Rightarrow> bool" where
  "recorded_ok db m is \<longleftrightarrow> (\<forall>i \<in> set is. row_settled db i \<or> (\<exists>u. map_of m i = Some (Terminal u)))"

fun claimer_ok :: "db \<Rightarrow> (string, TaskState) hash_map \<Rightarrow> Claimer \<Rightarrow> bool" where
  "claimer_ok db m (Claiming rows seen) = (rq_id ` set rows \<subseteq> fst ` set db)"
| "claimer_ok db m (Inserting i rows seen) =
     (rq_id ` set rows \<subseteq> fst ` set db \<and> i \<in> fst ` set db \<and> map_of m i = None)"
| "claimer_ok db m cl = True"

definition inflight_ok :: "string hash_set \<Rightarrow> Write list \<Rightarrow> bool" where
  "inflight_ok is ws \<longleftrightarrow> distinct (map (\<lambda>w. up_proof_id (wr_update w)) ws) \<and>
     set is = (\<lambda>w. up_proof_id (wr_update w)) ` set ws"

definition cluster_inv :: "'p ClusterTasks \<Rightarrow> bool" where
  "cluster_inv c \<longleftrightarrow> db_ok (ct_db c) \<and> task_map_ok (ct_db c) (ct_task_map c) \<and>
     (\<forall>w. ct_status_write c = Some w \<longrightarrow> write_ok (ct_db c) w) \<and>
     (\<forall>w \<in> set (ct_reissues c). write_ok (ct_db c) w) \<and>
     recorded_ok (ct_db c) (ct_task_map c) (ct_recorded c) \<and>
     claimer_ok (ct_db c) (ct_task_map c) (ct_claimer c) \<and> inflight_ok (ct_inflight c) (ct_reissues c)"

lemma cluster_invI:
  assumes "db_ok (ct_db c)" and "task_map_ok (ct_db c) (ct_task_map c)"
    and "\<And>w. ct_status_write c = Some w \<Longrightarrow> write_ok (ct_db c) w"
    and "\<And>w. w \<in> set (ct_reissues c) \<Longrightarrow> write_ok (ct_db c) w"
    and "recorded_ok (ct_db c) (ct_task_map c) (ct_recorded c)"
    and "claimer_ok (ct_db c) (ct_task_map c) (ct_claimer c)"
    and "inflight_ok (ct_inflight c) (ct_reissues c)"
  shows "cluster_inv c"
  using assms by (simp add: cluster_inv_def)

lemma cluster_invD:
  assumes "cluster_inv c"
  shows "db_ok (ct_db c)" and "task_map_ok (ct_db c) (ct_task_map c)"
    and "ct_status_write c = Some w \<Longrightarrow> write_ok (ct_db c) w"
    and "w \<in> set (ct_reissues c) \<Longrightarrow> write_ok (ct_db c) w"
    and "recorded_ok (ct_db c) (ct_task_map c) (ct_recorded c)"
    and "claimer_ok (ct_db c) (ct_task_map c) (ct_claimer c)"
    and "inflight_ok (ct_inflight c) (ct_reissues c)"
  using assms by (simp_all add: cluster_inv_def)

subsection \<open>When the table grows\<close>

lemma write_ok_grows: "table_grows db db' \<Longrightarrow> write_ok db w \<Longrightarrow> write_ok db' w"
  unfolding write_ok_def table_grows_def by blast

lemma task_map_ok_grows: "table_grows db db' \<Longrightarrow> task_map_ok db m \<Longrightarrow> task_map_ok db' m"
  unfolding task_map_ok_def table_grows_def by blast

lemma cluster_inv_table:
  assumes inv: "cluster_inv c" and grows: "table_grows (ct_db c) db'"
  shows "cluster_inv (c\<lparr>ct_db := db'\<rparr>)"
proof (rule cluster_invI)
  show "claimer_ok (ct_db (c\<lparr>ct_db := db'\<rparr>)) (ct_task_map (c\<lparr>ct_db := db'\<rparr>)) (ct_claimer (c\<lparr>ct_db := db'\<rparr>))"
    using cluster_invD(6) [OF inv] grows by (cases "ct_claimer c") (simp_all add: table_grows_def, blast+)
  show "recorded_ok (ct_db (c\<lparr>ct_db := db'\<rparr>)) (ct_task_map (c\<lparr>ct_db := db'\<rparr>)) (ct_recorded (c\<lparr>ct_db := db'\<rparr>))"
    using cluster_invD(5) [OF inv] grows by (simp add: table_grows_def recorded_ok_def) blast
  show "task_map_ok (ct_db (c\<lparr>ct_db := db'\<rparr>)) (ct_task_map (c\<lparr>ct_db := db'\<rparr>))"
    using task_map_ok_grows [OF grows cluster_invD(2) [OF inv]] by simp
qed (use cluster_invD [OF inv] grows write_ok_grows [OF grows] in \<open>auto simp: table_grows_def\<close>)

lemma attempt_write_ok:
  assumes "attempt_write avail heard w db = (w', db')" and ok: "write_ok db w"
  shows "table_grows db db'" and "write_ok db' w'" and "wr_update w' = wr_update w"
proof -
  obtain e where e: "proof_request_update avail (wr_update w) db = (e, db')"
    and w': "w' = w\<lparr>wr_answered := heard \<and> e = None\<rparr>"
    using assms(1) by (auto simp: attempt_write_def split: prod.splits)
  show grows: "table_grows db db'" by (rule api_step_grows [OF api_update [OF e]])
  show upd: "wr_update w' = wr_update w" by (simp add: w')
  have "up_proof_id (wr_update w) \<in> fst ` set db'" using ok grows by (auto simp: write_ok_def table_grows_def)
  moreover from this obtain row where "map_of db' (up_proof_id (wr_update w)) = Some row"
    by (metis map_of_eq_None_iff option.exhaust)
  moreover obtain s where "up_proof_status (wr_update w) = Some s" "s \<noteq> StPending"
    using ok by (auto simp: write_ok_def completion_def)
  ultimately have "wr_answered w' \<Longrightarrow> row_settled db' (up_proof_id (wr_update w))"
    using completion_settles [of avail "wr_update w" db db' s row] e by (auto simp: w' row_settled_def)
  with ok upd \<open>up_proof_id (wr_update w) \<in> fst ` set db'\<close> show "write_ok db' w'" by (simp add: write_ok_def)
qed

subsection \<open>When the map of proofs changes\<close>

lemma keys_remove: "fst ` set (hm_remove i m) \<subseteq> fst ` set m"
  by (auto simp: set_hm_remove)

lemma keys_insert: "fst ` set (hm_insert i v m) = insert i (fst ` set m)"
  by (simp add: dom_update)

lemma inv_drop_entry:
  assumes inv: "cluster_inv c" and safe: "map_of (ct_task_map c) i = Some Claimed \<or> row_settled (ct_db c) i"
  shows "cluster_inv (c\<lparr>ct_task_map := hm_remove i (ct_task_map c)\<rparr>)"
proof (rule cluster_invI)
  show "task_map_ok (ct_db (c\<lparr>ct_task_map := hm_remove i (ct_task_map c)\<rparr>)) (ct_task_map (c\<lparr>ct_task_map := hm_remove i (ct_task_map c)\<rparr>))"
    using cluster_invD(2) [OF inv] keys_remove [of i "ct_task_map c"] by (auto simp: task_map_ok_def)
  show "claimer_ok (ct_db (c\<lparr>ct_task_map := hm_remove i (ct_task_map c)\<rparr>)) (ct_task_map (c\<lparr>ct_task_map := hm_remove i (ct_task_map c)\<rparr>))
      (ct_claimer (c\<lparr>ct_task_map := hm_remove i (ct_task_map c)\<rparr>))"
    using cluster_invD(6) [OF inv] by (cases "ct_claimer c") auto
  show "recorded_ok (ct_db (c\<lparr>ct_task_map := hm_remove i (ct_task_map c)\<rparr>)) (ct_task_map (c\<lparr>ct_task_map := hm_remove i (ct_task_map c)\<rparr>))
      (ct_recorded (c\<lparr>ct_task_map := hm_remove i (ct_task_map c)\<rparr>))"
    using cluster_invD(5) [OF inv] safe by (auto simp: recorded_ok_def)
qed (use cluster_invD [OF inv] in auto)

lemma inv_remove_terminal:
  "cluster_inv c \<Longrightarrow> row_settled (ct_db c) i \<Longrightarrow>
   cluster_inv (c\<lparr>ct_task_map := remove_terminal i (ct_task_map c)\<rparr>)"
  using inv_drop_entry [of c i] by (auto simp: remove_terminal_def split: option.splits TaskState.splits)

lemma inv_insert_terminal:
  assumes inv: "cluster_inv c" and u: "up_proof_id u = i" "completion u" and known: "i \<in> fst ` set (ct_task_map c)"
  shows "cluster_inv (c\<lparr>ct_task_map := hm_insert i (Terminal u) (ct_task_map c), ct_recorded := hs_insert i (ct_recorded c),
    ct_status_write := Some \<lparr>wr_update = u, wr_answered = False\<rparr>\<rparr>)" (is "cluster_inv ?c")
proof (rule cluster_invI)
  have keys: "fst ` set (ct_task_map c) \<subseteq> fst ` set (ct_db c)"
    using cluster_invD(2) [OF inv] by (simp add: task_map_ok_def)
  show "task_map_ok (ct_db ?c) (ct_task_map ?c)"
    using cluster_invD(2) [OF inv] known keys u by (auto simp: task_map_ok_def keys_insert)
  show "recorded_ok (ct_db ?c) (ct_task_map ?c) (ct_recorded ?c)"
    using cluster_invD(5) [OF inv] by (auto simp: recorded_ok_def)
  show "write_ok (ct_db ?c) w" if "ct_status_write ?c = Some w" for w
  proof -
    have "w = \<lparr>wr_update = u, wr_answered = False\<rparr>" using that by simp
    then show ?thesis using u subsetD [OF keys known] by (simp add: write_ok_def)
  qed
  have "map_of (ct_task_map c) i \<noteq> None" using known by (simp add: map_of_eq_None_iff)
  then show "claimer_ok (ct_db ?c) (ct_task_map ?c) (ct_claimer ?c)"
    using cluster_invD(6) [OF inv] by (cases "ct_claimer c") auto
qed (use cluster_invD [OF inv] in auto)

lemma inv_receive:
  assumes inv: "cluster_inv c"
  shows "cluster_inv (receive_result cd r c)"
proof (cases "map_of (ct_task_map c) (pr_id r)")
  case None
  with inv show ?thesis by (simp add: receive_result_def cluster_inv_def)
next
  case (Some state)
  then have known: "pr_id r \<in> fst ` set (ct_task_map c)" by (auto dest: map_of_SomeD intro: rev_image_eqI)
  have u: "up_proof_id (completion_write cd r) = pr_id r" "completion (completion_write cd r)"
    by (simp_all add: completion_write_def no_update_def completion_def)
  from inv_insert_terminal [OF inv u known] Some show ?thesis
    by (simp add: receive_result_def Let_def cluster_inv_def)
qed

lemma inv_insert_claim:
  assumes inv: "cluster_inv c" and at: "ct_claimer c = Inserting i rows seen"
  shows "cluster_inv (insert_claim i rows seen c)"
proof -
  have new: "map_of (ct_task_map c) i = None" "i \<in> fst ` set (ct_db c)" "rq_id ` set rows \<subseteq> fst ` set (ct_db c)"
    using cluster_invD(6) [OF inv] at by simp_all
  have "recorded_ok (ct_db c) (hm_insert i Claimed (ct_task_map c)) (ct_recorded c)"
    using cluster_invD(5) [OF inv] new(1) by (auto simp: recorded_ok_def)
  moreover have "task_map_ok (ct_db c) (hm_insert i Claimed (ct_task_map c))"
    using cluster_invD(2) [OF inv] new(2) by (auto simp: task_map_ok_def keys_insert)
  ultimately show ?thesis using inv new(3) by (simp add: insert_claim_def cluster_inv_def)
qed

lemma inv_finish_status:
  assumes inv: "cluster_inv c" and w: "ct_status_write c = Some w"
  shows "cluster_inv (finish_status_write w c)"
proof -
  have "cluster_inv (c\<lparr>ct_task_map := remove_terminal (up_proof_id (wr_update w)) (ct_task_map c)\<rparr>)" if "wr_answered w"
    using inv_remove_terminal [OF inv] cluster_invD(3) [OF inv w] that by (simp add: write_ok_def)
  with inv show ?thesis by (auto simp: finish_status_write_def cluster_inv_def)
qed

subsection \<open>Re-issues\<close>

lemma inv_reissue:
  assumes inv: "cluster_inv c" and u: "completion u" "up_proof_id u \<in> fst ` set (ct_db c)"
  shows "cluster_inv (reissue_lost_status_write u c)"
proof (cases "up_proof_id u \<in> set (ct_inflight c)")
  case True
  with inv show ?thesis by (simp add: reissue_lost_status_write_def)
next
  case False
  then have "inflight_ok (hs_insert (up_proof_id u) (ct_inflight c)) (ct_reissues c @ [\<lparr>wr_update = u, wr_answered = False\<rparr>])"
    using cluster_invD(7) [OF inv] by (auto simp: inflight_ok_def)
  moreover have "write_ok (ct_db c) \<lparr>wr_update = u, wr_answered = False\<rparr>" using u by (simp add: write_ok_def)
  ultimately show ?thesis using inv False by (auto simp: reissue_lost_status_write_def cluster_inv_def)
qed

lemma reissue_frame [simp]:
  "ct_db (reissue_lost_status_write u c) = ct_db c"
  "ct_task_map (reissue_lost_status_write u c) = ct_task_map c"
  "ct_coordinator (reissue_lost_status_write u c) = ct_coordinator c"
  by (simp_all add: reissue_lost_status_write_def)

lemma fold_reissue:
  assumes "cluster_inv c" and "\<forall>u \<in> set us. completion u \<and> up_proof_id u \<in> fst ` set (ct_db c)"
  shows "cluster_inv (fold reissue_lost_status_write us c) \<and> ct_coordinator (fold reissue_lost_status_write us c) = ct_coordinator c \<and>
    set (ct_inflight c) \<union> up_proof_id ` set us \<subseteq> set (ct_inflight (fold reissue_lost_status_write us c))"
  using assms
proof (induction us arbitrary: c)
  case (Cons u us)
  let ?c = "reissue_lost_status_write u c"
  have "cluster_inv ?c" using Cons.prems by (simp add: inv_reissue)
  moreover have "insert (up_proof_id u) (set (ct_inflight c)) \<subseteq> set (ct_inflight ?c)"
    by (auto simp: reissue_lost_status_write_def)
  ultimately show ?case using Cons.IH [of ?c] Cons.prems(2) by auto
qed simp

lemma unconfirmed_set:
  assumes "task_map_ok db m"
  shows "u \<in> set (unconfirmed m) \<longleftrightarrow> map_of m (up_proof_id u) = Some (Terminal u)"
proof -
  have wf: "hm_wf m" using assms by (simp add: task_map_ok_def)
  have "u \<in> set (unconfirmed m) \<longleftrightarrow> (\<exists>i. (i, Terminal u) \<in> set m)"
    by (force simp: unconfirmed_def List.map_filter_def hm_values_def split: TaskState.splits option.splits)
  also have "\<dots> \<longleftrightarrow> (\<exists>i. map_of m i = Some (Terminal u))" by (simp add: hm_wf_mem [OF wf])
  finally show ?thesis using assms unfolding task_map_ok_def by blast
qed

lemma unconfirmed_ok:
  assumes "task_map_ok db m" and "u \<in> set (unconfirmed m)"
  shows "completion u \<and> up_proof_id u \<in> fst ` set db"
proof -
  from assms have "map_of m (up_proof_id u) = Some (Terminal u)" by (simp add: unconfirmed_set)
  moreover from this have "up_proof_id u \<in> fst ` set m" by (auto dest: map_of_SomeD intro: rev_image_eqI)
  ultimately show ?thesis using assms(1) unfolding task_map_ok_def by blast
qed

lemma inv_sweep:
  assumes inv: "cluster_inv c"
  shows "cluster_inv (sweep c) \<and> ct_coordinator (sweep c) = ct_coordinator c \<and>
    up_proof_id ` set (unconfirmed (ct_task_map c)) \<subseteq> set (ct_inflight (sweep c))"
proof -
  have "\<forall>u \<in> set (unconfirmed (ct_task_map c)). completion u \<and> up_proof_id u \<in> fst ` set (ct_db c)"
    using unconfirmed_ok [OF cluster_invD(2) [OF inv]] by blast
  from fold_reissue [OF inv this] show ?thesis by (auto simp: sweep_def cluster_inv_def)
qed

lemma set_without: "k < length xs \<Longrightarrow> set (take k xs @ drop (k + 1) xs) \<subseteq> set xs"
  by (auto dest: in_set_takeD in_set_dropD)

lemma without_middle:
  "distinct (xs @ y # zs) \<Longrightarrow> set is = set (xs @ y # zs) \<Longrightarrow> distinct (xs @ zs) \<and> set (hs_remove y is) = set (xs @ zs)"
  by auto

lemma inflight_ok_without:
  assumes ok: "inflight_ok is ws" and k: "k < length ws"
  shows "inflight_ok (hs_remove (up_proof_id (wr_update (ws ! k))) is) (take k ws @ drop (k + 1) ws)"
proof -
  let ?f = "\<lambda>w. up_proof_id (wr_update w)"
  have split: "map ?f ws = map ?f (take k ws) @ ?f (ws ! k) # map ?f (drop (k + 1) ws)"
    using arg_cong [OF id_take_nth_drop [OF k], of "map ?f"] by simp
  have "distinct (map ?f (take k ws) @ ?f (ws ! k) # map ?f (drop (k + 1) ws))"
    "set is = set (map ?f (take k ws) @ ?f (ws ! k) # map ?f (drop (k + 1) ws))"
    using ok unfolding inflight_ok_def split [symmetric] by simp_all
  from without_middle [OF this] show ?thesis unfolding inflight_ok_def by (simp only: map_append set_map [symmetric])
qed

lemma inv_finish_reissue:
  assumes inv: "cluster_inv c" and k: "k < length (ct_reissues c)"
  shows "cluster_inv (finish_reissue k c)"
proof -
  let ?w = "ct_reissues c ! k"
  have w: "write_ok (ct_db c) ?w" using cluster_invD(4) [OF inv] k by simp
  let ?c = "c\<lparr>ct_task_map := (if wr_answered ?w then remove_terminal (up_proof_id (wr_update ?w)) (ct_task_map c) else ct_task_map c)\<rparr>"
  have "cluster_inv ?c" using inv inv_remove_terminal [OF inv] w by (simp add: write_ok_def)
  moreover note inflight_ok_without [OF cluster_invD(7) [OF inv] k] set_without [OF k]
  ultimately show ?thesis unfolding cluster_inv_def finish_reissue_def Let_def by (auto dest: in_set_takeD in_set_dropD)
qed

lemma inv_reissue_attempt:
  assumes inv: "cluster_inv c" and k: "k < length (ct_reissues c)"
    and a: "attempt_write avail heard (ct_reissues c ! k) (ct_db c) = (w', db')"
  shows "cluster_inv (c\<lparr>ct_reissues := (ct_reissues c)[k := w'], ct_db := db'\<rparr>)"
proof -
  have "write_ok (ct_db c) (ct_reissues c ! k)" using cluster_invD(4) [OF inv] k by simp
  note w = attempt_write_ok [OF a this]
  have ids: "map (\<lambda>w. up_proof_id (wr_update w)) ((ct_reissues c)[k := w']) = map (\<lambda>w. up_proof_id (wr_update w)) (ct_reissues c)"
    using k w(3) by (simp add: map_update list_update_same_conv)
  have "inflight_ok (ct_inflight c) ((ct_reissues c)[k := w'])"
    using cluster_invD(7) [OF inv] unfolding inflight_ok_def set_map [symmetric] ids .
  moreover have "\<forall>w \<in> set ((ct_reissues c)[k := w']). write_ok db' w"
    using cluster_invD(4) [OF inv] write_ok_grows [OF w(1)] w(2) set_update_subset_insert [of "ct_reissues c" k w'] by blast
  ultimately show ?thesis using cluster_inv_table [OF inv w(1)] by (simp add: cluster_inv_def)
qed

subsection \<open>Claiming and confirming\<close>

lemma as_answer_create [simp]: "snd (as_answer (create_proof P now i weight request (c_state co)) co) =
    co\<lparr>c_state := snd (create_proof P now i weight request (c_state co))\<rparr>"
  by (cases "create_proof P now i weight request (c_state co)") (simp add: as_answer_def)

lemma claim_row_cases:
  fixes c :: "'p ClusterTasks"
  obtains (skip) "claim_row P cd cx row rows seen c = c\<lparr>ct_claimer := Claiming rows (hs_insert (rq_id row) seen)\<rparr>"
  | (failed) request where "claim_row P cd cx row rows seen c =
      c\<lparr>ct_coordinator := ct_coordinator c\<lparr>c_state := snd (create_proof P (cx_now cx) (cx_id cx) (cx_controller_weight cx) request
          (c_state (ct_coordinator c)))\<rparr>, ct_claimer := Claiming rows (hs_insert (rq_id row) seen)\<rparr>"
  | (created) request where "map_of (ct_task_map c) (rq_id row) = None" and "claim_row P cd cx row rows seen c =
      c\<lparr>ct_coordinator := ct_coordinator c\<lparr>c_state := snd (create_proof P (cx_now cx) (cx_id cx) (cx_controller_weight cx) request
          (c_state (ct_coordinator c)))\<rparr>, ct_claimer := Inserting (rq_id row) rows (hs_insert (rq_id row) seen)\<rparr>"
proof (cases "map_of (ct_task_map c) (rq_id row) \<noteq> None \<or> claim_request cd row = None")
  case True
  then show thesis by (intro skip) (auto simp: claim_row_def Let_def)
next
  case False
  then obtain request where request: "claim_request cd row = Some request" by auto
  let ?create = "create_proof P (cx_now cx) (cx_id cx) (cx_controller_weight cx) request (c_state (ct_coordinator c))"
  obtain answer co where answer: "as_answer ?create (ct_coordinator c) = (answer, co)" by fastforce
  then have co: "co = ct_coordinator c\<lparr>c_state := snd ?create\<rparr>" using as_answer_create by (metis snd_conv)
  show thesis
  proof (cases answer)
    case (Inl e)
    with False request answer co show thesis by (intro failed [of request]) (simp add: claim_row_def)
  next
    case (Inr t)
    with False request answer co show thesis by (intro created [of request]) (simp_all add: claim_row_def)
  qed
qed

lemma inv_claim_row:
  assumes inv: "cluster_inv c" and at: "ct_claimer c = Claiming (row # rows) seen"
  shows "cluster_inv (claim_row P cd cx row rows seen c)"
proof -
  have rows: "rq_id row \<in> fst ` set (ct_db c)" "rq_id ` set rows \<subseteq> fst ` set (ct_db c)"
    using cluster_invD(6) [OF inv] at by simp_all
  show ?thesis
  proof (cases rule: claim_row_cases [of P cd cx row rows seen c])
    case skip
    show ?thesis unfolding skip using inv rows by (simp add: cluster_inv_def)
  next
    case (failed request)
    show ?thesis unfolding failed using inv rows by (simp add: cluster_inv_def)
  next
    case (created request)
    show ?thesis unfolding created(2) using inv rows created(1) by (simp add: cluster_inv_def)
  qed
qed

lemma inv_confirm_fail: "cluster_inv c \<Longrightarrow> cluster_inv (confirm_fail P cx i c)"
  using inv_drop_entry [of c i] by (simp add: confirm_fail_def remove_claimed_def cluster_inv_def)

lemma inv_claimer: "cluster_inv c \<Longrightarrow> claimer_ok (ct_db c) (ct_task_map c) cl \<Longrightarrow> cluster_inv (c\<lparr>ct_claimer := cl\<rparr>)"
  by (simp add: cluster_inv_def)

lemma cluster_step_inv:
  assumes "cluster_step P V cd rx c c'" and inv: "cluster_inv c"
  shows "cluster_inv c'"
  using assms(1)
proof cases
  case (cl_table db')
  with cluster_inv_table [OF inv api_step_grows] show ?thesis by simp
next
  case (cl_attempt w avail heard w' db')
  note w = attempt_write_ok [OF cl_attempt(4) cluster_invD(3) [OF inv cl_attempt(2)]]
  from cluster_inv_table [OF inv w(1)] w(2) show ?thesis unfolding cl_attempt(1) by (simp add: cluster_inv_def)
next
  case (cl_poll snap now response)
  with listing_ids [OF cl_poll(4,3)] show ?thesis by (simp add: start_claiming_def inv_claimer [OF inv])
next
  case (cl_read now ids gone i avail answer)
  then show ?thesis using inv_claimer [OF inv] by simp
next
  case (cl_fail now ids i gone cx)
  then show ?thesis using inv_claimer [OF inv_confirm_fail [OF inv]] by simp
qed (use inv inv_receive [OF inv] inv_finish_status [OF inv] inv_claim_row [OF inv] inv_insert_claim [OF inv]
      inv_claimer [OF inv] inv_sweep [OF inv] inv_reissue_attempt [OF inv] inv_finish_reissue [OF inv]
    in \<open>auto simp: start_confirming_def cluster_inv_def\<close>)

lemma cluster_step_service:
  assumes "cluster_step P V cd rx c c'" and inv: "cluster_inv c"
  shows "ct_coordinator c' = ct_coordinator c \<or> service_step P V (ct_coordinator c) (ct_coordinator c')"
  using assms(1)
proof cases
  case (cl_claim row rows seen cx)
  have step: "service_step P V (ct_coordinator c) (ct_coordinator c\<lparr>c_state := snd (create_proof P (cx_now cx) (cx_id cx)
      (cx_controller_weight cx) request (c_state (ct_coordinator c)))\<rparr>)" for request
    by (rule svc_quiet [OF step_create_proof [OF cl_claim(3,4)]])
  show ?thesis
    by (cases rule: claim_row_cases [of P cd cx row rows seen c]) (simp_all add: cl_claim(1) step)
next
  case (cl_fail now ids i gone cx)
  have "snd (perform (cx_alive cx) (cx_tick cx) (fail_proof P i None False None) (ct_coordinator c)) = ct_coordinator c \<or>
      service_step P V (ct_coordinator c) (snd (perform (cx_alive cx) (cx_tick cx) (fail_proof P i None False None) (ct_coordinator c)))"
    by (rule perform_step) (rule step_fail_proof)
  with cl_fail(1) show ?thesis by (simp add: confirm_fail_def)
next
  case (cl_sweep now)
  with inv_sweep [OF inv] show ?thesis by simp
qed (auto simp: receive_result_def Let_def finish_status_write_def start_claiming_def insert_claim_def
      start_confirming_def finish_reissue_def split: option.splits)

theorem cluster_reachable_inv: "cluster_reachable P V cd rx c \<Longrightarrow> cluster_inv c \<and> service_reachable P V (ct_coordinator c)"
proof (induction rule: cluster_reachable.induct)
  case (cl_init c db)
  then show ?case
    by (simp add: cluster_init_def cluster_inv_def task_map_ok_def hm_wf_def recorded_ok_def inflight_ok_def)
next
  case (cl_step c c')
  then show ?case using cluster_step_inv cluster_step_service svc_step by metis
qed

text \<open>After a sweep a re-issue is under way for every recorded result whose row is still pending.\<close>

lemma sweep_covers:
  assumes inv: "cluster_inv c" and i: "i \<in> set (ct_recorded c)" "\<not> row_settled (ct_db c) i"
  shows "\<exists>w \<in> set (ct_reissues (sweep c)). up_proof_id (wr_update w) = i \<and> completion (wr_update w)"
proof -
  from i cluster_invD(5) [OF inv] obtain u where "map_of (ct_task_map c) i = Some (Terminal u)"
    by (auto simp: recorded_ok_def)
  moreover from this cluster_invD(2) [OF inv] have "up_proof_id u = i" by (simp add: task_map_ok_def)
  ultimately have "u \<in> set (unconfirmed (ct_task_map c))" "up_proof_id u = i"
    by (simp_all add: unconfirmed_set [OF cluster_invD(2) [OF inv]])
  with inv_sweep [OF inv] have inv': "cluster_inv (sweep c)" and "i \<in> set (ct_inflight (sweep c))" by auto
  then obtain w where w: "w \<in> set (ct_reissues (sweep c))" "up_proof_id (wr_update w) = i"
    using cluster_invD(7) [OF inv'] by (auto simp: inflight_ok_def)
  with cluster_invD(4) [OF inv' w(1)] show ?thesis by (auto simp: write_ok_def)
qed

lemma attempt_settles:
  assumes "completion (wr_update w)" and "up_proof_id (wr_update w) \<in> fst ` set db"
  shows "row_settled (snd (attempt_write True heard w db)) (up_proof_id (wr_update w))"
proof -
  from assms(2) obtain row where row: "map_of db (up_proof_id (wr_update w)) = Some row"
    by (metis map_of_eq_None_iff option.exhaust)
  obtain s where s: "up_proof_status (wr_update w) = Some s" "s \<noteq> StPending" using assms(1) by (auto simp: completion_def)
  from status_update [OF s(1)]
  have "wr_update w \<noteq> no_update (up_proof_id (wr_update w))" .
  with row s show ?thesis by (simp add: attempt_write_def proof_request_update_def row_settled_def)
qed

end
