(* ===== verification/Sample_Run.thy ===== *)
theory Sample_Run
  imports Policy_Default Policy_Balanced Cluster
begin

text \<open>
  A small concrete run of the coordinator, under each policy: a GPU worker joins, a proof is created
  whose controller waits for a CPU worker, and a shard of it is started on the GPU worker.  The
  states serve to evaluate the theorems about reachable states on an input.
\<close>

definition sample_env :: Env where
  "sample_env =
     \<lparr>env_from_task_type = (\<lambda>tt. if tt = Controller then CpuWorker else GpuWorker), env_cpu_only = False\<rparr>"

definition sample_identity :: WorkerIdentity where
  "sample_identity =
     \<lparr>wi_version = ''1.0'', wi_git_sha = [], wi_image_tag = [], wi_gpu_name = ''gpu'',
      wi_gpu_memory_total_bytes = 24, wi_location = []\<rparr>"

definition sample_request :: CreateProofRequest where
  "sample_request =
     \<lparr>cpr_proof_id = ''p'', cpr_inputs = [], cpr_outputs = [], cpr_requester = [], cpr_expires_at = 0\<rparr>"

definition sample_shard :: TaskData where
  "sample_shard =
     \<lparr>td_task_type = ProveShard, td_inputs = [], td_outputs = [], td_metadata = [], td_proof_id = ''p'',
      td_parent_id = None, td_weight = 4, td_requester = []\<rparr>"

definition sample_joined :: "'p AssignmentPolicy \<Rightarrow> 'p CoordinatorState" where
  "sample_joined P = snd (add_worker P 0 ''w'' GpuWorker 24 7 sample_identity (initial_state (ap_default P) 0 0))"

definition sample_created :: "'p AssignmentPolicy \<Rightarrow> 'p CoordinatorState" where
  "sample_created P = snd (create_proof P 0 ''c'' 4 sample_request (sample_joined P))"

definition sample_state :: "'p AssignmentPolicy \<Rightarrow> 'p CoordinatorState" where
  "sample_state P = snd (create_task_internal P 0 ''s'' sample_shard (sample_created P))"

lemmas sample_defs = sample_env_def sample_identity_def sample_request_def sample_shard_def

lemmas run_defs = initial_state_def add_worker_def create_proof_def create_task_internal_def new_task_def
  Worker_new_def Proof_new_def expiry_def get_task_internal_def get_queued_task_def best_worker_def
  worker_fits_def hm_values_def charge_worker_def mark_running_def start_task_def modify_task_def
  send_task_def send_def estimate_duration.simps uint_max_def as_secs_def as_millis_def
  worker_type_from_task_type_def heap_push_def heap_pop_def DEFAULT_WORKER_HEARTBEAT_TIMEOUT_def Let_def

lemmas default_defs = default_policy_def default_assign_tasks_def default_enqueue_task_def default_gpu_loop_def
  default_cpu_loop_def default_assign_task_def

lemmas balanced_defs = balanced_policy_def balanced_assign_tasks_def balanced_enqueue_task_def balanced_gpu_loop_def
  balanced_cpu_loop_def balanced_assign_task_def find_next_balanced_task_def bp_weight_def pop_gpu_queue_def
  pop_cpu_queue_def add_gpu_weight_def gpu_queue_total_def

text \<open>The controller waits in the queue, the shard runs on the worker.\<close>

definition sample_workers :: "(WorkerId, Worker) hash_map" where
  "sample_workers =
     [(''w'', (Worker_new 0 ''w'' GpuWorker 24 7 sample_identity)
        \<lparr>w_weight := 4, w_next_free_time := 2000, w_active_tasks := [(''p'', ''s'')]\<rparr>)]"

definition sample_controller :: Task where
  "sample_controller =
     new_task 0 ''c''
       \<lparr>td_task_type = Controller, td_inputs = [], td_outputs = [], td_metadata = ''{}'', td_proof_id = ''p'',
        td_parent_id = None, td_weight = 4, td_requester = []\<rparr>"

definition sample_running :: Task where
  "sample_running =
     (new_task 0 ''s'' sample_shard)
       \<lparr>t_worker := Some ''w'', t_status := Running,
        t_gpu_attempts := [(''w'', \<lparr>ga_on_gpu = True, ga_credited = False\<rparr>)]\<rparr>"

definition sample_proofs :: "(ProofId, Proof) hash_map" where
  "sample_proofs =
     [(''p'', (Proof_new 0 ''p'' None)
        \<lparr>p_active_tasks := 2, p_tasks := [(''c'', sample_controller), (''s'', sample_running)]\<rparr>)]"

definition sample_queued :: QueuedTask where
  "sample_queued =
     \<lparr>q_id = ''c'', q_task_type = Controller, q_proof_created_at = 0, q_created_at = 0, q_proof_id = ''p''\<rparr>"

lemma sample_default_joined:
  "workers (sample_joined (default_policy sample_env)) = [(''w'', Worker_new 0 ''w'' GpuWorker 24 7 sample_identity)]"
  "proofs (sample_joined (default_policy sample_env)) = []"
  "policy (sample_joined (default_policy sample_env)) = \<lparr>dp_cpu_queue = [], dp_gpu_queue = []\<rparr>"
  by (simp_all add: sample_joined_def run_defs sample_defs default_defs)

lemma sample_default_created:
  "workers (sample_created (default_policy sample_env)) = [(''w'', Worker_new 0 ''w'' GpuWorker 24 7 sample_identity)]"
  "proofs (sample_created (default_policy sample_env)) =
     [(''p'', (Proof_new 0 ''p'' None)\<lparr>p_active_tasks := 1, p_tasks := [(''c'', sample_controller)]\<rparr>)]"
  "policy (sample_created (default_policy sample_env)) = \<lparr>dp_cpu_queue = [sample_queued], dp_gpu_queue = []\<rparr>"
  by (simp_all add: sample_created_def sample_joined_def sample_controller_def sample_queued_def
      run_defs sample_defs default_defs)

lemma sample_default_state:
  "workers (sample_state (default_policy sample_env)) = sample_workers"
  "proofs (sample_state (default_policy sample_env)) = sample_proofs"
  "policy (sample_state (default_policy sample_env)) = \<lparr>dp_cpu_queue = [sample_queued], dp_gpu_queue = []\<rparr>"
  "shutting_down (sample_state (default_policy sample_env)) = False"
  by (simp_all add: sample_state_def sample_created_def sample_joined_def sample_controller_def sample_queued_def
      sample_workers_def sample_proofs_def sample_running_def run_defs sample_defs default_defs)

lemma sample_balanced_joined:
  "workers (sample_joined (balanced_policy sample_env)) = [(''w'', Worker_new 0 ''w'' GpuWorker 24 7 sample_identity)]"
  "proofs (sample_joined (balanced_policy sample_env)) = []"
  "policy (sample_joined (balanced_policy sample_env)) =
     \<lparr>bp_cpu_queue = [], bp_gpu_queues = [], bp_proof_gpu_weights = []\<rparr>"
  by (simp_all add: sample_joined_def run_defs sample_defs balanced_defs)

lemma sample_balanced_created:
  "workers (sample_created (balanced_policy sample_env)) = [(''w'', Worker_new 0 ''w'' GpuWorker 24 7 sample_identity)]"
  "proofs (sample_created (balanced_policy sample_env)) =
     [(''p'', (Proof_new 0 ''p'' None)\<lparr>p_active_tasks := 1, p_tasks := [(''c'', sample_controller)]\<rparr>)]"
  "policy (sample_created (balanced_policy sample_env)) =
     \<lparr>bp_cpu_queue = [sample_queued], bp_gpu_queues = [], bp_proof_gpu_weights = []\<rparr>"
  by (simp_all add: sample_created_def sample_joined_def sample_controller_def sample_queued_def
      run_defs sample_defs balanced_defs)

lemma sample_balanced_state:
  "workers (sample_state (balanced_policy sample_env)) = sample_workers"
  "proofs (sample_state (balanced_policy sample_env)) = sample_proofs"
  "policy (sample_state (balanced_policy sample_env)) =
     \<lparr>bp_cpu_queue = [sample_queued], bp_gpu_queues = [], bp_proof_gpu_weights = [(''p'', 4)]\<rparr>"
  "shutting_down (sample_state (balanced_policy sample_env)) = False"
  by (simp_all add: sample_state_def sample_created_def sample_joined_def sample_controller_def sample_queued_def
      sample_workers_def sample_proofs_def sample_running_def run_defs sample_defs balanced_defs)

section \<open>The run is a run of the state machine\<close>

lemma fresh_by_fields:
  assumes "workers st = ws" and "proofs st = ps" and "pv_queued V (policy st) = Q"
    and "\<forall>w \<in> snd ` set ws. \<forall>k \<in> set (w_active_tasks w). snd k \<noteq> i"
    and "\<forall>pr \<in> snd ` set ps. map_of (p_tasks pr) i = None" and "\<forall>q \<in># Q. q_id q \<noteq> i"
  shows "fresh_task V i st"
  unfolding fresh_task_def
proof (intro allI conjI)
  fix p
  show "(p, i) \<notin> held (workers st)" using assms(1,4) by (force simp: held_def dest: map_of_SomeD)
  show "(p, i) \<notin> queued_keys V (policy st)" using assms(3,6) by (force simp: queued_keys_def)
  show "table_of (proofs st) (p, i) = None"
    using assms(2,5) by (force simp: table_of_def dest: map_of_SomeD split: option.splits)
qed

definition sample_service :: "'p AssignmentPolicy \<Rightarrow> 'p Coordinator" where
  "sample_service P = (Coordinator_new P 0 0)\<lparr>c_state := sample_state P\<rparr>"

lemma sample_steps:
  assumes "fresh_task V ''c'' (sample_joined P)" and "fresh_task V ''s'' (sample_created P)"
    and "room_for_task ''p'' (sample_created P)"
  shows "coord_reachable P V (sample_state P)" and "service_reachable P V (sample_service P)"
proof -
  let ?init = "initial_state (ap_default P) 0 0" and ?new = "Coordinator_new P 0 0"
  have 1: "coord_step P V [] ?init (sample_joined P)"
    unfolding sample_joined_def by (rule step_add_worker) (simp add: initial_state_def capacity_def)
  have 2: "coord_step P V [] (sample_joined P) (sample_created P)"
    unfolding sample_created_def by (rule step_create_proof [OF assms(1)]) simp
  have 3: "coord_step P V [] (sample_created P) (sample_state P)"
    unfolding sample_state_def by (rule step_create_task) (use assms in \<open>simp_all add: sample_shard_def\<close>)
  show "coord_reachable P V (sample_state P)"
    by (rule stepped [OF stepped [OF stepped [OF initially 1] 2] 3])
  have "service_reachable P V (?new\<lparr>c_state := sample_joined P\<rparr>)"
    by (rule svc_step [OF svc_init svc_quiet]) (simp add: Coordinator_new_def 1)
  then have "service_reachable P V (?new\<lparr>c_state := sample_joined P\<rparr>\<lparr>c_state := sample_created P\<rparr>)"
    by (rule svc_step [OF _ svc_quiet]) (simp add: 2)
  then have "service_reachable P V
      (?new\<lparr>c_state := sample_joined P\<rparr>\<lparr>c_state := sample_created P\<rparr>\<lparr>c_state := sample_state P\<rparr>)"
    by (rule svc_step [OF _ svc_quiet]) (simp add: 3)
  then show "service_reachable P V (sample_service P)" by (simp add: sample_service_def)
qed

lemma sample_default_premises:
  "fresh_task (default_view sample_env) ''c'' (sample_joined (default_policy sample_env))"
  "fresh_task (default_view sample_env) ''s'' (sample_created (default_policy sample_env))"
  "room_for_task ''p'' (sample_created (default_policy sample_env))"
proof -
  show "fresh_task (default_view sample_env) ''c'' (sample_joined (default_policy sample_env))"
    by (rule fresh_by_fields [OF sample_default_joined(1,2) refl])
      (simp_all add: sample_default_joined Worker_new_def)
  show "fresh_task (default_view sample_env) ''s'' (sample_created (default_policy sample_env))"
    by (rule fresh_by_fields [OF sample_default_created(1,2) refl])
      (simp_all add: sample_default_created Worker_new_def sample_queued_def)
  show "room_for_task ''p'' (sample_created (default_policy sample_env))"
    by (simp add: room_for_task_def sample_default_created)
qed

lemmas sample_default_reachable = sample_steps(1) [OF sample_default_premises]

lemmas sample_default_service = sample_steps(2) [OF sample_default_premises]

lemma sample_balanced_premises:
  "fresh_task (balanced_view sample_env) ''c'' (sample_joined (balanced_policy sample_env))"
  "fresh_task (balanced_view sample_env) ''s'' (sample_created (balanced_policy sample_env))"
  "room_for_task ''p'' (sample_created (balanced_policy sample_env))"
proof -
  show "fresh_task (balanced_view sample_env) ''c'' (sample_joined (balanced_policy sample_env))"
    by (rule fresh_by_fields [OF sample_balanced_joined(1,2) refl])
      (simp_all add: sample_balanced_joined Worker_new_def gpu_contents_def)
  show "fresh_task (balanced_view sample_env) ''s'' (sample_created (balanced_policy sample_env))"
    by (rule fresh_by_fields [OF sample_balanced_created(1,2) refl])
      (simp_all add: sample_balanced_created Worker_new_def sample_queued_def gpu_contents_def)
  show "room_for_task ''p'' (sample_created (balanced_policy sample_env))"
    by (simp add: room_for_task_def sample_balanced_created)
qed

lemmas sample_balanced_reachable = sample_steps(1) [OF sample_balanced_premises]

lemmas sample_balanced_service = sample_steps(2) [OF sample_balanced_premises]

section \<open>A subscriber and a message\<close>

definition sample_subscribed :: "'p AssignmentPolicy \<Rightarrow> 'p Coordinator" where
  "sample_subscribed P = snd (create_subscriber 0 ''sub'' ''p'' [''s''] 3 (sample_service P))"

definition sample_sent :: "'p AssignmentPolicy \<Rightarrow> 'p Coordinator" where
  "sample_sent P = send_task_message (\<lambda>_. True) ''s'' [1] (sample_subscribed P)"

lemma sample_sent_service: "service_reachable P V (sample_service P) \<Longrightarrow> service_reachable P V (sample_sent P)"
  unfolding sample_sent_def sample_subscribed_def
  by (rule svc_step [OF svc_step [OF _ svc_create_subscriber] svc_send])

lemma complete_task_answers:
  "map_of (proofs st) p = Some pr \<Longrightarrow> map_of (p_tasks pr) t = Some task \<Longrightarrow> t_status task \<noteq> Succeeded \<Longrightarrow>
     \<exists>st'. complete_task P now i p t m st = Inr ([CloseChannel t, Notify (t_subscribers task) p t Succeeded], st')"
  by (simp add: complete_task_def Let_def)

lemma sample_completes:
  assumes "proofs (sample_state P) = sample_proofs"
  shows "\<exists>st'. complete_task P 1 ''w'' ''p'' ''s'' m (sample_state P) =
    Inr ([CloseChannel ''s'', Notify [] ''p'' ''s'' Succeeded], st')"
  using complete_task_answers [of "sample_state P" "''p''" "snd (hd sample_proofs)" "''s''" sample_running]
  by (simp add: assms sample_proofs_def sample_running_def new_task_def)

lemma sample_sent_state:
  assumes "proofs (sample_state P) = sample_proofs"
  shows "get_task_internal (c_state (sample_sent P)) ''p'' ''s'' = Some (sample_running\<lparr>t_subscribers := [''sub'']\<rparr>)"
    and "sub_at (sample_sent P) ''sub'' 3"
    and "map_of (c_task_channels (sample_sent P)) ''s'' = Some (fst (push (\<lambda>_. True) [1] MessageChannel_default))"
proof -
  have sub: "c_state (sample_subscribed P) = (sample_state P)\<lparr>proofs :=
      [(''p'', (Proof_new 0 ''p'' None)\<lparr>p_active_tasks := 2, p_tasks := [(''c'', sample_controller),
        (''s'', sample_running\<lparr>t_subscribers := [''sub'']\<rparr>)]\<rparr>)]\<rparr>"
    "c_subscribers (sample_subscribed P) = [(''sub'', \<lparr>sb_tx = 3, sb_active_subscriptions = [''s''], sb_proof_id = ''p'', sb_last_update = 0\<rparr>)]"
    "c_task_channels (sample_subscribed P) = []"
    by (simp_all add: sample_subscribed_def create_subscriber_def add_subscriptions_def touch_subscription_def
        register_subscription_def subscribe_in_state_def sample_service_def Coordinator_new_def Let_def assms
        sample_proofs_def sample_running_def sample_controller_def new_task_def)
  have live: "task_can_still_send (c_state (sample_subscribed P)) ''s''"
    by (simp add: sub task_can_still_send_def hm_values_def sample_running_def new_task_def)
  show "get_task_internal (c_state (sample_sent P)) ''p'' ''s'' = Some (sample_running\<lparr>t_subscribers := [''sub'']\<rparr>)"
    and "sub_at (sample_sent P) ''sub'' 3"
    and "map_of (c_task_channels (sample_sent P)) ''s'' = Some (fst (push (\<lambda>_. True) [1] MessageChannel_default))"
    using live by (simp_all add: sample_sent_def send_task_message_def sub put_channel_def get_task_internal_def sub_at_def open_channel_def)
qed

lemmas sample_default_sent = sample_sent_state [OF sample_default_state(2)]

lemmas sample_balanced_sent = sample_sent_state [OF sample_balanced_state(2)]

section \<open>A row of the table\<close>

definition sample_create :: ProofRequestCreateRequest where
  "sample_create =
     \<lparr>cr_proof_id = ''p'', cr_requester = [], cr_stdin_artifact_id = ''i'', cr_program_artifact_id = ''g'',
      cr_options_artifact_id = Some ''o'', cr_proof_artifact_id = Some ''r'', cr_cycle_limit = 7, cr_deadline = 100,
      cr_gas_limit = 9, cr_scheduled_by = None, cr_stdin_private = False\<rparr>"

definition sample_db :: db where
  "sample_db = [(''p'', new_row 3 sample_create)]"

lemma sample_db_created: "proof_request_create True 3 sample_create [] = (None, sample_db)"
  by (simp add: proof_request_create_def sample_create_def sample_db_def)

lemma sample_db_ok: "db_ok sample_db"
  using api_step_ok [OF api_create [OF sample_db_created]] by (simp add: db_ok_def hm_wf_def)

definition sample_completion :: ProofRequestUpdateRequest where
  "sample_completion = (no_update ''p'')\<lparr>up_proof_status := Some StCompleted\<rparr>"

definition sample_done_db :: db where
  "sample_done_db = snd (proof_request_update True sample_completion sample_db)"

lemma sample_completed: "proof_request_update True sample_completion sample_db = (None, sample_done_db)"
proof -
  have "up_proof_status sample_completion = Some StCompleted" by (simp add: sample_completion_def)
  from status_update [OF this] show ?thesis
    by (simp add: sample_done_db_def proof_request_update_def sample_completion_def no_update_def sample_db_def sample_create_def
        new_row_def)
qed

lemma sample_done_eq: "sample_done_db = [(''p'', set_columns sample_completion (new_row 3 sample_create))]"
proof -
  have "up_proof_status sample_completion = Some StCompleted" by (simp add: sample_completion_def)
  from status_update [OF this] show ?thesis
    by (simp add: sample_done_db_def proof_request_update_def sample_completion_def no_update_def sample_db_def)
      (simp add: new_row_def)
qed

lemma sample_done_row:
  "map_of sample_done_db ''p'' = Some (set_columns sample_completion (new_row 3 sample_create))"
  "db_proof_status (set_columns sample_completion (new_row 3 sample_create)) = StCompleted"
  by (simp_all add: sample_done_eq sample_completion_def)

end
