(* ===== verification/Sample_Cluster.thy ===== *)
theory Sample_Cluster
  imports Sample_Run
begin

text \<open>
  Two short runs of the coordinator together with the cluster API.  A pending row is claimed and its
  proof completes; in the first run after the claim was entered in \<open>task_map\<close>, in the second before.
\<close>

definition sample_codec :: Codec where
  "sample_codec =
     \<lparr>cd_hex = (\<lambda>_. ''00''), cd_input_metadata = (\<lambda>_. Some ''{}''), cd_result_metadata = (\<lambda>_. Some ''null'')\<rparr>"

definition sample_ctx :: Ctx where
  "sample_ctx =
     \<lparr>cx_now = 1, cx_tick = 1, cx_id = ''c'', cx_alive = (\<lambda>_. True), cx_controller_weight = 4,
      cx_from_json = (\<lambda>_. Some \<lparr>tm_gpu_ms = 5\<rparr>), cx_handle = 1\<rparr>"

abbreviation dflt :: "DefaultPolicy AssignmentPolicy" where
  "dflt \<equiv> default_policy sample_env"

definition sample_wired :: "DefaultPolicy Coordinator" where
  "sample_wired = (Coordinator_new dflt 0 0)\<lparr>c_state := set_proofs_tx 9 (initial_state (ap_default dflt) 0 0)\<rparr>"

lemma sample_wired_service: "service_reachable dflt (default_view sample_env) sample_wired"
  unfolding sample_wired_def by (rule svc_step [OF svc_init svc_quiet]) (simp add: Coordinator_new_def step_set_proofs_tx)

definition sample_row :: ProofRequest where
  "sample_row = the (into_proto (new_row 3 sample_create))"

definition sample_polled :: "DefaultPolicy ClusterTasks" where
  "sample_polled = start_claiming [sample_row] (cluster_init sample_wired sample_db)"

definition sample_claimed :: "DefaultPolicy ClusterTasks" where
  "sample_claimed = claim_row dflt sample_codec sample_ctx sample_row [] [] sample_polled"

lemma sample_row_simps [simp]:
  "rq_id sample_row = ''p''" "rq_options_artifact_id sample_row = Some ''o''" "rq_cycle_limit sample_row = Some 7"
  "rq_proof_artifact_id sample_row = Some ''r''" "rq_program_artifact_id sample_row = ''g''" "rq_stdin_artifact_id sample_row = ''i''"
  "rq_deadline sample_row = 100" "rq_stdin_private sample_row = False"
  by (simp_all add: sample_row_def into_proto_def execution_of_def new_row_def sample_create_def as_u64_as_i64)

lemma sample_listing: "listing_from (\<lambda>_. sample_db) 0 = Inr [sample_row]"
proof -
  have sel: "selected_rows (claim_filter 0) sample_db = [new_row 3 sample_create]"
    by (simp add: selected_rows_def sample_db_def hm_values_def list_matches_def claim_filter_def new_row_def sample_create_def as_i64_def)
  have "length (selected_rows (claim_filter 0) sample_db) \<le> MAX_PAGES * PROOF_REQUEST_PAGE_SIZE"
    by (simp add: sel MAX_PAGES_def PROOF_REQUEST_PAGE_SIZE_def)
  from get_all_exact [OF sample_db_ok this] show ?thesis by (simp add: listing_from_def sel sample_row_def)
qed

lemma sample_polled_reachable: "cluster_reachable dflt (default_view sample_env) sample_codec 9 sample_polled"
proof -
  have later: "table_later sample_db sample_db" by (simp add: table_later_def sample_db_ok)
  have "cluster_reachable dflt (default_view sample_env) sample_codec 9 (cluster_init sample_wired sample_db)"
    by (rule cl_init [OF sample_wired_service sample_db_ok])
  moreover have "cluster_step dflt (default_view sample_env) sample_codec 9 (cluster_init sample_wired sample_db) sample_polled"
    unfolding sample_polled_def
    by (rule cl_poll [OF _ _ sample_listing]) (simp_all add: cluster_init_def later)
  ultimately show ?thesis by (rule cl_step)
qed

text \<open>The state of the coordinator once the proof was created.\<close>

definition sample_request_claimed :: CreateProofRequest where
  "sample_request_claimed = the (claim_request sample_codec sample_row)"

definition sample_proving :: "DefaultPolicy CoordinatorState" where
  "sample_proving = snd (create_proof dflt 1 ''c'' 4 sample_request_claimed (c_state sample_wired))"

lemma sample_request_claimed: "claim_request sample_codec sample_row = Some sample_request_claimed"
  "cpr_proof_id sample_request_claimed = ''p''" "cpr_expires_at sample_request_claimed = 100"
  by (simp_all add: sample_request_claimed_def claim_request_def sample_codec_def as_i64_def)

lemma sample_wired_state:
  "workers (c_state sample_wired) = []" "proofs (c_state sample_wired) = []"
  "policy (c_state sample_wired) = \<lparr>dp_cpu_queue = [], dp_gpu_queue = []\<rparr>"
  "shutting_down (c_state sample_wired) = False" "execute_only_mode (c_state sample_wired) = False"
  "proofs_tx (c_state sample_wired) = Some 9" "wire (c_state sample_wired) = []"
  by (simp_all add: sample_wired_def set_proofs_tx_def initial_state_def default_policy_def)

lemma sample_created_ok: "\<exists>t. fst (create_proof dflt 1 ''c'' 4 sample_request_claimed (c_state sample_wired)) = Inr t"
  by (simp add: create_proof_def create_task_internal_def sample_wired_state sample_request_claimed Let_def)

lemma sample_proving_state:
  "map_of (proofs sample_proving) ''p'' \<noteq> None" "proofs_tx sample_proving = Some 9" "wire sample_proving = []"
  by (simp_all add: sample_proving_def create_proof_def create_task_internal_def new_task_def Proof_new_def expiry_def
      get_queued_task_def best_worker_def hm_values_def get_task_internal_def worker_type_from_task_type_def heap_push_def
      sample_wired_state sample_request_claimed sample_env_def default_defs Let_def)

abbreviation reached :: "DefaultPolicy ClusterTasks \<Rightarrow> bool" where
  "reached \<equiv> cluster_reachable dflt (default_view sample_env) sample_codec 9"

lemma sample_claimed_eq:
  "sample_claimed = sample_polled\<lparr>ct_coordinator := sample_wired\<lparr>c_state := sample_proving\<rparr>, ct_claimer := Inserting ''p'' [] [''p'']\<rparr>"
  using sample_created_ok
  by (auto simp: sample_claimed_def claim_row_def sample_polled_def start_claiming_def cluster_init_def sample_request_claimed
      sample_ctx_def as_answer_def sample_proving_def)

lemma sample_claimed_reachable: "reached sample_claimed"
proof -
  have co: "ct_coordinator sample_polled = sample_wired" by (simp add: sample_polled_def start_claiming_def cluster_init_def)
  have "fresh_task (default_view sample_env) ''c'' (c_state sample_wired)"
    by (rule fresh_by_fields [OF sample_wired_state(1,2) refl]) (simp_all add: sample_wired_state)
  then have "cluster_step dflt (default_view sample_env) sample_codec 9 sample_polled sample_claimed"
    unfolding sample_claimed_def
    by (intro cl_claim) (simp_all add: co, simp_all add: sample_ctx_def sample_polled_def start_claiming_def)
  with sample_polled_reachable show ?thesis by (rule cl_step)
qed

definition sample_result :: ProofResult where
  "sample_result = \<lparr>pr_id = ''p'', pr_success = True, pr_metadata = Some (), pr_extra_data = None\<rparr>"

text \<open>The worker reports the proof complete: the result is on its way.\<close>

definition completed :: "DefaultPolicy ClusterTasks \<Rightarrow> DefaultPolicy ClusterTasks" where
  "completed c = c\<lparr>ct_coordinator := sample_wired\<lparr>c_state := send (ToProofs 9 sample_result) sample_proving\<rparr>\<rparr>"

lemma completed_reachable:
  assumes "reached c" and "ct_coordinator c = sample_wired\<lparr>c_state := sample_proving\<rparr>"
  shows "reached (completed c)"
proof -
  have fin: "complete_proof ''p'' None sample_proving = Inr (send (ToProofs 9 sample_result) sample_proving)"
    using sample_proving_state by (auto simp: complete_proof_def sample_result_def)
  have "service_step dflt (default_view sample_env) (sample_wired\<lparr>c_state := sample_proving\<rparr>)
      (sample_wired\<lparr>c_state := sample_proving\<rparr>\<lparr>c_state := send (ToProofs 9 sample_result) sample_proving\<rparr>)"
    by (rule svc_quiet) (simp add: step_complete_proof [OF fin])
  then have "cluster_step dflt (default_view sample_env) sample_codec 9 c (completed c)"
    unfolding completed_def by (intro cl_service) (simp add: assms(2))
  with assms(1) show ?thesis by (rule cl_step)
qed

lemma received_reachable:
  assumes "reached c" and "ct_coordinator c = sample_wired\<lparr>c_state := send (ToProofs 9 sample_result) sample_proving\<rparr>"
    and "ct_received c = 0" and "ct_status_write c = None"
  shows "reached (receive_result sample_codec sample_result c)"
  by (rule cl_step [OF assms(1) cl_receive [where r = sample_result and rs = "[]"]])
    (simp_all add: assms send_def sample_proving_state proof_results_def)

text \<open>First run: the claim is entered, then the result arrives.\<close>

definition sample_recorded :: "DefaultPolicy ClusterTasks" where
  "sample_recorded = receive_result sample_codec sample_result (completed (insert_claim ''p'' [] [''p''] sample_claimed))"

text \<open>Second run: the result arrives before the claim is entered.\<close>

definition sample_early :: "DefaultPolicy ClusterTasks" where
  "sample_early = insert_claim ''p'' [] [''p''] (receive_result sample_codec sample_result (completed sample_claimed))"

lemmas cluster_defs = insert_claim_def completed_def receive_result_def sample_claimed_eq sample_polled_def
  start_claiming_def cluster_init_def sample_result_def Let_def

lemma sample_recorded_reachable: "reached sample_recorded"
  unfolding sample_recorded_def
proof (rule received_reachable [OF completed_reachable])
  show "reached (insert_claim ''p'' [] [''p''] sample_claimed)"
    by (rule cl_step [OF sample_claimed_reachable cl_insert]) (simp add: sample_claimed_eq)
qed (simp_all add: cluster_defs)

lemma sample_early_reachable: "reached sample_early"
proof -
  have "reached (receive_result sample_codec sample_result (completed sample_claimed))"
    by (rule received_reachable [OF completed_reachable [OF sample_claimed_reachable]]) (simp_all add: cluster_defs)
  then show ?thesis
    unfolding sample_early_def by (rule cl_step [OF _ cl_insert]) (simp add: cluster_defs)
qed

lemma sample_recorded_state:
  "ct_recorded sample_recorded = [''p'']" "ct_db sample_recorded = sample_db"
  by (simp_all add: sample_recorded_def cluster_defs)

lemma sample_early_state:
  "ct_received sample_early = 1" "map_of (ct_task_map sample_early) ''p'' = Some Claimed" "ct_db sample_early = sample_db"
  "ct_status_write sample_early = None" "ct_reissues sample_early = []"
  "proof_results 9 (wire (c_state (ct_coordinator sample_early))) = [sample_result]"
  by (simp_all add: sample_early_def cluster_defs) (simp add: send_def sample_proving_state proof_results_def)

lemma sample_db_pending: "\<not> row_settled sample_db ''p''"
  by (simp add: row_settled_def sample_db_def new_row_def)

end
