(* ===== verification/Fulfiller.thy ===== *)
theory Fulfiller
  imports Cluster
begin

text \<open>
  The fulfiller (\<open>crates/fulfillment/src/lib.rs\<close>, \<open>network.rs\<close>, \<open>prover_info.rs\<close>): it schedules
  assigned requests of the network in the cluster, submits completed proofs, reports failures, cancels
  what the network no longer wants, and forwards the component manifest.

  The network is outside of the sources: the answers of its calls are arguments, \<open>fu_calls\<close> records the
  calls with whether an acceptance arrived.  Artifact transfers and JSON decoding are arguments as well.
  Errors of the \<open>anyhow\<close> kind are strings.
\<close>

section \<open>Reports\<close>

record ComponentInfo =
  cp_component :: string
  cp_version :: string
  cp_git_sha :: string
  cp_image_tag :: string

record BuildIdentity =
  bi_version :: string
  bi_git_sha :: string
  bi_image_tag :: string

definition MAX_MANIFEST_AGE_SECS :: nat where
  "MAX_MANIFEST_AGE_SECS = 5 * 60"

definition fresh_manifest_components :: "ClusterComponentManifest \<Rightarrow> nat \<Rightarrow> ClusterComponentInfo list anyhow" where
  "fresh_manifest_components manifest now =
     (if cm_updated_at manifest = 0
      then Inl ''cluster API has no component manifest yet (coordinator has not pushed one)''
      else if saturating_sub now (cm_updated_at manifest) > MAX_MANIFEST_AGE_SECS
      then Inl ''cluster component manifest is stale; coordinator may be down''
      else Inr (cm_components manifest))"

definition fulfiller_component :: "BuildIdentity \<Rightarrow> ComponentInfo" where
  "fulfiller_component identity =
     \<lparr>cp_component = ''fulfiller'', cp_version = bi_version identity, cp_git_sha = bi_git_sha identity,
      cp_image_tag = bi_image_tag identity\<rparr>"

definition component_from_cluster :: "ClusterComponentInfo \<Rightarrow> ComponentInfo" where
  "component_from_cluster c =
     \<lparr>cp_component = cc_component c, cp_version = cc_version c, cp_git_sha = cc_git_sha c, cp_image_tag = cc_image_tag c\<rparr>"

text \<open>The loop of \<open>assemble_components\<close>; the key of the set is the whole build identity.\<close>

fun dedup_components :: "ComponentInfo list \<Rightarrow> ComponentInfo list \<Rightarrow> ComponentInfo list" where
  "dedup_components seen [] = []"
| "dedup_components seen (c # cs) =
     (if c \<in> set seen then dedup_components seen cs else c # dedup_components (hs_insert c seen) cs)"

definition count_named :: "string \<Rightarrow> ComponentInfo list \<Rightarrow> nat" where
  "count_named name components = length (filter (\<lambda>c. cp_component c = name) components)"

definition assemble_components :: "BuildIdentity \<Rightarrow> ClusterComponentInfo list \<Rightarrow> ComponentInfo list anyhow" where
  "assemble_components identity cluster_components =
     (let components = fulfiller_component identity # dedup_components [] (map component_from_cluster cluster_components)
      in if count_named ''fulfiller'' components > 1
         then Inl ''manifest reported several fulfiller builds; refusing to send a malformed report''
         else if count_named ''coordinator'' components \<noteq> 1
         then Inl ''cluster manifest did not report exactly one coordinator build; refusing to send a malformed report''
         else Inr components)"

lemma dedup_components_spec:
  "set (dedup_components seen cs) = set cs - set seen \<and> distinct (dedup_components seen cs)"
  by (induction cs arbitrary: seen) auto

lemma assemble_components_spec:
  assumes "assemble_components identity cs = Inr components"
  shows "\<exists>rest. components = fulfiller_component identity # rest \<and> distinct rest \<and> set rest = component_from_cluster ` set cs"
    and "count_named ''fulfiller'' components = 1" and "count_named ''coordinator'' components = 1"
proof -
  let ?rest = "dedup_components [] (map component_from_cluster cs)"
  have c: "components = fulfiller_component identity # ?rest" "count_named ''fulfiller'' components \<le> 1"
    and "count_named ''coordinator'' components = 1"
    using assms by (auto simp: assemble_components_def Let_def split: if_splits)
  then show "count_named ''coordinator'' components = 1" by simp
  show "\<exists>rest. components = fulfiller_component identity # rest \<and> distinct rest \<and> set rest = component_from_cluster ` set cs"
    using c(1) dedup_components_spec [of "[]" "map component_from_cluster cs"] by simp
  show "count_named ''fulfiller'' components = 1"
    using c by (simp add: count_named_def fulfiller_component_def)
qed

text \<open>
  What the coordinator pushes is never malformed: its own entry is the only one named \<open>coordinator\<close>,
  and workers report themselves as nodes.
\<close>

lemma count_named_unique:
  "distinct cs \<Longrightarrow> count_named name cs = card {c \<in> set cs. cp_component c = name}"
  by (simp add: count_named_def distinct_length_filter Int_def conj_commute)

lemma worker_component_named:
  "worker_component w = Some c \<Longrightarrow> cc_component c = ''cpu-node'' \<or> cc_component c = ''gpu-node''"
  by (auto simp: worker_component_def split: option.splits elim!: worker_component_name.elims)

lemma manifest_assembles:
  assumes "cc_component own = ''coordinator''"
  shows "\<exists>components. assemble_components identity (ci_components (fst (get_cluster_info own tick now st))) = Inr components"
proof -
  let ?cs = "ci_components (fst (get_cluster_info own tick now st))"
  let ?rest = "dedup_components [] (map component_from_cluster ?cs)"
  have named: "cc_component c = ''coordinator'' \<longleftrightarrow> c = own" "cc_component c \<noteq> ''fulfiller''" if "c \<in> set ?cs" for c
    using that assms worker_component_named
    by (force simp: get_cluster_info_def Let_def List.map_filter_def)+
  have rest: "set ?rest = component_from_cluster ` set ?cs" "distinct ?rest"
    using dedup_components_spec [of "[]" "map component_from_cluster ?cs"] by auto
  have own: "own \<in> set ?cs" by (simp add: get_cluster_info_def Let_def)
  have "{c \<in> set ?rest. cp_component c = ''coordinator''} = {component_from_cluster own}"
    using named(1) own assms by (force simp: rest component_from_cluster_def)
  then have "count_named ''coordinator'' ?rest = 1" by (simp add: count_named_unique [OF rest(2)])
  moreover have "{c \<in> set ?rest. cp_component c = ''fulfiller''} = {}"
    using named(2) by (force simp: rest component_from_cluster_def)
  then have "count_named ''fulfiller'' ?rest = 0" by (simp only: count_named_unique [OF rest(2)] card.empty)
  ultimately show ?thesis
    by (simp add: assemble_components_def Let_def count_named_def fulfiller_component_def)
qed

section \<open>Errors reported with a failed request\<close>

datatype ProofRequestError =
    ExecutionFailure
  | VerificationKeyMismatch
  | ProvingFailureError

text \<open>\<open>execution\<close> and \<open>failure\<close> decode the two JSON shapes of \<open>extra_data\<close>.\<close>

definition request_error_from_extra_data ::
  "(string \<Rightarrow> ExecutionResult option) \<Rightarrow> (string \<Rightarrow> 'f option) \<Rightarrow> string option \<Rightarrow> ProofRequestError option" where
  "request_error_from_extra_data execution failure extra_data =
     (case extra_data of
        None \<Rightarrow> None
      | Some s \<Rightarrow>
          (case execution s of
             Some er \<Rightarrow>
               (if er_failure_cause er \<noteq> 0 then Some ExecutionFailure
                else map_option (\<lambda>_. ProvingFailureError) (failure s))
           | None \<Rightarrow> map_option (\<lambda>_. ProvingFailureError) (failure s)))"

fun contains :: "string \<Rightarrow> string \<Rightarrow> bool" where
  "contains [] s = (s = [])"
| "contains (c # cs) s = (take (length s) (c # cs) = s \<or> contains cs s)"

definition VK_MISMATCH_STRINGS :: "string list" where
  "VK_MISMATCH_STRINGS =
     [''InvalidPowWitness'', ''sp1 vk hash mismatch'', ''vk hash from syscall does not match vkey from input'']"

section \<open>State\<close>

datatype NetCall =
    NetSubmit string
  | NetFail string "ProofRequestError option"
  | NetCancel string

record FulfillerState =
  fu_db :: db
  fu_calls :: "(NetCall \<times> bool) list"
  fu_deleted :: "string list"

record FulfillerConfig =
  fc_disable_fulfillment :: bool
  fc_name :: "string option"
  fc_copy_artifacts :: bool
  fc_process_all :: bool
  fc_percent :: nat
  fc_should_download_proofs :: bool
  fc_hex_decode :: "string \<Rightarrow> nat list option"

definition call_network :: "NetCall \<Rightarrow> unit anyhow \<Rightarrow> FulfillerState \<Rightarrow> FulfillerState" where
  "call_network call answer f = f\<lparr>fu_calls := fu_calls f @ [(call, answer = Inr ())]\<rparr>"

text \<open>Marking a row handled; \<open>avail\<close> says whether the write reaches the table and is answered.\<close>

definition mark_handled :: "bool \<Rightarrow> string \<Rightarrow> FulfillerState \<Rightarrow> unit anyhow \<times> FulfillerState" where
  "mark_handled avail i f =
     (case proof_request_update avail ((no_update i)\<lparr>up_handled := Some True\<rparr>) (fu_db f) of
        (None, db') \<Rightarrow> (Inr (), f\<lparr>fu_db := db'\<rparr>)
      | (Some e, db') \<Rightarrow> (Inl ''failed to update proof request status'', f\<lparr>fu_db := db'\<rparr>))"

section \<open>Submitting and failing\<close>

definition submit_filter :: "FulfillerConfig \<Rightarrow> nat \<Rightarrow> ProofRequestListRequest" where
  "submit_filter cfg now =
     \<lparr>ls_proof_status = [StCompleted], ls_execution_status = [], ls_minimum_deadline = Some now,
      ls_handled = Some False, ls_scheduled_by = fc_name cfg, ls_limit = None, ls_offset = None\<rparr>"

definition fail_filter :: "FulfillerConfig \<Rightarrow> nat \<Rightarrow> ProofRequestListRequest" where
  "fail_filter cfg now = (submit_filter cfg now)\<lparr>ls_proof_status := [StFailed]\<rparr>"

text \<open>
  The outcomes of the outside calls of one submission: the download of the proof, the answer of the
  network, the write to the cluster API and the deletion of the artifact.
\<close>

record SubmitEnv =
  se_download :: "nat list anyhow"
  se_network :: "unit anyhow"
  se_avail :: bool
  se_delete :: "unit anyhow"

definition finish_submit :: "SubmitEnv \<Rightarrow> ProofRequest \<Rightarrow> FulfillerState \<Rightarrow> unit anyhow \<times> FulfillerState" where
  "finish_submit env request f =
     (case mark_handled (se_avail env) (rq_id request) f of
        (Inl e, f1) \<Rightarrow> (Inl e, f1)
      | (Inr u, f1) \<Rightarrow>
          (case rq_proof_artifact_id request of
             None \<Rightarrow> (Inr (), f1)
           | Some a \<Rightarrow>
               (case se_delete env of
                  Inl e \<Rightarrow> (Inl e, f1)
                | Inr v \<Rightarrow> (Inr (), f1\<lparr>fu_deleted := fu_deleted f1 @ [a]\<rparr>))))"

definition submit_request ::
  "FulfillerConfig \<Rightarrow> SubmitEnv \<Rightarrow> ProofRequest \<Rightarrow> FulfillerState \<Rightarrow> unit anyhow \<times> FulfillerState" where
  "submit_request cfg env request f =
     (case (rq_proof_artifact_id request, fc_should_download_proofs cfg, se_download env) of
        (Some a, True, Inl e) \<Rightarrow> (Inl e, f)
      | _ \<Rightarrow>
          (if fc_hex_decode cfg (rq_id request) = None then mark_handled (se_avail env) (rq_id request) f
           else if fc_disable_fulfillment cfg then finish_submit env request f
           else let f1 = call_network (NetSubmit (rq_id request)) (se_network env) f
                in case se_network env of
                     Inl e \<Rightarrow> (Inl e, f1)
                   | Inr u \<Rightarrow> finish_submit env request f1))"

text \<open>The work of one request in \<open>submit_requests\<close>: a mismatch of the verifying key fails the request.\<close>

definition submit_work ::
  "FulfillerConfig \<Rightarrow> SubmitEnv \<Rightarrow> unit anyhow \<Rightarrow> ProofRequest \<Rightarrow> FulfillerState \<Rightarrow> FulfillerState" where
  "submit_work cfg env fail_answer request f =
     (case submit_request cfg env request f of
        (Inr u, f1) \<Rightarrow> f1
      | (Inl e, f1) \<Rightarrow>
          (if list_ex (contains e) VK_MISMATCH_STRINGS
           then call_network (NetFail (rq_id request) (Some VerificationKeyMismatch)) fail_answer f1
           else f1))"

definition fail_request ::
  "FulfillerConfig \<Rightarrow> (string option \<Rightarrow> ProofRequestError option) \<Rightarrow> SubmitEnv \<Rightarrow> ProofRequest \<Rightarrow> FulfillerState \<Rightarrow>
     unit anyhow \<times> FulfillerState" where
  "fail_request cfg err env request f =
     (if fc_disable_fulfillment cfg then mark_handled (se_avail env) (rq_id request) f
      else let f1 = call_network (NetFail (rq_id request) (err (rq_extra_data request))) (se_network env) f
           in case se_network env of
                Inl e \<Rightarrow> (Inl e, f1)
              | Inr u \<Rightarrow> mark_handled (se_avail env) (rq_id request) f1)"

section \<open>Cancelling\<close>

datatype CancelableKind =
    Unexecutable
  | Unfulfillable
  | Fulfilled

fun should_fail_fulfillment :: "CancelableKind \<Rightarrow> bool" where
  "should_fail_fulfillment Unexecutable = True"
| "should_fail_fulfillment Unfulfillable = False"
| "should_fail_fulfillment Fulfilled = False"

fun gated_on_in_flight :: "CancelableKind \<Rightarrow> bool" where
  "gated_on_in_flight Unexecutable = False"
| "gated_on_in_flight Unfulfillable = False"
| "gated_on_in_flight Fulfilled = True"

text \<open>The requests of a pass that are acted on, given the ids in flight in the cluster.\<close>

definition cancel_targets :: "string hash_set \<Rightarrow> (string \<times> CancelableKind) list \<Rightarrow> (string \<times> CancelableKind) list" where
  "cancel_targets in_flight requests =
     filter (\<lambda>(i, kind). \<not> (gated_on_in_flight kind \<and> i \<notin> set in_flight)) requests"

definition cancel_request ::
  "FulfillerConfig \<Rightarrow> unit anyhow \<Rightarrow> bool \<Rightarrow> string \<Rightarrow> CancelableKind \<Rightarrow> FulfillerState \<Rightarrow> unit anyhow \<times> FulfillerState" where
  "cancel_request cfg answer avail i kind f =
     (let on_network = (should_fail_fulfillment kind \<and> \<not> fc_disable_fulfillment cfg);
          f1 = (if on_network then call_network (NetCancel i) answer f else f)
      in if on_network \<and> answer \<noteq> Inr () then (answer, f1)
         else case proof_request_cancel avail i (fu_db f1) of
                (None, db') \<Rightarrow> (Inr (), f1\<lparr>fu_db := db'\<rparr>)
              | (Some e, db') \<Rightarrow> (Inl ''failed to update proof request status'', f1\<lparr>fu_db := db'\<rparr>))"

section \<open>Scheduling\<close>

record NetworkRequest =
  nr_request_id :: string
  nr_program_uri :: string
  nr_stdin_uri :: string
  nr_deadline :: nat
  nr_cycle_limit :: nat
  nr_gas_limit :: nat
  nr_requester :: "nat list"
  nr_mode :: int
  nr_stdin_private :: bool

text \<open>The last segment of a URL; \<open>split\<close> yields at least one, so the error case is never reached.\<close>

definition extract_artifact_name :: "string \<Rightarrow> string" where
  "extract_artifact_name s3_url = rev (takeWhile (\<lambda>c. c \<noteq> CHR ''/'') (rev s3_url))"

text \<open>The sum of the bytes of the id, in 64 bits.\<close>

definition request_hash :: "string \<Rightarrow> nat" where
  "request_hash i = fold (\<lambda>c acc. u64_add acc (of_char c)) i 0"

definition schedule_keep :: "FulfillerConfig \<Rightarrow> string hash_set \<Rightarrow> NetworkRequest \<Rightarrow> bool" where
  "schedule_keep cfg cluster_requests request =
     (if nr_request_id request \<in> set cluster_requests then False
      else if fc_process_all cfg then True
      else request_hash (nr_request_id request) mod 100 < fc_percent cfg)"

definition schedule_given_requests :: "FulfillerConfig \<Rightarrow> string hash_set \<Rightarrow> NetworkRequest list \<Rightarrow> NetworkRequest list" where
  "schedule_given_requests cfg cluster_requests network_requests =
     filter (schedule_keep cfg cluster_requests) (rev network_requests)"

text \<open>Copying an artifact: whether it exists, its download and its upload.\<close>

record CopyEnv =
  ce_exists :: "bool anyhow"
  ce_download :: "nat list anyhow"
  ce_upload :: "unit anyhow"

definition copy_artifact :: "CopyEnv \<Rightarrow> unit anyhow" where
  "copy_artifact env =
     (case ce_exists env of
        Inl e \<Rightarrow> Inl e
      | Inr True \<Rightarrow> Inr ()
      | Inr False \<Rightarrow>
          (case ce_download env of Inl e \<Rightarrow> Inl e | Inr bytes \<Rightarrow> ce_upload env))"

record ScheduleEnv =
  sv_artifact :: "string anyhow"
  sv_program :: CopyEnv
  sv_stdin_uri :: "string anyhow"
  sv_stdin :: CopyEnv
  sv_avail :: bool
  sv_now :: SystemTime

definition copy_inputs :: "FulfillerConfig \<Rightarrow> ScheduleEnv \<Rightarrow> unit anyhow" where
  "copy_inputs cfg env =
     (if \<not> fc_copy_artifacts cfg then Inr ()
      else case copy_artifact (sv_program env) of
             Inl e \<Rightarrow> Inl e
           | Inr u \<Rightarrow>
               (case sv_stdin_uri env of Inl e \<Rightarrow> Inl e | Inr uri \<Rightarrow> copy_artifact (sv_stdin env)))"

definition create_request :: "FulfillerConfig \<Rightarrow> string \<Rightarrow> NetworkRequest \<Rightarrow> ProofRequestCreateRequest" where
  "create_request cfg proof_artifact_id request =
     \<lparr>cr_proof_id = nr_request_id request, cr_requester = nr_requester request,
      cr_stdin_artifact_id = extract_artifact_name (nr_stdin_uri request),
      cr_program_artifact_id = extract_artifact_name (nr_program_uri request),
      cr_options_artifact_id = Some (show_int (nr_mode request)), cr_proof_artifact_id = Some proof_artifact_id,
      cr_cycle_limit = nr_cycle_limit request, cr_deadline = nr_deadline request, cr_gas_limit = nr_gas_limit request,
      cr_scheduled_by = fc_name cfg, cr_stdin_private = nr_stdin_private request\<rparr>"

datatype ScheduleOutcome =
    Created
  | AlreadyInCluster

definition schedule_request ::
  "FulfillerConfig \<Rightarrow> ScheduleEnv \<Rightarrow> NetworkRequest \<Rightarrow> FulfillerState \<Rightarrow> ScheduleOutcome anyhow \<times> FulfillerState" where
  "schedule_request cfg env request f =
     (case sv_artifact env of
        Inl e \<Rightarrow> (Inl e, f)
      | Inr proof_artifact_id \<Rightarrow>
          (case copy_inputs cfg env of
             Inl e \<Rightarrow> (Inl e, f)
           | Inr u \<Rightarrow>
               (case proof_request_create (sv_avail env) (sv_now env) (create_request cfg proof_artifact_id request) (fu_db f) of
                  (None, db') \<Rightarrow> (Inr Created, f\<lparr>fu_db := db'\<rparr>)
                | (Some (AlreadyExists m), db') \<Rightarrow> (Inr AlreadyInCluster, f\<lparr>fu_db := db'\<rparr>)
                | (Some e, db') \<Rightarrow> (Inl ''failed to create proof request'', f\<lparr>fu_db := db'\<rparr>))))"

section \<open>Steps\<close>

text \<open>
  The tasks of a pass run concurrently, each for a different request, and the passes repeat; a step is
  one task.  \<open>snap\<close> is the table the request was listed from.  Everything else that writes to the table
  (the coordinator, other clients) leaves \<open>handled\<close> alone.
\<close>

inductive fulfiller_step ::
  "FulfillerConfig \<Rightarrow> (string option \<Rightarrow> ProofRequestError option) \<Rightarrow> FulfillerState \<Rightarrow> FulfillerState \<Rightarrow> bool"
  for cfg :: FulfillerConfig and err :: "string option \<Rightarrow> ProofRequestError option" where
  fu_create: "proof_request_create avail now req (fu_db f) = (e, db') \<Longrightarrow> fulfiller_step cfg err f (f\<lparr>fu_db := db'\<rparr>)"
| fu_update:
    "up_handled req = None \<Longrightarrow> proof_request_update avail req (fu_db f) = (e, db') \<Longrightarrow>
     fulfiller_step cfg err f (f\<lparr>fu_db := db'\<rparr>)"
| fu_submit:
    "table_later snap (fu_db f) \<Longrightarrow> map_of snap i = Some row \<Longrightarrow> list_matches (submit_filter cfg now) row \<Longrightarrow>
     into_proto row = Some r \<Longrightarrow> fulfiller_step cfg err f (submit_work cfg env answer r f)"
| fu_fail:
    "table_later snap (fu_db f) \<Longrightarrow> map_of snap i = Some row \<Longrightarrow> list_matches (fail_filter cfg now) row \<Longrightarrow>
     into_proto row = Some r \<Longrightarrow> fulfiller_step cfg err f (snd (fail_request cfg err env r f))"
| fu_cancel: "fulfiller_step cfg err f (snd (cancel_request cfg answer avail i kind f))"
| fu_schedule: "fulfiller_step cfg err f (snd (schedule_request cfg senv request f))"

inductive fulfiller_reachable ::
  "FulfillerConfig \<Rightarrow> (string option \<Rightarrow> ProofRequestError option) \<Rightarrow> FulfillerState \<Rightarrow> bool"
  for cfg :: FulfillerConfig and err :: "string option \<Rightarrow> ProofRequestError option" where
  fu_init: "fulfiller_reachable cfg err \<lparr>fu_db = [], fu_calls = [], fu_deleted = []\<rparr>"
| fu_step: "fulfiller_reachable cfg err f \<Longrightarrow> fulfiller_step cfg err f f' \<Longrightarrow> fulfiller_reachable cfg err f'"

section \<open>Handled means answered\<close>

definition answered :: "FulfillerConfig \<Rightarrow> (NetCall \<times> bool) list \<Rightarrow> string \<Rightarrow> ProofRequestStatus \<Rightarrow> bool" where
  "answered cfg calls i status \<longleftrightarrow>
     fc_disable_fulfillment cfg \<or> fc_hex_decode cfg i = None \<or>
     (status = StCompleted \<and> (NetSubmit i, True) \<in> set calls) \<or>
     (status = StFailed \<and> (\<exists>e. (NetFail i e, True) \<in> set calls))"

definition handled_ok :: "FulfillerConfig \<Rightarrow> FulfillerState \<Rightarrow> bool" where
  "handled_ok cfg f \<longleftrightarrow>
     db_ok (fu_db f) \<and>
     (\<forall>i row. map_of (fu_db f) i = Some row \<longrightarrow> db_handled row \<longrightarrow> answered cfg (fu_calls f) i (db_proof_status row))"

lemma handled_okD:
  assumes "handled_ok cfg f"
  shows "db_ok (fu_db f)"
    and "map_of (fu_db f) i = Some row \<Longrightarrow> db_handled row \<Longrightarrow> answered cfg (fu_calls f) i (db_proof_status row)"
  using assms unfolding handled_ok_def by blast+

lemma answered_more: "answered cfg calls i status \<Longrightarrow> answered cfg (calls @ calls') i status"
  by (auto simp: answered_def)

lemma call_network_frame [simp]:
  "fu_db (call_network call answer f) = fu_db f"
  "fu_calls (call_network call answer f) = fu_calls f @ [(call, answer = Inr ())]"
  by (simp_all add: call_network_def)

lemma handled_ok_call: "handled_ok cfg f \<Longrightarrow> handled_ok cfg (call_network call answer f)"
  unfolding handled_ok_def using answered_more by simp

lemma answered_pending: "answered cfg calls i StPending \<Longrightarrow> answered cfg calls i status"
  by (auto simp: answered_def)

lemma handled_ok_others:
  assumes ok: "handled_ok cfg f" and step: "api_step (fu_db f) db'"
    and keeps: "\<And>i row'. map_of db' i = Some row' \<Longrightarrow> db_handled row' \<Longrightarrow> \<exists>row. map_of (fu_db f) i = Some row \<and> db_handled row"
  shows "handled_ok cfg (f\<lparr>fu_db := db'\<rparr>)"
  unfolding handled_ok_def
proof (intro conjI allI impI)
  show "db_ok (fu_db (f\<lparr>fu_db := db'\<rparr>))" using api_step_ok [OF step handled_okD(1) [OF ok]] by simp
  fix i row'
  assume "map_of (fu_db (f\<lparr>fu_db := db'\<rparr>)) i = Some row'" and "db_handled row'"
  then have row': "map_of db' i = Some row'" "db_handled row'" by simp_all
  from keeps [OF this] obtain row where row: "map_of (fu_db f) i = Some row" "db_handled row" by blast
  from api_step_settled [OF step row(1)] row'(1)
  have "db_proof_status row = StPending \<or> db_proof_status row' = db_proof_status row" by auto
  then show "answered cfg (fu_calls (f\<lparr>fu_db := db'\<rparr>)) i (db_proof_status row')"
    using handled_okD(2) [OF ok row] answered_pending [of cfg "fu_calls f" i] by auto
qed

lemma mark_handled_cases:
  obtains "snd (mark_handled avail i f) = f"
  | row where "map_of (fu_db f) i = Some row"
      "snd (mark_handled avail i f) = f\<lparr>fu_db := hm_insert i (row\<lparr>db_handled := True\<rparr>) (fu_db f)\<rparr>"
proof (cases "proof_request_update avail ((no_update i)\<lparr>up_handled := Some True\<rparr>) (fu_db f)")
  case (Pair e db')
  have "db' = fu_db f \<or> (\<exists>row. map_of (fu_db f) i = Some row \<and> db' = hm_insert i (row\<lparr>db_handled := True\<rparr>) (fu_db f))"
    using Pair by (auto simp: proof_request_update_def no_update_def set_columns_def Let_def split: if_splits option.splits)
  moreover have "snd (mark_handled avail i f) = f\<lparr>fu_db := db'\<rparr>"
    by (cases e) (simp_all add: mark_handled_def Pair)
  ultimately show thesis using that by auto
qed

lemma handled_ok_mark:
  assumes ok: "handled_ok cfg f"
    and known: "\<And>row. map_of (fu_db f) i = Some row \<Longrightarrow> answered cfg (fu_calls f) i (db_proof_status row)"
  shows "handled_ok cfg (snd (mark_handled avail i f))"
proof (cases rule: mark_handled_cases [of avail i f])
  case 1
  with ok show ?thesis by simp
next
  case (2 row)
  let ?row = "row\<lparr>db_handled := True\<rparr>"
  have "row_ok i ?row"
    using db_okD(2,3) [OF handled_okD(1) [OF ok] 2(1)] execution_of_cong [of ?row row] by (simp add: row_ok_def)
  then have "db_ok (hm_insert i ?row (fu_db f))" by (rule db_ok_insert [OF handled_okD(1) [OF ok]])
  with 2 known [OF 2(1)] handled_okD(2) [OF ok] show ?thesis by (auto simp: handled_ok_def)
qed

lemma mark_handled_calls [simp]: "fu_calls (snd (mark_handled avail i f)) = fu_calls f"
  by (cases rule: mark_handled_cases [of avail i f]) simp_all

lemma handled_ok_deleted [simp]: "handled_ok cfg (f\<lparr>fu_deleted := ds\<rparr>) = handled_ok cfg f"
  by (simp add: handled_ok_def)

lemma handled_ok_finish_submit:
  assumes "handled_ok cfg (snd (mark_handled (se_avail env) (rq_id r) f))"
  shows "handled_ok cfg (snd (finish_submit env r f))"
  using assms by (cases "mark_handled (se_avail env) (rq_id r) f")
    (auto simp: finish_submit_def split: sum.splits option.splits)

text \<open>The status a listed row had when it was read is the status it has now.\<close>

lemma listed_status:
  assumes "table_later snap db" and "map_of snap i = Some row" and "db_proof_status row \<noteq> StPending"
    and "into_proto row = Some r"
  shows "rq_id r = i \<and> (\<forall>row'. map_of db i = Some row' \<longrightarrow> db_proof_status row' = db_proof_status row)"
proof -
  have "rq_id r = i"
    using into_proto_id [OF assms(4)] db_okD(2) [OF _ assms(2)] assms(1) by (simp add: table_later_def)
  moreover have "\<exists>row'. map_of db i = Some row' \<and> db_proof_status row' = db_proof_status row"
    using api_steps_settled [OF _ assms(2)] assms(1,3) by (auto simp: table_later_def)
  ultimately show ?thesis by auto
qed

lemma handled_ok_submit:
  assumes ok: "handled_ok cfg f"
    and st: "\<And>row. map_of (fu_db f) (rq_id r) = Some row \<Longrightarrow> db_proof_status row = StCompleted"
  shows "handled_ok cfg (snd (submit_request cfg env r f))"
proof -
  let ?f = "call_network (NetSubmit (rq_id r)) (se_network env) f"
  have bad: "handled_ok cfg (snd (mark_handled (se_avail env) (rq_id r) f))" if "fc_hex_decode cfg (rq_id r) = None"
    by (rule handled_ok_mark [OF ok]) (simp add: answered_def that)
  have off: "handled_ok cfg (snd (finish_submit env r f))" if "fc_disable_fulfillment cfg"
    by (rule handled_ok_finish_submit, rule handled_ok_mark [OF ok]) (simp add: answered_def that)
  have sent: "handled_ok cfg (snd (finish_submit env r ?f))" if "se_network env = Inr ()"
    by (rule handled_ok_finish_submit, rule handled_ok_mark [OF handled_ok_call [OF ok]])
      (use st that in \<open>simp add: answered_def\<close>)
  show ?thesis
    using ok bad off sent handled_ok_call [OF ok]
    by (auto simp: submit_request_def Let_def split: option.splits bool.splits sum.splits)
qed

lemma handled_ok_fail:
  assumes ok: "handled_ok cfg f"
    and st: "\<And>row. map_of (fu_db f) (rq_id r) = Some row \<Longrightarrow> db_proof_status row = StFailed"
  shows "handled_ok cfg (snd (fail_request cfg err env r f))"
proof -
  let ?f = "call_network (NetFail (rq_id r) (err (rq_extra_data r))) (se_network env) f"
  have off: "handled_ok cfg (snd (mark_handled (se_avail env) (rq_id r) f))" if "fc_disable_fulfillment cfg"
    by (rule handled_ok_mark [OF ok]) (simp add: answered_def that)
  have sent: "handled_ok cfg (snd (mark_handled (se_avail env) (rq_id r) ?f))" if "se_network env = Inr ()"
    by (rule handled_ok_mark [OF handled_ok_call [OF ok]]) (use st that in \<open>auto simp: answered_def\<close>)
  show ?thesis
    using off sent handled_ok_call [OF ok] by (auto simp: fail_request_def Let_def split: sum.splits)
qed

lemma create_keeps_handled:
  "proof_request_create avail now req db = (e, db') \<Longrightarrow> map_of db' i = Some row' \<Longrightarrow> db_handled row' \<Longrightarrow>
   \<exists>row. map_of db i = Some row \<and> db_handled row"
  by (auto simp: proof_request_create_def new_row_def split: if_splits)

lemma cancel_keeps_handled:
  "proof_request_cancel avail j db = (e, db') \<Longrightarrow> map_of db' i = Some row' \<Longrightarrow> db_handled row' \<Longrightarrow>
   \<exists>row. map_of db i = Some row \<and> db_handled row"
  by (auto simp: proof_request_cancel_def split: if_splits option.splits)

lemma set_columns_handled: "up_handled req = None \<Longrightarrow> db_handled (set_columns req row) = db_handled row"
  by (simp add: set_columns_def Let_def split: option.splits)

lemma update_keeps_handled:
  "proof_request_update avail req db = (e, db') \<Longrightarrow> up_handled req = None \<Longrightarrow> map_of db' i = Some row' \<Longrightarrow> db_handled row' \<Longrightarrow>
   \<exists>row. map_of db i = Some row \<and> db_handled row"
  by (auto simp: proof_request_update_def Let_def set_columns_handled split: if_splits option.splits)

lemma handled_ok_cancel:
  assumes ok: "handled_ok cfg f"
  shows "handled_ok cfg (snd (cancel_request cfg answer avail i kind f))"
proof -
  have cancelled: "handled_ok cfg (g\<lparr>fu_db := db'\<rparr>)"
    if "handled_ok cfg g" "proof_request_cancel avail i (fu_db g) = (e, db')" for g e db'
    by (rule handled_ok_others [OF that(1) api_cancel [OF that(2)]]) (rule cancel_keeps_handled [OF that(2)])
  obtain e db' where c: "proof_request_cancel avail i (fu_db f) = (e, db')" by fastforce
  from cancelled [OF ok c] cancelled [OF handled_ok_call [OF ok, of "NetCancel i" answer], of e db'] c
    handled_ok_call [OF ok]
  show ?thesis by (auto simp: cancel_request_def Let_def split: option.splits)
qed

lemma handled_ok_schedule:
  assumes ok: "handled_ok cfg f"
  shows "handled_ok cfg (snd (schedule_request cfg env r f))"
proof -
  have "handled_ok cfg (f\<lparr>fu_db := db'\<rparr>)" if "proof_request_create avail now req (fu_db f) = (e, db')" for avail now req e db'
    by (rule handled_ok_others [OF ok api_create [OF that]]) (rule create_keeps_handled [OF that])
  with ok show ?thesis
    by (auto simp: schedule_request_def split: sum.splits prod.splits option.splits Status.splits)
qed

lemma handled_ok_step:
  assumes "fulfiller_step cfg err f f'" and ok: "handled_ok cfg f"
  shows "handled_ok cfg f'"
  using assms(1)
proof cases
  case (fu_create avail now req e db')
  show ?thesis unfolding fu_create(1)
    by (rule handled_ok_others [OF ok api_create [OF fu_create(2)]]) (rule create_keeps_handled [OF fu_create(2)])
next
  case (fu_update req avail e db')
  show ?thesis unfolding fu_update(1)
    by (rule handled_ok_others [OF ok api_update [OF fu_update(3)]]) (rule update_keeps_handled [OF fu_update(3,2)])
next
  case (fu_submit snap i row now r env answer)
  have "db_proof_status row = StCompleted" using fu_submit(4) by (simp add: list_matches_def submit_filter_def)
  with listed_status [OF fu_submit(2,3) _ fu_submit(5)]
  have "db_proof_status row' = StCompleted" if "map_of (fu_db f) (rq_id r) = Some row'" for row' using that by auto
  then have "handled_ok cfg (snd (submit_request cfg env r f))" by (rule handled_ok_submit [OF ok])
  then show ?thesis unfolding fu_submit(1)
    by (cases "submit_request cfg env r f") (auto simp: submit_work_def handled_ok_call split: sum.splits)
next
  case (fu_fail snap i row now r env)
  have "db_proof_status row = StFailed" using fu_fail(4) by (simp add: list_matches_def fail_filter_def submit_filter_def)
  with listed_status [OF fu_fail(2,3) _ fu_fail(5)]
  have "db_proof_status row' = StFailed" if "map_of (fu_db f) (rq_id r) = Some row'" for row' using that by auto
  then show ?thesis unfolding fu_fail(1) by (rule handled_ok_fail [OF ok])
qed (use handled_ok_cancel [OF ok] handled_ok_schedule [OF ok] in simp_all)

lemma fulfiller_reachable_ok: "fulfiller_reachable cfg err f \<Longrightarrow> handled_ok cfg f"
proof (induction rule: fulfiller_reachable.induct)
  case fu_init
  show ?case by (simp add: handled_ok_def db_ok_def hm_wf_def)
qed (rule handled_ok_step)

section \<open>From the network request to the proof\<close>

lemma scheduled_row:
  assumes "schedule_request cfg env request f = (Inr Created, f')" and "sv_artifact env = Inr a"
  shows "map_of (fu_db f') (nr_request_id request) = Some (new_row (sv_now env) (create_request cfg a request))"
  using assms
  by (auto simp: schedule_request_def proof_request_create_def create_request_def split: sum.splits prod.splits option.splits Status.splits if_splits)

lemma scheduled_claim:
  assumes s: "schedule_request cfg env request f = (Inr Created, f')" and a: "sv_artifact env = Inr a"
    and small: "nr_deadline request < 2 ^ 64" "nr_cycle_limit request < 2 ^ 64" "nr_gas_limit request < 2 ^ 64"
    and m: "cd_input_metadata cd (nr_stdin_private request) = Some m"
  shows "\<exists>r. proof_request_get True (nr_request_id request) (fu_db f') = Some (Inr (Some r)) \<and>
    claim_request cd r = Some
      \<lparr>cpr_proof_id = nr_request_id request,
       cpr_inputs = [extract_artifact_name (nr_program_uri request), extract_artifact_name (nr_stdin_uri request),
                     show_int (nr_mode request), show_nat (nr_cycle_limit request), [], m],
       cpr_outputs = [a], cpr_requester = cd_hex cd (nr_requester request),
       cpr_expires_at = as_i64 (nr_deadline request)\<rparr>"
proof -
  let ?row = "new_row (sv_now env) (create_request cfg a request)"
  have "execution_of ?row = Some None" by (simp add: execution_of_def new_row_def)
  then have "proof_request_get True (nr_request_id request) (fu_db f') = Some (Inr (Some (the (into_proto ?row))))"
    by (simp add: proof_request_get_def scheduled_row [OF s a] into_proto_def)
  moreover have "claim_request cd (the (into_proto ?row)) = Some
      \<lparr>cpr_proof_id = nr_request_id request,
       cpr_inputs = [extract_artifact_name (nr_program_uri request), extract_artifact_name (nr_stdin_uri request),
                     show_int (nr_mode request), show_nat (nr_cycle_limit request), [], m],
       cpr_outputs = [a], cpr_requester = cd_hex cd (nr_requester request),
       cpr_expires_at = as_i64 (nr_deadline request)\<rparr>"
    using m small \<open>execution_of ?row = Some None\<close>
    by (simp add: claim_request_def into_proto_def new_row_def create_request_def as_u64_as_i64)
  ultimately show ?thesis by blast
qed

text \<open>Cancelling: the network hears only of unexecutable requests, and settled rows stay as they are.\<close>

lemma cancel_routing:
  "(NetCancel i, b) \<in> set (fu_calls (snd (cancel_request cfg answer avail j kind f))) \<Longrightarrow>
   (NetCancel i, b) \<in> set (fu_calls f) \<or> (i = j \<and> kind = Unexecutable \<and> \<not> fc_disable_fulfillment cfg)"
  by (cases kind) (auto simp: cancel_request_def Let_def split: if_splits prod.splits option.splits)

lemma cancel_targets_spec:
  "(i, kind) \<in> set (cancel_targets in_flight requests) \<longleftrightarrow>
   (i, kind) \<in> set requests \<and> (kind = Fulfilled \<longrightarrow> i \<in> set in_flight)"
  by (cases kind) (auto simp: cancel_targets_def)

end
