(* ===== verification/Bidder.thy ===== *)
theory Bidder
  imports Fulfiller "HOL-Library.List_Lexorder"
begin

text \<open>
  The bidder (\<open>bin/bidder/src/lib.rs\<close>, \<open>config.rs\<close>, \<open>requirements.rs\<close>): which requests of the network it
  bids on, and how much.  The expected gas, the admission test, the performance deadline, the cache of
  estimates and the ledger of pending bids come from the package \<open>spn_bidding\<close>, the price conversion
  and the rounding from \<open>spn_pricing\<close>: their operations are the fields of \<open>Bidding\<close> and \<open>Pricing\<close>.
  The multiplier and the throughput, which are floating-point settings only passed on to them, are part
  of those operations, and the buffers in seconds stay integers.  The answers of the network and the
  readings of the clock are arguments, the clock being read once in a pass; log lines and
  metrics are left out.
\<close>

section \<open>Settings and requests\<close>

datatype ProofMode = UnspecifiedProofMode | Core | Compressed | Plonk | Groth16

record UsdBidConfig =
  ub_target :: nat
  ub_refresh_interval_secs :: nat
  ub_staleness_max_secs :: nat

record BidderConfig =
  bc_bid_amount :: nat
  bc_buffer_sec :: nat
  bc_groth16_buffer_sec :: nat
  bc_plonk_buffer_sec :: nat
  bc_groth16_enabled :: bool
  bc_plonk_enabled :: bool
  bc_aggressive_mode :: bool
  bc_min_deadline_secs :: "nat option"
  bc_cpu_worker_max_weights :: "nat list"
  bc_usd_bid :: "UsdBidConfig option"
  bc_groth16_wrap_weight :: nat
  bc_plonk_wrap_weight :: nat

record BidRequestRow =
  br_request_id :: "nat list"
  br_vk_hash :: "nat list"
  br_mode :: ProofMode
  br_gas_limit :: nat
  br_cycle_limit :: nat
  br_created_at :: nat
  br_deadline :: nat
  br_min_auction_period :: nat
  br_floor_price :: "string option"
  br_max_price :: "string option"

definition REQUEST_LIMIT :: nat where
  "REQUEST_LIMIT = 100"

definition mode_enabled :: "BidderConfig \<Rightarrow> ProofMode \<Rightarrow> bool" where
  "mode_enabled cfg mode =
     (case mode of Groth16 \<Rightarrow> bc_groth16_enabled cfg | Plonk \<Rightarrow> bc_plonk_enabled cfg | _ \<Rightarrow> True)"

definition mode_wrap_demand :: "BidderConfig \<Rightarrow> ProofMode \<Rightarrow> nat \<times> nat" where
  "mode_wrap_demand cfg mode =
     (case mode of
        Groth16 \<Rightarrow> (bc_groth16_buffer_sec cfg, bc_groth16_wrap_weight cfg)
      | Plonk \<Rightarrow> (bc_plonk_buffer_sec cfg, bc_plonk_wrap_weight cfg)
      | _ \<Rightarrow> (0, 0))"

section \<open>The amount of a bid\<close>

text \<open>Pricing from the shared package: the price in wei per unit, and rounding down to the tick.\<close>

record Pricing =
  px_max_price_per_pgu_wei :: "nat \<Rightarrow> nat \<Rightarrow> nat option"
  px_round_down_to_tick :: "nat \<Rightarrow> nat \<Rightarrow> nat"

datatype BidAmountOutcome =
    Static nat
  | Dynamic nat

fun amount_of :: "BidAmountOutcome \<Rightarrow> nat" where
  "amount_of (Static v) = v"
| "amount_of (Dynamic v) = v"

definition bid_amount_outcome ::
  "Pricing \<Rightarrow> UsdBidConfig option \<Rightarrow> (nat \<times> nat) option \<Rightarrow> nat \<Rightarrow> nat \<Rightarrow> BidAmountOutcome" where
  "bid_amount_outcome px usd_bid cache_snapshot static_bid tick_size =
     (case usd_bid of
        None \<Rightarrow> Static static_bid
      | Some ub \<Rightarrow>
          (case cache_snapshot of
             None \<Rightarrow> Static static_bid
           | Some (prove_usd_micros, age_secs) \<Rightarrow>
               (if age_secs \<ge> ub_staleness_max_secs ub then Static static_bid
                else case px_max_price_per_pgu_wei px (ub_target ub) prove_usd_micros of
                       None \<Rightarrow> Static static_bid
                     | Some wei \<Rightarrow>
                         (let aligned = px_round_down_to_tick px wei tick_size
                          in if aligned = 0 then Static static_bid else Dynamic aligned))))"

text \<open>The cached price: micro-dollars and the time it was taken, in seconds; a negative age counts as zero.\<close>

definition effective_bid_amount ::
  "Pricing \<Rightarrow> BidderConfig \<Rightarrow> nat \<Rightarrow> (nat \<times> int) option \<Rightarrow> int \<Rightarrow> nat" where
  "effective_bid_amount px cfg tick_size prove_usd_cache now =
     amount_of (bid_amount_outcome px (bc_usd_bid cfg)
       (map_option (\<lambda>(usd_micros, as_of). (usd_micros, nat (max (now - as_of) 0))) prove_usd_cache)
       (bc_bid_amount cfg) tick_size)"

definition DEFAULT_TICK_SIZE :: nat where
  "DEFAULT_TICK_SIZE = 10000000"

definition fetch_tick_size :: "nat result \<Rightarrow> nat result" where
  "fetch_tick_size resp =
     (case resp of Inl e \<Rightarrow> Inl e | Inr tick \<Rightarrow> Inr (if tick = 0 then DEFAULT_TICK_SIZE else tick))"

text \<open>\<open>None\<close> is an accepted value.\<close>

definition validate_bid_amount :: "nat \<Rightarrow> nat \<Rightarrow> string option" where
  "validate_bid_amount amount tick =
     (if amount = 0 then Some ''must be > 0''
      else if amount mod tick \<noteq> 0 then Some ''is not a multiple of tick_size''
      else None)"

text \<open>\<open>parse\<close>; \<open>from_str\<close> reads a 256-bit number.\<close>

definition parse_price :: "(string \<Rightarrow> nat option) \<Rightarrow> string option \<Rightarrow> nat option" where
  "parse_price from_str v = (case v of None \<Rightarrow> None | Some s \<Rightarrow> if s = [] then None else from_str s)"

text \<open>The amount for one request, if it does not exceed what the requester pays.\<close>

definition request_bid :: "(string \<Rightarrow> nat option) \<Rightarrow> nat \<Rightarrow> BidRequestRow \<Rightarrow> nat option" where
  "request_bid from_str bid_amount request =
     (let floor_price = (case parse_price from_str (br_floor_price request) of None \<Rightarrow> 0 | Some p \<Rightarrow> p);
          max_price = (case parse_price from_str (br_max_price request) of None \<Rightarrow> uint_max 256 | Some p \<Rightarrow> p);
          amount = max bid_amount floor_price
      in if amount > max_price then None else Some amount)"

section \<open>State\<close>

record ClusterState =
  cs_cpu_worker_max_weights :: "nat list"
  cs_active_proofs :: nat
  cs_committed_gas :: nat
  cs_active_wraps :: nat

record RequestDemand =
  rd_expected_gas :: nat
  rd_deadline_secs :: nat
  rd_buffer_secs :: nat
  rd_wrap_secs :: nat
  rd_wrap_weight :: nat

datatype AdmissionOutcome = AdmitLoaded | RejectCap | RejectInfeasible | RejectLoad

datatype EstimateLookup = Hit nat | KnownAbsent | Miss

text \<open>\<open>'r\<close>: performance requirements, \<open>'c\<close>: the cache of estimates, \<open>'l\<close>: the ledger of pending bids.\<close>

record ('r, 'c, 'l) Bidding =
  bg_expected_gas :: "nat option \<Rightarrow> nat \<Rightarrow> nat \<Rightarrow> nat"
  bg_admission_outcome :: "ClusterState \<Rightarrow> RequestDemand \<Rightarrow> AdmissionOutcome"
  bg_admits :: "AdmissionOutcome \<Rightarrow> bool"
  bg_perf_deadline :: "nat \<Rightarrow> nat \<Rightarrow> 'r \<Rightarrow> nat"
  bg_from_parts :: "string \<Rightarrow> nat \<Rightarrow> 'r option"
  bg_lookup :: "'c \<Rightarrow> nat list \<Rightarrow> Instant \<Rightarrow> EstimateLookup"
  bg_store :: "nat list \<Rightarrow> nat option \<Rightarrow> Instant \<Rightarrow> 'c \<Rightarrow> 'c"
  bg_record :: "nat list \<Rightarrow> nat \<Rightarrow> bool \<Rightarrow> nat \<Rightarrow> Instant \<Rightarrow> 'l \<Rightarrow> 'l"
  bg_reconcile_into :: "nat list list \<Rightarrow> Instant \<Rightarrow> ClusterState \<times> 'l \<Rightarrow> ClusterState \<times> 'l"

record ('r, 'c, 'l) BidderState =
  bs_estimate_cache :: 'c
  bs_pending_bids :: 'l
  bs_prove_usd_cache :: "(nat \<times> int) option"
  bs_requirements :: "'r option"
  bs_suspended_until :: nat

section \<open>Polling the network's policy\<close>

definition from_response :: "('r, 'c, 'l) Bidding \<Rightarrow> (string \<times> nat) option \<Rightarrow> 'r option" where
  "from_response bg requirements =
     (case requirements of None \<Rightarrow> None | Some (min_mgas, floor_latency) \<Rightarrow> bg_from_parts bg min_mgas floor_latency)"

definition sync_requirements ::
  "('r, 'c, 'l) Bidding \<Rightarrow> (string \<times> nat) option result \<Rightarrow> ('r, 'c, 'l) BidderState \<Rightarrow> ('r, 'c, 'l) BidderState" where
  "sync_requirements bg resp st =
     (case resp of Inl _ \<Rightarrow> st | Inr reqs \<Rightarrow> st\<lparr>bs_requirements := from_response bg reqs\<rparr>)"

definition record_suspension_status :: "nat \<Rightarrow> ('r, 'c, 'l) BidderState \<Rightarrow> ('r, 'c, 'l) BidderState" where
  "record_suspension_status until st = st\<lparr>bs_suspended_until := until\<rparr>"

definition sync_prover_status :: "nat option result \<Rightarrow> ('r, 'c, 'l) BidderState \<Rightarrow> ('r, 'c, 'l) BidderState" where
  "sync_prover_status resp st =
     (case resp of
        Inl _ \<Rightarrow> st
      | Inr suspended \<Rightarrow> record_suspension_status (case suspended of None \<Rightarrow> 0 | Some t \<Rightarrow> t) st)"

definition fetch_and_cache_prove_usd :: "(nat \<times> int) result \<Rightarrow> ('r, 'c, 'l) BidderState \<Rightarrow> ('r, 'c, 'l) BidderState" where
  "fetch_and_cache_prove_usd resp st =
     (case resp of Inl _ \<Rightarrow> st | Inr price \<Rightarrow> st\<lparr>bs_prove_usd_cache := Some price\<rparr>)"

section \<open>Gas estimates\<close>

definition ESTIMATES_BATCH_LIMIT :: nat where
  "ESTIMATES_BATCH_LIMIT = 256"

fun lookup_estimates ::
  "('r, 'c, 'l) Bidding \<Rightarrow> 'c \<Rightarrow> Instant \<Rightarrow> nat list list \<Rightarrow> (nat list, nat option) hash_map \<times> nat list list \<Rightarrow>
     (nat list, nat option) hash_map \<times> nat list list" where
  "lookup_estimates bg cache now [] acc = acc"
| "lookup_estimates bg cache now (vk # vks) (resolved, misses) =
     lookup_estimates bg cache now vks
       (case bg_lookup bg cache vk now of
          Hit estimate \<Rightarrow> (hm_insert vk (Some estimate) resolved, misses)
        | KnownAbsent \<Rightarrow> (hm_insert vk None resolved, misses)
        | Miss \<Rightarrow> (resolved, misses @ [vk]))"

text \<open>One call for a chunk: an answer is cached and used, a failure leaves the chunk without estimates.\<close>

definition fetch_chunk ::
  "('r, 'c, 'l) Bidding \<Rightarrow> Instant \<Rightarrow> (nat list \<times> nat) list result \<Rightarrow> nat list list \<Rightarrow>
     (nat list, nat option) hash_map \<times> 'c \<Rightarrow> (nat list, nat option) hash_map \<times> 'c" where
  "fetch_chunk bg now resp chunk acc =
     (case resp of
        Inl _ \<Rightarrow> (fold (\<lambda>vk. hm_insert vk None) chunk (fst acc), snd acc)
      | Inr estimates \<Rightarrow>
          (let by_vk = fold (\<lambda>(vk, g). hm_insert vk g) estimates []
           in fold (\<lambda>vk (resolved, cache). (hm_insert vk (map_of by_vk vk) resolved, bg_store bg vk (map_of by_vk vk) now cache))
                chunk acc))"

function fetch_chunks ::
  "('r, 'c, 'l) Bidding \<Rightarrow> Instant \<Rightarrow> (nat list list \<Rightarrow> (nat list \<times> nat) list result) \<Rightarrow> nat list list \<Rightarrow>
     (nat list, nat option) hash_map \<times> 'c \<Rightarrow> (nat list, nat option) hash_map \<times> 'c" where
  "fetch_chunks bg now network misses acc =
     (if misses = [] then acc
      else let chunk = take ESTIMATES_BATCH_LIMIT misses
           in fetch_chunks bg now network (drop ESTIMATES_BATCH_LIMIT misses) (fetch_chunk bg now (network chunk) chunk acc))"
  by pat_completeness auto
termination
  by (relation "measure (\<lambda>(bg, now, network, misses, acc). length misses)") (auto simp: ESTIMATES_BATCH_LIMIT_def)

declare fetch_chunks.simps [simp del]

definition resolve_gas_estimates ::
  "('r, 'c, 'l) Bidding \<Rightarrow> Instant \<Rightarrow> (nat list list \<Rightarrow> (nat list \<times> nat) list result) \<Rightarrow> BidRequestRow list \<Rightarrow> BidRequestRow list \<Rightarrow>
     'c \<Rightarrow> (nat list, nat option) hash_map \<times> 'c" where
  "resolve_gas_estimates bg now network requests assigned cache =
     (let vks = remdups_adj (sort (map br_vk_hash (requests @ assigned)));
          (resolved, misses) = lookup_estimates bg cache now vks ([], [])
      in fetch_chunks bg now network misses (resolved, cache))"

definition estimate_for :: "(nat list, nat option) hash_map \<Rightarrow> nat list \<Rightarrow> nat option" where
  "estimate_for gas_estimates vk_hash = (case map_of gas_estimates vk_hash of None \<Rightarrow> None | Some e \<Rightarrow> e)"

section \<open>Admission\<close>

definition clamped_request_duration :: "nat \<Rightarrow> nat \<Rightarrow> nat option \<Rightarrow> nat \<times> bool" where
  "clamped_request_duration now deadline perf_deadline =
     (case perf_deadline of
        None \<Rightarrow> (saturating_sub deadline now, False)
      | Some perf \<Rightarrow> (saturating_sub (min perf deadline) now, perf < deadline))"

definition effective_request_duration ::
  "('r, 'c, 'l) Bidding \<Rightarrow> nat \<Rightarrow> BidRequestRow \<Rightarrow> nat \<Rightarrow> 'r option \<Rightarrow> nat" where
  "effective_request_duration bg now request expected requirements =
     fst (clamped_request_duration now (br_deadline request)
            (map_option (bg_perf_deadline bg (br_created_at request) expected) requirements))"

text \<open>The load and the ledger, the two things a decision changes.\<close>

type_synonym 'l pass_load = "ClusterState \<times> 'l"

definition admit_request ::
  "('r, 'c, 'l) Bidding \<Rightarrow> BidderConfig \<Rightarrow> nat \<Rightarrow> Instant \<Rightarrow> BidRequestRow \<Rightarrow> nat option \<Rightarrow> 'r option \<Rightarrow> 'l pass_load \<Rightarrow> bool \<times> 'l pass_load" where
  "admit_request bg cfg now instant request estimate requirements ld =
     (if \<not> mode_enabled cfg (br_mode request) then (False, ld)
      else let (cluster, ledger) = ld;
               expected = bg_expected_gas bg estimate (br_gas_limit request) (br_cycle_limit request);
               deadline_secs = effective_request_duration bg now request expected requirements;
               (wrap_secs, wrap_weight) = mode_wrap_demand cfg (br_mode request);
               outcome = bg_admission_outcome bg cluster
                 \<lparr>rd_expected_gas = expected, rd_deadline_secs = deadline_secs, rd_buffer_secs = bc_buffer_sec cfg,
                  rd_wrap_secs = wrap_secs, rd_wrap_weight = wrap_weight\<rparr>
           in if \<not> bg_admits bg outcome then (False, ld)
              else (True,
                    cluster\<lparr>cs_active_proofs := u32_add (cs_active_proofs cluster) 1,
                            cs_committed_gas := saturating_add 64 (cs_committed_gas cluster) expected,
                            cs_active_wraps := (if wrap_weight > 0 then u32_add (cs_active_wraps cluster) 1
                                                else cs_active_wraps cluster)\<rparr>,
                    bg_record bg (br_request_id request) expected (wrap_weight > 0) (br_min_auction_period request) instant ledger))"

section \<open>A pass over the biddable requests\<close>

definition slots_of :: "nat list \<Rightarrow> nat" where
  "slots_of weights = fold (\<lambda>w acc. saturating_add 32 acc w) weights 0"

definition controller_slots :: "BidderConfig \<Rightarrow> nat" where
  "controller_slots cfg = slots_of (bc_cpu_worker_max_weights cfg)"

text \<open>Fuel bounds the pages asked for; \<open>None\<close> is a loop that has not ended.\<close>

fun fetch_assigned_loop ::
  "nat \<Rightarrow> nat \<Rightarrow> (nat \<Rightarrow> BidRequestRow list result) \<Rightarrow> nat \<Rightarrow> BidRequestRow list \<Rightarrow> BidRequestRow list result option" where
  "fetch_assigned_loop 0 slots network page assigned = None"
| "fetch_assigned_loop (Suc fuel) slots network page assigned =
     (case network page of
        Inl e \<Rightarrow> Some (Inl e)
      | Inr batch \<Rightarrow>
          (let full_page = length batch mod 2 ^ 32 = REQUEST_LIMIT;
               assigned' = assigned @ batch
           in if \<not> full_page \<or> length assigned' mod 2 ^ 32 > slots then Some (Inr assigned')
              else fetch_assigned_loop fuel slots network (u32_add page 1) assigned'))"

definition fetch_assigned_requests ::
  "nat \<Rightarrow> BidderConfig \<Rightarrow> (nat \<Rightarrow> BidRequestRow list result) \<Rightarrow> BidRequestRow list result option" where
  "fetch_assigned_requests fuel cfg network = fetch_assigned_loop fuel (controller_slots cfg) network 1 []"

definition committed_load ::
  "('r, 'c, 'l) Bidding \<Rightarrow> BidderConfig \<Rightarrow> (nat list, nat option) hash_map \<Rightarrow> BidRequestRow list \<Rightarrow> ClusterState" where
  "committed_load bg cfg gas_estimates assigned =
     \<lparr>cs_cpu_worker_max_weights = bc_cpu_worker_max_weights cfg,
      cs_active_proofs = length assigned mod 2 ^ 32,
      cs_committed_gas =
        fold (\<lambda>r acc. saturating_add 64 acc
                (bg_expected_gas bg (estimate_for gas_estimates (br_vk_hash r)) (br_gas_limit r) (br_cycle_limit r)))
          assigned 0,
      cs_active_wraps = length (filter (\<lambda>r. br_mode r = Groth16 \<or> br_mode r = Plonk) assigned) mod 2 ^ 32\<rparr>"

text \<open>The body of the loop over the requests: the amount to bid, if any.\<close>

definition bid_decision ::
  "('r, 'c, 'l) Bidding \<Rightarrow> BidderConfig \<Rightarrow> (string \<Rightarrow> nat option) \<Rightarrow> nat \<Rightarrow> Instant \<Rightarrow> 'r option \<Rightarrow> (nat list, nat option) hash_map \<Rightarrow>
     nat \<Rightarrow> BidRequestRow \<Rightarrow> 'l pass_load \<Rightarrow> nat option \<times> 'l pass_load" where
  "bid_decision bg cfg from_str now instant requirements gas_estimates bid_amount request ld =
     (case request_bid from_str bid_amount request of
        None \<Rightarrow> (None, ld)
      | Some amount \<Rightarrow>
          (if bc_aggressive_mode cfg
           then (case bc_min_deadline_secs cfg of
                   None \<Rightarrow> (Some amount, ld)
                 | Some min_deadline \<Rightarrow>
                     (if effective_request_duration bg now request (br_gas_limit request) requirements < min_deadline
                      then (None, ld) else (Some amount, ld)))
           else (case admit_request bg cfg now instant request
                        (estimate_for gas_estimates (br_vk_hash request)) requirements ld of
                   (admitted, ld') \<Rightarrow> (if admitted then Some amount else None, ld'))))"

fun bid_pass ::
  "('r, 'c, 'l) Bidding \<Rightarrow> BidderConfig \<Rightarrow> (string \<Rightarrow> nat option) \<Rightarrow> nat \<Rightarrow> Instant \<Rightarrow> 'r option \<Rightarrow> (nat list, nat option) hash_map \<Rightarrow>
     nat \<Rightarrow> BidRequestRow list \<Rightarrow> 'l pass_load \<Rightarrow> (BidRequestRow \<times> nat) list \<times> 'l pass_load" where
  "bid_pass bg cfg from_str now instant requirements gas_estimates bid_amount [] ld = ([], ld)"
| "bid_pass bg cfg from_str now instant requirements gas_estimates bid_amount (request # requests) ld =
     (case bid_decision bg cfg from_str now instant requirements gas_estimates bid_amount request ld of
        (bid, load1) \<Rightarrow>
          (case bid_pass bg cfg from_str now instant requirements gas_estimates bid_amount requests load1 of
             (bids, load2) \<Rightarrow> (case bid of None \<Rightarrow> bids | Some amount \<Rightarrow> (request, amount) # bids, load2)))"

text \<open>What a pass reads from outside: the clocks and the answers of the network.\<close>

record PassEnv =
  pe_now :: nat
  pe_instant :: Instant
  pe_biddable :: "BidRequestRow list result"
  pe_assigned :: "nat \<Rightarrow> BidRequestRow list result"
  pe_estimates :: "nat list list \<Rightarrow> (nat list \<times> nat) list result"

text \<open>The bids submitted by one pass, or the error it ends with, and the state it leaves.\<close>

definition bid_requests ::
  "nat \<Rightarrow> ('r, 'c, 'l) Bidding \<Rightarrow> Pricing \<Rightarrow> BidderConfig \<Rightarrow> nat \<Rightarrow> (string \<Rightarrow> nat option) \<Rightarrow> PassEnv \<Rightarrow> ('r, 'c, 'l) BidderState \<Rightarrow>
     ((BidRequestRow \<times> nat) list result \<times> ('r, 'c, 'l) BidderState) option" where
  "bid_requests fuel bg px cfg tick_size from_str env st =
     (if bs_suspended_until st > pe_now env then Some (Inr [], st)
      else case pe_biddable env of
        Inl e \<Rightarrow> Some (Inl e, st)
      | Inr requests \<Rightarrow>
          (case fetch_assigned_requests fuel cfg (pe_assigned env) of
             None \<Rightarrow> None
           | Some (Inl e) \<Rightarrow> Some (Inl e, st)
           | Some (Inr assigned) \<Rightarrow>
               (let (gas_estimates, cache) =
                      resolve_gas_estimates bg (pe_instant env) (pe_estimates env) requests assigned (bs_estimate_cache st);
                    ld = bg_reconcile_into bg (map br_request_id (requests @ assigned)) (pe_instant env)
                             (committed_load bg cfg gas_estimates assigned, bs_pending_bids st);
                    bid_amount = effective_bid_amount px cfg tick_size (bs_prove_usd_cache st) (int (pe_now env));
                    (bids, ld') = bid_pass bg cfg from_str (pe_now env) (pe_instant env) (bs_requirements st) gas_estimates
                                      bid_amount requests ld
                in Some (Inr bids, st\<lparr>bs_estimate_cache := cache, bs_pending_bids := snd ld'\<rparr>))))"

definition is_expected_bid_rejection :: "Status \<Rightarrow> bool" where
  "is_expected_bid_rejection e =
     (case e of
        InvalidArgument _ \<Rightarrow> True
      | Aborted _ \<Rightarrow> True
      | Unavailable msg \<Rightarrow> contains msg ''failed nonce verification''
      | _ \<Rightarrow> False)"

text \<open>The checks before the main loop of \<open>run\<close>: the tick, and the configured amount against it.\<close>

definition run_startup :: "BidderConfig \<Rightarrow> nat result \<Rightarrow> nat option" where
  "run_startup cfg resp =
     (case fetch_tick_size resp of
        Inl _ \<Rightarrow> None
      | Inr tick \<Rightarrow> (case validate_bid_amount (bc_bid_amount cfg) tick of None \<Rightarrow> Some tick | Some _ \<Rightarrow> None))"

section \<open>What the packages promise\<close>

text \<open>Rounding down gives a multiple of the tick.\<close>

definition rounds_to_tick :: "Pricing \<Rightarrow> bool" where
  "rounds_to_tick px = (\<forall>wei tick. tick dvd px_round_down_to_tick px wei tick)"

text \<open>Admission rejects once the active proofs fill the controller slots of the cluster.\<close>

definition rejects_at_cap :: "('r, 'c, 'l) Bidding \<Rightarrow> bool" where
  "rejects_at_cap bg =
     (\<forall>c d. bg_admits bg (bg_admission_outcome bg c d) \<longrightarrow>
        cs_active_proofs c < slots_of (cs_cpu_worker_max_weights c))"

text \<open>Reconciling counts pending bids on top of the load it is given.\<close>

definition reconcile_only_adds :: "('r, 'c, 'l) Bidding \<Rightarrow> bool" where
  "reconcile_only_adds bg =
     (\<forall>ids t c l. cs_active_proofs c \<le> cs_active_proofs (fst (bg_reconcile_into bg ids t (c, l))) \<and>
        cs_cpu_worker_max_weights (fst (bg_reconcile_into bg ids t (c, l))) = cs_cpu_worker_max_weights c)"

section \<open>Prices\<close>

lemma request_bid_SomeD:
  "request_bid from_str b r = Some a \<Longrightarrow>
     b \<le> a \<and> (\<forall>p. parse_price from_str (br_floor_price r) = Some p \<longrightarrow> p \<le> a) \<and>
     (\<forall>p. parse_price from_str (br_max_price r) = Some p \<longrightarrow> a \<le> p) \<and>
     (a = b \<or> parse_price from_str (br_floor_price r) = Some a)"
  by (auto simp: request_bid_def Let_def max_def split: if_splits option.splits)

lemma bid_decision_SomeD:
  "fst (bid_decision bg cfg from_str now i rq es b r ld) = Some a \<Longrightarrow> request_bid from_str b r = Some a"
  by (auto simp: bid_decision_def split: option.splits if_splits prod.splits)

lemma bid_pass_amounts:
  "(r, a) \<in> set (fst (bid_pass bg cfg from_str now i rq es b rs ld)) \<Longrightarrow> r \<in> set rs \<and> request_bid from_str b r = Some a"
proof (induction rs arbitrary: ld)
  case (Cons q rs)
  obtain bid ld1 where d: "bid_decision bg cfg from_str now i rq es b q ld = (bid, ld1)" by (rule prod.exhaust)
  obtain bids ld2 where p: "bid_pass bg cfg from_str now i rq es b rs ld1 = (bids, ld2)" by (rule prod.exhaust)
  from Cons.prems d p consider "bid = Some a" "r = q" | "(r, a) \<in> set bids"
    by (auto split: option.splits)
  then show ?case
  proof cases
    case 1
    with d bid_decision_SomeD [of bg cfg from_str now i rq es b q ld a] show ?thesis by simp
  next
    case 2
    with p Cons.IH [of ld1] show ?thesis by simp
  qed
qed simp

lemma run_startup_SomeD:
  "run_startup cfg resp = Some tick \<Longrightarrow> 0 < tick \<and> 0 < bc_bid_amount cfg \<and> tick dvd bc_bid_amount cfg"
  by (auto simp: run_startup_def fetch_tick_size_def validate_bid_amount_def DEFAULT_TICK_SIZE_def
      split: sum.splits if_splits option.splits)

lemma effective_bid_amount_aligned:
  assumes "run_startup cfg resp = Some tick" and "rounds_to_tick px"
  shows "0 < effective_bid_amount px cfg tick cache now \<and> tick dvd effective_bid_amount px cfg tick cache now"
  using run_startup_SomeD [OF assms(1)] assms(2)
  by (auto simp: effective_bid_amount_def bid_amount_outcome_def rounds_to_tick_def Let_def
      split: option.splits prod.splits)

lemma bid_requests_bidsD:
  assumes "bid_requests fuel bg px cfg tick from_str env st = Some (Inr bids, st')" and "(r, a) \<in> set bids"
  shows "\<exists>requests. pe_biddable env = Inr requests \<and> r \<in> set requests"
    and "bs_suspended_until st \<le> pe_now env"
    and "request_bid from_str (effective_bid_amount px cfg tick (bs_prove_usd_cache st) (int (pe_now env))) r = Some a"
proof -
  have pass: "r \<in> set rs \<and> request_bid from_str b r = Some a"
    if "bid_pass bg cfg from_str now i rq es b rs ld = (bids, ld')" for now i rq es b rs ld ld'
    using bid_pass_amounts [of r a bg cfg from_str now i rq es b rs ld] that assms(2) by simp
  from assms show "\<exists>requests. pe_biddable env = Inr requests \<and> r \<in> set requests"
    and "bs_suspended_until st \<le> pe_now env"
    and "request_bid from_str (effective_bid_amount px cfg tick (bs_prove_usd_cache st) (int (pe_now env))) r = Some a"
    by (auto simp: bid_requests_def Let_def split: if_splits sum.splits option.splits prod.splits dest: pass)
qed

section \<open>Load\<close>

lemma saturating_fold_bound: "a \<le> uint_max 32 \<Longrightarrow> fold (\<lambda>w acc. saturating_add 32 acc w) ws a \<le> uint_max 32"
  by (induction ws arbitrary: a) auto

lemma slots_of_bound: "slots_of ws < 2 ^ 32"
  using saturating_fold_bound [of 0 ws] by (simp add: slots_of_def uint_max_def)

lemma rejects_at_capD:
  "rejects_at_cap bg \<Longrightarrow> bg_admits bg (bg_admission_outcome bg c d) \<Longrightarrow> cs_active_proofs c < slots_of (cs_cpu_worker_max_weights c)"
  unfolding rejects_at_cap_def by blast

text \<open>An admitted request occupies one more slot, and there was one.\<close>

lemma admit_request_slots:
  assumes cap: "rejects_at_cap bg" and adm: "admit_request bg cfg now i r e rq ld = (b, ld')"
  shows "cs_cpu_worker_max_weights (fst ld') = cs_cpu_worker_max_weights (fst ld) \<and>
    cs_active_proofs (fst ld') = cs_active_proofs (fst ld) + (if b then 1 else 0) \<and>
    (b \<longrightarrow> cs_active_proofs (fst ld) < slots_of (cs_cpu_worker_max_weights (fst ld)))"
proof -
  obtain c l where ld: "ld = (c, l)" by (rule prod.exhaust)
  have room: "cs_active_proofs c < slots_of (cs_cpu_worker_max_weights c) \<and> u32_add (cs_active_proofs c) 1 = Suc (cs_active_proofs c)"
    if "bg_admits bg (bg_admission_outcome bg c d)" for d
    using rejects_at_capD [OF cap that] slots_of_bound [of "cs_cpu_worker_max_weights c"]
    by (simp add: wrapping_add_def)
  from adm show ?thesis
    by (auto simp: admit_request_def ld Let_def dest!: room split: if_splits prod.splits)
qed

lemma bid_decision_slots:
  assumes "rejects_at_cap bg" and "\<not> bc_aggressive_mode cfg"
    and "bid_decision bg cfg from_str now i rq es b r ld = (bid, ld')"
  shows "cs_cpu_worker_max_weights (fst ld') = cs_cpu_worker_max_weights (fst ld) \<and>
    cs_active_proofs (fst ld') = cs_active_proofs (fst ld) + (if bid = None then 0 else 1) \<and>
    (bid \<noteq> None \<longrightarrow> cs_active_proofs (fst ld) < slots_of (cs_cpu_worker_max_weights (fst ld)))"
  using assms(2,3)
  by (auto simp: bid_decision_def split: option.splits prod.splits if_splits dest!: admit_request_slots [OF assms(1)])

lemma bid_pass_slots:
  assumes cap: "rejects_at_cap bg" and mode: "\<not> bc_aggressive_mode cfg"
    and "bid_pass bg cfg from_str now i rq es b rs ld = (bids, ld')"
  shows "cs_active_proofs (fst ld') = cs_active_proofs (fst ld) + length bids \<and>
    (bids \<noteq> [] \<longrightarrow> cs_active_proofs (fst ld) + length bids \<le> slots_of (cs_cpu_worker_max_weights (fst ld)))"
  using assms(3)
proof (induction rs arbitrary: ld bids)
  case (Cons q rs)
  obtain bid ld1 where d: "bid_decision bg cfg from_str now i rq es b q ld = (bid, ld1)" by (rule prod.exhaust)
  obtain bids1 ld2 where p: "bid_pass bg cfg from_str now i rq es b rs ld1 = (bids1, ld2)" by (rule prod.exhaust)
  from Cons.prems d p have "ld' = ld2" and "bids = (case bid of None \<Rightarrow> bids1 | Some a \<Rightarrow> (q, a) # bids1)" by auto
  with Cons.IH [of ld1 bids1] p bid_decision_slots [OF cap mode d] show ?case
    by (cases bid; cases bids1) auto
qed simp

section \<open>Reading the assigned requests\<close>

text \<open>The network serves the list \<open>xs\<close> in pages of \<open>REQUEST_LIMIT\<close>, counted from one.\<close>

definition serves_pages :: "(nat \<Rightarrow> BidRequestRow list result) \<Rightarrow> BidRequestRow list \<Rightarrow> bool" where
  "serves_pages network xs = (\<forall>page > 0. network page = Inr (take REQUEST_LIMIT (drop ((page - 1) * REQUEST_LIMIT) xs)))"

lemma fetch_assigned_loop_spec:
  assumes "serves_pages network xs" and "slots + REQUEST_LIMIT < 2 ^ 32"
    and "n * REQUEST_LIMIT \<le> slots" and "n * REQUEST_LIMIT \<le> length xs" and "slots < (n + fuel) * REQUEST_LIMIT"
  shows "\<exists>ys. fetch_assigned_loop fuel slots network (Suc n) (take (n * REQUEST_LIMIT) xs) = Some (Inr ys) \<and>
     (ys = xs \<or> slots < length ys \<and> length ys < 2 ^ 32)"
  using assms(3-)
proof (induction fuel arbitrary: n)
  case (Suc fuel)
  let ?batch = "take REQUEST_LIMIT (drop (n * REQUEST_LIMIT) xs)"
  have net: "network (Suc n) = Inr ?batch" using assms(1) by (simp add: serves_pages_def)
  have app: "take (n * REQUEST_LIMIT) xs @ ?batch = take (Suc n * REQUEST_LIMIT) xs"
    using take_add [of "n * REQUEST_LIMIT" REQUEST_LIMIT xs] by (simp add: add.commute)
  have page: "u32_add (Suc n) 1 = Suc (Suc n)"
    using Suc.prems(1) assms(2) by (simp add: REQUEST_LIMIT_def)
  show ?case
  proof (cases "Suc n * REQUEST_LIMIT \<le> length xs")
    case True
    then have len: "length ?batch = REQUEST_LIMIT" "length (take (Suc n * REQUEST_LIMIT) xs) = Suc n * REQUEST_LIMIT" by auto
    have small: "Suc n * REQUEST_LIMIT < 2 ^ 32" using Suc.prems(1) assms(2) by simp
    show ?thesis
    proof (cases "slots < Suc n * REQUEST_LIMIT")
      case True
      with net app len small show ?thesis by (simp add: Let_def)
    next
      case False
      with Suc.IH [of "Suc n"] Suc.prems \<open>Suc n * REQUEST_LIMIT \<le> length xs\<close> net app len small page show ?thesis
        by (simp add: Let_def REQUEST_LIMIT_def)
    qed
  next
    case False
    then have "length ?batch mod 2 ^ 32 \<noteq> REQUEST_LIMIT" and "take (Suc n * REQUEST_LIMIT) xs = xs"
      by (auto simp: REQUEST_LIMIT_def)
    with net app show ?thesis by (simp add: Let_def)
  qed
qed simp

lemma fetch_assigned_requests_spec:
  assumes "serves_pages network xs" and "controller_slots cfg + REQUEST_LIMIT < 2 ^ 32"
    and "controller_slots cfg < fuel * REQUEST_LIMIT"
  shows "\<exists>ys. fetch_assigned_requests fuel cfg network = Some (Inr ys) \<and>
     (ys = xs \<or> controller_slots cfg < length ys \<and> length ys < 2 ^ 32)"
  using fetch_assigned_loop_spec [OF assms(1,2), of 0 fuel] assms(3) by (simp add: fetch_assigned_requests_def)

text \<open>
  A pass that bids has read every assigned request, and the assigned requests and the new bids together
  fit the controller slots: stopping the listing early never leads to a bid.
\<close>

lemma reconciled_load:
  assumes "reconcile_only_adds bg"
  shows "length assigned mod 2 ^ 32 \<le>
      cs_active_proofs (fst (bg_reconcile_into bg ids t (committed_load bg cfg es assigned, l))) \<and>
    slots_of (cs_cpu_worker_max_weights (fst (bg_reconcile_into bg ids t (committed_load bg cfg es assigned, l)))) =
      controller_slots cfg"
proof -
  have "cs_active_proofs (committed_load bg cfg es assigned) = length assigned mod 2 ^ 32"
    and "cs_cpu_worker_max_weights (committed_load bg cfg es assigned) = bc_cpu_worker_max_weights cfg"
    by (simp_all add: committed_load_def)
  with assms show ?thesis unfolding reconcile_only_adds_def controller_slots_def by metis
qed

lemma bid_requests_load:
  assumes pages: "serves_pages (pe_assigned env) xs" and small: "controller_slots cfg + REQUEST_LIMIT < 2 ^ 32"
    and fuel: "controller_slots cfg < fuel * REQUEST_LIMIT" and xs: "length xs < 2 ^ 32"
    and cap: "rejects_at_cap bg" and rec: "reconcile_only_adds bg" and mode: "\<not> bc_aggressive_mode cfg"
  shows "\<exists>r st'. bid_requests fuel bg px cfg tick from_str env st = Some (r, st') \<and>
     (\<forall>bids. r = Inr bids \<longrightarrow> bids \<noteq> [] \<longrightarrow> length xs + length bids \<le> controller_slots cfg)"
proof -
  obtain ys where ys: "fetch_assigned_requests fuel cfg (pe_assigned env) = Some (Inr ys)"
      "ys = xs \<or> controller_slots cfg < length ys \<and> length ys < 2 ^ 32"
    using fetch_assigned_requests_spec [OF pages small fuel] by blast
  have fits: "length xs + length bids \<le> controller_slots cfg"
    if "bid_pass bg cfg from_str now i rq es b rs (bg_reconcile_into bg ids t (committed_load bg cfg es ys, l)) = (bids, ld')"
      and "bids \<noteq> []" for now i rq es b rs ids t l bids ld'
    using bid_pass_slots [OF cap mode that(1)] that(2) reconciled_load [OF rec, of ys ids t cfg es l] ys(2) xs by auto
  show ?thesis
    by (auto simp: bid_requests_def ys(1) Let_def split: sum.splits prod.splits dest: fits)
qed

section \<open>Estimates\<close>

text \<open>Every program of the pass is resolved, with the cached estimate when the cache has one.\<close>

lemma lookup_estimates_spec:
  assumes "lookup_estimates bg cache now vks (res, ms) = (res', ms')"
  shows "set ms' = set ms \<union> {vk \<in> set vks. bg_lookup bg cache vk now = Miss} \<and>
    map_of res' = (\<lambda>vk. if vk \<in> set vks then (case bg_lookup bg cache vk now of
       Hit e \<Rightarrow> Some (Some e) | KnownAbsent \<Rightarrow> Some None | Miss \<Rightarrow> map_of res vk) else map_of res vk)"
  using assms
proof (induction vks arbitrary: res ms)
  case (Cons vk vks)
  show ?case
  proof (cases "bg_lookup bg cache vk now")
    case (Hit e)
    with Cons.prems Cons.IH [of "hm_insert vk (Some e) res" ms] show ?thesis
      by (auto simp: fun_eq_iff split: EstimateLookup.splits)
  next
    case KnownAbsent
    with Cons.prems Cons.IH [of "hm_insert vk None res" ms] show ?thesis
      by (auto simp: fun_eq_iff split: EstimateLookup.splits)
  next
    case Miss
    with Cons.prems Cons.IH [of res "ms @ [vk]"] show ?thesis
      by (auto simp: fun_eq_iff split: EstimateLookup.splits)
  qed
qed simp

lemma fold_store_keys:
  "map_of (fst (fold (\<lambda>vk (res, cache). (hm_insert vk (f vk) res, g vk cache)) chunk (res, cache))) =
     (\<lambda>vk. if vk \<in> set chunk then Some (f vk) else map_of res vk)"
  by (induction chunk arbitrary: res cache) (auto simp: fun_eq_iff)

lemma fold_insert_None:
  "map_of (fold (\<lambda>vk. hm_insert vk None) chunk res) = (\<lambda>vk. if vk \<in> set chunk then Some None else map_of res vk)"
  by (induction chunk arbitrary: res) (auto simp: fun_eq_iff)

lemma fetch_chunk_keys:
  "\<exists>f. map_of (fst (fetch_chunk bg now resp chunk acc)) = (\<lambda>vk. if vk \<in> set chunk then Some (f vk) else map_of (fst acc) vk)"
proof (cases resp)
  case (Inl e)
  then show ?thesis by (intro exI [of _ "\<lambda>_. None"]) (simp add: fetch_chunk_def fold_insert_None)
next
  case (Inr es)
  obtain res cache where "acc = (res, cache)" by (rule prod.exhaust)
  with Inr show ?thesis
    by (intro exI [of _ "map_of (fold (\<lambda>(vk, g). hm_insert vk g) es [])"]) (simp add: fetch_chunk_def Let_def fold_store_keys fun_eq_iff)
qed

lemma fetch_chunks_keys:
  "\<exists>f. map_of (fst (fetch_chunks bg now network ms acc)) = (\<lambda>vk. if vk \<in> set ms then Some (f vk) else map_of (fst acc) vk)"
proof (induction bg now network ms acc rule: fetch_chunks.induct)
  case (1 bg now network ms acc)
  show ?case
  proof (cases "ms = []")
    case True
    then show ?thesis by (simp add: fetch_chunks.simps)
  next
    case False
    let ?chunk = "take ESTIMATES_BATCH_LIMIT ms"
    obtain f where f: "map_of (fst (fetch_chunk bg now (network ?chunk) ?chunk acc)) =
        (\<lambda>vk. if vk \<in> set ?chunk then Some (f vk) else map_of (fst acc) vk)"
      using fetch_chunk_keys by blast
    obtain g where g: "map_of (fst (fetch_chunks bg now network ms acc)) =
        (\<lambda>vk. if vk \<in> set (drop ESTIMATES_BATCH_LIMIT ms) then Some (g vk)
              else map_of (fst (fetch_chunk bg now (network ?chunk) ?chunk acc)) vk)"
      using 1 [OF False refl] False unfolding fetch_chunks.simps [of bg now network ms acc] Let_def by auto
    have "set ms = set ?chunk \<union> set (drop ESTIMATES_BATCH_LIMIT ms)"
      by (metis append_take_drop_id set_append)
    then show ?thesis unfolding g f
      by (intro exI [of _ "\<lambda>vk. if vk \<in> set (drop ESTIMATES_BATCH_LIMIT ms) then g vk else f vk"]) (auto simp: fun_eq_iff)
  qed
qed

lemma resolve_gas_estimates_spec:
  assumes "r \<in> set (requests @ assigned)"
  shows "\<exists>e. map_of (fst (resolve_gas_estimates bg now network requests assigned cache)) (br_vk_hash r) = Some e \<and>
     (\<forall>g. bg_lookup bg cache (br_vk_hash r) now = Hit g \<longrightarrow> e = Some g) \<and>
     (bg_lookup bg cache (br_vk_hash r) now = KnownAbsent \<longrightarrow> e = None)"
proof -
  let ?vks = "remdups_adj (sort (map br_vk_hash (requests @ assigned)))"
  obtain res ms where l: "lookup_estimates bg cache now ?vks ([], []) = (res, ms)" by (rule prod.exhaust)
  obtain f where f: "map_of (fst (fetch_chunks bg now network ms (res, cache))) =
      (\<lambda>vk. if vk \<in> set ms then Some (f vk) else map_of res vk)"
    using fetch_chunks_keys [of bg now network ms "(res, cache)"] unfolding fst_conv by blast
  have "br_vk_hash r \<in> set ?vks" using assms by auto
  with lookup_estimates_spec [OF l] f show ?thesis
    by (cases "bg_lookup bg cache (br_vk_hash r) now")
      (auto simp: resolve_gas_estimates_def l simp del: map_append)
qed

end
