(* ===== verification/Sample_Services.thy ===== *)
theory Sample_Services
  imports Sample_Cluster Bidder
begin

text \<open>
  Short runs of the fulfiller and the bidder: a row is created, completed and submitted to the network;
  a request of the network is scheduled; and a pass of the bidder with one slot left.
\<close>

section \<open>The fulfiller\<close>

definition sample_fulfiller_config :: FulfillerConfig where
  "sample_fulfiller_config =
     \<lparr>fc_disable_fulfillment = False, fc_name = None, fc_copy_artifacts = False, fc_process_all = True, fc_percent = 100,
      fc_should_download_proofs = True, fc_hex_decode = (\<lambda>_. Some [0])\<rparr>"

definition sample_submit_env :: SubmitEnv where
  "sample_submit_env = \<lparr>se_download = Inr [1], se_network = Inr (), se_avail = True, se_delete = Inr ()\<rparr>"

definition sample_done_request :: ProofRequest where
  "sample_done_request = the (into_proto (set_columns sample_completion (new_row 3 sample_create)))"

definition sample_finished :: FulfillerState where
  "sample_finished = \<lparr>fu_db = sample_done_db, fu_calls = [], fu_deleted = []\<rparr>"

definition sample_submitted :: FulfillerState where
  "sample_submitted = submit_work sample_fulfiller_config sample_submit_env (Inr ()) sample_done_request sample_finished"

lemma sample_finished_reachable: "fulfiller_reachable sample_fulfiller_config err sample_finished"
proof -
  let ?f = "\<lparr>fu_db = [], fu_calls = [], fu_deleted = []\<rparr> :: FulfillerState"
  have "fulfiller_reachable sample_fulfiller_config err (?f\<lparr>fu_db := sample_db\<rparr>)"
    by (rule fu_step [OF fu_init fulfiller_step.fu_create [where avail = True and now = 3 and req = sample_create and e = None]])
      (simp add: sample_db_created)
  then have "fulfiller_reachable sample_fulfiller_config err (?f\<lparr>fu_db := sample_db\<rparr>\<lparr>fu_db := sample_done_db\<rparr>)"
    by (rule fu_step [OF _ fulfiller_step.fu_update [where req = sample_completion and avail = True and e = None]])
      (simp_all add: sample_completed, simp add: sample_completion_def no_update_def)
  then show ?thesis by (simp add: sample_finished_def)
qed

lemma sample_done_request_listed:
  "list_matches (submit_filter sample_fulfiller_config 0) (set_columns sample_completion (new_row 3 sample_create))"
  "into_proto (set_columns sample_completion (new_row 3 sample_create)) = Some sample_done_request"
  "rq_id sample_done_request = ''p''"
  by (simp_all add: list_matches_def submit_filter_def sample_fulfiller_config_def sample_completion_def set_columns_def no_update_def
      new_row_def sample_create_def as_i64_def sample_done_request_def into_proto_def execution_of_def Let_def)

lemma sample_submitted_reachable: "fulfiller_reachable sample_fulfiller_config err sample_submitted"
proof -
  have "db_ok sample_done_db" using api_step_ok [OF api_update [OF sample_completed] sample_db_ok] .
  then have "table_later sample_done_db (fu_db sample_finished)" by (simp add: table_later_def sample_finished_def)
  from fulfiller_step.fu_submit [OF this _ sample_done_request_listed(1,2)]
  have "fulfiller_step sample_fulfiller_config err sample_finished sample_submitted"
    unfolding sample_submitted_def by (simp add: sample_done_eq)
  with sample_finished_reachable show ?thesis by (rule fu_step)
qed

lemma sample_submitted_handled: "\<exists>row. map_of (fu_db sample_submitted) ''p'' = Some row \<and> db_handled row \<and> db_proof_status row = StCompleted"
proof -
  have "rq_proof_artifact_id sample_done_request = Some ''r''"
    by (simp add: sample_completion_def set_columns_def no_update_def new_row_def sample_create_def sample_done_request_def
        into_proto_def execution_of_def Let_def)
  then show ?thesis
    by (simp add: sample_submitted_def submit_work_def submit_request_def finish_submit_def mark_handled_def call_network_def
        sample_fulfiller_config_def sample_submit_env_def sample_finished_def sample_done_eq sample_done_request_listed(3)
        proof_request_update_def no_update_def set_columns_def sample_completion_def new_row_def Let_def)
qed

definition sample_network_request :: NetworkRequest where
  "sample_network_request =
     \<lparr>nr_request_id = ''a1'', nr_program_uri = ''s3://b/g'', nr_stdin_uri = ''s3://b/i'', nr_deadline = 100, nr_cycle_limit = 7,
      nr_gas_limit = 9, nr_requester = [0], nr_mode = 1, nr_stdin_private = False\<rparr>"

definition sample_copy_env :: CopyEnv where
  "sample_copy_env = \<lparr>ce_exists = Inr True, ce_download = Inr [], ce_upload = Inr ()\<rparr>"

definition sample_schedule_env :: ScheduleEnv where
  "sample_schedule_env =
     \<lparr>sv_artifact = Inr ''r'', sv_program = sample_copy_env, sv_stdin_uri = Inr ''u'', sv_stdin = sample_copy_env,
      sv_avail = True, sv_now = 3\<rparr>"

lemma sample_scheduled:
  "fst (schedule_request sample_fulfiller_config sample_schedule_env sample_network_request sample_finished) = Inr Created"
  by (simp add: schedule_request_def copy_inputs_def sample_fulfiller_config_def sample_schedule_env_def
      proof_request_create_def sample_finished_def sample_done_eq create_request_def sample_network_request_def)

section \<open>The bidder\<close>

definition sample_bidding :: "(unit, unit, unit) Bidding" where
  "sample_bidding =
     \<lparr>bg_expected_gas = (\<lambda>e g c. g),
      bg_admission_outcome = (\<lambda>c d. if cs_active_proofs c < slots_of (cs_cpu_worker_max_weights c) then AdmitLoaded else RejectCap),
      bg_admits = (\<lambda>a. a = AdmitLoaded), bg_perf_deadline = (\<lambda>t g r. t), bg_from_parts = (\<lambda>s n. None),
      bg_lookup = (\<lambda>c vk t. Miss), bg_store = (\<lambda>vk e t c. c), bg_record = (\<lambda>i g w p t l. l),
      bg_reconcile_into = (\<lambda>ids t cl. cl)\<rparr>"

definition sample_pricing :: Pricing where
  "sample_pricing = \<lparr>px_max_price_per_pgu_wei = (\<lambda>t p. Some t), px_round_down_to_tick = (\<lambda>w t. w - w mod t)\<rparr>"

definition sample_bidder_config :: BidderConfig where
  "sample_bidder_config =
     \<lparr>bc_bid_amount = 40, bc_buffer_sec = 30, bc_groth16_buffer_sec = 30, bc_plonk_buffer_sec = 80, bc_groth16_enabled = True,
      bc_plonk_enabled = True, bc_aggressive_mode = False, bc_min_deadline_secs = None, bc_cpu_worker_max_weights = [2],
      bc_usd_bid = None, bc_groth16_wrap_weight = 14, bc_plonk_wrap_weight = 60\<rparr>"

definition sample_bid_request :: "nat \<Rightarrow> BidRequestRow" where
  "sample_bid_request i =
     \<lparr>br_request_id = [i], br_vk_hash = [], br_mode = Compressed, br_gas_limit = 5, br_cycle_limit = 5, br_created_at = 0,
      br_deadline = 100, br_min_auction_period = 1, br_floor_price = Some ''f'', br_max_price = None\<rparr>"

definition sample_pass_env :: PassEnv where
  "sample_pass_env =
     \<lparr>pe_now = 0, pe_instant = 0, pe_biddable = Inr [sample_bid_request 1, sample_bid_request 2],
      pe_assigned = (\<lambda>page. Inr (if page = 1 then [sample_bid_request 0] else [])),
      pe_estimates = (\<lambda>_. Inl (Unavailable []))\<rparr>"

definition sample_bidder :: "(unit, unit, unit) BidderState" where
  "sample_bidder =
     \<lparr>bs_estimate_cache = (), bs_pending_bids = (), bs_prove_usd_cache = None, bs_requirements = None, bs_suspended_until = 0\<rparr>"

text \<open>The floor of the sample requests is 45, between two ticks of 10.\<close>

definition sample_from_str :: "string \<Rightarrow> nat option" where
  "sample_from_str s = Some 45"

lemma sample_bidding_promises:
  "rejects_at_cap sample_bidding" "reconcile_only_adds sample_bidding" "rounds_to_tick sample_pricing"
  by (auto simp: rejects_at_cap_def reconcile_only_adds_def rounds_to_tick_def sample_bidding_def sample_pricing_def
      split: if_splits)

lemma sample_slots: "controller_slots sample_bidder_config = 2"
  by (simp add: controller_slots_def slots_of_def sample_bidder_config_def saturating_add_def uint_max_def)

lemma sample_pages: "serves_pages (pe_assigned sample_pass_env) [sample_bid_request 0]"
  by (auto simp: serves_pages_def sample_pass_env_def REQUEST_LIMIT_def)

lemma sample_startup: "run_startup sample_bidder_config (Inr 10) = Some 10"
  by (simp add: run_startup_def fetch_tick_size_def validate_bid_amount_def sample_bidder_config_def)

lemma sample_assigned: "fetch_assigned_requests 1 sample_bidder_config (pe_assigned sample_pass_env) = Some (Inr [sample_bid_request 0])"
  by (simp add: fetch_assigned_requests_def sample_slots) (simp add: sample_pass_env_def REQUEST_LIMIT_def)

lemma sample_estimates: "estimate_for es (br_vk_hash (sample_bid_request i)) = estimate_for es []"
  by (simp add: sample_bid_request_def)

lemma sample_decision:
  "bid_decision sample_bidding sample_bidder_config sample_from_str now t None es 40 (sample_bid_request i) (c, ()) =
     (if cs_active_proofs c < slots_of (cs_cpu_worker_max_weights c)
      then (Some 45, c\<lparr>cs_active_proofs := u32_add (cs_active_proofs c) 1,
                      cs_committed_gas := saturating_add 64 (cs_committed_gas c) 5\<rparr>, ())
      else (None, c, ()))"
  by (simp add: bid_decision_def request_bid_def parse_price_def sample_from_str_def sample_bid_request_def sample_bidder_config_def
      admit_request_def mode_enabled_def mode_wrap_demand_def sample_bidding_def uint_max_def)

lemma sample_bids:
  "\<exists>st'. bid_requests 1 sample_bidding sample_pricing sample_bidder_config 10 sample_from_str sample_pass_env sample_bidder =
   Some (Inr [(sample_bid_request 1, 45)], st')"
proof -
  have amount: "effective_bid_amount sample_pricing sample_bidder_config 10 None now = 40" for now
    by (simp add: effective_bid_amount_def bid_amount_outcome_def sample_bidder_config_def)
  have slots: "slots_of (bc_cpu_worker_max_weights sample_bidder_config) = 2"
    using sample_slots by (simp add: controller_slots_def)
  have rec: "bg_reconcile_into sample_bidding ids t cl = cl" for ids t cl by (simp add: sample_bidding_def)
  have env: "pe_biddable sample_pass_env = Inr [sample_bid_request 1, sample_bid_request 2]" "pe_now sample_pass_env = 0"
    by (simp_all add: sample_pass_env_def)
  show ?thesis
    by (simp add: bid_requests_def sample_assigned [unfolded One_nat_def] env rec sample_bidder_def amount sample_decision committed_load_def slots
        wrapping_add_def Let_def split: prod.splits)
qed

end
