(* ===== verification/Artifact_Redis.thy ===== *)
theory Artifact_Redis
  imports Decimal
begin

text \<open>
  The Redis artifact store (\<open>crates/artifact/src/redis.rs\<close>).  Artifacts above the chunk size are staged
  chunk by chunk in a private hash and then published by one script; smaller ones are one string.

  Redis is outside of the sources.  Its state type \<open>'s\<close> and its writing commands are a parameter, the
  record \<open>Redis\<close>, observed through \<open>rd_view\<close>; \<open>redis_laws\<close> states what Redis documents of the commands
  the code sends.  A key that expires has the number of seconds last set as its second component, and
  may vanish at any time.  Bytes are characters.  All keys of an artifact live on the node its id is
  routed to, so one node is modelled, with routing as a definition of its own.
\<close>

section \<open>Redis\<close>

datatype RedisValue =
    RString string
  | RHash "(string, string) hash_map"
  | RSet "string hash_set"

type_synonym redis_view = "string \<Rightarrow> (RedisValue \<times> nat option) option"

record 's Redis =
  rd_view :: "'s \<Rightarrow> redis_view"
  rd_set :: "string \<Rightarrow> string \<Rightarrow> nat option \<Rightarrow> 's \<Rightarrow> 's"
  rd_hset :: "string \<Rightarrow> string \<Rightarrow> string \<Rightarrow> 's \<Rightarrow> 's"
  rd_expire :: "string \<Rightarrow> nat \<Rightarrow> 's \<Rightarrow> 's"
  rd_persist :: "string \<Rightarrow> 's \<Rightarrow> 's"
  rd_unlink :: "string \<Rightarrow> 's \<Rightarrow> 's"
  rd_rename :: "string \<Rightarrow> string \<Rightarrow> 's \<Rightarrow> 's"
  rd_sadd :: "string \<Rightarrow> string \<Rightarrow> 's \<Rightarrow> 's"
  rd_srem :: "string \<Rightarrow> string \<Rightarrow> 's \<Rightarrow> 's"

text \<open>What a hash or a set command sees at a key; \<open>None\<close> is the error for a key of another type.\<close>

fun hash_of :: "(RedisValue \<times> nat option) option \<Rightarrow> (string, string) hash_map option" where
  "hash_of None = Some []"
| "hash_of (Some (RHash h, t)) = Some h"
| "hash_of (Some (RString d, t)) = None"
| "hash_of (Some (RSet x, t)) = None"

fun set_of_key :: "(RedisValue \<times> nat option) option \<Rightarrow> string hash_set option" where
  "set_of_key None = Some []"
| "set_of_key (Some (RSet x, t)) = Some x"
| "set_of_key (Some (RString d, t)) = None"
| "set_of_key (Some (RHash h, t)) = None"

fun string_of :: "(RedisValue \<times> nat option) option \<Rightarrow> string option option" where
  "string_of None = Some None"
| "string_of (Some (RString d, t)) = Some (Some d)"
| "string_of (Some (RHash h, t)) = None"
| "string_of (Some (RSet x, t)) = None"

definition ttl_of :: "(RedisValue \<times> nat option) option \<Rightarrow> nat option" where
  "ttl_of v = (case v of None \<Rightarrow> None | Some (x, t) \<Rightarrow> t)"

text \<open>Removing the last member of a set removes the key.\<close>

definition set_entry :: "string hash_set \<Rightarrow> nat option \<Rightarrow> (RedisValue \<times> nat option) option" where
  "set_entry x t = (if x = [] then None else Some (RSet x, t))"

definition redis_laws :: "'s Redis \<Rightarrow> bool" where
  "redis_laws R \<longleftrightarrow>
     (\<forall>k v t s. rd_view R (rd_set R k v t s) = (rd_view R s)(k \<mapsto> (RString v, t))) \<and>
     (\<forall>k s. rd_view R (rd_unlink R k s) = (rd_view R s)(k := None)) \<and>
     (\<forall>k f v h s. hash_of (rd_view R s k) = Some h \<longrightarrow>
        rd_view R (rd_hset R k f v s) = (rd_view R s)(k \<mapsto> (RHash (hm_insert f v h), ttl_of (rd_view R s k)))) \<and>
     (\<forall>k n s. rd_view R (rd_expire R k n s) = (rd_view R s)(k := map_option (\<lambda>(x, t). (x, Some n)) (rd_view R s k))) \<and>
     (\<forall>k s. rd_view R (rd_persist R k s) = (rd_view R s)(k := map_option (\<lambda>(x, t). (x, None)) (rd_view R s k))) \<and>
     (\<forall>a b e s. a \<noteq> b \<longrightarrow> rd_view R s a = Some e \<longrightarrow> rd_view R (rd_rename R a b s) = (rd_view R s)(a := None, b \<mapsto> e)) \<and>
     (\<forall>k m x s. set_of_key (rd_view R s k) = Some x \<longrightarrow>
        rd_view R (rd_sadd R k m s) = (rd_view R s)(k \<mapsto> (RSet (hs_insert m x), ttl_of (rd_view R s k)))) \<and>
     (\<forall>k m x s. set_of_key (rd_view R s k) = Some x \<longrightarrow>
        rd_view R (rd_srem R k m s) = (rd_view R s)(k := set_entry (hs_remove m x) (ttl_of (rd_view R s k))))"

named_theorems redis \<open>effects of the commands on the view\<close>

lemma redis_commands [redis]:
  assumes "redis_laws R"
  shows "rd_view R (rd_set R k v t s) = (rd_view R s)(k \<mapsto> (RString v, t))"
    and "rd_view R (rd_unlink R k s) = (rd_view R s)(k := None)"
    and "rd_view R (rd_expire R k n s) = (rd_view R s)(k := map_option (\<lambda>(x, t). (x, Some n)) (rd_view R s k))"
    and "rd_view R (rd_persist R k s) = (rd_view R s)(k := map_option (\<lambda>(x, t). (x, None)) (rd_view R s k))"
  using assms by (simp_all add: redis_laws_def)

lemma redis_hset [redis]:
  "redis_laws R \<Longrightarrow> hash_of (rd_view R s k) = Some h \<Longrightarrow>
   rd_view R (rd_hset R k f v s) = (rd_view R s)(k \<mapsto> (RHash (hm_insert f v h), ttl_of (rd_view R s k)))"
  by (simp add: redis_laws_def)

lemma redis_rename [redis]:
  "redis_laws R \<Longrightarrow> a \<noteq> b \<Longrightarrow> rd_view R s a = Some e \<Longrightarrow> rd_view R (rd_rename R a b s) = (rd_view R s)(a := None, b \<mapsto> e)"
  by (cases e) (simp add: redis_laws_def)

lemma redis_sets [redis]:
  assumes "redis_laws R" and "set_of_key (rd_view R s k) = Some x"
  shows "rd_view R (rd_sadd R k m s) = (rd_view R s)(k \<mapsto> (RSet (hs_insert m x), ttl_of (rd_view R s k)))"
    and "rd_view R (rd_srem R k m s) = (rd_view R s)(k := set_entry (hs_remove m x) (ttl_of (rd_view R s k)))"
  using assms by (simp_all add: redis_laws_def)

section \<open>Keys and chunks\<close>

datatype ArtifactType =
    UnspecifiedArtifactType
  | Program
  | Stdin
  | Proof
  | Groth16Circuit
  | PlonkCircuit
  | PrivateStdin

definition hash_string :: "string \<Rightarrow> nat" where
  "hash_string s = fold (\<lambda>c hash. wrapping_add 64 ((hash * 16777619) mod 2 ^ 64) (of_char c)) s 0"

text \<open>\<open>None\<close> is the panic of a division by zero.\<close>

definition get_connection_idx :: "string \<Rightarrow> nat \<Rightarrow> nat option" where
  "get_connection_idx i num_redis_nodes =
     (if num_redis_nodes = 0 then None else Some (hash_string i mod num_redis_nodes))"

definition CHUNK_COUNT_FIELD :: string where
  "CHUNK_COUNT_FIELD = ''__n''"

definition chunk_key :: "string \<Rightarrow> string" where
  "chunk_key i = i @ '':chunks''"

text \<open>\<open>fresh\<close> is the type id minted for the attempt.\<close>

definition staging_chunk_key :: "string \<Rightarrow> string \<Rightarrow> string" where
  "staging_chunk_key i fresh = chunk_key i @ '':'' @ fresh"

definition refs_key :: "string \<Rightarrow> string" where
  "refs_key i = ''refs:'' @ i"

definition TRANSFER_TIMEOUT_SECONDS :: nat where
  "TRANSFER_TIMEOUT_SECONDS = 60"

definition STAGING_TTL_SECONDS :: nat where
  "STAGING_TTL_SECONDS = 2 * TRANSFER_TIMEOUT_SECONDS"

definition div_ceil :: "nat \<Rightarrow> nat \<Rightarrow> nat" where
  "div_ceil a b = (a + b - 1) div b"

text \<open>\<open>serialized.chunks(size)\<close>, the chunk of an index and all of them.\<close>

definition chunk_at :: "nat \<Rightarrow> string \<Rightarrow> nat \<Rightarrow> string" where
  "chunk_at sz data i = take sz (drop (i * sz) data)"

definition chunk_count :: "nat \<Rightarrow> string \<Rightarrow> nat" where
  "chunk_count sz data = div_ceil (length data) sz"

text \<open>The settings read from the environment: the chunk size and the retention.\<close>

record RedisConfig =
  rc_chunk_size :: nat
  rc_timeout_seconds :: nat

definition DEFAULT_CHUNK_SIZE :: nat where
  "DEFAULT_CHUNK_SIZE = 32 * 1024 * 1024"

definition CHUNK_SIZE :: "string option \<Rightarrow> nat" where
  "CHUNK_SIZE var =
     (case Option.bind var (parse_uint 64) of
        None \<Rightarrow> DEFAULT_CHUNK_SIZE
      | Some v \<Rightarrow> if v > 0 then v else DEFAULT_CHUNK_SIZE)"

definition DEFAULT_ARTIFACT_TIMEOUT_SECONDS :: nat where
  "DEFAULT_ARTIFACT_TIMEOUT_SECONDS = 6 * 60 * 60"

definition ARTIFACT_TIMEOUT_SECONDS :: "string option \<Rightarrow> nat" where
  "ARTIFACT_TIMEOUT_SECONDS var =
     (case Option.bind var (parse_uint 64) of
        None \<Rightarrow> DEFAULT_ARTIFACT_TIMEOUT_SECONDS
      | Some v \<Rightarrow> if v > 0 \<and> v \<le> uint_max 63 then v else DEFAULT_ARTIFACT_TIMEOUT_SECONDS)"

definition redis_config :: "string option \<Rightarrow> string option \<Rightarrow> RedisConfig" where
  "redis_config chunk_size_var timeout_var =
     \<lparr>rc_chunk_size = CHUNK_SIZE chunk_size_var, rc_timeout_seconds = ARTIFACT_TIMEOUT_SECONDS timeout_var\<rparr>"

lemma redis_config_bounds:
  "0 < rc_chunk_size (redis_config c t)"
  "0 < rc_timeout_seconds (redis_config c t)" "rc_timeout_seconds (redis_config c t) < 2 ^ 63"
  by (auto simp: redis_config_def CHUNK_SIZE_def DEFAULT_CHUNK_SIZE_def ARTIFACT_TIMEOUT_SECONDS_def
      DEFAULT_ARTIFACT_TIMEOUT_SECONDS_def uint_max_def split: option.splits)

definition retention :: "RedisConfig \<Rightarrow> ArtifactType \<Rightarrow> nat option" where
  "retention cfg artifact_type = (if artifact_type = Program then None else Some (rc_timeout_seconds cfg))"

section \<open>Writing\<close>

text \<open>Each operation is one atomic request to Redis; \<open>None\<close> is an error for a key of the wrong type.\<close>

definition stage_chunk :: "'s Redis \<Rightarrow> string \<Rightarrow> nat \<Rightarrow> string \<Rightarrow> 's \<Rightarrow> 's option" where
  "stage_chunk R staging_key chunk_idx chunk s =
     (case hash_of (rd_view R s staging_key) of
        None \<Rightarrow> None
      | Some h \<Rightarrow> Some (rd_expire R staging_key STAGING_TTL_SECONDS (rd_hset R staging_key (show_nat chunk_idx) chunk s)))"

definition upload_inline :: "'s Redis \<Rightarrow> RedisConfig \<Rightarrow> ArtifactType \<Rightarrow> string \<Rightarrow> string \<Rightarrow> 's \<Rightarrow> 's" where
  "upload_inline R cfg artifact_type key serialized s =
     rd_unlink R (chunk_key key) (rd_set R key serialized (retention cfg artifact_type) s)"

definition publish_script ::
  "'s Redis \<Rightarrow> string \<Rightarrow> string \<Rightarrow> string \<Rightarrow> nat \<Rightarrow> nat option \<Rightarrow> 's \<Rightarrow> (nat \<times> 's) option" where
  "publish_script R staging_key final_key inline_key chunks retention_seconds s =
     (case hash_of (rd_view R s final_key) of
        None \<Rightarrow> None
      | Some published \<Rightarrow>
          (if map_of published CHUNK_COUNT_FIELD \<noteq> None
           then Some (2, rd_unlink R inline_key (rd_unlink R staging_key s))
           else case hash_of (rd_view R s staging_key) of
                  None \<Rightarrow> None
                | Some staged \<Rightarrow>
                    (if length staged \<noteq> chunks then Some (0, rd_unlink R staging_key s)
                     else let s1 = rd_hset R staging_key CHUNK_COUNT_FIELD (show_nat chunks) s;
                              s2 = rd_rename R staging_key final_key (rd_unlink R final_key s1);
                              s3 = (case retention_seconds of
                                      Some n \<Rightarrow> rd_expire R final_key n s2
                                    | None \<Rightarrow> rd_persist R final_key s2)
                          in Some (1, rd_unlink R inline_key s3))))"

definition publish_staged ::
  "'s Redis \<Rightarrow> RedisConfig \<Rightarrow> ArtifactType \<Rightarrow> string \<Rightarrow> string \<Rightarrow> nat \<Rightarrow> 's \<Rightarrow> bool \<times> 's" where
  "publish_staged R cfg artifact_type artifact_id staging_key chunks s =
     (case publish_script R staging_key (chunk_key artifact_id) artifact_id chunks (retention cfg artifact_type) s of
        None \<Rightarrow> (False, s)
      | Some (published, s') \<Rightarrow> (published = 1 \<or> published = 2, s'))"

definition reclaim_staging :: "'s Redis \<Rightarrow> string \<Rightarrow> 's \<Rightarrow> 's" where
  "reclaim_staging R staging_key s = rd_unlink R staging_key s"

text \<open>\<open>delete\<close> sends its two commands side by side.\<close>

definition delete_inline :: "'s Redis \<Rightarrow> string \<Rightarrow> 's \<Rightarrow> 's" where
  "delete_inline R i s = rd_unlink R i s"

definition delete_chunks :: "'s Redis \<Rightarrow> string \<Rightarrow> 's \<Rightarrow> 's" where
  "delete_chunks R i s = rd_unlink R (chunk_key i) s"

text \<open>
  \<open>delete_batch\<close> groups the keys by node and sends one command to each node.  The nodes are a list of states;
  the iteration order of the groups does not matter, as they are for different nodes.
\<close>

fun node_groups :: "nat \<Rightarrow> string list \<Rightarrow> (nat, string list) hash_map \<Rightarrow> (nat, string list) hash_map option" where
  "node_groups n [] groups = Some groups"
| "node_groups n (i # is) groups =
     (case get_connection_idx i n of
        None \<Rightarrow> None
      | Some node_idx \<Rightarrow>
          (let entry = (case map_of groups node_idx of None \<Rightarrow> [] | Some ks \<Rightarrow> ks)
           in node_groups n is (hm_insert node_idx (entry @ [i, chunk_key i]) groups)))"

definition unlink_all :: "'s Redis \<Rightarrow> string list \<Rightarrow> 's \<Rightarrow> 's" where
  "unlink_all R keys s = fold (rd_unlink R) keys s"

definition delete_batch :: "'s Redis \<Rightarrow> string list \<Rightarrow> 's list \<Rightarrow> 's list option" where
  "delete_batch R artifacts nodes =
     (if artifacts = [] then Some nodes
      else map_option (\<lambda>groups. fold (\<lambda>(node_idx, keys) ns. ns[node_idx := unlink_all R keys (ns ! node_idx)]) groups nodes)
             (node_groups (length nodes) artifacts []))"

definition exists_artifact :: "'s Redis \<Rightarrow> string \<Rightarrow> 's \<Rightarrow> bool option" where
  "exists_artifact R i s =
     (case hash_of (rd_view R s (chunk_key i)) of
        None \<Rightarrow> None
      | Some h \<Rightarrow> Some (rd_view R s i \<noteq> None \<or> map_of h CHUNK_COUNT_FIELD \<noteq> None))"

text \<open>
  The set of tasks that refer to an artifact.  The commands are separate requests: \<open>between\<close> is what other
  clients do before the next one.
\<close>

definition sadd_ref :: "'s Redis \<Rightarrow> string \<Rightarrow> string \<Rightarrow> 's \<Rightarrow> 's option" where
  "sadd_ref R i key s =
     (case set_of_key (rd_view R s (refs_key i)) of None \<Rightarrow> None | Some x \<Rightarrow> Some (rd_sadd R (refs_key i) key s))"

definition expire_ref :: "'s Redis \<Rightarrow> RedisConfig \<Rightarrow> string \<Rightarrow> 's \<Rightarrow> 's" where
  "expire_ref R cfg i s = rd_expire R (refs_key i) (rc_timeout_seconds cfg) s"

definition add_ref :: "'s Redis \<Rightarrow> RedisConfig \<Rightarrow> string \<Rightarrow> string \<Rightarrow> ('s \<Rightarrow> 's) \<Rightarrow> 's \<Rightarrow> 's option" where
  "add_ref R cfg i key between s =
     (case sadd_ref R i key s of None \<Rightarrow> None | Some s1 \<Rightarrow> Some (expire_ref R cfg i (between s1)))"

definition srem_ref :: "'s Redis \<Rightarrow> string \<Rightarrow> string \<Rightarrow> 's \<Rightarrow> 's option" where
  "srem_ref R i key s =
     (case set_of_key (rd_view R s (refs_key i)) of None \<Rightarrow> None | Some x \<Rightarrow> Some (rd_srem R (refs_key i) key s))"

definition remove_ref ::
  "'s Redis \<Rightarrow> string \<Rightarrow> string \<Rightarrow> ('s \<Rightarrow> 's) \<Rightarrow> ('s \<Rightarrow> 's) \<Rightarrow> 's \<Rightarrow> (bool \<times> 's) option" where
  "remove_ref R i key between1 between2 s =
     (case srem_ref R i key s of
        None \<Rightarrow> None
      | Some s1 \<Rightarrow>
          (case set_of_key (rd_view R (between1 s1) (refs_key i)) of
             None \<Rightarrow> None
           | Some y \<Rightarrow>
               (if length y = 0 then Some (True, rd_unlink R (refs_key i) (between2 (between1 s1)))
                else Some (False, between1 s1))))"

section \<open>Reading\<close>

text \<open>
  A download is a sequence of single requests.  The states are: before the first lookup, before the
  length of a hash without a count, before the lookup of the string, before the second lookup of the count, and reading
  chunks, with those that have arrived.
\<close>

datatype Download =
    ReadCount
  | ReadLength
  | ReadInline
  | RecheckCount
  | ReadChunks nat "(nat, string) hash_map"
  | Downloaded string
  | NotFoundError
  | TransientError

definition declared_count :: "(string, string) hash_map \<Rightarrow> nat option option" where
  "declared_count h =
     (case map_of h CHUNK_COUNT_FIELD of
        None \<Rightarrow> Some None
      | Some v \<Rightarrow> (case parse_uint 64 v of None \<Rightarrow> None | Some n \<Rightarrow> Some (Some n)))"

definition collect_chunks :: "nat \<Rightarrow> (nat, string) hash_map \<Rightarrow> Download" where
  "collect_chunks chunks got =
     (if \<forall>i \<in> set [0..<chunks]. map_of got i \<noteq> None
      then Downloaded (concat (map (\<lambda>i. the (map_of got i)) [0..<chunks]))
      else ReadChunks chunks got)"

text \<open>One request of a download; \<open>idx\<close> is the chunk whose answer arrives next, for the parallel reads.\<close>

fun par_download_step :: "'s Redis \<Rightarrow> string \<Rightarrow> nat \<Rightarrow> 's \<Rightarrow> Download \<Rightarrow> Download" where
  "par_download_step R key idx s ReadCount =
     (case hash_of (rd_view R s (chunk_key key)) of
        None \<Rightarrow> TransientError
      | Some h \<Rightarrow>
          (case declared_count h of
             None \<Rightarrow> TransientError
           | Some None \<Rightarrow> ReadLength
           | Some (Some n) \<Rightarrow> if n = 0 then ReadInline else ReadChunks n []))"
| "par_download_step R key idx s ReadLength =
     (case hash_of (rd_view R s (chunk_key key)) of
        None \<Rightarrow> TransientError
      | Some h \<Rightarrow> if length h = 0 then ReadInline else ReadChunks (length h) [])"
| "par_download_step R key idx s ReadInline =
     (case string_of (rd_view R s key) of
        None \<Rightarrow> TransientError
      | Some (Some result) \<Rightarrow> Downloaded result
      | Some None \<Rightarrow> RecheckCount)"
| "par_download_step R key idx s RecheckCount =
     (case hash_of (rd_view R s (chunk_key key)) of
        None \<Rightarrow> TransientError
      | Some h \<Rightarrow>
          (case declared_count h of
             None \<Rightarrow> TransientError
           | Some None \<Rightarrow> NotFoundError
           | Some (Some n) \<Rightarrow> if n = 0 then NotFoundError else ReadChunks n []))"
| "par_download_step R key idx s (ReadChunks chunks got) =
     (if idx < chunks
      then case hash_of (rd_view R s (chunk_key key)) of
             None \<Rightarrow> TransientError
           | Some h \<Rightarrow>
               (case map_of h (show_nat idx) of
                  None \<Rightarrow> TransientError
                | Some chunk \<Rightarrow> collect_chunks chunks (hm_insert idx chunk got))
      else ReadChunks chunks got)"
| "par_download_step R key idx s (Downloaded result) = Downloaded result"
| "par_download_step R key idx s NotFoundError = NotFoundError"
| "par_download_step R key idx s TransientError = TransientError"

section \<open>Deleting in batches\<close>

lemma unlink_all_view:
  "redis_laws R \<Longrightarrow> rd_view R (unlink_all R keys s) k = (if k \<in> set keys then None else rd_view R s k)"
  unfolding unlink_all_def by (induction keys arbitrary: s) (auto simp: redis_commands)

lemma node_groups_keys:
  assumes "node_groups n is groups = Some groups'" and "hm_wf groups" and "fst ` set groups \<subseteq> {..<n}"
  shows "hm_wf groups' \<and> fst ` set groups' \<subseteq> {..<n} \<and>
    (\<forall>j k. (\<exists>ks. map_of groups' j = Some ks \<and> k \<in> set ks) \<longleftrightarrow>
       (\<exists>ks. map_of groups j = Some ks \<and> k \<in> set ks) \<or> (\<exists>i \<in> set is. get_connection_idx i n = Some j \<and> k \<in> {i, chunk_key i}))"
  using assms
proof (induction n "is" groups rule: node_groups.induct)
  case (2 n i "is" groups)
  then obtain j where j: "get_connection_idx i n = Some j" by (auto split: option.splits)
  let ?g = "hm_insert j ((case map_of groups j of None \<Rightarrow> [] | Some ks \<Rightarrow> ks) @ [i, chunk_key i]) groups"
  have "j < n" using j by (auto simp: get_connection_idx_def split: if_splits)
  then have fst_g: "fst ` set ?g \<subseteq> {..<n}" using 2(4) by (simp flip: dom_map_of_conv_image_fst)
  have "node_groups n is ?g = Some groups'" using 2(2) j by (simp add: Let_def)
  from 2(1) [OF j refl this _ fst_g] 2(3) have IH: "hm_wf groups' \<and> fst ` set groups' \<subseteq> {..<n} \<and>
    (\<forall>m k. (\<exists>ks. map_of groups' m = Some ks \<and> k \<in> set ks) \<longleftrightarrow>
       (\<exists>ks. map_of ?g m = Some ks \<and> k \<in> set ks) \<or> (\<exists>i \<in> set is. get_connection_idx i n = Some m \<and> k \<in> {i, chunk_key i}))"
    by simp
  moreover have "(\<exists>ks. map_of ?g m = Some ks \<and> k \<in> set ks) \<longleftrightarrow>
      (\<exists>ks. map_of groups m = Some ks \<and> k \<in> set ks) \<or> (m = j \<and> k \<in> {i, chunk_key i})" for m k
    by (auto split: option.splits)
  ultimately show ?case using j by auto
qed simp

lemma node_groups_defined: "0 < n \<Longrightarrow> \<exists>groups'. node_groups n is groups = Some groups'"
  by (induction n "is" groups rule: node_groups.induct) (auto simp: get_connection_idx_def Let_def)

lemma unlink_groups:
  assumes "hm_wf groups" and "fst ` set groups \<subseteq> {..<length nodes}" and "j < length nodes"
  shows "fold (\<lambda>(node_idx, keys) ns. ns[node_idx := unlink_all R keys (ns ! node_idx)]) groups nodes ! j =
    (case map_of groups j of None \<Rightarrow> nodes ! j | Some ks \<Rightarrow> unlink_all R ks (nodes ! j))"
  using assms
proof (induction groups arbitrary: nodes)
  case (Cons kv groups)
  obtain m ks where kv: "kv = (m, ks)" by (rule prod.exhaust)
  from hm_wf_ConsD [OF Cons.prems(1)] kv have "hm_wf groups" "map_of groups m = None" by simp_all
  with Cons kv show ?case by (auto simp: nth_list_update split: option.splits)
qed simp

text \<open>A batch removes both keys of each artifact on the node it is routed to, and nothing else.\<close>

lemma delete_batch_view:
  assumes laws: "redis_laws R" and "nodes \<noteq> []"
  shows "\<exists>nodes'. delete_batch R is nodes = Some nodes' \<and>
    (\<forall>j < length nodes. \<forall>k. rd_view R (nodes' ! j) k =
       (if \<exists>i \<in> set is. get_connection_idx i (length nodes) = Some j \<and> k \<in> {i, chunk_key i} then None
        else rd_view R (nodes ! j) k))"
proof (cases "is = []")
  case False
  from assms(2) obtain groups where g: "node_groups (length nodes) is [] = Some groups" using node_groups_defined by blast
  let ?ns = "fold (\<lambda>(node_idx, keys) ns. ns[node_idx := unlink_all R keys (ns ! node_idx)]) groups nodes"
  from node_groups_keys [OF g] have wf: "hm_wf groups" "fst ` set groups \<subseteq> {..<length nodes}"
    and keys: "\<And>j k. (\<exists>ks. map_of groups j = Some ks \<and> k \<in> set ks) \<longleftrightarrow>
      (\<exists>i \<in> set is. get_connection_idx i (length nodes) = Some j \<and> k \<in> {i, chunk_key i})" by simp_all
  have "rd_view R (?ns ! j) k = (if \<exists>i \<in> set is. get_connection_idx i (length nodes) = Some j \<and> k \<in> {i, chunk_key i} then None
        else rd_view R (nodes ! j) k)" if "j < length nodes" for j k
    unfolding keys [symmetric] unlink_groups [OF wf that] by (auto simp: unlink_all_view [OF laws] split: option.splits)
  moreover have "delete_batch R is nodes = Some ?ns" using False g by (simp add: delete_batch_def)
  ultimately show ?thesis by blast
qed (simp add: delete_batch_def)

end
