(* ===== verification/Program_Store.thy ===== *)
theory Program_Store
  imports Prelude
begin

text \<open>
  The program store of the gateway (\<open>bin/network-gateway/src/program_store.rs\<close>): the map in memory, and one file per
  program, written to a temporary name and renamed.

  A file system is a map from names to files and the contents of the files; a file that is open stays the same file
  when its name is moved or truncated by somebody else.  Names are relative to the directory of the store.  The
  package \<open>hex\<close> is a parameter, with \<open>hex_laws\<close>.  Bytes are characters.
\<close>

section \<open>The store in memory\<close>

type_synonym ProgramMap = "(string, string \<times> string) hash_map"

definition mem_put :: "string \<Rightarrow> string \<Rightarrow> string \<Rightarrow> ProgramMap \<Rightarrow> unit anyhow \<times> ProgramMap" where
  "mem_put vk_hash vk elf m = (Inr (), hm_insert vk_hash (vk, elf) m)"

definition mem_get :: "string \<Rightarrow> ProgramMap \<Rightarrow> (string \<times> string) option anyhow" where
  "mem_get vk_hash m = Inr (map_of m vk_hash)"

definition mem_exists :: "string \<Rightarrow> ProgramMap \<Rightarrow> bool anyhow" where
  "mem_exists vk_hash m = Inr (map_of m vk_hash \<noteq> None)"

section \<open>Files\<close>

record FileSystem =
  fs_names :: "(string, nat) hash_map"
  fs_data :: "nat \<Rightarrow> string"
  fs_next :: nat

definition fs_empty :: FileSystem where
  "fs_empty = \<lparr>fs_names = [], fs_data = (\<lambda>i. []), fs_next = 0\<rparr>"

definition fs_create :: "string \<Rightarrow> FileSystem \<Rightarrow> nat \<times> FileSystem" where
  "fs_create path fs =
     (case map_of (fs_names fs) path of
        Some i \<Rightarrow> (i, fs\<lparr>fs_data := (fs_data fs)(i := [])\<rparr>)
      | None \<Rightarrow>
          (fs_next fs, fs\<lparr>fs_names := hm_insert path (fs_next fs) (fs_names fs),
                          fs_data := (fs_data fs)(fs_next fs := []), fs_next := fs_next fs + 1\<rparr>))"

text \<open>Writing at a position; a gap behind the end of the file reads as zeros.\<close>

definition write_at :: "nat \<Rightarrow> string \<Rightarrow> string \<Rightarrow> string" where
  "write_at pos d content =
     take pos content @ replicate (pos - length content) (char_of (0 :: nat)) @ d @ drop (pos + length d) content"

definition fs_write :: "nat \<Rightarrow> nat \<Rightarrow> string \<Rightarrow> FileSystem \<Rightarrow> FileSystem" where
  "fs_write i pos d fs = fs\<lparr>fs_data := (fs_data fs)(i := write_at pos d (fs_data fs i))\<rparr>"

definition fs_rename :: "string \<Rightarrow> string \<Rightarrow> FileSystem \<Rightarrow> FileSystem option" where
  "fs_rename a b fs =
     (case map_of (fs_names fs) a of
        None \<Rightarrow> None
      | Some i \<Rightarrow> Some (fs\<lparr>fs_names := hm_insert b i (hm_remove a (fs_names fs))\<rparr>))"

definition fs_read :: "string \<Rightarrow> FileSystem \<Rightarrow> string option" where
  "fs_read path fs = map_option (fs_data fs) (map_of (fs_names fs) path)"

section \<open>Records\<close>

fun to_le_bytes :: "nat \<Rightarrow> nat \<Rightarrow> string" where
  "to_le_bytes 0 n = []"
| "to_le_bytes (Suc k) n = char_of (n mod 256) # to_le_bytes k (n div 256)"

fun from_le_bytes :: "string \<Rightarrow> nat" where
  "from_le_bytes [] = 0"
| "from_le_bytes (c # cs) = of_char c + 256 * from_le_bytes cs"

lemma length_to_le_bytes [simp]: "length (to_le_bytes k n) = k"
  by (induction k n rule: to_le_bytes.induct) auto

lemma from_to_le_bytes: "n < 256 ^ k \<Longrightarrow> from_le_bytes (to_le_bytes k n) = n"
proof (induction k n rule: to_le_bytes.induct)
  case (2 k n)
  then have "n div 256 < 256 ^ k" by (simp add: less_mult_imp_div_less mult.commute)
  with 2 show ?case by simp
qed simp

definition record_bytes :: "string \<Rightarrow> string \<Rightarrow> string" where
  "record_bytes vk elf = to_le_bytes 4 (length vk) @ vk @ elf"

definition parse_record :: "string \<Rightarrow> (string \<times> string) anyhow" where
  "parse_record bytes =
     (if length bytes < 4 then Inl ''program record truncated''
      else let vk_len = from_le_bytes (take 4 bytes)
           in if length bytes < 4 + vk_len then Inl ''program record truncated''
              else Inr (take vk_len (drop 4 bytes), drop (4 + vk_len) bytes))"

lemma parse_record_bytes [simp]: "length vk < 2 ^ 32 \<Longrightarrow> parse_record (record_bytes vk elf) = Inr (vk, elf)"
  by (simp add: parse_record_def record_bytes_def from_to_le_bytes Let_def)

section \<open>The store in files\<close>

definition hex_laws :: "(string \<Rightarrow> string) \<Rightarrow> bool" where
  "hex_laws hex \<longleftrightarrow> inj hex \<and> (\<forall>s. set (hex s) \<subseteq> set ''0123456789abcdef'')"

definition program_path :: "(string \<Rightarrow> string) \<Rightarrow> string \<Rightarrow> string" where
  "program_path hex vk_hash = hex vk_hash"

text \<open>\<open>Path::with_extension\<close>: what follows the last dot of the name is replaced, unless the dot is its start.\<close>

definition file_stem :: "string \<Rightarrow> string" where
  "file_stem name =
     (case dropWhile (\<lambda>c. c \<noteq> CHR ''.'') (rev name) of
        c # stem \<Rightarrow> if stem = [] then name else rev stem
      | [] \<Rightarrow> name)"

definition with_extension :: "string \<Rightarrow> string \<Rightarrow> string" where
  "with_extension name ext = file_stem name @ ''.'' @ ext"

definition tmp_path :: "(string \<Rightarrow> string) \<Rightarrow> string \<Rightarrow> string" where
  "tmp_path hex vk_hash = with_extension (program_path hex vk_hash) ''tmp''"

text \<open>
  A \<open>put\<close> under way: before the temporary file is opened, with the file open and the bytes still to be written,
  and before the rename.  One step writes as many bytes as the system takes, at least one.
\<close>

datatype PutPhase =
    Opening
  | Writing nat nat string
  | Renaming

record Put =
  pu_vk_hash :: string
  pu_vk :: string
  pu_elf :: string
  pu_phase :: PutPhase

datatype PutOutcome =
    Continue Put
  | PutDone
  | PutError string

definition put_step :: "(string \<Rightarrow> string) \<Rightarrow> nat \<Rightarrow> Put \<Rightarrow> FileSystem \<Rightarrow> PutOutcome \<times> FileSystem" where
  "put_step hex n p fs =
     (case pu_phase p of
        Opening \<Rightarrow>
          (if length (pu_vk p) \<ge> 2 ^ 32 then (PutError ''vk too large for u32 length prefix'', fs)
           else case fs_create (tmp_path hex (pu_vk_hash p)) fs of
                  (i, fs') \<Rightarrow> (Continue (p\<lparr>pu_phase := Writing i 0 (record_bytes (pu_vk p) (pu_elf p))\<rparr>), fs'))
      | Writing i pos rest \<Rightarrow>
          (if rest = [] then (Continue (p\<lparr>pu_phase := Renaming\<rparr>), fs)
           else let d = take (max 1 n) rest
                in (Continue (p\<lparr>pu_phase := Writing i (pos + length d) (drop (length d) rest)\<rparr>), fs_write i pos d fs))
      | Renaming \<Rightarrow>
          (case fs_rename (tmp_path hex (pu_vk_hash p)) (program_path hex (pu_vk_hash p)) fs of
             None \<Rightarrow> (PutError ''rename'', fs)
           | Some fs' \<Rightarrow> (PutDone, fs')))"

text \<open>The whole \<open>put\<close> when nobody interferes and no operation fails.\<close>

definition file_put :: "(string \<Rightarrow> string) \<Rightarrow> string \<Rightarrow> string \<Rightarrow> string \<Rightarrow> FileSystem \<Rightarrow> unit anyhow \<times> FileSystem" where
  "file_put hex vk_hash vk elf fs =
     (if length vk \<ge> 2 ^ 32 then (Inl ''vk too large for u32 length prefix'', fs)
      else case fs_create (tmp_path hex vk_hash) fs of
             (i, fs1) \<Rightarrow>
               (case fs_rename (tmp_path hex vk_hash) (program_path hex vk_hash) (fs_write i 0 (record_bytes vk elf) fs1) of
                  None \<Rightarrow> (Inl ''rename'', fs_write i 0 (record_bytes vk elf) fs1)
                | Some fs2 \<Rightarrow> (Inr (), fs2)))"

text \<open>Reading; \<open>io_error\<close> is an error of the system other than a missing file.\<close>

definition file_get :: "(string \<Rightarrow> string) \<Rightarrow> string option \<Rightarrow> string \<Rightarrow> FileSystem \<Rightarrow> (string \<times> string) option anyhow" where
  "file_get hex io_error vk_hash fs =
     (case io_error of
        Some e \<Rightarrow> Inl e
      | None \<Rightarrow>
          (case fs_read (program_path hex vk_hash) fs of
             None \<Rightarrow> Inr None
           | Some bytes \<Rightarrow> (case parse_record bytes of Inl e \<Rightarrow> Inl e | Inr r \<Rightarrow> Inr (Some r))))"

definition file_exists :: "(string \<Rightarrow> string) \<Rightarrow> string option \<Rightarrow> string \<Rightarrow> FileSystem \<Rightarrow> bool anyhow" where
  "file_exists hex io_error vk_hash fs =
     (case io_error of Some e \<Rightarrow> Inl e | None \<Rightarrow> Inr (fs_read (program_path hex vk_hash) fs \<noteq> None))"

section \<open>Stores over time\<close>

text \<open>
  Puts in any number, their steps interleaved; a put may stop anywhere, by an error of the system or a crash.
  With \<open>excl\<close>, a put starts only when none of the same program is under way.  \<open>pf_stored\<close> is the history: the
  store in memory after the puts that were renamed, in this order.
\<close>

record ProgramFiles =
  pf_fs :: FileSystem
  pf_puts :: "Put list"
  pf_stored :: ProgramMap

inductive files_step :: "bool \<Rightarrow> (string \<Rightarrow> string) \<Rightarrow> ProgramFiles \<Rightarrow> ProgramFiles \<Rightarrow> bool"
  for excl :: bool and hex :: "string \<Rightarrow> string" where
  pf_start:
    "vk_hash \<noteq> [] \<Longrightarrow> (excl \<longrightarrow> vk_hash \<notin> pu_vk_hash ` set (pf_puts st)) \<Longrightarrow>
     files_step excl hex st
       (st\<lparr>pf_puts := \<lparr>pu_vk_hash = vk_hash, pu_vk = vk, pu_elf = elf, pu_phase = Opening\<rparr> # pf_puts st\<rparr>)"
| pf_continue:
    "p \<in> set (pf_puts st) \<Longrightarrow> put_step hex n p (pf_fs st) = (Continue p', fs') \<Longrightarrow>
     files_step excl hex st (st\<lparr>pf_fs := fs', pf_puts := p' # remove1 p (pf_puts st)\<rparr>)"
| pf_done:
    "p \<in> set (pf_puts st) \<Longrightarrow> put_step hex n p (pf_fs st) = (PutDone, fs') \<Longrightarrow>
     files_step excl hex st
       (st\<lparr>pf_fs := fs', pf_puts := remove1 p (pf_puts st),
           pf_stored := snd (mem_put (pu_vk_hash p) (pu_vk p) (pu_elf p) (pf_stored st))\<rparr>)"
| pf_stop:
    "files_step excl hex st (st\<lparr>pf_puts := remove1 p (pf_puts st)\<rparr>)"

inductive files_reachable :: "bool \<Rightarrow> (string \<Rightarrow> string) \<Rightarrow> ProgramFiles \<Rightarrow> bool"
  for excl :: bool and hex :: "string \<Rightarrow> string" where
  fr_init: "files_reachable excl hex \<lparr>pf_fs = fs_empty, pf_puts = [], pf_stored = []\<rparr>"
| fr_step: "files_reachable excl hex st \<Longrightarrow> files_step excl hex st st' \<Longrightarrow> files_reachable excl hex st'"

section \<open>What the files hold\<close>

definition names_ok :: "FileSystem \<Rightarrow> bool" where
  "names_ok fs \<longleftrightarrow> inj_on (map_of (fs_names fs)) (dom (map_of (fs_names fs))) \<and> (\<forall>a i. map_of (fs_names fs) a = Some i \<longrightarrow> i < fs_next fs)"

fun put_ok :: "(string \<Rightarrow> string) \<Rightarrow> FileSystem \<Rightarrow> Put \<Rightarrow> PutPhase \<Rightarrow> bool" where
  "put_ok hex fs p Opening = True"
| "put_ok hex fs p (Writing i pos rest) \<longleftrightarrow>
     length (pu_vk p) < 2 ^ 32 \<and> map_of (fs_names fs) (tmp_path hex (pu_vk_hash p)) = Some i \<and>
     pos = length (fs_data fs i) \<and> fs_data fs i @ rest = record_bytes (pu_vk p) (pu_elf p)"
| "put_ok hex fs p Renaming \<longleftrightarrow>
     length (pu_vk p) < 2 ^ 32 \<and> fs_read (tmp_path hex (pu_vk_hash p)) fs = Some (record_bytes (pu_vk p) (pu_elf p))"

definition stored_ok :: "(string \<Rightarrow> string) \<Rightarrow> FileSystem \<Rightarrow> ProgramMap \<Rightarrow> bool" where
  "stored_ok hex fs m \<longleftrightarrow>
     (\<forall>h. fs_read (program_path hex h) fs = map_option (\<lambda>(vk, elf). record_bytes vk elf) (map_of m h)) \<and>
     (\<forall>h vk elf. map_of m h = Some (vk, elf) \<longrightarrow> length vk < 2 ^ 32)"

definition files_ok :: "(string \<Rightarrow> string) \<Rightarrow> ProgramFiles \<Rightarrow> bool" where
  "files_ok hex st \<longleftrightarrow>
     names_ok (pf_fs st) \<and> distinct (map pu_vk_hash (pf_puts st)) \<and>
     (\<forall>p \<in> set (pf_puts st). put_ok hex (pf_fs st) p (pu_phase p)) \<and> stored_ok hex (pf_fs st) (pf_stored st)"

lemma hex_no_dot:
  assumes "hex_laws hex"
  shows "CHR ''.'' \<notin> set (hex s)"
proof
  assume "CHR ''.'' \<in> set (hex s)"
  with assms have "CHR ''.'' \<in> set ''0123456789abcdef''" unfolding hex_laws_def by blast
  then show False by simp
qed

lemma tmp_path_eq: "hex_laws hex \<Longrightarrow> tmp_path hex h = hex h @ ''.tmp''"
proof -
  assume "hex_laws hex"
  then have "dropWhile (\<lambda>c. c \<noteq> CHR ''.'') (rev (hex h)) = []" using hex_no_dot [of hex h] by (auto simp: dropWhile_eq_Nil_conv)
  then show ?thesis by (simp del: dropWhile_eq_Nil_conv add: tmp_path_def with_extension_def file_stem_def program_path_def)
qed

lemma paths_distinct:
  assumes "hex_laws hex"
  shows "tmp_path hex h \<noteq> program_path hex h'" "program_path hex h' \<noteq> tmp_path hex h"
    and "tmp_path hex h = tmp_path hex h' \<longleftrightarrow> h = h'" "program_path hex h = program_path hex h' \<longleftrightarrow> h = h'"
proof -
  have "CHR ''.'' \<in> set (tmp_path hex h)" by (simp add: tmp_path_eq [OF assms])
  then show "tmp_path hex h \<noteq> program_path hex h'" using hex_no_dot [OF assms, of h'] unfolding program_path_def by metis
  then show "program_path hex h' \<noteq> tmp_path hex h" by simp
  show "tmp_path hex h = tmp_path hex h' \<longleftrightarrow> h = h'" "program_path hex h = program_path hex h' \<longleftrightarrow> h = h'"
    using assms by (auto simp: tmp_path_eq [OF assms] program_path_def hex_laws_def inj_eq)
qed

lemma names_okD:
  assumes "names_ok fs" and "map_of (fs_names fs) a = Some i"
  shows "i < fs_next fs" and "map_of (fs_names fs) b = Some i \<Longrightarrow> a = b"
  using assms by (auto simp: names_ok_def inj_on_def dom_def)

text \<open>
  The temporary file of a program may be created, written and renamed; all other names keep their contents.
\<close>

lemma fs_create_ok:
  assumes ok: "names_ok fs" and c: "fs_create a fs = (i, fs')"
  shows "names_ok fs'" and "map_of (fs_names fs') a = Some i" and "fs_data fs' i = []"
    and "b \<noteq> a \<Longrightarrow> fs_read b fs' = fs_read b fs \<and> map_of (fs_names fs') b = map_of (fs_names fs) b"
    and "b \<noteq> a \<Longrightarrow> map_of (fs_names fs) b = Some j \<Longrightarrow> fs_data fs' j = fs_data fs j"
proof -
  have fresh: "map_of (fs_names fs) x \<noteq> Some (fs_next fs)" for x using names_okD(1) [OF ok, of x "fs_next fs"] by auto
  show "names_ok fs'" and "map_of (fs_names fs') a = Some i" and "fs_data fs' i = []"
    and "b \<noteq> a \<Longrightarrow> fs_read b fs' = fs_read b fs \<and> map_of (fs_names fs') b = map_of (fs_names fs) b"
    and "b \<noteq> a \<Longrightarrow> map_of (fs_names fs) b = Some j \<Longrightarrow> fs_data fs' j = fs_data fs j"
    using c names_okD [OF ok] ok fresh
    by (auto simp: fs_create_def fs_read_def names_ok_def inj_on_def dom_def less_Suc_eq map_option_case
        split: option.splits if_splits)
qed

lemma fs_write_ok:
  assumes ok: "names_ok fs" and a: "map_of (fs_names fs) a = Some i"
  shows "names_ok (fs_write i pos d fs)" and "fs_names (fs_write i pos d fs) = fs_names fs"
    and "b \<noteq> a \<Longrightarrow> fs_read b (fs_write i pos d fs) = fs_read b fs"
    and "b \<noteq> a \<Longrightarrow> map_of (fs_names fs) b = Some j \<Longrightarrow> fs_data (fs_write i pos d fs) j = fs_data fs j"
    and "fs_data (fs_write i pos d fs) i = write_at pos d (fs_data fs i)"
  using ok names_okD [OF ok a] by (auto simp: fs_write_def fs_read_def names_ok_def map_option_case split: option.splits)

lemma write_at_end: "write_at (length content) d content = content @ d"
  by (simp add: write_at_def)

lemma fs_rename_ok:
  assumes ok: "names_ok fs" and r: "fs_rename a b fs = Some fs'" and "a \<noteq> b"
  shows "names_ok fs'" and "fs_read b fs' = fs_read a fs" and "fs_data fs' = fs_data fs"
    and "c \<noteq> a \<Longrightarrow> c \<noteq> b \<Longrightarrow> fs_read c fs' = fs_read c fs \<and> map_of (fs_names fs') c = map_of (fs_names fs) c"
  using r names_okD [OF ok] ok assms(3)
  by (auto simp: fs_rename_def fs_read_def names_ok_def inj_on_def dom_def split: option.splits if_splits)

lemma put_ok_frame:
  assumes "put_ok hex fs q ph" and "map_of (fs_names fs') (tmp_path hex (pu_vk_hash q)) = map_of (fs_names fs) (tmp_path hex (pu_vk_hash q))"
    and "\<And>j. map_of (fs_names fs) (tmp_path hex (pu_vk_hash q)) = Some j \<Longrightarrow> fs_data fs' j = fs_data fs j"
  shows "put_ok hex fs' q ph"
  using assms by (cases ph) (auto simp: fs_read_def)

lemma put_ok_phase [simp]: "put_ok hex fs (p\<lparr>pu_phase := ph'\<rparr>) ph = put_ok hex fs p ph"
  by (cases ph) simp_all

lemma stored_ok_frame:
  "stored_ok hex fs m \<Longrightarrow> (\<And>h. fs_read (program_path hex h) fs' = fs_read (program_path hex h) fs) \<Longrightarrow> stored_ok hex fs' m"
  by (simp add: stored_ok_def)

text \<open>A step of one put that goes on: its own condition holds again, and nothing but its temporary file changed.\<close>

lemma put_step_continue:
  assumes laws: "hex_laws hex" and ok: "names_ok fs" and p: "put_ok hex fs p (pu_phase p)"
    and step: "put_step hex n p fs = (Continue p', fs')"
  shows "names_ok fs'" and "pu_vk_hash p' = pu_vk_hash p" and "put_ok hex fs' p' (pu_phase p')"
    and "b \<noteq> tmp_path hex (pu_vk_hash p) \<Longrightarrow> fs_read b fs' = fs_read b fs \<and> map_of (fs_names fs') b = map_of (fs_names fs) b"
    and "b \<noteq> tmp_path hex (pu_vk_hash p) \<Longrightarrow> map_of (fs_names fs) b = Some j \<Longrightarrow> fs_data fs' j = fs_data fs j"
proof -
  have "names_ok fs' \<and> pu_vk_hash p' = pu_vk_hash p \<and> put_ok hex fs' p' (pu_phase p') \<and>
    (\<forall>b j. b \<noteq> tmp_path hex (pu_vk_hash p) \<longrightarrow> fs_read b fs' = fs_read b fs \<and>
       map_of (fs_names fs') b = map_of (fs_names fs) b \<and> (map_of (fs_names fs) b = Some j \<longrightarrow> fs_data fs' j = fs_data fs j))"
  proof (cases "pu_phase p")
    case Opening
    obtain i f where c: "fs_create (tmp_path hex (pu_vk_hash p)) fs = (i, f)" by (rule prod.exhaust)
    with step Opening have e: "fs' = f" "p' = p\<lparr>pu_phase := Writing i 0 (record_bytes (pu_vk p) (pu_elf p))\<rparr>" "length (pu_vk p) < 2 ^ 32"
      by (auto simp: put_step_def split: if_splits)
    with fs_create_ok [OF ok c] show ?thesis by auto
  next
    case (Writing i pos rest)
    show ?thesis
    proof (cases "rest = []")
      case True
      with step Writing p ok show ?thesis by (auto simp: put_step_def fs_read_def)
    next
      case False
      let ?d = "take (max 1 n) rest"
      from step Writing False have e: "fs' = fs_write i pos ?d fs" "p' = p\<lparr>pu_phase := Writing i (pos + length ?d) (drop (length ?d) rest)\<rparr>"
        by (auto simp: put_step_def Let_def)
      from p Writing have a: "map_of (fs_names fs) (tmp_path hex (pu_vk_hash p)) = Some i" and pos: "pos = length (fs_data fs i)"
        and all: "fs_data fs i @ rest = record_bytes (pu_vk p) (pu_elf p)" "length (pu_vk p) < 2 ^ 32" by simp_all
      note w = fs_write_ok [OF ok a, where pos = pos and d = ?d]
      have "fs_data fs' i = fs_data fs i @ ?d" using e(1) w(5) pos by (simp add: write_at_end)
      then have "put_ok hex fs' p' (pu_phase p')" using e w(2) a pos all by (simp add: min_def)
      with e w show ?thesis by simp
    qed
  next
    case Renaming
    with step show ?thesis by (auto simp: put_step_def split: option.splits)
  qed
  then show "names_ok fs'" and "pu_vk_hash p' = pu_vk_hash p" and "put_ok hex fs' p' (pu_phase p')"
    and "b \<noteq> tmp_path hex (pu_vk_hash p) \<Longrightarrow> fs_read b fs' = fs_read b fs \<and> map_of (fs_names fs') b = map_of (fs_names fs) b"
    and "b \<noteq> tmp_path hex (pu_vk_hash p) \<Longrightarrow> map_of (fs_names fs) b = Some j \<Longrightarrow> fs_data fs' j = fs_data fs j" by blast+
qed

text \<open>The rename publishes the whole record.\<close>

lemma put_step_done:
  assumes laws: "hex_laws hex" and ok: "names_ok fs" and p: "put_ok hex fs p (pu_phase p)"
    and step: "put_step hex n p fs = (PutDone, fs')"
  shows "names_ok fs'" and "length (pu_vk p) < 2 ^ 32"
    and "fs_read (program_path hex (pu_vk_hash p)) fs' = Some (record_bytes (pu_vk p) (pu_elf p))"
    and "b \<noteq> tmp_path hex (pu_vk_hash p) \<Longrightarrow> b \<noteq> program_path hex (pu_vk_hash p) \<Longrightarrow>
      fs_read b fs' = fs_read b fs \<and> map_of (fs_names fs') b = map_of (fs_names fs) b"
    and "fs_data fs' = fs_data fs"
proof -
  from step have ph: "pu_phase p = Renaming" and
    r: "fs_rename (tmp_path hex (pu_vk_hash p)) (program_path hex (pu_vk_hash p)) fs = Some fs'"
    by (auto simp: put_step_def Let_def split: PutPhase.splits option.splits if_splits prod.splits)
  note ren = fs_rename_ok [OF ok r paths_distinct(1) [OF laws]]
  show "names_ok fs'" and "fs_data fs' = fs_data fs" by (fact ren)+
  show "length (pu_vk p) < 2 ^ 32" "fs_read (program_path hex (pu_vk_hash p)) fs' = Some (record_bytes (pu_vk p) (pu_elf p))"
    using p ph ren(2) by simp_all
  show "b \<noteq> tmp_path hex (pu_vk_hash p) \<Longrightarrow> b \<noteq> program_path hex (pu_vk_hash p) \<Longrightarrow>
      fs_read b fs' = fs_read b fs \<and> map_of (fs_names fs') b = map_of (fs_names fs) b" using ren(4) by simp
qed

lemma stored_ok_insert:
  assumes "stored_ok hex fs m" and "length vk < 2 ^ 32" and "fs_read (program_path hex h) fs' = Some (record_bytes vk elf)"
    and "\<And>h'. h' \<noteq> h \<Longrightarrow> fs_read (program_path hex h') fs' = fs_read (program_path hex h') fs"
  shows "stored_ok hex fs' (hm_insert h (vk, elf) m)"
  using assms by (simp add: stored_ok_def)

lemma distinct_map_remove1: "distinct (map f xs) \<Longrightarrow> distinct (map f (remove1 x xs))"
  using set_remove1_subset [of x xs] by (auto simp: distinct_map inj_on_def)

lemma files_ok_step:
  assumes laws: "hex_laws hex" and ok: "files_ok hex st" and step: "files_step True hex st st'"
  shows "files_ok hex st'"
proof -
  let ?fs = "pf_fs st"
  have names: "names_ok ?fs" and dist: "distinct (map pu_vk_hash (pf_puts st))" and puts: "\<forall>p \<in> set (pf_puts st). put_ok hex ?fs p (pu_phase p)"
    and stored: "stored_ok hex ?fs (pf_stored st)" using ok by (simp_all add: files_ok_def)
  have others: "q \<in> set (pf_puts st) \<and> pu_vk_hash q \<noteq> pu_vk_hash p" if "p \<in> set (pf_puts st)" "q \<in> set (remove1 p (pf_puts st))" for p q
    using that dist by (auto simp: distinct_map inj_on_def)
  have dist1: "distinct (map pu_vk_hash (remove1 p (pf_puts st)))" for p
    by (rule distinct_map_remove1 [OF dist])
  from step show ?thesis
  proof cases
    case (pf_start h vk elf)
    with ok show ?thesis by (auto simp: files_ok_def)
  next
    case (pf_continue p n p' fs')
    note c = put_step_continue [OF laws names bspec [OF puts pf_continue(2)] pf_continue(3)]
    have "put_ok hex fs' q (pu_phase q)" if "q \<in> set (remove1 p (pf_puts st))" for q
    proof -
      have ne: "tmp_path hex (pu_vk_hash q) \<noteq> tmp_path hex (pu_vk_hash p)"
        using others [OF pf_continue(2) that] paths_distinct(3) [OF laws] by simp
      have "put_ok hex ?fs q (pu_phase q)" using others [OF pf_continue(2) that] puts by blast
      then show ?thesis using conjunct2 [OF c(4) [OF ne]] c(5) [OF ne] by (rule put_ok_frame)
    qed
    moreover have "stored_ok hex fs' (pf_stored st)"
      using c(4) [OF paths_distinct(2) [OF laws]] by (intro stored_ok_frame [OF stored]) blast
    moreover have "pu_vk_hash p' \<notin> set (map pu_vk_hash (remove1 p (pf_puts st)))"
    proof
      assume "pu_vk_hash p' \<in> set (map pu_vk_hash (remove1 p (pf_puts st)))"
      then obtain q where q: "q \<in> set (remove1 p (pf_puts st))" "pu_vk_hash q = pu_vk_hash p" unfolding c(2) by auto
      from others [OF pf_continue(2) q(1)] q(2) show False by simp
    qed
    ultimately show ?thesis using pf_continue(1) c(1,3) dist1 by (simp add: files_ok_def)
  next
    case (pf_done p n fs')
    note c = put_step_done [OF laws names bspec [OF puts pf_done(2)] pf_done(3)]
    have "put_ok hex fs' q (pu_phase q)" if "q \<in> set (remove1 p (pf_puts st))" for q
    proof -
      have ne: "tmp_path hex (pu_vk_hash q) \<noteq> tmp_path hex (pu_vk_hash p)"
        using others [OF pf_done(2) that] paths_distinct(3) [OF laws] by simp
      have "put_ok hex ?fs q (pu_phase q)" using others [OF pf_done(2) that] puts by blast
      then show ?thesis using conjunct2 [OF c(4) [OF ne paths_distinct(1) [OF laws]]] by (rule put_ok_frame) (simp add: c(5))
    qed
    moreover have "stored_ok hex fs' (snd (mem_put (pu_vk_hash p) (pu_vk p) (pu_elf p) (pf_stored st)))"
      unfolding mem_put_def snd_conv
    proof (rule stored_ok_insert [OF stored c(2,3)])
      fix h assume "h \<noteq> pu_vk_hash p"
      then have "program_path hex h \<noteq> program_path hex (pu_vk_hash p)" using paths_distinct(4) [OF laws] by simp
      from c(4) [OF paths_distinct(2) [OF laws] this] show "fs_read (program_path hex h) fs' = fs_read (program_path hex h) ?fs" by blast
    qed
    ultimately show ?thesis using pf_done(1) c(1) dist1 by (simp add: files_ok_def)
  next
    case (pf_stop p)
    with ok dist1 show ?thesis by (auto simp: files_ok_def dest: notin_set_remove1)
  qed
qed

lemma files_reachable_ok:
  assumes "hex_laws hex" and "files_reachable True hex st"
  shows "files_ok hex st"
  using assms(2)
proof (induction rule: files_reachable.induct)
  case fr_init
  show ?case by (simp add: files_ok_def names_ok_def stored_ok_def fs_empty_def fs_read_def)
next
  case (fr_step st st')
  then show ?case using files_ok_step [OF assms(1)] by blast
qed

text \<open>The files refine the map in memory: readers see exactly the puts that were renamed.\<close>

lemma file_get_stored:
  assumes "stored_ok hex fs m"
  shows "file_get hex None h fs = mem_get h m" and "file_exists hex None h fs = mem_exists h m"
proof -
  have r: "fs_read (program_path hex h) fs = map_option (\<lambda>(vk, elf). record_bytes vk elf) (map_of m h)"
    using assms by (simp add: stored_ok_def)
  show "file_exists hex None h fs = mem_exists h m" by (simp add: file_exists_def mem_exists_def r)
  show "file_get hex None h fs = mem_get h m"
  proof (cases "map_of m h")
    case (Some e)
    obtain vk elf where e: "e = (vk, elf)" by (rule prod.exhaust)
    with assms Some have "length vk < 2 ^ 32" unfolding stored_ok_def by blast
    with Some e show ?thesis by (simp add: file_get_def mem_get_def r)
  qed (simp add: file_get_def mem_get_def r)
qed

section \<open>The interface\<close>

record 'p ProgramStore =
  ps_put :: "string \<Rightarrow> string \<Rightarrow> string \<Rightarrow> 'p \<Rightarrow> unit anyhow \<times> 'p"
  ps_get :: "string \<Rightarrow> 'p \<Rightarrow> (string \<times> string) option anyhow"
  ps_exists :: "string \<Rightarrow> 'p \<Rightarrow> bool anyhow"

definition InMemoryProgramStore :: "ProgramMap ProgramStore" where
  "InMemoryProgramStore = \<lparr>ps_put = mem_put, ps_get = mem_get, ps_exists = mem_exists\<rparr>"

definition FilesystemProgramStore :: "(string \<Rightarrow> string) \<Rightarrow> FileSystem ProgramStore" where
  "FilesystemProgramStore hex = \<lparr>ps_put = file_put hex, ps_get = file_get hex None, ps_exists = file_exists hex None\<rparr>"

text \<open>
  What the gateway relies on: a stored program reads back, other programs stay, a failed \<open>put\<close> changes nothing that
  is read, and \<open>exists\<close> agrees with \<open>get\<close>.
\<close>

locale program_store =
  fixes P :: "'p ProgramStore" and inv :: "'p \<Rightarrow> bool"
  assumes put_inv: "inv s \<Longrightarrow> ps_put P h vk elf s = (r, s') \<Longrightarrow> inv s'"
    and get_put: "inv s \<Longrightarrow> ps_put P h vk elf s = (Inr u, s') \<Longrightarrow> ps_get P k s' = (if k = h then Inr (Some (vk, elf)) else ps_get P k s)"
    and get_failed: "inv s \<Longrightarrow> ps_put P h vk elf s = (Inl e, s') \<Longrightarrow> ps_get P k s' = ps_get P k s"
    and exists_get: "inv s \<Longrightarrow> ps_exists P h s = (case ps_get P h s of Inl e \<Rightarrow> Inl e | Inr r \<Rightarrow> Inr (r \<noteq> None))"
begin

fun puts :: "(string \<times> string \<times> string) list \<Rightarrow> 'p \<Rightarrow> bool \<times> 'p" where
  "puts [] s = (True, s)"
| "puts ((h, vk, elf) # rest) s =
     (case ps_put P h vk elf s of (Inl e, s1) \<Rightarrow> (False, s1) | (Inr u, s1) \<Rightarrow> puts rest s1)"

lemma get_puts:
  "inv s \<Longrightarrow> puts ps s = (True, s') \<Longrightarrow>
   inv s' \<and> ps_get P k s' = (case map_of (rev ps) k of None \<Rightarrow> ps_get P k s | Some r \<Rightarrow> Inr (Some r))"
proof (induction ps arbitrary: s)
  case (Cons e ps)
  obtain h vk elf where e: "e = (h, vk, elf)" by (rule prod_cases3)
  obtain r s1 where r: "ps_put P h vk elf s = (r, s1)" by (rule prod.exhaust)
  with Cons.prems(2) e obtain u where u: "r = Inr u" and rest: "puts ps s1 = (True, s')" by (auto split: sum.splits)
  from Cons.IH [OF put_inv [OF Cons.prems(1) r] rest] get_put [OF Cons.prems(1) r [unfolded u], of k] e
  show ?case by (auto simp: map_add_def split: option.splits)
qed simp

end

interpretation mem_store: program_store InMemoryProgramStore "\<lambda>m. True"
  by unfold_locales (auto simp: InMemoryProgramStore_def mem_put_def mem_get_def mem_exists_def)

text \<open>The files as the gateway sees them between its calls.\<close>

definition files_inv :: "(string \<Rightarrow> string) \<Rightarrow> FileSystem \<Rightarrow> bool" where
  "files_inv hex fs \<longleftrightarrow> hex_laws hex \<and> names_ok fs \<and> (\<exists>m. stored_ok hex fs m)"

lemma file_put_stored:
  assumes laws: "hex_laws hex" and ok: "names_ok fs" and m: "stored_ok hex fs m" and p: "file_put hex h vk elf fs = (r, fs')"
  shows "names_ok fs' \<and> (case r of Inl e \<Rightarrow> stored_ok hex fs' m | Inr u \<Rightarrow> stored_ok hex fs' (hm_insert h (vk, elf) m))"
proof (cases "length vk < 2 ^ 32")
  case True
  obtain i fs1 where c: "fs_create (tmp_path hex h) fs = (i, fs1)" by (rule prod.exhaust)
  note cr = fs_create_ok [OF ok c]
  let ?fs2 = "fs_write i 0 (record_bytes vk elf) fs1"
  note wr = fs_write_ok [OF cr(1,2), where pos = 0 and d = "record_bytes vk elf"]
  have data: "fs_data ?fs2 i = record_bytes vk elf" using wr(5) cr(3) by (simp add: write_at_def)
  obtain fs3 where ren: "fs_rename (tmp_path hex h) (program_path hex h) ?fs2 = Some fs3"
    using cr(2) wr(2) by (simp add: fs_rename_def)
  have e: "r = Inr ()" "fs' = fs3" using p True by (simp_all add: file_put_def c ren)
  note rn = fs_rename_ok [OF wr(1) ren paths_distinct(1) [OF laws]]
  have "fs_read (program_path hex h) fs3 = Some (record_bytes vk elf)" using rn(2) cr(2) wr(2) data by (simp add: fs_read_def)
  moreover have "fs_read (program_path hex k) fs3 = fs_read (program_path hex k) fs" if "k \<noteq> h" for k
    using that rn(4) wr(3) cr(4) paths_distinct [OF laws] by simp
  ultimately have "stored_ok hex fs3 (hm_insert h (vk, elf) m)" by (intro stored_ok_insert [OF m True])
  with rn(1) e show ?thesis by simp
next
  case False
  with p have "r = Inl ''vk too large for u32 length prefix''" "fs' = fs" by (simp_all add: file_put_def)
  with ok m show ?thesis by simp
qed

interpretation file_store: program_store "FilesystemProgramStore hex" "files_inv hex" for hex
proof
  fix s h vk elf r s'
  assume inv: "files_inv hex s" and p: "ps_put (FilesystemProgramStore hex) h vk elf s = (r, s')"
  then obtain m where m: "stored_ok hex s m" by (auto simp: files_inv_def)
  from file_put_stored [OF _ _ m, of h vk elf r s'] inv p show "files_inv hex s'"
    by (cases r) (auto simp: files_inv_def FilesystemProgramStore_def)
next
  fix s h vk elf u s' k
  assume inv: "files_inv hex s" and p: "ps_put (FilesystemProgramStore hex) h vk elf s = (Inr u, s')"
  then obtain m where m: "stored_ok hex s m" by (auto simp: files_inv_def)
  have "stored_ok hex s' (hm_insert h (vk, elf) m)"
    using file_put_stored [OF _ _ m, of h vk elf "Inr u" s'] inv p by (simp add: files_inv_def FilesystemProgramStore_def)
  with m show "ps_get (FilesystemProgramStore hex) k s' =
      (if k = h then Inr (Some (vk, elf)) else ps_get (FilesystemProgramStore hex) k s)"
    by (simp add: FilesystemProgramStore_def file_get_stored mem_get_def)
next
  fix s h vk elf e s' k
  assume inv: "files_inv hex s" and p: "ps_put (FilesystemProgramStore hex) h vk elf s = (Inl e, s')"
  then obtain m where m: "stored_ok hex s m" by (auto simp: files_inv_def)
  have "stored_ok hex s' m"
    using file_put_stored [OF _ _ m, of h vk elf "Inl e" s'] inv p by (simp add: files_inv_def FilesystemProgramStore_def)
  with m show "ps_get (FilesystemProgramStore hex) k s' = ps_get (FilesystemProgramStore hex) k s"
    by (simp add: FilesystemProgramStore_def file_get_stored)
next
  fix s h
  assume "files_inv hex s"
  then obtain m where m: "stored_ok hex s m" by (auto simp: files_inv_def)
  show "ps_exists (FilesystemProgramStore hex) h s =
      (case ps_get (FilesystemProgramStore hex) h s of Inl e \<Rightarrow> Inl e | Inr r \<Rightarrow> Inr (r \<noteq> None))"
    by (simp add: FilesystemProgramStore_def file_get_stored [OF m] mem_get_def mem_exists_def)
qed

end
