(* ===== verification/Gateway.thy ===== *)
theory Gateway
  imports Cluster Artifact_Redis Program_Store
begin

text \<open>
  The network gateway (\<open>bin/network-gateway/src\<close>): ids and artifact addresses, the translation of statuses and of
  their filters, signatures, the registration of programs, and the remote procedures that turn a request of the SDK
  into a row of the cluster API and read it back.

  Outside of the sources are the artifact client, whose operations are a parameter; the message types of the SDK
  and of the cluster, whose enumerations are the constructors the sources name and whose numbers are parameters; and
  the packages for signatures and \<open>hex\<close>.  Bytes are characters.
\<close>

section \<open>Ids and addresses\<close>

datatype ProtoArtifactType =
    PaUnspecified
  | PaProgram
  | PaStdin
  | PaProof
  | PaTransaction
  | PaState
  | PaExport
  | PaPrivateStdin

definition proto_to_cluster_type :: "(int \<Rightarrow> ProtoArtifactType option) \<Rightarrow> int \<Rightarrow> ArtifactType" where
  "proto_to_cluster_type try_from proto =
     (case (case try_from proto of None \<Rightarrow> PaUnspecified | Some t \<Rightarrow> t) of
        PaProgram \<Rightarrow> Program
      | PaStdin \<Rightarrow> Stdin
      | PaProof \<Rightarrow> Proof
      | PaPrivateStdin \<Rightarrow> PrivateStdin
      | PaUnspecified \<Rightarrow> UnspecifiedArtifactType
      | PaTransaction \<Rightarrow> UnspecifiedArtifactType
      | PaState \<Rightarrow> UnspecifiedArtifactType
      | PaExport \<Rightarrow> UnspecifiedArtifactType)"

fun artifact_type_segment :: "ArtifactType \<Rightarrow> string" where
  "artifact_type_segment UnspecifiedArtifactType = ''unspecified''"
| "artifact_type_segment Program = ''program''"
| "artifact_type_segment Stdin = ''stdin''"
| "artifact_type_segment Proof = ''proof''"
| "artifact_type_segment Groth16Circuit = ''groth16''"
| "artifact_type_segment PlonkCircuit = ''plonk''"
| "artifact_type_segment PrivateStdin = ''private-stdin''"

definition parse_artifact_type_segment :: "string \<Rightarrow> ArtifactType option" where
  "parse_artifact_type_segment seg =
     (if seg = ''unspecified'' then Some UnspecifiedArtifactType
      else if seg = ''program'' then Some Program
      else if seg = ''stdin'' then Some Stdin
      else if seg = ''proof'' then Some Proof
      else if seg = ''groth16'' then Some Groth16Circuit
      else if seg = ''plonk'' then Some PlonkCircuit
      else if seg = ''private-stdin'' then Some PrivateStdin
      else None)"

lemma parse_segment [simp]: "parse_artifact_type_segment (artifact_type_segment t) = Some t"
  by (cases t) (simp_all add: parse_artifact_type_segment_def)

definition trim_end_slashes :: "string \<Rightarrow> string" where
  "trim_end_slashes s = rev (dropWhile (\<lambda>c. c = CHR ''/'') (rev s))"

definition artifact_uri :: "string \<Rightarrow> ArtifactType \<Rightarrow> string \<Rightarrow> string" where
  "artifact_uri public_base artifact_type i =
     trim_end_slashes public_base @ ''/artifacts/'' @ artifact_type_segment artifact_type @ ''/'' @ i"

definition artifact_id_from_uri :: "string \<Rightarrow> string option" where
  "artifact_id_from_uri uri =
     (let path = rev (takeWhile (\<lambda>c. c \<noteq> CHR ''/'') (rev uri)) in if path = [] then None else Some path)"

definition uri_id_ok :: "string \<Rightarrow> bool" where
  "uri_id_ok i \<longleftrightarrow> i \<noteq> [] \<and> CHR ''/'' \<notin> set i"

lemma artifact_id_of_uri [simp]: "uri_id_ok i \<Longrightarrow> artifact_id_from_uri (artifact_uri base t i) = Some i"
proof -
  assume i: "uri_id_ok i"
  have "takeWhile (\<lambda>c. c \<noteq> CHR ''/'') (rev i @ CHR ''/'' # r) = rev i" for r
    using i by (subst takeWhile_append2) (auto simp: uri_id_ok_def)
  with i show ?thesis by (simp add: artifact_id_from_uri_def artifact_uri_def Let_def uri_id_ok_def)
qed

lemma artifact_id_from_uri_ok: "artifact_id_from_uri uri = Some i \<Longrightarrow> uri_id_ok i"
  by (auto simp: artifact_id_from_uri_def uri_id_ok_def Let_def split: if_splits dest: set_takeWhileD)

definition program_artifact_id :: "(string \<Rightarrow> string) \<Rightarrow> string \<Rightarrow> string" where
  "program_artifact_id hex vk_hash = ''program_'' @ hex vk_hash"

definition REQUEST_ID_LEN :: nat where
  "REQUEST_ID_LEN = 32"

text \<open>\<open>typeid\<close> is the id minted by the package; \<open>None\<close> is the failed assertion.\<close>

definition mint_request_id :: "string \<Rightarrow> string option" where
  "mint_request_id typeid =
     (if length typeid \<le> REQUEST_ID_LEN
      then Some (typeid @ replicate (REQUEST_ID_LEN - length typeid) (char_of (0 :: nat)))
      else None)"

text \<open>
  \<open>String::from_utf8_lossy\<close>: the length of the next character or invalid piece, and whether it is valid; invalid
  pieces become the replacement character.
\<close>

definition in_range :: "nat \<Rightarrow> nat \<Rightarrow> nat \<Rightarrow> string \<Rightarrow> bool" where
  "in_range n lo hi s \<longleftrightarrow> n < length s \<and> lo \<le> (of_char (s ! n) :: nat) \<and> of_char (s ! n) \<le> hi"

definition continuations :: "nat \<Rightarrow> nat \<Rightarrow> nat \<Rightarrow> string \<Rightarrow> nat \<times> bool" where
  "continuations width lo hi s =
     (if \<not> in_range 1 lo hi s then (1, False)
      else if width = 2 then (2, True)
      else if \<not> in_range 2 0x80 0xBF s then (2, False)
      else if width = 3 then (3, True)
      else if \<not> in_range 3 0x80 0xBF s then (3, False)
      else (4, True))"

definition utf8_piece :: "string \<Rightarrow> nat \<times> bool" where
  "utf8_piece s =
     (let b = of_char (hd s) :: nat
      in if b < 0x80 then (1, True)
         else if 0xC2 \<le> b \<and> b \<le> 0xDF then continuations 2 0x80 0xBF s
         else if b = 0xE0 then continuations 3 0xA0 0xBF s
         else if b = 0xED then continuations 3 0x80 0x9F s
         else if 0xE1 \<le> b \<and> b \<le> 0xEF then continuations 3 0x80 0xBF s
         else if b = 0xF0 then continuations 4 0x90 0xBF s
         else if 0xF1 \<le> b \<and> b \<le> 0xF3 then continuations 4 0x80 0xBF s
         else if b = 0xF4 then continuations 4 0x80 0x8F s
         else (1, False))"

lemma utf8_piece_pos: "(n, valid) = utf8_piece s \<Longrightarrow> 0 < n"
  by (auto simp: utf8_piece_def continuations_def Let_def split: if_splits)

function from_utf8_lossy :: "string \<Rightarrow> string" where
  "from_utf8_lossy [] = []"
| "from_utf8_lossy (c # cs) =
     (case utf8_piece (c # cs) of
        (n, valid) \<Rightarrow>
          (if valid then take n (c # cs) else map char_of [0xEF :: nat, 0xBF, 0xBD]) @ from_utf8_lossy (drop n (c # cs)))"
  by pat_completeness auto
termination
  by (relation "measure length") (auto dest: utf8_piece_pos)

definition is_ascii :: "string \<Rightarrow> bool" where
  "is_ascii s \<longleftrightarrow> (\<forall>c \<in> set s. (of_char c :: nat) < 0x80)"

lemma from_utf8_lossy_ascii: "is_ascii s \<Longrightarrow> from_utf8_lossy s = s"
  by (induction s) (simp_all add: is_ascii_def utf8_piece_def Let_def)

definition proof_id_from_request_id :: "string \<Rightarrow> string" where
  "proof_id_from_request_id request_id =
     from_utf8_lossy (rev (dropWhile (\<lambda>b. b = char_of (0 :: nat)) (rev request_id)))"

text \<open>What the package promises of a minted id.\<close>

definition typeid_ok :: "string \<Rightarrow> bool" where
  "typeid_ok typeid \<longleftrightarrow>
     typeid \<noteq> [] \<and> length typeid \<le> REQUEST_ID_LEN \<and> is_ascii typeid \<and> char_of (0 :: nat) \<notin> set typeid"

lemma minted_id_reads_back:
  assumes "typeid_ok typeid"
  obtains request_id where "mint_request_id typeid = Some request_id" and "length request_id = REQUEST_ID_LEN"
    and "proof_id_from_request_id request_id = typeid"
proof -
  let ?z = "char_of (0 :: nat)" and ?n = "REQUEST_ID_LEN - length typeid"
  let ?id = "typeid @ replicate ?n ?z"
  have stop: "dropWhile (\<lambda>b. b = ?z) (rev typeid) = rev typeid"
    using assms by (cases "rev typeid") (auto simp: typeid_ok_def dest: arg_cong [where f = set])
  have "dropWhile (\<lambda>b. b = ?z) (replicate n ?z @ rev typeid) = rev typeid" for n
    by (induction n) (simp_all add: stop)
  then have "proof_id_from_request_id ?id = typeid"
    using assms by (simp add: proof_id_from_request_id_def from_utf8_lossy_ascii typeid_ok_def)
  with assms that [of ?id] show thesis by (simp add: mint_request_id_def typeid_ok_def)
qed

text \<open>An id without zero bytes at its end is also accepted as it is, without the padding.\<close>

lemma unpadded_id_reads_back: "typeid_ok typeid \<Longrightarrow> proof_id_from_request_id typeid = typeid"
proof -
  assume ok: "typeid_ok typeid"
  then have "dropWhile (\<lambda>b. b = char_of (0 :: nat)) (rev typeid) = rev typeid"
    by (cases "rev typeid") (auto simp: typeid_ok_def dest: arg_cong [where f = set])
  with ok show ?thesis by (simp add: proof_id_from_request_id_def from_utf8_lossy_ascii typeid_ok_def)
qed

section \<open>Statuses\<close>

datatype ClusterStatus =
    CsUnspecified
  | CsPending
  | CsCompleted
  | CsFailed
  | CsCancelled

datatype ClusterExecution =
    CeUnspecified
  | CeUnexecuted
  | CeExecuted
  | CeFailed
  | CeCancelled

datatype FulfillmentStatus =
    UnspecifiedFulfillmentStatus
  | Requested
  | Assigned
  | Fulfilled
  | Unfulfillable
  | Reverted
  | Expired

datatype SdkExecutionStatus =
    UnspecifiedExecutionStatus
  | Unexecuted
  | Executed
  | Unexecutable

text \<open>
  The numbers of the messages.  The getters of the generated code read a number that names no constructor as the
  unspecified one.
\<close>

record Sdk =
  sdk_artifact_type :: "int \<Rightarrow> ProtoArtifactType option"
  sdk_fulfillment :: "int \<Rightarrow> FulfillmentStatus option"
  sdk_execution :: "int \<Rightarrow> SdkExecutionStatus option"
  sdk_cluster_execution :: "int \<Rightarrow> ClusterExecution option"
  sdk_cluster_execution_number :: "ClusterExecution \<Rightarrow> int"
  sdk_unspecified_mode :: int

definition sdk_laws :: "Sdk \<Rightarrow> bool" where
  "sdk_laws sdk \<longleftrightarrow>
     (\<forall>e n. sdk_cluster_execution sdk n = Some e \<longleftrightarrow> sdk_cluster_execution_number sdk e = n) \<and>
     - (2 ^ 31) \<le> sdk_unspecified_mode sdk \<and> sdk_unspecified_mode sdk < 2 ^ 31"

fun proof_status :: "ProofRequestStatus \<Rightarrow> ClusterStatus" where
  "proof_status StPending = CsPending"
| "proof_status StCompleted = CsCompleted"
| "proof_status StFailed = CsFailed"
| "proof_status StCancelled = CsCancelled"
| "proof_status (StOther n) = CsUnspecified"

definition execution_status :: "Sdk \<Rightarrow> ExecutionResult \<Rightarrow> ClusterExecution" where
  "execution_status sdk r = (case sdk_cluster_execution sdk (er_status r) of None \<Rightarrow> CeUnspecified | Some e \<Rightarrow> e)"

fun fulfillment_from_cluster :: "ClusterStatus \<Rightarrow> FulfillmentStatus" where
  "fulfillment_from_cluster CsUnspecified = UnspecifiedFulfillmentStatus"
| "fulfillment_from_cluster CsPending = Requested"
| "fulfillment_from_cluster CsCompleted = Fulfilled"
| "fulfillment_from_cluster CsFailed = Unfulfillable"
| "fulfillment_from_cluster CsCancelled = Unfulfillable"

fun execution_from_cluster :: "ClusterExecution \<Rightarrow> SdkExecutionStatus" where
  "execution_from_cluster CeUnspecified = UnspecifiedExecutionStatus"
| "execution_from_cluster CeUnexecuted = Unexecuted"
| "execution_from_cluster CeExecuted = Executed"
| "execution_from_cluster CeFailed = Unexecutable"
| "execution_from_cluster CeCancelled = Unexecutable"

fun cluster_fulfillment_filter :: "FulfillmentStatus \<Rightarrow> ProofRequestStatus list option" where
  "cluster_fulfillment_filter UnspecifiedFulfillmentStatus = None"
| "cluster_fulfillment_filter Requested = Some [StPending]"
| "cluster_fulfillment_filter Assigned = Some []"
| "cluster_fulfillment_filter Reverted = Some []"
| "cluster_fulfillment_filter Expired = Some []"
| "cluster_fulfillment_filter Fulfilled = Some [StCompleted]"
| "cluster_fulfillment_filter Unfulfillable = Some [StFailed, StCancelled]"

fun cluster_execution_filter :: "SdkExecutionStatus \<Rightarrow> ClusterExecution list" where
  "cluster_execution_filter UnspecifiedExecutionStatus = []"
| "cluster_execution_filter Unexecuted = [CeUnexecuted]"
| "cluster_execution_filter Executed = [CeExecuted]"
| "cluster_execution_filter Unexecutable = [CeFailed, CeCancelled]"

text \<open>The filters are the inverse images of the translations.\<close>

lemma fulfillment_filter_exact:
  "cluster_fulfillment_filter s = Some cs \<Longrightarrow> c \<in> set cs \<longleftrightarrow> fulfillment_from_cluster (proof_status c) = s"
  by (cases s; cases c) auto

lemma execution_filter_exact:
  "s \<noteq> UnspecifiedExecutionStatus \<Longrightarrow> c \<in> set (cluster_execution_filter s) \<longleftrightarrow> execution_from_cluster c = s"
  by (cases s; cases c) auto

lemma execution_filter_Nil: "cluster_execution_filter s = [] \<longleftrightarrow> s = UnspecifiedExecutionStatus"
  by (cases s) auto

section \<open>Signatures\<close>

datatype AuthMode =
    NoAuth
  | Verify
  | Allowlist

type_synonym Address = "nat list"

definition zero_address :: Address where
  "zero_address = replicate 20 0"

record Auth =
  au_mode :: AuthMode
  au_allowlist :: "Address hash_set"

text \<open>The package for signatures: decoding the bytes, and the address that signed a message.\<close>

record 'sig Signatures =
  sg_from_raw :: "string \<Rightarrow> 'sig anyhow"
  sg_recover :: "'sig \<Rightarrow> string \<Rightarrow> Address anyhow"

definition authorize :: "'sig Signatures \<Rightarrow> Auth \<Rightarrow> string \<Rightarrow> string \<Rightarrow> Address result" where
  "authorize sg auth message signature =
     (if au_mode auth = NoAuth then Inr zero_address
      else case sg_from_raw sg signature of
             Inl e \<Rightarrow> Inl (Unauthenticated (''invalid signature bytes: '' @ e))
           | Inr s \<Rightarrow>
               (case sg_recover sg s message of
                  Inl e \<Rightarrow> Inl (Unauthenticated (''signature recovery failed: '' @ e))
                | Inr addr \<Rightarrow>
                    (if au_mode auth = Allowlist \<and> addr \<notin> set (au_allowlist auth)
                     then Inl (PermissionDenied ''signer not in allowlist'') else Inr addr)))"

fun collect_addresses :: "(string \<Rightarrow> Address anyhow) \<Rightarrow> string list \<Rightarrow> Address hash_set \<Rightarrow> Address hash_set anyhow" where
  "collect_addresses from_str [] acc = Inr acc"
| "collect_addresses from_str (s # ss) acc =
     (case from_str s of
        Inl e \<Rightarrow> Inl (''invalid address '' @ s @ '': '' @ e)
      | Inr a \<Rightarrow> collect_addresses from_str ss (hs_insert a acc))"

definition parse_allowlist :: "(string \<Rightarrow> Address anyhow) \<Rightarrow> string \<Rightarrow> Address hash_set anyhow" where
  "parse_allowlist from_str input =
     collect_addresses from_str (filter (\<lambda>s. s \<noteq> []) (map trim (split_on CHR '','' input))) []"

lemma authorized_signer:
  assumes "authorize sg auth message signature = Inr addr" and "au_mode auth \<noteq> NoAuth"
  shows "\<exists>s. sg_from_raw sg signature = Inr s \<and> sg_recover sg s message = Inr addr"
    and "au_mode auth = Allowlist \<Longrightarrow> addr \<in> set (au_allowlist auth)"
  using assms by (auto simp: authorize_def split: sum.splits if_splits)

lemma collected_addresses:
  "collect_addresses from_str ss acc = Inr addrs \<Longrightarrow> a \<in> set addrs \<longleftrightarrow> a \<in> set acc \<or> (\<exists>s \<in> set ss. from_str s = Inr a)"
  by (induction ss arbitrary: acc) (auto split: sum.splits)

section \<open>The state of the gateway\<close>

text \<open>
  The artifact client.  The first argument of the uploads is what the store mints for the attempt.
\<close>

record 's ArtifactClient =
  ac_exists :: "string \<Rightarrow> ArtifactType \<Rightarrow> 's \<Rightarrow> bool anyhow"
  ac_upload_raw :: "string \<Rightarrow> string \<Rightarrow> ArtifactType \<Rightarrow> string \<Rightarrow> 's \<Rightarrow> unit anyhow \<times> 's"
  ac_upload_raw_compressed :: "string \<Rightarrow> string \<Rightarrow> ArtifactType \<Rightarrow> string \<Rightarrow> 's \<Rightarrow> unit anyhow \<times> 's"
  ac_download_raw :: "string \<Rightarrow> ArtifactType \<Rightarrow> 's \<Rightarrow> string anyhow"
  ac_try_delete :: "string \<Rightarrow> ArtifactType \<Rightarrow> 's \<Rightarrow> unit anyhow \<times> 's"

record GatewayConfig =
  gc_public_http_url :: string
  gc_balance_amount :: string
  gc_auth :: Auth

record ('s, 'p) GatewayState =
  gw_artifacts :: 's
  gw_programs :: 'p
  gw_db :: db
  gw_nonces :: "(string, nat) hash_map"

text \<open>What a call draws from its surroundings: ids, the answer of \<open>create_artifact\<close>, and the attempts to reach the API.\<close>

record CallEnv =
  ce_typeid :: string
  ce_fresh :: string
  ce_new_artifact :: "string anyhow"
  ce_avail :: bool
  ce_attempts :: "(SystemTime \<times> bool \<times> bool) list"

section \<open>Nonces\<close>

definition next_nonce :: "string \<Rightarrow> (string, nat) hash_map \<Rightarrow> nat \<times> (string, nat) hash_map" where
  "next_nonce address nonces =
     (let current = (case map_of nonces address of None \<Rightarrow> 0 | Some n \<Rightarrow> n)
      in (current, hm_insert address (u64_add current 1) nonces))"

definition get_nonce :: "string \<Rightarrow> ('s, 'p) GatewayState \<Rightarrow> nat result \<times> ('s, 'p) GatewayState" where
  "get_nonce addr gw = (case next_nonce addr (gw_nonces gw) of (nonce, nonces) \<Rightarrow> (Inr nonce, gw\<lparr>gw_nonces := nonces\<rparr>))"

definition get_balance :: "GatewayConfig \<Rightarrow> string result" where
  "get_balance cfg = Inr (gc_balance_amount cfg)"

fun nonces_drawn :: "string list \<Rightarrow> (string, nat) hash_map \<Rightarrow> (string \<times> nat) list" where
  "nonces_drawn [] nonces = []"
| "nonces_drawn (a # as) nonces =
     (case next_nonce a nonces of (n, nonces') \<Rightarrow> (a, n) # nonces_drawn as nonces')"

lemma drawn_nonces_count:
  assumes "(case map_of nonces a of None \<Rightarrow> 0 | Some n \<Rightarrow> n) = k" and "k + length as < 2 ^ 64"
  shows "map snd (filter (\<lambda>d. fst d = a) (nonces_drawn as nonces)) = [k..<k + length (filter (\<lambda>b. b = a) as)]"
  using assms
proof (induction "as" arbitrary: nonces k)
  case (Cons b "as")
  let ?nonces = "snd (next_nonce b nonces)"
  have "u64_add k 1 = k + 1" using Cons.prems(2) by (intro wrapping_add_eq) simp
  then have "(case map_of ?nonces a of None \<Rightarrow> 0 | Some n \<Rightarrow> n) = (if b = a then Suc k else k)"
    using Cons.prems(1) by (auto simp: next_nonce_def Let_def)
  note IH = Cons.IH [OF this]
  have "[k..<k + Suc m] = k # [Suc k..<Suc k + m]" for m by (simp add: upt_conv_Cons del: upt_Suc)
  with IH Cons.prems show ?case by (cases "b = a") (simp_all add: next_nonce_def Let_def del: upt_Suc)
qed simp

section \<open>Requesting a proof\<close>

record RequestBody =
  rb_vk_hash :: string
  rb_stdin_uri :: string
  rb_mode :: int
  rb_deadline :: nat
  rb_cycle_limit :: nat
  rb_gas_limit :: nat
  rb_stdin_private :: bool

text \<open>
  The call of \<open>create_proof_request\<close> with its attempts: the time, whether the database answers, and whether the
  answer arrives in time.
\<close>

fun create_call :: "(SystemTime \<times> bool \<times> bool) list \<Rightarrow> ProofRequestCreateRequest \<Rightarrow> db \<Rightarrow> unit result \<times> db" where
  "create_call [] req db = (Inl (DeadlineExceeded ''no attempt''), db)"
| "create_call ((now, avail, heard) # attempts) req db =
     (case proof_request_create avail now req db of
        (e, db') \<Rightarrow>
          (case with_timeout (if heard then Some (case e of None \<Rightarrow> Inr () | Some s \<Rightarrow> Inl s) else None) of
             Inr u \<Rightarrow> (Inr u, db')
           | Inl s \<Rightarrow> (if is_transient s \<and> attempts \<noteq> [] then create_call attempts req db' else (Inl s, db'))))"

definition create_message :: "(string \<Rightarrow> string) \<Rightarrow> string \<Rightarrow> string \<Rightarrow> string \<Rightarrow> Address \<Rightarrow> RequestBody \<Rightarrow> ProofRequestCreateRequest" where
  "create_message hex proof_id stdin_artifact_id proof_artifact_id requester body =
     \<lparr>cr_proof_id = proof_id, cr_requester = requester, cr_stdin_artifact_id = stdin_artifact_id,
      cr_program_artifact_id = program_artifact_id hex (rb_vk_hash body),
      cr_options_artifact_id = Some (show_int (rb_mode body)), cr_proof_artifact_id = Some proof_artifact_id,
      cr_cycle_limit = rb_cycle_limit body, cr_deadline = rb_deadline body, cr_gas_limit = rb_gas_limit body,
      cr_scheduled_by = None, cr_stdin_private = rb_stdin_private body\<rparr>"

text \<open>The program of the request is brought into the artifact store unless it is there.\<close>

definition warm_program ::
  "(string \<Rightarrow> string) \<Rightarrow> 's ArtifactClient \<Rightarrow> 'p ProgramStore \<Rightarrow> CallEnv \<Rightarrow> string \<Rightarrow> ('s, 'p) GatewayState \<Rightarrow>
     unit result \<times> ('s, 'p) GatewayState" where
  "warm_program hex C P env vk_hash gw =
     (case ac_exists C (program_artifact_id hex vk_hash) Program (gw_artifacts gw) of
        Inl e \<Rightarrow> (Inl (Internal (''artifact exists check failed: '' @ e)), gw)
      | Inr True \<Rightarrow> (Inr (), gw)
      | Inr False \<Rightarrow>
          (case ps_get P vk_hash (gw_programs gw) of
             Inl e \<Rightarrow> (Inl (Internal (''program store load failed: '' @ e)), gw)
           | Inr None \<Rightarrow> (Inl (FailedPrecondition (''program not registered for vk_hash '' @ hex vk_hash)), gw)
           | Inr (Some (vk_bytes, elf_bytes)) \<Rightarrow>
               (case ac_upload_raw C (ce_fresh env) (program_artifact_id hex vk_hash) Program elf_bytes (gw_artifacts gw) of
                  (Inl e, s) \<Rightarrow> (Inl (Internal (''upload program artifact failed: '' @ e)), gw\<lparr>gw_artifacts := s\<rparr>)
                | (Inr u, s) \<Rightarrow> (Inr (), gw\<lparr>gw_artifacts := s\<rparr>))))"

text \<open>The creation of the row, from the minted id on.\<close>

definition create_row ::
  "(string \<Rightarrow> string) \<Rightarrow> CallEnv \<Rightarrow> string \<Rightarrow> Address \<Rightarrow> RequestBody \<Rightarrow> ('s, 'p) GatewayState \<Rightarrow>
     (string result \<times> ('s, 'p) GatewayState) option" where
  "create_row hex env stdin_artifact_id requester body gw =
     (case mint_request_id (ce_typeid env) of
        None \<Rightarrow> None
      | Some request_id \<Rightarrow>
          Some (case ce_new_artifact env of
             Inl e \<Rightarrow> (Inl (Internal (''create proof artifact failed: '' @ e)), gw)
           | Inr proof_artifact_id \<Rightarrow>
               (case create_call (ce_attempts env)
                       (create_message hex (proof_id_from_request_id request_id) stdin_artifact_id proof_artifact_id requester body)
                       (gw_db gw) of
                  (Inr u, db') \<Rightarrow> (Inr request_id, gw\<lparr>gw_db := db'\<rparr>)
                | (Inl (AlreadyExists m), db') \<Rightarrow> (Inr request_id, gw\<lparr>gw_db := db'\<rparr>)
                | (Inl e, db') \<Rightarrow> (Inl (Internal ''cluster create_proof_request failed''), gw\<lparr>gw_db := db'\<rparr>))))"

text \<open>\<open>encode\<close> is the encoding of a body that was signed; \<open>None\<close> is the failed assertion on the minted id.\<close>

definition request_proof ::
  "(string \<Rightarrow> string) \<Rightarrow> 'sig Signatures \<Rightarrow> (RequestBody \<Rightarrow> string) \<Rightarrow> 's ArtifactClient \<Rightarrow> 'p ProgramStore \<Rightarrow> GatewayConfig \<Rightarrow>
     CallEnv \<Rightarrow> string \<Rightarrow> RequestBody option \<Rightarrow> ('s, 'p) GatewayState \<Rightarrow> (string result \<times> ('s, 'p) GatewayState) option" where
  "request_proof hex sg encode C P cfg env signature req gw =
     (case req of
        None \<Rightarrow> Some (Inl (InvalidArgument ''request_proof: missing body''), gw)
      | Some body \<Rightarrow>
          (case authorize sg (gc_auth cfg) (encode body) signature of
             Inl e \<Rightarrow> Some (Inl e, gw)
           | Inr requester \<Rightarrow>
               (case artifact_id_from_uri (rb_stdin_uri body) of
                  None \<Rightarrow> Some (Inl (InvalidArgument (''invalid stdin_uri: '' @ rb_stdin_uri body)), gw)
                | Some stdin_artifact_id \<Rightarrow>
                    (case warm_program hex C P env (rb_vk_hash body) gw of
                       (Inl e, gw') \<Rightarrow> Some (Inl e, gw')
                     | (Inr u, gw') \<Rightarrow> create_row hex env stdin_artifact_id requester body gw'))))"

section \<open>Reading requests\<close>

definition load_cluster_proof :: "bool \<Rightarrow> string \<Rightarrow> db \<Rightarrow> ProofRequest result" where
  "load_cluster_proof avail proof_id db =
     (case proof_request_get avail proof_id db of
        None \<Rightarrow> Inl (Internal ''cluster get_proof_request failed'')
      | Some (Inl e) \<Rightarrow> Inl (Internal ''cluster get_proof_request failed'')
      | Some (Inr None) \<Rightarrow> Inl (NotFound (''proof request '' @ proof_id @ '' not found''))
      | Some (Inr (Some p)) \<Rightarrow> Inr p)"

definition shown_fulfillment :: "ProofRequest \<Rightarrow> FulfillmentStatus" where
  "shown_fulfillment p = fulfillment_from_cluster (proof_status (rq_proof_status p))"

definition shown_execution :: "Sdk \<Rightarrow> ProofRequest \<Rightarrow> SdkExecutionStatus" where
  "shown_execution sdk p =
     (case rq_execution_result p of None \<Rightarrow> Unexecuted | Some r \<Rightarrow> execution_from_cluster (execution_status sdk r))"

definition shown_public_values_hash :: "ProofRequest \<Rightarrow> nat list option" where
  "shown_public_values_hash p =
     (case rq_execution_result p of
        None \<Rightarrow> None
      | Some r \<Rightarrow> if er_public_values_hash r = [] then None else Some (er_public_values_hash r))"

text \<open>The fields of the answer that are not constant.\<close>

record SdkProofRequest =
  sr_request_id :: string
  sr_mode :: int
  sr_program_uri :: string
  sr_stdin_uri :: string
  sr_stdin_private :: bool
  sr_deadline :: nat
  sr_cycle_limit :: nat
  sr_fulfillment_status :: FulfillmentStatus
  sr_execution_status :: SdkExecutionStatus
  sr_requester :: Address
  sr_created_at :: nat
  sr_updated_at :: nat
  sr_cycles :: "nat option"
  sr_public_values_hash :: "nat list option"
  sr_gas_limit :: nat

definition unwrap_or_zero :: "nat option \<Rightarrow> nat" where
  "unwrap_or_zero n = (case n of None \<Rightarrow> 0 | Some k \<Rightarrow> k)"

definition build_sdk_proof_request :: "Sdk \<Rightarrow> GatewayConfig \<Rightarrow> string \<Rightarrow> ProofRequest \<Rightarrow> SdkProofRequest" where
  "build_sdk_proof_request sdk cfg request_id p =
     \<lparr>sr_request_id = request_id,
      sr_mode = (case Option.bind (rq_options_artifact_id p) (parse_int 32) of None \<Rightarrow> sdk_unspecified_mode sdk | Some m \<Rightarrow> m),
      sr_program_uri = artifact_uri (gc_public_http_url cfg) Program (rq_program_artifact_id p),
      sr_stdin_uri = artifact_uri (gc_public_http_url cfg) (if rq_stdin_private p then PrivateStdin else Stdin) (rq_stdin_artifact_id p),
      sr_stdin_private = rq_stdin_private p, sr_deadline = rq_deadline p, sr_cycle_limit = unwrap_or_zero (rq_cycle_limit p),
      sr_fulfillment_status = shown_fulfillment p, sr_execution_status = shown_execution sdk p, sr_requester = rq_requester p,
      sr_created_at = rq_created_at p, sr_updated_at = rq_updated_at p, sr_cycles = map_option er_cycles (rq_execution_result p),
      sr_public_values_hash = shown_public_values_hash p, sr_gas_limit = unwrap_or_zero (rq_gas_limit p)\<rparr>"

record SdkProofStatus =
  ss_fulfillment_status :: FulfillmentStatus
  ss_execution_status :: SdkExecutionStatus
  ss_deadline :: nat
  ss_proof_uri :: "string option"
  ss_public_values_hash :: "nat list option"

definition get_proof_request_status :: "Sdk \<Rightarrow> GatewayConfig \<Rightarrow> bool \<Rightarrow> string \<Rightarrow> db \<Rightarrow> SdkProofStatus result" where
  "get_proof_request_status sdk cfg avail request_id db =
     (case load_cluster_proof avail (proof_id_from_request_id request_id) db of
        Inl e \<Rightarrow> Inl e
      | Inr p \<Rightarrow>
          Inr \<lparr>ss_fulfillment_status = shown_fulfillment p, ss_execution_status = shown_execution sdk p, ss_deadline = rq_deadline p,
               ss_proof_uri = (if shown_fulfillment p = Fulfilled
                               then map_option (artifact_uri (gc_public_http_url cfg) Proof) (rq_proof_artifact_id p) else None),
               ss_public_values_hash = shown_public_values_hash p\<rparr>)"

definition get_proof_request_details :: "Sdk \<Rightarrow> GatewayConfig \<Rightarrow> bool \<Rightarrow> string \<Rightarrow> db \<Rightarrow> SdkProofRequest result" where
  "get_proof_request_details sdk cfg avail request_id db =
     (case load_cluster_proof avail (proof_id_from_request_id request_id) db of
        Inl e \<Rightarrow> Inl e
      | Inr p \<Rightarrow> Inr (build_sdk_proof_request sdk cfg request_id p))"

text \<open>The message of \<open>get_filtered_proof_requests\<close>: the filters that are passed on, and the page.\<close>

record FilterRequest =
  fr_fulfillment_status :: "int option"
  fr_execution_status :: "int option"
  fr_minimum_deadline :: "nat option"
  fr_limit :: "nat option"
  fr_page :: "nat option"

definition clamp :: "nat \<Rightarrow> nat \<Rightarrow> nat \<Rightarrow> nat" where
  "clamp lo hi n = (if n < lo then lo else if n > hi then hi else n)"

definition filter_limit :: "FilterRequest \<Rightarrow> nat option" where
  "filter_limit req = map_option (clamp 1 100) (fr_limit req)"

definition filter_offset :: "FilterRequest \<Rightarrow> nat option" where
  "filter_offset req =
     (case (fr_page req, filter_limit req) of
        (Some page, Some lim) \<Rightarrow> if page > 0 then Some (min ((page - 1) * lim) (uint_max 32)) else None
      | _ \<Rightarrow> None)"

definition wanted_fulfillment :: "Sdk \<Rightarrow> FilterRequest \<Rightarrow> ProofRequestStatus list option" where
  "wanted_fulfillment sdk req =
     (case Option.bind (fr_fulfillment_status req) (sdk_fulfillment sdk) of
        None \<Rightarrow> None
      | Some s \<Rightarrow> cluster_fulfillment_filter s)"

definition wanted_execution :: "Sdk \<Rightarrow> FilterRequest \<Rightarrow> ClusterExecution list" where
  "wanted_execution sdk req =
     (case Option.bind (fr_execution_status req) (sdk_execution sdk) of None \<Rightarrow> [] | Some s \<Rightarrow> cluster_execution_filter s)"

definition list_message :: "Sdk \<Rightarrow> FilterRequest \<Rightarrow> ProofRequestListRequest" where
  "list_message sdk req =
     \<lparr>ls_proof_status = (case wanted_fulfillment sdk req of None \<Rightarrow> [] | Some statuses \<Rightarrow> statuses),
      ls_execution_status = map (sdk_cluster_execution_number sdk) (wanted_execution sdk req),
      ls_minimum_deadline = fr_minimum_deadline req, ls_handled = None, ls_scheduled_by = None,
      ls_limit = filter_limit req, ls_offset = filter_offset req\<rparr>"

definition get_filtered_proof_requests ::
  "Sdk \<Rightarrow> GatewayConfig \<Rightarrow> bool \<Rightarrow> FilterRequest \<Rightarrow> db \<Rightarrow> SdkProofRequest list result" where
  "get_filtered_proof_requests sdk cfg avail req db =
     (if wanted_fulfillment sdk req = Some [] then Inr []
      else case proof_request_list avail (list_message sdk req) db of
             Some (Inr rows) \<Rightarrow> Inr (map (\<lambda>p. build_sdk_proof_request sdk cfg (rq_id p) p) rows)
           | _ \<Rightarrow> Inl (Internal ''cluster get_proof_requests failed''))"

section \<open>Programs and artifacts\<close>

definition program_uri_for :: "(string \<Rightarrow> string) \<Rightarrow> GatewayConfig \<Rightarrow> string \<Rightarrow> string" where
  "program_uri_for hex cfg vk_hash = trim_end_slashes (gc_public_http_url cfg) @ ''/programs/'' @ hex vk_hash"

record ProgramInfo =
  pi_vk_hash :: string
  pi_vk :: string
  pi_program_uri :: string

definition get_program :: "(string \<Rightarrow> string) \<Rightarrow> 'p ProgramStore \<Rightarrow> GatewayConfig \<Rightarrow> string \<Rightarrow> ('s, 'p) GatewayState \<Rightarrow> ProgramInfo result" where
  "get_program hex P cfg vk_hash gw =
     (case ps_get P vk_hash (gw_programs gw) of
        Inl e \<Rightarrow> Inl (Internal (''program store load failed: '' @ e))
      | Inr None \<Rightarrow> Inl (NotFound (''program not registered for vk_hash '' @ hex vk_hash))
      | Inr (Some (vk_bytes, elf_bytes)) \<Rightarrow>
          Inr \<lparr>pi_vk_hash = vk_hash, pi_vk = vk_bytes, pi_program_uri = program_uri_for hex cfg vk_hash\<rparr>)"

record ProgramBody =
  pb_vk_hash :: string
  pb_vk :: string
  pb_program_uri :: string

text \<open>From the downloaded program on: the durable copy, the warm copy, and the removal of the upload.\<close>

definition register_program ::
  "(string \<Rightarrow> string) \<Rightarrow> 's ArtifactClient \<Rightarrow> 'p ProgramStore \<Rightarrow> CallEnv \<Rightarrow> string \<Rightarrow> string \<Rightarrow> ProgramBody \<Rightarrow>
     ('s, 'p) GatewayState \<Rightarrow> unit result \<times> ('s, 'p) GatewayState" where
  "register_program hex C P env orphan_artifact_id elf_bytes body gw =
     (case ps_put P (pb_vk_hash body) (pb_vk body) elf_bytes (gw_programs gw) of
        (Inl e, programs) \<Rightarrow> (Inl (Internal (''program store put failed: '' @ e)), gw\<lparr>gw_programs := programs\<rparr>)
      | (Inr u, programs) \<Rightarrow>
          (case ac_upload_raw C (ce_fresh env) (program_artifact_id hex (pb_vk_hash body)) Program elf_bytes (gw_artifacts gw) of
             (Inl e, s) \<Rightarrow> (Inl (Internal (''warm upload failed: '' @ e)), gw\<lparr>gw_programs := programs, gw_artifacts := s\<rparr>)
           | (Inr u, s) \<Rightarrow>
               (Inr (), gw\<lparr>gw_programs := programs,
                           gw_artifacts := snd (ac_try_delete C orphan_artifact_id Program s)\<rparr>)))"

definition create_program ::
  "(string \<Rightarrow> string) \<Rightarrow> 'sig Signatures \<Rightarrow> (ProgramBody \<Rightarrow> string) \<Rightarrow> 's ArtifactClient \<Rightarrow> 'p ProgramStore \<Rightarrow> GatewayConfig \<Rightarrow>
     CallEnv \<Rightarrow> string \<Rightarrow> ProgramBody option \<Rightarrow> ('s, 'p) GatewayState \<Rightarrow> unit result \<times> ('s, 'p) GatewayState" where
  "create_program hex sg encode C P cfg env signature req gw =
     (case req of
        None \<Rightarrow> (Inl (InvalidArgument ''create_program: missing body''), gw)
      | Some body \<Rightarrow>
          (case authorize sg (gc_auth cfg) (encode body) signature of
             Inl e \<Rightarrow> (Inl e, gw)
           | Inr requester \<Rightarrow>
               (case artifact_id_from_uri (pb_program_uri body) of
                  None \<Rightarrow> (Inl (InvalidArgument (''create_program: invalid program_uri '' @ pb_program_uri body)), gw)
                | Some orphan_artifact_id \<Rightarrow>
                    (case ac_download_raw C orphan_artifact_id Program (gw_artifacts gw) of
                       Inl e \<Rightarrow> (Inl (FailedPrecondition (''create_program: ELF not present in artifact store at '' @
                                                        pb_program_uri body)), gw)
                     | Inr elf_bytes \<Rightarrow> register_program hex C P env orphan_artifact_id elf_bytes body gw))))"

definition CREATE_ARTIFACT_MESSAGE :: string where
  "CREATE_ARTIFACT_MESSAGE = ''create_artifact''"

text \<open>Both addresses of the answer are the same.\<close>

definition create_artifact :: "'sig Signatures \<Rightarrow> Sdk \<Rightarrow> GatewayConfig \<Rightarrow> CallEnv \<Rightarrow> string \<Rightarrow> int \<Rightarrow> string result" where
  "create_artifact sg sdk cfg env signature artifact_type =
     (case authorize sg (gc_auth cfg) CREATE_ARTIFACT_MESSAGE signature of
        Inl e \<Rightarrow> Inl e
      | Inr requester \<Rightarrow>
          (case ce_new_artifact env of
             Inl e \<Rightarrow> Inl (Internal (''create_artifact failed: '' @ e))
           | Inr i \<Rightarrow> Inr (artifact_uri (gc_public_http_url cfg) (proto_to_cluster_type (sdk_artifact_type sdk) artifact_type) i)))"

datatype HttpError =
    BAD_REQUEST string
  | NOT_FOUND string
  | INTERNAL_SERVER_ERROR string

definition put_artifact ::
  "'s ArtifactClient \<Rightarrow> CallEnv \<Rightarrow> string \<Rightarrow> string \<Rightarrow> string \<Rightarrow> ('s, 'p) GatewayState \<Rightarrow> (HttpError + unit) \<times> ('s, 'p) GatewayState" where
  "put_artifact C env type_seg i body gw =
     (case parse_artifact_type_segment type_seg of
        None \<Rightarrow> (Inl (BAD_REQUEST (''unknown artifact type: '' @ type_seg)), gw)
      | Some artifact_type \<Rightarrow>
          (case ac_upload_raw_compressed C (ce_fresh env) i artifact_type body (gw_artifacts gw) of
             (Inl e, s) \<Rightarrow> (Inl (INTERNAL_SERVER_ERROR (''internal error: '' @ e)), gw\<lparr>gw_artifacts := s\<rparr>)
           | (Inr u, s) \<Rightarrow> (Inr (), gw\<lparr>gw_artifacts := s\<rparr>)))"

definition get_artifact :: "'s ArtifactClient \<Rightarrow> string \<Rightarrow> string \<Rightarrow> ('s, 'p) GatewayState \<Rightarrow> HttpError + string" where
  "get_artifact C type_seg i gw =
     (case parse_artifact_type_segment type_seg of
        None \<Rightarrow> Inl (BAD_REQUEST (''unknown artifact type: '' @ type_seg))
      | Some artifact_type \<Rightarrow>
          (case ac_download_raw C i artifact_type (gw_artifacts gw) of
             Inl e \<Rightarrow> Inl (NOT_FOUND (''download failed: '' @ e))
           | Inr bytes \<Rightarrow> Inr bytes))"

end
