(* ===== verification/Gateway_Requests.thy ===== *)
theory Gateway_Requests
  imports Gateway
begin

text \<open>
  Requests from the gateway to the table of the cluster API and back: what a successful \<open>request_proof\<close> leaves in the
  table, how the row is shown as long as it lives, and which rows the filtered listing selects.
\<close>

section \<open>The row of a request\<close>

lemma created_by_call:
  assumes "create_call attempts req db = (r, db')" and "(\<exists>u. r = Inr u) \<or> (\<exists>m. r = Inl (AlreadyExists m))"
    and "map_of db (cr_proof_id req) = None \<or> (\<exists>now. map_of db (cr_proof_id req) = Some (new_row now req))"
  shows "\<exists>now. map_of db' (cr_proof_id req) = Some (new_row now req)"
  using assms
proof (induction attempts req db rule: create_call.induct)
  case (2 now avail heard attempts req db)
  obtain e db1 where c: "proof_request_create avail now req db = (e, db1)" by (rule prod.exhaust)
  have db1: "map_of db1 (cr_proof_id req) = None \<or> (\<exists>now. map_of db1 (cr_proof_id req) = Some (new_row now req))"
    using c "2.prems"(3) by (auto simp: proof_request_create_def split: if_splits)
  let ?out = "with_timeout (if heard then Some (case e of None \<Rightarrow> Inr () | Some s \<Rightarrow> Inl s) else None)"
  show ?case
  proof (cases "\<exists>s. ?out = Inl s \<and> is_transient s \<and> attempts \<noteq> []")
    case True
    then obtain s where s: "?out = Inl s" "is_transient s \<and> attempts \<noteq> []" by blast
    with "2.prems"(1) c have "create_call attempts req db1 = (r, db')" by simp
    from "2.IH" [OF c [symmetric] s this "2.prems"(2) db1] show ?thesis .
  next
    case False
    with "2.prems"(1) c have r: "?out = r" "db1 = db'" by (auto split: sum.splits if_splits)
    have "e = None \<or> (\<exists>m. e = Some (AlreadyExists m))"
      using r(1) "2.prems"(2) by (auto simp: with_timeout_def split: if_splits option.splits)
    with c r(2) db1 show ?thesis by (auto simp: proof_request_create_def split: if_splits)
  qed
qed auto

lemma request_proof_creates:
  assumes r: "request_proof hex sg encode C P cfg env signature (Some body) gw = Some (Inr request_id, gw')"
    and t: "typeid_ok (ce_typeid env)" and new: "map_of (gw_db gw) (ce_typeid env) = None"
  obtains requester stdin a now where "authorize sg (gc_auth cfg) (encode body) signature = Inr requester"
    and "artifact_id_from_uri (rb_stdin_uri body) = Some stdin" and "ce_new_artifact env = Inr a"
    and "length request_id = REQUEST_ID_LEN" and "proof_id_from_request_id request_id = ce_typeid env"
    and "map_of (gw_db gw') (ce_typeid env) = Some (new_row now (create_message hex (ce_typeid env) stdin a requester body))"
proof -
  from r obtain requester stdin gw1 where h: "authorize sg (gc_auth cfg) (encode body) signature = Inr requester"
    "artifact_id_from_uri (rb_stdin_uri body) = Some stdin" "warm_program hex C P env (rb_vk_hash body) gw = (Inr (), gw1)"
    "create_row hex env stdin requester body gw1 = Some (Inr request_id, gw')"
    by (auto simp: request_proof_def split: sum.splits option.splits prod.splits)
  have db: "gw_db gw1 = gw_db gw" using h(3) by (auto simp: warm_program_def split: sum.splits option.splits prod.splits bool.splits)
  obtain rid where rid: "mint_request_id (ce_typeid env) = Some rid" "length rid = REQUEST_ID_LEN"
    "proof_id_from_request_id rid = ce_typeid env" by (rule minted_id_reads_back [OF t])
  from h(4) rid obtain a where a: "ce_new_artifact env = Inr a" by (auto simp: create_row_def split: sum.splits)
  let ?msg = "create_message hex (ce_typeid env) stdin a requester body"
  obtain res db' where c: "create_call (ce_attempts env) ?msg (gw_db gw1) = (res, db')" by (rule prod.exhaust)
  with h(4) rid a have res: "(\<exists>u. res = Inr u) \<or> (\<exists>m. res = Inl (AlreadyExists m))" "request_id = rid" "gw_db gw' = db'"
    by (auto simp: create_row_def split: sum.splits Status.splits)
  have "cr_proof_id ?msg = ce_typeid env" by (simp add: create_message_def)
  with created_by_call [OF c res(1)] new db obtain now where "map_of db' (ce_typeid env) = Some (new_row now ?msg)" by auto
  with that h(1,2) a rid(2,3) res(2,3) show thesis by blast
qed

text \<open>Whatever happens to the table, the row keeps its identity and its artifacts.\<close>

lemma api_step_keeps:
  assumes "api_step db db'" and "map_of db i = Some row"
  shows "\<exists>row'. map_of db' i = Some row' \<and> db_proof_artifact_id row' = db_proof_artifact_id row"
  using assms
proof (induction rule: api_step.induct)
  case (api_create avail now req db e db')
  then show ?case by (auto simp: proof_request_create_def split: if_splits)
next
  case (api_cancel avail j db e db')
  then show ?case by (auto simp: proof_request_cancel_def split: if_splits option.splits)
next
  case (api_update avail req db e db')
  have "db_proof_artifact_id (set_columns req row) = db_proof_artifact_id row"
    by (simp add: set_columns_def Let_def split: option.splits)
  with api_update show ?case by (auto simp: proof_request_update_def Let_def split: if_splits option.splits)
qed

lemma api_steps_keep:
  assumes "api_step\<^sup>*\<^sup>* db db'" and "map_of db i = Some row"
  shows "\<exists>row'. map_of db' i = Some row' \<and> db_proof_artifact_id row' = db_proof_artifact_id row"
  using assms
proof (induction rule: rtranclp_induct)
  case (step db1 db2)
  then obtain row1 where "map_of db1 i = Some row1" "db_proof_artifact_id row1 = db_proof_artifact_id row" by blast
  with api_step_keeps [OF step(2)] show ?case by fastforce
qed blast

lemma status_of_row:
  assumes ok: "db_ok db" and row: "map_of db (proof_id_from_request_id request_id) = Some row"
  obtains s where "get_proof_request_status sdk cfg True request_id db = Inr s"
    and "ss_fulfillment_status s = fulfillment_from_cluster (proof_status (db_proof_status row))"
    and "ss_proof_uri s = (if ss_fulfillment_status s = Fulfilled
        then map_option (artifact_uri (gc_public_http_url cfg) Proof) (db_proof_artifact_id row) else None)"
proof -
  obtain p where p: "into_proto row = Some p" using into_proto_total [OF db_okD(3) [OF ok row]] by blast
  then have "rq_proof_status p = db_proof_status row" "rq_proof_artifact_id p = db_proof_artifact_id row"
    by (auto simp: into_proto_def split: option.splits)
  with p row have "\<exists>s. get_proof_request_status sdk cfg True request_id db = Inr s \<and>
    ss_fulfillment_status s = fulfillment_from_cluster (proof_status (db_proof_status row)) \<and>
    ss_proof_uri s = (if ss_fulfillment_status s = Fulfilled
        then map_option (artifact_uri (gc_public_http_url cfg) Proof) (db_proof_artifact_id row) else None)"
    by (simp add: get_proof_request_status_def load_cluster_proof_def proof_request_get_def shown_fulfillment_def)
  with that show thesis by blast
qed

text \<open>The table a request leaves behind is a later one.\<close>

lemma create_call_steps: "create_call attempts req db = (r, db') \<Longrightarrow> api_step\<^sup>*\<^sup>* db db'"
proof (induction attempts req db rule: create_call.induct)
  case (2 now avail heard attempts req db)
  obtain e db1 where c: "proof_request_create avail now req db = (e, db1)" by (rule prod.exhaust)
  have first: "api_step db db1" by (rule api_create [OF c])
  let ?out = "with_timeout (if heard then Some (case e of None \<Rightarrow> Inr () | Some s \<Rightarrow> Inl s) else None)"
  show ?case
  proof (cases "\<exists>s. ?out = Inl s \<and> is_transient s \<and> attempts \<noteq> []")
    case True
    then obtain s where s: "?out = Inl s" "is_transient s \<and> attempts \<noteq> []" by blast
    with "2.prems" c have "create_call attempts req db1 = (r, db')" by simp
    from "2.IH" [OF c [symmetric] s this] first show ?thesis by (rule converse_rtranclp_into_rtranclp [rotated])
  next
    case False
    with "2.prems" c have "db1 = db'" by (auto split: sum.splits if_splits)
    with first show ?thesis by blast
  qed
qed simp

lemma request_proof_steps:
  assumes r: "request_proof hex sg encode C P cfg env signature req gw = Some (x, gw')"
  shows "api_step\<^sup>*\<^sup>* (gw_db gw) (gw_db gw')"
proof -
  have warm: "gw_db (snd (warm_program hex C P env h gw)) = gw_db gw" for h
    by (auto simp: warm_program_def split: sum.splits option.splits prod.splits bool.splits)
  have row: "api_step\<^sup>*\<^sup>* (gw_db g) (gw_db g')" if c: "create_row hex env stdin requester body g = Some (y, g')" for stdin requester body g y g'
  proof (cases "ce_new_artifact env")
    case (Inl e)
    with c show ?thesis by (auto simp: create_row_def split: option.splits)
  next
    case (Inr a)
    from c obtain rid where rid: "mint_request_id (ce_typeid env) = Some rid" by (auto simp: create_row_def split: option.splits)
    obtain res db' where "create_call (ce_attempts env) (create_message hex (proof_id_from_request_id rid) stdin a requester body) (gw_db g) = (res, db')"
      by (rule prod.exhaust)
    with c rid Inr create_call_steps [OF this] show ?thesis by (auto simp: create_row_def split: sum.splits Status.splits)
  qed
  show ?thesis
  proof (cases req)
    case (Some body)
    obtain w g where w: "warm_program hex C P env (rb_vk_hash body) gw = (w, g)" by (rule prod.exhaust)
    with warm have "gw_db g = gw_db gw" by (metis snd_conv)
    with r Some w show ?thesis by (auto simp: request_proof_def split: sum.splits option.splits dest!: row)
  qed (use r in \<open>simp add: request_proof_def\<close>)
qed

text \<open>What the coordinator and the SDK read from a new row.\<close>

definition requested_claim :: "(string \<Rightarrow> string) \<Rightarrow> Codec \<Rightarrow> string \<Rightarrow> string \<Rightarrow> string \<Rightarrow> string \<Rightarrow> Address \<Rightarrow> RequestBody \<Rightarrow> CreateProofRequest" where
  "requested_claim hex cd metadata i stdin a requester body =
     \<lparr>cpr_proof_id = i,
      cpr_inputs = [program_artifact_id hex (rb_vk_hash body), stdin, show_int (rb_mode body), show_nat (rb_cycle_limit body), [], metadata],
      cpr_outputs = [a], cpr_requester = cd_hex cd requester, cpr_expires_at = as_i64 (rb_deadline body)\<rparr>"

definition shows_request :: "(string \<Rightarrow> string) \<Rightarrow> RequestBody \<Rightarrow> Address \<Rightarrow> string \<Rightarrow> SdkProofRequest \<Rightarrow> bool" where
  "shows_request hex body requester stdin d \<longleftrightarrow>
     sr_mode d = rb_mode body \<and> sr_deadline d = rb_deadline body \<and> sr_cycle_limit d = rb_cycle_limit body \<and>
     sr_gas_limit d = rb_gas_limit body \<and> sr_requester d = requester \<and> sr_stdin_private d = rb_stdin_private body \<and>
     artifact_id_from_uri (sr_stdin_uri d) = Some stdin \<and>
     artifact_id_from_uri (sr_program_uri d) = Some (program_artifact_id hex (rb_vk_hash body))"

lemma created_row_read:
  assumes "hex_laws hex" and "uri_id_ok stdin" and "rb_deadline body < 2 ^ 64" "rb_cycle_limit body < 2 ^ 64" "rb_gas_limit body < 2 ^ 64"
    and "- (2 ^ 31) \<le> rb_mode body" "rb_mode body < 2 ^ 31" and m: "cd_input_metadata cd (rb_stdin_private body) = Some metadata"
  obtains p where "into_proto (new_row now (create_message hex i stdin a requester body)) = Some p"
    and "claim_request cd p = Some (requested_claim hex cd metadata i stdin a requester body)"
    and "shows_request hex body requester stdin (build_sdk_proof_request sdk cfg rid p)"
    and "sr_fulfillment_status (build_sdk_proof_request sdk cfg rid p) = Requested"
proof -
  have "set (hex (rb_vk_hash body)) \<subseteq> set ''0123456789abcdef''" using assms(1) by (simp add: hex_laws_def)
  then have "CHR ''/'' \<notin> set (hex (rb_vk_hash body))" by auto
  then have prog: "uri_id_ok (program_artifact_id hex (rb_vk_hash body))" by (simp add: uri_id_ok_def program_artifact_id_def)
  have mode: "parse_int 32 (show_int (rb_mode body)) = Some (rb_mode body)" using assms(6,7) by (intro parse_show_int) simp_all
  let ?p = "\<lparr>rq_id = i, rq_proof_status = StPending, rq_requester = requester, rq_execution_result = None, rq_stdin_artifact_id = stdin,
    rq_program_artifact_id = program_artifact_id hex (rb_vk_hash body), rq_proof_artifact_id = Some a,
    rq_options_artifact_id = Some (show_int (rb_mode body)), rq_cycle_limit = Some (rb_cycle_limit body), rq_gas_limit = Some (rb_gas_limit body),
    rq_deadline = rb_deadline body, rq_handled = False, rq_metadata = ''null'', rq_created_at = as_secs now, rq_updated_at = as_secs now,
    rq_extra_data = None, rq_scheduled_by = None, rq_stdin_private = rb_stdin_private body\<rparr>"
  show thesis
  proof (rule that [of ?p])
    show "into_proto (new_row now (create_message hex i stdin a requester body)) = Some ?p"
      using assms(3-5) by (simp add: new_row_def into_proto_def execution_of_def create_message_def as_u64_as_i64)
    show "claim_request cd ?p = Some (requested_claim hex cd metadata i stdin a requester body)"
      using m by (simp add: claim_request_def requested_claim_def)
    show "shows_request hex body requester stdin (build_sdk_proof_request sdk cfg rid ?p)"
      using prog assms(2) mode by (simp add: shows_request_def build_sdk_proof_request_def unwrap_or_zero_def)
    show "sr_fulfillment_status (build_sdk_proof_request sdk cfg rid ?p) = Requested"
      by (simp add: build_sdk_proof_request_def shown_fulfillment_def)
  qed
qed

section \<open>The filtered listing\<close>

definition shown_row :: "Sdk \<Rightarrow> GatewayConfig \<Rightarrow> DbProofRequest \<Rightarrow> SdkProofRequest" where
  "shown_row sdk cfg row = build_sdk_proof_request sdk cfg (db_id row) (the (into_proto row))"

text \<open>A request that is shown with the wanted statuses; what is not given or unspecified is not restricted.\<close>

definition shown_matches :: "Sdk \<Rightarrow> FilterRequest \<Rightarrow> SdkProofRequest \<Rightarrow> bool" where
  "shown_matches sdk req r \<longleftrightarrow>
     (case Option.bind (fr_fulfillment_status req) (sdk_fulfillment sdk) of
        None \<Rightarrow> True
      | Some s \<Rightarrow> s = UnspecifiedFulfillmentStatus \<or> sr_fulfillment_status r = s) \<and>
     (case Option.bind (fr_execution_status req) (sdk_execution sdk) of
        None \<Rightarrow> True
      | Some s \<Rightarrow> s = UnspecifiedExecutionStatus \<or> sr_execution_status r = s)"

lemma shown_row_status:
  assumes "execution_of row = Some x"
  shows "sr_fulfillment_status (shown_row sdk cfg row) = fulfillment_from_cluster (proof_status (db_proof_status row))"
    and "sr_execution_status (shown_row sdk cfg row) =
      (case x of None \<Rightarrow> Unexecuted | Some r \<Rightarrow> execution_from_cluster (execution_status sdk r))"
  using assms by (auto simp: shown_row_def into_proto_def build_sdk_proof_request_def shown_fulfillment_def shown_execution_def)

lemma execution_of_status: "execution_of row = Some x \<Longrightarrow> db_execution_status row = map_option er_status x"
  by (auto simp: execution_of_def split: option.splits)

lemma shown_execution_filter:
  assumes laws: "sdk_laws sdk" and x: "execution_of row = Some x" and s: "s \<noteq> UnspecifiedExecutionStatus" "s \<noteq> Unexecuted"
  shows "(case db_execution_status row of None \<Rightarrow> False
      | Some n \<Rightarrow> n \<in> set (map (sdk_cluster_execution_number sdk) (cluster_execution_filter s))) \<longleftrightarrow>
    sr_execution_status (shown_row sdk cfg row) = s"
proof (cases x)
  case None
  then have "db_execution_status row = None" using execution_of_status [OF x] by simp
  with None s(2) shown_row_status(2) [OF x] show ?thesis by auto
next
  case (Some r)
  then have n: "db_execution_status row = Some (er_status r)" using execution_of_status [OF x] by simp
  have "er_status r \<in> set (map (sdk_cluster_execution_number sdk) (cluster_execution_filter s)) \<longleftrightarrow>
      (\<exists>e \<in> set (cluster_execution_filter s). sdk_cluster_execution sdk (er_status r) = Some e)"
  proof -
    have "sdk_cluster_execution sdk (er_status r) = Some e \<longleftrightarrow> er_status r = sdk_cluster_execution_number sdk e" for e
      using laws unfolding sdk_laws_def by metis
    then show ?thesis by auto
  qed
  also have "\<dots> \<longleftrightarrow> execution_from_cluster (execution_status sdk r) = s"
    using execution_filter_exact [OF s(1)] s(1) by (auto simp: execution_status_def split: option.splits)
  finally show ?thesis using n Some shown_row_status(2) [OF x, of sdk cfg] by simp
qed

lemma list_matches_shown:
  assumes laws: "sdk_laws sdk" and x: "execution_of row \<noteq> None"
    and filter: "Option.bind (fr_execution_status req) (sdk_execution sdk) \<noteq> Some Unexecuted" "wanted_fulfillment sdk req \<noteq> Some []"
  shows "list_matches (list_message sdk req) row \<longleftrightarrow>
    shown_matches sdk req (shown_row sdk cfg row) \<and>
    (case fr_minimum_deadline req of None \<Rightarrow> True | Some d \<Rightarrow> db_deadline row \<ge> as_i64 d)"
proof -
  from x obtain e where e: "execution_of row = Some e" by blast
  let ?shown = "shown_row sdk cfg row"
  have f: "(ls_proof_status (list_message sdk req) \<noteq> [] \<longrightarrow> db_proof_status row \<in> set (ls_proof_status (list_message sdk req))) \<longleftrightarrow>
    (case Option.bind (fr_fulfillment_status req) (sdk_fulfillment sdk) of
        None \<Rightarrow> True | Some s \<Rightarrow> s = UnspecifiedFulfillmentStatus \<or> sr_fulfillment_status ?shown = s)"
  proof (cases "Option.bind (fr_fulfillment_status req) (sdk_fulfillment sdk)")
    case (Some s)
    show ?thesis
    proof (cases "cluster_fulfillment_filter s")
      case None
      then have "s = UnspecifiedFulfillmentStatus" by (cases s) simp_all
      with Some None show ?thesis by (simp add: list_message_def wanted_fulfillment_def)
    next
      case cs: (Some cs)
      then have "s \<noteq> UnspecifiedFulfillmentStatus" by auto
      with Some cs filter(2) fulfillment_filter_exact [OF cs, of "db_proof_status row"] shown_row_status(1) [OF e, of sdk cfg]
      show ?thesis by (simp add: list_message_def wanted_fulfillment_def)
    qed
  qed (simp add: list_message_def wanted_fulfillment_def)
  have g: "(ls_execution_status (list_message sdk req) \<noteq> [] \<longrightarrow>
      (case db_execution_status row of None \<Rightarrow> False | Some n \<Rightarrow> n \<in> set (ls_execution_status (list_message sdk req)))) \<longleftrightarrow>
    (case Option.bind (fr_execution_status req) (sdk_execution sdk) of
        None \<Rightarrow> True | Some s \<Rightarrow> s = UnspecifiedExecutionStatus \<or> sr_execution_status ?shown = s)"
  proof (cases "Option.bind (fr_execution_status req) (sdk_execution sdk)")
    case (Some s)
    then have ls: "ls_execution_status (list_message sdk req) = map (sdk_cluster_execution_number sdk) (cluster_execution_filter s)"
      by (simp add: list_message_def wanted_execution_def)
    show ?thesis
      unfolding ls using Some filter(1) shown_execution_filter [OF laws e, of s cfg] execution_filter_Nil [of s]
      by (cases "s = UnspecifiedExecutionStatus") (simp_all del: set_map)
  qed (simp add: list_message_def wanted_execution_def)
  show ?thesis
    unfolding list_matches_def shown_matches_def f g by (simp add: list_message_def)
qed

text \<open>The window of the rows that are shown with the wanted statuses.\<close>

lemma filtered_window:
  assumes laws: "sdk_laws sdk" and ok: "db_ok db"
    and exec: "Option.bind (fr_execution_status req) (sdk_execution sdk) \<noteq> Some Unexecuted"
  shows "get_filtered_proof_requests sdk cfg True req db =
    Inr (take (case fr_limit req of None \<Rightarrow> 10 | Some n \<Rightarrow> clamp 1 100 n)
      (drop (case filter_offset req of None \<Rightarrow> 0 | Some n \<Rightarrow> min n (2 ^ 31 - 1))
        (map (shown_row sdk cfg) (sort_key list_order (filter (\<lambda>row. shown_matches sdk req (shown_row sdk cfg row) \<and>
           (case fr_minimum_deadline req of None \<Rightarrow> True | Some d \<Rightarrow> db_deadline row \<ge> as_i64 d)) (hm_values db))))))"
    (is "_ = Inr (take ?l (drop ?o (map _ (sort_key _ (filter ?sel _)))))")
proof -
  have total: "execution_of row \<noteq> None" if "row \<in> set (hm_values db)" for row
  proof -
    from that obtain i where "(i, row) \<in> set db" by (auto simp: hm_values_def)
    then have "map_of db i = Some row" using hm_wf_mem [OF db_okD(1) [OF ok]] by simp
    then show ?thesis by (rule db_okD(3) [OF ok])
  qed
  show ?thesis
  proof (cases "wanted_fulfillment sdk req = Some []")
    case True
    then obtain s where s: "Option.bind (fr_fulfillment_status req) (sdk_fulfillment sdk) = Some s" "cluster_fulfillment_filter s = Some []"
      by (auto simp: wanted_fulfillment_def split: option.splits)
    have "\<not> ?sel row" if "row \<in> set (hm_values db)" for row
    proof -
      from total [OF that] obtain x where "execution_of row = Some x" by blast
      from shown_row_status(1) [OF this] fulfillment_filter_exact [OF s(2), of "db_proof_status row"] s show ?thesis
        by (auto simp: shown_matches_def)
    qed
    then have "filter ?sel (hm_values db) = []" by (simp add: filter_empty_conv)
    with True show ?thesis by (simp only: get_filtered_proof_requests_def) simp
  next
    case False
    have "filter (list_matches (list_message sdk req)) (hm_values db) = filter ?sel (hm_values db)"
      by (rule filter_cong [OF refl]) (rule list_matches_shown [OF laws total exec False])
    then have sel: "selected_rows (list_message sdk req) db = sort_key list_order (filter ?sel (hm_values db))"
      by (simp add: selected_rows_def)
    have l: "list_limit (list_message sdk req) = ?l" "list_offset (list_message sdk req) = ?o"
      by (auto simp: list_limit_def list_offset_def list_message_def filter_limit_def clamp_def split: option.splits)
    have rows: "map (\<lambda>p. build_sdk_proof_request sdk cfg (rq_id p) p) (map (the \<circ> into_proto) rows) = map (shown_row sdk cfg) rows"
      if "set rows \<subseteq> set (hm_values db)" for rows
    proof -
      have "build_sdk_proof_request sdk cfg (rq_id (the (into_proto row))) (the (into_proto row)) = shown_row sdk cfg row"
        if "row \<in> set rows" for row
        using into_proto_total [OF total] \<open>set rows \<subseteq> set (hm_values db)\<close> that into_proto_id by (fastforce simp: shown_row_def)
      then show ?thesis by simp
    qed
    have "set (take ?l (drop ?o (sort_key list_order (filter ?sel (hm_values db))))) \<subseteq> set (hm_values db)"
      by (rule order_trans [OF set_take_subset order_trans [OF set_drop_subset]]) auto
    from rows [OF this] show ?thesis
      using False list_total [OF ok, of "list_message sdk req"]
      unfolding get_filtered_proof_requests_def l sel by (simp add: take_map drop_map)
  qed
qed

text \<open>Requests without an execution result, which are shown as unexecuted, are never listed as such.\<close>

lemma unexecuted_rows_are_not_listed:
  assumes f: "fr_execution_status req = Some n" "sdk_execution sdk n = Some Unexecuted" and row: "db_execution_status row = None"
  shows "\<not> list_matches (list_message sdk req) row"
  using assms by (simp add: list_matches_def list_message_def wanted_execution_def)

end
