(* ===== verification/Artifact_Store.thy ===== *)
theory Artifact_Store
  imports Artifact_Redis
begin

text \<open>
  Clients of the Redis artifact store side by side: uploads, publishing, deletion, expiry and a download
  that reads request by request.  Every key keeps holding what its kind promises, and a download never
  returns a torn artifact; undisturbed, an upload reads back.
\<close>

section \<open>Keys do not collide\<close>

text \<open>Artifact ids have no colon and are not the prefix of the reference sets; minted ids have no colon either.\<close>

definition artifact_id_ok :: "string \<Rightarrow> bool" where
  "artifact_id_ok i \<longleftrightarrow> CHR '':'' \<notin> set i \<and> i \<noteq> ''refs''"

definition key_head :: "string \<Rightarrow> string" where
  "key_head k = takeWhile (\<lambda>c. c \<noteq> CHR '':'') k"

definition key_tail :: "string \<Rightarrow> string" where
  "key_tail k = dropWhile (\<lambda>c. c \<noteq> CHR '':'') k"

lemma key_append_colon:
  assumes "CHR '':'' \<notin> set i"
  shows "key_head (i @ CHR '':'' # r) = i" and "key_tail (i @ CHR '':'' # r) = CHR '':'' # r"
  using assms by (auto simp: key_head_def key_tail_def takeWhile_append dropWhile_append)

lemma key_parts [simp]:
  assumes "artifact_id_ok i"
  shows "key_head i = i" "key_tail i = []"
    and "key_head (chunk_key i) = i" "key_tail (chunk_key i) = '':chunks''"
    and "key_head (staging_chunk_key i f) = i" "key_tail (staging_chunk_key i f) = '':chunks:'' @ f"
proof -
  have c: "CHR '':'' \<notin> set i" using assms by (simp add: artifact_id_ok_def)
  then have "takeWhile (\<lambda>c. c \<noteq> CHR '':'') i = i" by (auto simp: takeWhile_eq_all_conv)
  moreover from c have "dropWhile (\<lambda>c. c \<noteq> CHR '':'') i = []" by (auto simp: dropWhile_eq_Nil_conv)
  ultimately show "key_head i = i" "key_tail i = []" by (simp_all add: key_head_def key_tail_def)
  show "key_head (chunk_key i) = i" "key_tail (chunk_key i) = '':chunks''"
    "key_head (staging_chunk_key i f) = i" "key_tail (staging_chunk_key i f) = '':chunks:'' @ f"
    using key_append_colon [OF c, of "''chunks''"] key_append_colon [OF c, of "''chunks:'' @ f"]
    by (simp_all add: chunk_key_def staging_chunk_key_def)
qed

lemma key_parts_refs [simp]: "key_head (refs_key i) = ''refs''" "key_tail (refs_key i) = CHR '':'' # i"
  using key_append_colon [of "''refs''" i] by (simp_all add: refs_key_def)

lemma derived_keys_not_ids [simp]:
  "\<not> artifact_id_ok (chunk_key i)" "\<not> artifact_id_ok (staging_chunk_key i f)" "\<not> artifact_id_ok (refs_key i)"
  by (simp_all add: artifact_id_ok_def chunk_key_def staging_chunk_key_def refs_key_def)

lemma keys_distinct [simp]:
  assumes "artifact_id_ok i" and "artifact_id_ok j"
  shows "chunk_key i = chunk_key j \<longleftrightarrow> i = j"
    and "staging_chunk_key i f = staging_chunk_key j g \<longleftrightarrow> i = j \<and> f = g"
    and "i \<noteq> chunk_key j" "chunk_key j \<noteq> i" "i \<noteq> staging_chunk_key j f" "staging_chunk_key j f \<noteq> i"
    and "chunk_key i \<noteq> staging_chunk_key j f" "staging_chunk_key j f \<noteq> chunk_key i"
    and "refs_key k \<noteq> i" "i \<noteq> refs_key k" "refs_key k \<noteq> chunk_key i" "chunk_key i \<noteq> refs_key k"
    and "refs_key k \<noteq> staging_chunk_key i f" "staging_chunk_key i f \<noteq> refs_key k"
proof -
  have refs: "i \<noteq> ''refs''" using assms(1) by (simp add: artifact_id_ok_def)
  show "chunk_key i = chunk_key j \<longleftrightarrow> i = j" using key_parts(3) assms by metis
  show "staging_chunk_key i f = staging_chunk_key j g \<longleftrightarrow> i = j \<and> f = g"
    using key_parts(5) [OF assms(1)] key_parts(5) [OF assms(2)] key_parts(6) [OF assms(1)] key_parts(6) [OF assms(2)]
    by (metis same_append_eq)
  show "i \<noteq> chunk_key j" "chunk_key j \<noteq> i" "i \<noteq> staging_chunk_key j f" "staging_chunk_key j f \<noteq> i"
    "refs_key k \<noteq> i" "i \<noteq> refs_key k"
    using assms derived_keys_not_ids by metis+
  have "key_tail (chunk_key i) \<noteq> key_tail (staging_chunk_key j f)" using assms by simp
  then show "chunk_key i \<noteq> staging_chunk_key j f" "staging_chunk_key j f \<noteq> chunk_key i" by metis+
  have "key_head (refs_key k) \<noteq> key_head (chunk_key i)" using assms refs by simp
  then show "refs_key k \<noteq> chunk_key i" "chunk_key i \<noteq> refs_key k" by metis+
  have "key_head (refs_key k) \<noteq> key_head (staging_chunk_key i f)" using assms refs by simp
  then show "refs_key k \<noteq> staging_chunk_key i f" "staging_chunk_key i f \<noteq> refs_key k" by metis+
qed

section \<open>Chunks\<close>

lemma chunk_count_bounds:
  assumes "0 < sz" and "i < chunk_count sz data"
  shows "i * sz < length data"
proof -
  have "Suc i * sz \<le> length data + sz - 1"
    using assms by (metis Suc_leI chunk_count_def div_ceil_def less_eq_div_iff_mult_less_eq)
  with assms(1) show ?thesis by simp
qed

lemma concat_chunks_prefix:
  "concat (map (chunk_at sz data) [0..<n]) = take (n * sz) data"
proof (induction n)
  case (Suc n)
  then show ?case by (simp add: chunk_at_def take_add [symmetric] add.commute)
qed simp

lemma concat_chunks:
  assumes "0 < sz"
  shows "concat (map (chunk_at sz data) [0..<chunk_count sz data]) = data"
proof -
  have "length data \<le> chunk_count sz data * sz"
  proof -
    have "length data + sz - 1 < (chunk_count sz data + 1) * sz"
      unfolding chunk_count_def div_ceil_def using assms by (metis Suc_eq_plus1 dividend_less_times_div mult.commute mult_Suc_right add.commute)
    then show ?thesis using assms by simp
  qed
  then show ?thesis by (simp add: concat_chunks_prefix)
qed

lemma chunk_field_not_count [simp]: "show_nat n \<noteq> CHUNK_COUNT_FIELD" "CHUNK_COUNT_FIELD \<noteq> show_nat n"
proof -
  have "CHR ''_'' \<in> set CHUNK_COUNT_FIELD" by (simp add: CHUNK_COUNT_FIELD_def)
  moreover have "CHR ''_'' \<notin> set (show_nat n)" using show_nat_chars [of n] by auto
  ultimately show "show_nat n \<noteq> CHUNK_COUNT_FIELD" "CHUNK_COUNT_FIELD \<noteq> show_nat n" by metis+
qed

section \<open>Concurrent clients\<close>

text \<open>
  An attempt of a chunked upload.  Cancelling it stops the client, but requests that were sent may still
  arrive: any request of an attempt can be executed at any later time, more than once and in any order.
  \<open>so_written\<close> is the history of the uploads; \<open>so_download\<close> is one download of a fixed artifact.
\<close>

record Attempt =
  at_id :: string
  at_fresh :: string
  at_type :: ArtifactType
  at_data :: string

definition attempt_key :: "Attempt \<Rightarrow> string" where
  "attempt_key a = staging_chunk_key (at_id a) (at_fresh a)"

record 's Store =
  so_redis :: 's
  so_attempts :: "Attempt list"
  so_written :: "(string \<times> ArtifactType \<times> string) list"
  so_download :: Download

inductive store_step :: "'s Redis \<Rightarrow> RedisConfig \<Rightarrow> string \<Rightarrow> 's Store \<Rightarrow> 's Store \<Rightarrow> bool"
  for R :: "'s Redis" and cfg :: RedisConfig and key :: string where
  ss_begin:
    "artifact_id_ok (at_id a) \<Longrightarrow> rc_chunk_size cfg < length (at_data a) \<Longrightarrow> length (at_data a) < 2 ^ 64 \<Longrightarrow>
     at_fresh a \<notin> at_fresh ` set (so_attempts st) \<Longrightarrow>
     store_step R cfg key st (st\<lparr>so_attempts := a # so_attempts st, so_written := (at_id a, at_type a, at_data a) # so_written st\<rparr>)"
| ss_stage:
    "a \<in> set (so_attempts st) \<Longrightarrow> n < chunk_count (rc_chunk_size cfg) (at_data a) \<Longrightarrow>
     stage_chunk R (attempt_key a) n (chunk_at (rc_chunk_size cfg) (at_data a) n) (so_redis st) = Some s' \<Longrightarrow>
     store_step R cfg key st (st\<lparr>so_redis := s'\<rparr>)"
| ss_publish:
    "a \<in> set (so_attempts st) \<Longrightarrow>
     store_step R cfg key st (st\<lparr>so_redis := snd (publish_staged R cfg (at_type a) (at_id a) (attempt_key a)
       (chunk_count (rc_chunk_size cfg) (at_data a)) (so_redis st))\<rparr>)"
| ss_reclaim:
    "a \<in> set (so_attempts st) \<Longrightarrow> store_step R cfg key st (st\<lparr>so_redis := reclaim_staging R (attempt_key a) (so_redis st)\<rparr>)"
| ss_inline:
    "artifact_id_ok i \<Longrightarrow> length d \<le> rc_chunk_size cfg \<Longrightarrow>
     store_step R cfg key st (st\<lparr>so_redis := upload_inline R cfg t i d (so_redis st), so_written := (i, t, d) # so_written st\<rparr>)"
| ss_delete_inline: "store_step R cfg key st (st\<lparr>so_redis := delete_inline R i (so_redis st)\<rparr>)"
| ss_delete_chunks: "store_step R cfg key st (st\<lparr>so_redis := delete_chunks R i (so_redis st)\<rparr>)"
| ss_sadd: "sadd_ref R i m (so_redis st) = Some s' \<Longrightarrow> store_step R cfg key st (st\<lparr>so_redis := s'\<rparr>)"
| ss_expire_ref: "store_step R cfg key st (st\<lparr>so_redis := expire_ref R cfg i (so_redis st)\<rparr>)"
| ss_srem: "srem_ref R i m (so_redis st) = Some s' \<Longrightarrow> store_step R cfg key st (st\<lparr>so_redis := s'\<rparr>)"
| ss_unlink_ref: "store_step R cfg key st (st\<lparr>so_redis := rd_unlink R (refs_key i) (so_redis st)\<rparr>)"
| ss_expired:
    "ttl_of (rd_view R (so_redis st) k) \<noteq> None \<Longrightarrow> rd_view R s' = (rd_view R (so_redis st))(k := None) \<Longrightarrow>
     store_step R cfg key st (st\<lparr>so_redis := s'\<rparr>)"
| ss_read:
    "store_step R cfg key st (st\<lparr>so_download := par_download_step R key n (so_redis st) (so_download st)\<rparr>)"

inductive store_reachable :: "'s Redis \<Rightarrow> RedisConfig \<Rightarrow> string \<Rightarrow> 's Store \<Rightarrow> bool"
  for R :: "'s Redis" and cfg :: RedisConfig and key :: string where
  sr_init:
    "rd_view R s = Map.empty \<Longrightarrow>
     store_reachable R cfg key \<lparr>so_redis = s, so_attempts = [], so_written = [], so_download = ReadCount\<rparr>"
| sr_step: "store_reachable R cfg key st \<Longrightarrow> store_step R cfg key st st' \<Longrightarrow> store_reachable R cfg key st'"

section \<open>What the keys hold\<close>

definition partial_hash :: "RedisConfig \<Rightarrow> string \<Rightarrow> (string, string) hash_map \<Rightarrow> bool" where
  "partial_hash cfg d h \<longleftrightarrow> hm_wf h \<and>
     (\<forall>f v. map_of h f = Some v \<longrightarrow>
        (\<exists>n < chunk_count (rc_chunk_size cfg) d. f = show_nat n \<and> v = chunk_at (rc_chunk_size cfg) d n))"

definition full_hash :: "RedisConfig \<Rightarrow> string \<Rightarrow> (string, string) hash_map \<Rightarrow> bool" where
  "full_hash cfg d h \<longleftrightarrow>
     map_of h CHUNK_COUNT_FIELD = Some (show_nat (chunk_count (rc_chunk_size cfg) d)) \<and>
     length h = Suc (chunk_count (rc_chunk_size cfg) d) \<and>
     (\<forall>n. map_of h (show_nat n) =
        (if n < chunk_count (rc_chunk_size cfg) d then Some (chunk_at (rc_chunk_size cfg) d n) else None))"

text \<open>The four kinds of keys, with the type, the content and the expiry of what they hold.\<close>

inductive entry_ok ::
  "RedisConfig \<Rightarrow> Attempt list \<Rightarrow> (string \<times> ArtifactType \<times> string) list \<Rightarrow> string \<Rightarrow> RedisValue \<times> nat option \<Rightarrow> bool"
  for cfg as ws where
  eo_inline:
    "artifact_id_ok i \<Longrightarrow> (i, t, d) \<in> set ws \<Longrightarrow> length d \<le> rc_chunk_size cfg \<Longrightarrow>
     entry_ok cfg as ws i (RString d, retention cfg t)"
| eo_chunks:
    "artifact_id_ok i \<Longrightarrow> (i, t, d) \<in> set ws \<Longrightarrow> rc_chunk_size cfg < length d \<Longrightarrow> length d < 2 ^ 64 \<Longrightarrow> full_hash cfg d h \<Longrightarrow>
     entry_ok cfg as ws (chunk_key i) (RHash h, retention cfg t)"
| eo_staging:
    "a \<in> set as \<Longrightarrow> partial_hash cfg (at_data a) h \<Longrightarrow>
     entry_ok cfg as ws (attempt_key a) (RHash h, Some STAGING_TTL_SECONDS)"
| eo_refs: "entry_ok cfg as ws (refs_key i) (RSet x, t)"

definition attempts_ok :: "RedisConfig \<Rightarrow> Attempt list \<Rightarrow> (string \<times> ArtifactType \<times> string) list \<Rightarrow> bool" where
  "attempts_ok cfg as ws \<longleftrightarrow> inj_on at_fresh (set as) \<and>
     (\<forall>a \<in> set as. artifact_id_ok (at_id a) \<and> rc_chunk_size cfg < length (at_data a) \<and> length (at_data a) < 2 ^ 64 \<and>
        (at_id a, at_type a, at_data a) \<in> set ws)"

definition view_ok :: "RedisConfig \<Rightarrow> Attempt list \<Rightarrow> (string \<times> ArtifactType \<times> string) list \<Rightarrow> redis_view \<Rightarrow> bool" where
  "view_ok cfg as ws v \<longleftrightarrow> (\<forall>k e. v k = Some e \<longrightarrow> entry_ok cfg as ws k e)"

lemma entry_ok_mono: "entry_ok cfg as ws k e \<Longrightarrow> set as \<subseteq> set as' \<Longrightarrow> set ws \<subseteq> set ws' \<Longrightarrow> entry_ok cfg as' ws' k e"
  by (induction rule: entry_ok.induct) (auto intro: entry_ok.intros)

lemma view_okD: "view_ok cfg as ws v \<Longrightarrow> v k = Some e \<Longrightarrow> entry_ok cfg as ws k e"
  unfolding view_ok_def by blast

lemma view_ok_mono: "view_ok cfg as ws v \<Longrightarrow> set as \<subseteq> set as' \<Longrightarrow> set ws \<subseteq> set ws' \<Longrightarrow> view_ok cfg as' ws' v"
  unfolding view_ok_def using entry_ok_mono by blast

lemma view_ok_remove: "view_ok cfg as ws v \<Longrightarrow> view_ok cfg as ws (v(k := None))"
  by (simp add: view_ok_def)

lemma view_ok_upd: "view_ok cfg as ws v \<Longrightarrow> entry_ok cfg as ws k e \<Longrightarrow> view_ok cfg as ws (v(k \<mapsto> e))"
  unfolding view_ok_def by auto

lemma attempts_okD:
  assumes "attempts_ok cfg as ws" and "a \<in> set as"
  shows "artifact_id_ok (at_id a)" "rc_chunk_size cfg < length (at_data a)" "length (at_data a) < 2 ^ 64"
    and "(at_id a, at_type a, at_data a) \<in> set ws"
  using assms by (auto simp: attempts_ok_def)

text \<open>Reading an entry back by the kind of its key.\<close>

lemma entry_at_id:
  assumes "entry_ok cfg as ws i e" and "artifact_id_ok i" and "attempts_ok cfg as ws"
  obtains t d where "e = (RString d, retention cfg t)" "(i, t, d) \<in> set ws" "length d \<le> rc_chunk_size cfg"
  using assms(1)
proof (cases rule: entry_ok.cases)
  case (eo_chunks j t d h)
  with assms(2) show ?thesis by simp
next
  case (eo_staging a h)
  with assms(2) show ?thesis by (simp add: attempt_key_def)
next
  case (eo_refs j x t)
  with assms(2) show ?thesis by simp
qed (rule that)

lemma entry_at_chunks:
  assumes "entry_ok cfg as ws (chunk_key i) e" and "artifact_id_ok i" and "attempts_ok cfg as ws"
  obtains t d h where "e = (RHash h, retention cfg t)" "(i, t, d) \<in> set ws" "rc_chunk_size cfg < length d" "length d < 2 ^ 64"
    "full_hash cfg d h"
  using assms(1)
proof (cases rule: entry_ok.cases)
  case (eo_inline t d)
  then show ?thesis by simp
next
  case (eo_chunks j t d h)
  with assms(2) keys_distinct(1) [of i j] show ?thesis using that by simp
next
  case (eo_staging a h)
  with assms(2) attempts_okD(1) [OF assms(3)] keys_distinct(7) [of i "at_id a"] show ?thesis by (simp add: attempt_key_def)
next
  case (eo_refs j x t)
  with assms(2) keys_distinct(12) [of i i] show ?thesis by simp
qed

lemma entry_at_attempt:
  assumes "entry_ok cfg as ws (attempt_key a) e" and "a \<in> set as" and ok: "attempts_ok cfg as ws"
  obtains h where "e = (RHash h, Some STAGING_TTL_SECONDS)" "partial_hash cfg (at_data a) h"
  using assms(1)
proof (cases rule: entry_ok.cases)
  case (eo_inline t d)
  then show ?thesis by (simp add: attempt_key_def)
next
  case (eo_chunks j t d h)
  with attempts_okD(1) [OF ok assms(2)] keys_distinct(8) [of j "at_id a"] show ?thesis by (simp add: attempt_key_def)
next
  case (eo_staging b h)
  then have "at_fresh b = at_fresh a"
    using keys_distinct(2) attempts_okD(1) [OF ok] assms(2) by (auto simp: attempt_key_def)
  then have "b = a" using ok eo_staging(3) assms(2) by (auto simp: attempts_ok_def inj_on_def)
  with eo_staging that show ?thesis by simp
next
  case (eo_refs j x t)
  with attempts_okD(1) [OF ok assms(2)] keys_distinct(14) [of "at_id a" "at_id a"] show ?thesis by (simp add: attempt_key_def)
qed

text \<open>Commands on keys of the store never meet a value of the wrong type.\<close>

lemma hash_at_chunks:
  assumes "view_ok cfg as ws v" and "artifact_id_ok i" and "attempts_ok cfg as ws"
  shows "(v (chunk_key i) = None \<and> hash_of (v (chunk_key i)) = Some []) \<or>
    (\<exists>t d h. v (chunk_key i) = Some (RHash h, retention cfg t) \<and> hash_of (v (chunk_key i)) = Some h \<and>
      (i, t, d) \<in> set ws \<and> rc_chunk_size cfg < length d \<and> length d < 2 ^ 64 \<and> full_hash cfg d h)"
proof (cases "v (chunk_key i)")
  case (Some e)
  with assms(1) have "entry_ok cfg as ws (chunk_key i) e" by (rule view_okD)
  from entry_at_chunks [OF this assms(2,3)] Some show ?thesis by (metis hash_of.simps(2))
qed simp

lemma hash_at_attempt:
  assumes "view_ok cfg as ws v" and "a \<in> set as" and "attempts_ok cfg as ws"
  obtains h where "hash_of (v (attempt_key a)) = Some h" "partial_hash cfg (at_data a) h"
proof (cases "v (attempt_key a)")
  case None
  then show ?thesis using that [of "[]"] by (simp add: partial_hash_def)
next
  case (Some e)
  with assms(1) have "entry_ok cfg as ws (attempt_key a) e" by (rule view_okD)
  from entry_at_attempt [OF this assms(2,3)] Some that show ?thesis by (metis hash_of.simps(2))
qed

lemma partial_hash_complete:
  assumes "partial_hash cfg d h" and "length h = chunk_count (rc_chunk_size cfg) d"
  shows "map_of h (show_nat n) =
    (if n < chunk_count (rc_chunk_size cfg) d then Some (chunk_at (rc_chunk_size cfg) d n) else None)"
    and "map_of h CHUNK_COUNT_FIELD = None"
proof -
  let ?m = "chunk_count (rc_chunk_size cfg) d"
  have wf: "hm_wf h" and only: "\<And>f v. map_of h f = Some v \<Longrightarrow> \<exists>n < ?m. f = show_nat n \<and> v = chunk_at (rc_chunk_size cfg) d n"
    using assms(1) unfolding partial_hash_def by blast+
  have "fst ` set h \<subseteq> show_nat ` {..<?m}" using only wf by (auto simp: hm_wf_mem [symmetric] dom_map_of_conv_image_fst [symmetric] dom_def)
  moreover have "card (fst ` set h) = ?m"
    using wf assms(2) by (metis distinct_card hm_wf_def length_map list.set_map)
  moreover have "card (show_nat ` {..<?m}) = ?m" by (subst card_image) (auto simp: inj_on_def)
  ultimately have all: "fst ` set h = show_nat ` {..<?m}" by (intro card_subset_eq) auto
  show "map_of h (show_nat n) = (if n < ?m then Some (chunk_at (rc_chunk_size cfg) d n) else None)"
  proof (cases "map_of h (show_nat n)")
    case None
    then have "show_nat n \<notin> show_nat ` {..<?m}" using all by (metis map_of_eq_None_iff)
    with None show ?thesis by auto
  next
    case (Some v)
    with only [OF this] show ?thesis by auto
  qed
  show "map_of h CHUNK_COUNT_FIELD = None"
    using only [of CHUNK_COUNT_FIELD] by (cases "map_of h CHUNK_COUNT_FIELD") auto
qed

lemma length_hm_insert_new: "map_of h k = None \<Longrightarrow> length (hm_insert k v h) = Suc (length h)"
  by (induction h) (auto split: if_splits)

lemma full_hash_published:
  assumes "partial_hash cfg d h" and "length h = chunk_count (rc_chunk_size cfg) d"
  shows "full_hash cfg d (hm_insert CHUNK_COUNT_FIELD (show_nat (chunk_count (rc_chunk_size cfg) d)) h)"
  using partial_hash_complete [OF assms] assms(2) by (simp add: full_hash_def length_hm_insert_new)

lemma partial_hash_insert:
  "partial_hash cfg d h \<Longrightarrow> n < chunk_count (rc_chunk_size cfg) d \<Longrightarrow>
   partial_hash cfg d (hm_insert (show_nat n) (chunk_at (rc_chunk_size cfg) d n) h)"
  by (auto simp: partial_hash_def)

section \<open>Every request keeps the keys in order\<close>

lemma stage_chunk_view:
  assumes laws: "redis_laws R" and "stage_chunk R k n c s = Some s'"
  shows "\<exists>h. hash_of (rd_view R s k) = Some h \<and>
    rd_view R s' = (rd_view R s)(k \<mapsto> (RHash (hm_insert (show_nat n) c h), Some STAGING_TTL_SECONDS))"
  using assms(2) by (auto simp: stage_chunk_def redis laws split: option.splits)

lemma view_ok_stage:
  assumes laws: "redis_laws R" and ok: "view_ok cfg as ws (rd_view R s)" and as: "attempts_ok cfg as ws" and a: "a \<in> set as"
    and n: "n < chunk_count (rc_chunk_size cfg) (at_data a)"
    and s': "stage_chunk R (attempt_key a) n (chunk_at (rc_chunk_size cfg) (at_data a) n) s = Some s'"
  shows "view_ok cfg as ws (rd_view R s')"
proof -
  obtain h where h: "hash_of (rd_view R s (attempt_key a)) = Some h" "partial_hash cfg (at_data a) h"
    using hash_at_attempt [OF ok a as] .
  with stage_chunk_view [OF laws s'] show ?thesis
    by (auto intro!: view_ok_upd [OF ok] eo_staging [OF a] partial_hash_insert n)
qed

text \<open>The three outcomes of publishing, as changes of the view.\<close>

lemma publish_view:
  assumes laws: "redis_laws R" and ok: "view_ok cfg as ws (rd_view R s)" and as: "attempts_ok cfg as ws" and a: "a \<in> set as"
    and p: "publish_staged R cfg (at_type a) (at_id a) (attempt_key a) (chunk_count (rc_chunk_size cfg) (at_data a)) s = (b, s')"
  obtains
    (kept) "b" "rd_view R s (chunk_key (at_id a)) \<noteq> None" "rd_view R s' = (rd_view R s)(attempt_key a := None, at_id a := None)"
  | (incomplete) "\<not> b" "rd_view R s (chunk_key (at_id a)) = None" "rd_view R s' = (rd_view R s)(attempt_key a := None)"
  | (published) h where "b" "rd_view R s (chunk_key (at_id a)) = None" "full_hash cfg (at_data a) h"
      "rd_view R s' = (rd_view R s)(attempt_key a := None, chunk_key (at_id a) \<mapsto> (RHash h, retention cfg (at_type a)), at_id a := None)"
proof -
  let ?v = "rd_view R s" and ?m = "chunk_count (rc_chunk_size cfg) (at_data a)"
  have i: "artifact_id_ok (at_id a)" by (rule attempts_okD(1) [OF as a])
  have ne: "attempt_key a \<noteq> chunk_key (at_id a)" "at_id a \<noteq> chunk_key (at_id a)" "at_id a \<noteq> attempt_key a"
    using i by (simp_all add: attempt_key_def)
  obtain h where h: "hash_of (?v (attempt_key a)) = Some h" "partial_hash cfg (at_data a) h"
    using hash_at_attempt [OF ok a as] .
  show thesis
  proof (cases "?v (chunk_key (at_id a))")
    case (Some e)
    with hash_at_chunks [OF ok i as] obtain g d where
      "hash_of (?v (chunk_key (at_id a))) = Some g" "full_hash cfg d g" by auto
    then have "hash_of (?v (chunk_key (at_id a))) = Some g" "map_of g CHUNK_COUNT_FIELD \<noteq> None" by (simp_all add: full_hash_def)
    with p Some show ?thesis by (intro kept) (auto simp: publish_staged_def publish_script_def redis laws)
  next
    case None
    show ?thesis
    proof (cases "length h = ?m")
      case False
      with p None h(1) show ?thesis by (intro incomplete) (auto simp: publish_staged_def publish_script_def redis laws)
    next
      case True
      let ?h = "hm_insert CHUNK_COUNT_FIELD (show_nat ?m) h"
      let ?s1 = "rd_unlink R (chunk_key (at_id a)) (rd_hset R (attempt_key a) CHUNK_COUNT_FIELD (show_nat ?m) s)"
      have v1: "rd_view R ?s1 = ?v(attempt_key a \<mapsto> (RHash ?h, ttl_of (?v (attempt_key a))), chunk_key (at_id a) := None)"
        by (simp add: redis laws h(1))
      then have v2: "rd_view R (rd_rename R (attempt_key a) (chunk_key (at_id a)) ?s1) =
          ?v(attempt_key a := None, chunk_key (at_id a) \<mapsto> (RHash ?h, ttl_of (?v (attempt_key a))))"
        using ne by (subst redis_rename [OF laws ne(1), of _ "(RHash ?h, ttl_of (?v (attempt_key a)))"]) (auto simp: fun_eq_iff)
      let ?s2 = "rd_rename R (attempt_key a) (chunk_key (at_id a)) ?s1"
      let ?s3 = "case retention cfg (at_type a) of Some n \<Rightarrow> rd_expire R (chunk_key (at_id a)) n ?s2 | None \<Rightarrow> rd_persist R (chunk_key (at_id a)) ?s2"
      have v3: "rd_view R ?s3 = ?v(attempt_key a := None, chunk_key (at_id a) \<mapsto> (RHash ?h, retention cfg (at_type a)))"
        by (cases "retention cfg (at_type a)") (simp_all add: redis_commands [OF laws] v2)
      have "publish_script R (attempt_key a) (chunk_key (at_id a)) (at_id a) ?m (retention cfg (at_type a)) s =
          Some (1, rd_unlink R (at_id a) ?s3)"
        unfolding publish_script_def by (simp add: None h(1) True Let_def)
      with p have "b" and "s' = rd_unlink R (at_id a) ?s3" by (simp_all add: publish_staged_def)
      then have "rd_view R s' = ?v(attempt_key a := None, chunk_key (at_id a) \<mapsto> (RHash ?h, retention cfg (at_type a)), at_id a := None)"
        by (simp only: redis_commands(2) [OF laws] v3)
      with \<open>b\<close> None full_hash_published [OF h(2) True] show ?thesis by (rule published)
    qed
  qed
qed

lemma view_ok_publish:
  assumes laws: "redis_laws R" and ok: "view_ok cfg as ws (rd_view R s)" and as: "attempts_ok cfg as ws" and a: "a \<in> set as"
  shows "view_ok cfg as ws (rd_view R (snd (publish_staged R cfg (at_type a) (at_id a) (attempt_key a)
    (chunk_count (rc_chunk_size cfg) (at_data a)) s)))"
proof -
  obtain b s' where p: "publish_staged R cfg (at_type a) (at_id a) (attempt_key a) (chunk_count (rc_chunk_size cfg) (at_data a)) s = (b, s')"
    by (rule prod.exhaust)
  from laws ok as a p show ?thesis
  proof (cases rule: publish_view)
    case (published h)
    have "entry_ok cfg as ws (chunk_key (at_id a)) (RHash h, retention cfg (at_type a))"
      by (rule eo_chunks [OF attempts_okD(1,4,2,3) [OF as a] published(3)])
    with published(4) p show ?thesis by (simp add: view_ok_remove view_ok_upd ok)
  qed (use p in \<open>simp_all add: view_ok_remove ok\<close>)
qed

lemma view_ok_inline:
  assumes laws: "redis_laws R" and ok: "view_ok cfg as ws (rd_view R s)" and "artifact_id_ok i" "length d \<le> rc_chunk_size cfg"
  shows "view_ok cfg as ((i, t, d) # ws) (rd_view R (upload_inline R cfg t i d s))"
  using view_ok_mono [OF ok, of as "(i, t, d) # ws"] assms(3,4)
  by (auto simp: upload_inline_def redis laws intro!: view_ok_remove view_ok_upd eo_inline)

lemma view_ok_refs:
  assumes laws: "redis_laws R" and ok: "view_ok cfg as ws (rd_view R s)"
  shows "sadd_ref R i m s = Some s' \<Longrightarrow> view_ok cfg as ws (rd_view R s')"
    and "srem_ref R i m s = Some s' \<Longrightarrow> view_ok cfg as ws (rd_view R s')"
    and "set_of_key (rd_view R s (refs_key i)) \<noteq> None \<Longrightarrow> view_ok cfg as ws (rd_view R (expire_ref R cfg i s))"
  using view_okD [OF ok, of "refs_key i"]
  by (auto simp: sadd_ref_def srem_ref_def expire_ref_def set_entry_def redis_commands [OF laws] redis_sets [OF laws]
      intro!: view_ok_upd view_ok_remove ok eo_refs split: option.splits elim!: set_of_key.elims)

lemma refs_are_sets:
  assumes "view_ok cfg as ws v" and "attempts_ok cfg as ws"
  shows "set_of_key (v (refs_key i)) \<noteq> None"
proof (cases "v (refs_key i)")
  case (Some e)
  from view_okD [OF assms(1) this] show ?thesis
  proof (cases rule: entry_ok.cases)
    case (eo_chunks j t d h)
    with keys_distinct(11) [of j j i] show ?thesis by simp
  next
    case (eo_staging a h)
    with keys_distinct(13) [where i = "at_id a" and j = "at_id a" and k = i and f = "at_fresh a"] attempts_okD(1) [OF assms(2)] show ?thesis by (simp add: attempt_key_def)
  qed (use Some in simp_all)
qed simp

text \<open>No command meets a key of the wrong type.\<close>

lemma commands_typed:
  assumes v: "view_ok cfg as ws (rd_view R s)" and as: "attempts_ok cfg as ws"
  shows "a \<in> set as \<Longrightarrow> stage_chunk R (attempt_key a) n d s \<noteq> None"
    and "a \<in> set as \<Longrightarrow> publish_script R (attempt_key a) (chunk_key (at_id a)) (at_id a) n ret s \<noteq> None"
    and "artifact_id_ok i \<Longrightarrow> exists_artifact R i s \<noteq> None"
    and "sadd_ref R i m s \<noteq> None" and "srem_ref R i m s \<noteq> None"
proof -
  have chunks: "\<exists>h. hash_of (rd_view R s (chunk_key j)) = Some h" if "artifact_id_ok j" for j
    using hash_at_chunks [OF v that as] by auto
  have staging: "\<exists>h. hash_of (rd_view R s (attempt_key a)) = Some h" if "a \<in> set as"
    using hash_at_attempt [OF v that as] by metis
  show "a \<in> set as \<Longrightarrow> stage_chunk R (attempt_key a) n d s \<noteq> None"
    using staging by (auto simp: stage_chunk_def)
  show "a \<in> set as \<Longrightarrow> publish_script R (attempt_key a) (chunk_key (at_id a)) (at_id a) n ret s \<noteq> None"
  proof -
    assume a: "a \<in> set as"
    from staging [OF a] chunks [OF attempts_okD(1) [OF as a]] show ?thesis by (auto simp: publish_script_def Let_def)
  qed
  show "artifact_id_ok i \<Longrightarrow> exists_artifact R i s \<noteq> None"
    using chunks [of i] by (auto simp: exists_artifact_def)
  show "sadd_ref R i m s \<noteq> None" "srem_ref R i m s \<noteq> None"
    using refs_are_sets [OF v as, of i] by (auto simp: sadd_ref_def srem_ref_def)
qed

section \<open>Downloads\<close>

definition written_large :: "RedisConfig \<Rightarrow> (string \<times> ArtifactType \<times> string) list \<Rightarrow> string \<Rightarrow> string \<Rightarrow> bool" where
  "written_large cfg ws key d \<longleftrightarrow> rc_chunk_size cfg < length d \<and> (\<exists>t. (key, t, d) \<in> set ws)"

definition count_ok :: "RedisConfig \<Rightarrow> (string \<times> ArtifactType \<times> string) list \<Rightarrow> string \<Rightarrow> nat \<Rightarrow> bool" where
  "count_ok cfg ws key n \<longleftrightarrow>
     (\<exists>d. written_large cfg ws key d \<and> (n = chunk_count (rc_chunk_size cfg) d \<or> n = Suc (chunk_count (rc_chunk_size cfg) d)))"

definition chunk_ok :: "RedisConfig \<Rightarrow> (string \<times> ArtifactType \<times> string) list \<Rightarrow> string \<Rightarrow> nat \<Rightarrow> string \<Rightarrow> bool" where
  "chunk_ok cfg ws key n c \<longleftrightarrow>
     (\<exists>d. written_large cfg ws key d \<and> n < chunk_count (rc_chunk_size cfg) d \<and> c = chunk_at (rc_chunk_size cfg) d n)"

fun download_ok :: "RedisConfig \<Rightarrow> (string \<times> ArtifactType \<times> string) list \<Rightarrow> string \<Rightarrow> Download \<Rightarrow> bool" where
  "download_ok cfg ws key (ReadChunks n got) \<longleftrightarrow>
     count_ok cfg ws key n \<and> (\<forall>i c. map_of got i = Some c \<longrightarrow> chunk_ok cfg ws key i c)"
| "download_ok cfg ws key (Downloaded x) \<longleftrightarrow>
     (\<exists>t. (key, t, x) \<in> set ws) \<or>
     (\<exists>n f. count_ok cfg ws key n \<and> x = concat (map f [0..<n]) \<and> (\<forall>i < n. chunk_ok cfg ws key i (f i)))"
| "download_ok cfg ws key ReadCount = True"
| "download_ok cfg ws key ReadLength = True"
| "download_ok cfg ws key ReadInline = True"
| "download_ok cfg ws key RecheckCount = True"
| "download_ok cfg ws key NotFoundError = True"
| "download_ok cfg ws key TransientError = True"

lemma chunk_ok_mono: "chunk_ok cfg ws key n c \<Longrightarrow> set ws \<subseteq> set ws' \<Longrightarrow> chunk_ok cfg ws' key n c"
  by (auto simp: chunk_ok_def written_large_def)

lemma count_ok_mono: "count_ok cfg ws key n \<Longrightarrow> set ws \<subseteq> set ws' \<Longrightarrow> count_ok cfg ws' key n"
  unfolding count_ok_def written_large_def by blast

lemma download_ok_mono: "download_ok cfg ws key dl \<Longrightarrow> set ws \<subseteq> set ws' \<Longrightarrow> download_ok cfg ws' key dl"
  by (cases dl) (auto intro: count_ok_mono chunk_ok_mono, blast intro: count_ok_mono chunk_ok_mono)

lemma download_ok_collect:
  assumes "count_ok cfg ws key n" and "\<And>i c. map_of got i = Some c \<Longrightarrow> chunk_ok cfg ws key i c"
  shows "download_ok cfg ws key (collect_chunks n got)"
proof (cases "\<forall>i \<in> set [0..<n]. map_of got i \<noteq> None")
  case True
  then have "\<forall>i < n. chunk_ok cfg ws key i (the (map_of got i))" using assms(2) by fastforce
  with assms(1) True show ?thesis unfolding collect_chunks_def by (simp del: set_upt) (metis (no_types, lifting))
qed (use assms in \<open>auto simp: collect_chunks_def\<close>)

lemma chunk_count_le: "0 < sz \<Longrightarrow> chunk_count sz d \<le> length d"
proof -
  assume sz: "0 < sz"
  have "length d + sz - 1 < Suc (length d) * sz" using sz by (cases sz) auto
  then show ?thesis unfolding chunk_count_def div_ceil_def by (metis less_Suc_eq_le less_mult_imp_div_less)
qed

lemma chunk_count_pos: "0 < sz \<Longrightarrow> d \<noteq> [] \<Longrightarrow> 0 < chunk_count sz d"
  by (cases d) (simp_all add: chunk_count_def div_ceil_def div_greater_zero_iff)

text \<open>What a published hash answers.\<close>

lemma full_hash_answers:
  assumes "0 < rc_chunk_size cfg" and "rc_chunk_size cfg < length d" and "length d < 2 ^ 64" and "full_hash cfg d h"
  shows "declared_count h = Some (Some (chunk_count (rc_chunk_size cfg) d))"
    and "0 < chunk_count (rc_chunk_size cfg) d"
    and "length h = Suc (chunk_count (rc_chunk_size cfg) d)"
proof -
  have "chunk_count (rc_chunk_size cfg) d < 2 ^ 64" using chunk_count_le [OF assms(1), of d] assms(3) by simp
  then show "declared_count h = Some (Some (chunk_count (rc_chunk_size cfg) d))"
    using assms(4) by (simp add: declared_count_def full_hash_def)
  show "0 < chunk_count (rc_chunk_size cfg) d" using assms by (intro chunk_count_pos) auto
  show "length h = Suc (chunk_count (rc_chunk_size cfg) d)" using assms(4) by (simp add: full_hash_def)
qed

lemma declared_count_Nil [simp]: "declared_count [] = Some None"
  by (simp add: declared_count_def)

lemma download_ok_inline:
  assumes "view_ok cfg as ws (rd_view R s)" and "attempts_ok cfg as ws" and "artifact_id_ok key"
  shows "download_ok cfg ws key (par_download_step R key n s ReadInline)"
proof (cases "rd_view R s key")
  case (Some e)
  obtain t d where "e = (RString d, retention cfg t)" "(key, t, d) \<in> set ws"
    using entry_at_id [OF view_okD [OF assms(1) Some] assms(3,2)] .
  with Some show ?thesis by auto
qed simp

lemma download_ok_step:
  assumes cs: "0 < rc_chunk_size cfg" and ok: "view_ok cfg as ws (rd_view R s)" and as: "attempts_ok cfg as ws"
    and key: "artifact_id_ok key" and dl: "download_ok cfg ws key dl"
  shows "download_ok cfg ws key (par_download_step R key n s dl)"
proof -
  let ?e = "rd_view R s (chunk_key key)"
  from hash_at_chunks [OF ok key as] consider (empty) "hash_of ?e = Some []"
    | (full) t d h where "hash_of ?e = Some h" "(key, t, d) \<in> set ws" "rc_chunk_size cfg < length d" "length d < 2 ^ 64" "full_hash cfg d h"
    by blast
  then show ?thesis
  proof cases
    case empty
    show ?thesis
    proof (cases dl)
      case ReadInline
      then show ?thesis using download_ok_inline [OF ok as key] by simp
    next
      case (ReadChunks m got)
      with dl empty show ?thesis by simp
    qed (use empty dl in auto)
  next
    case full
    have large: "written_large cfg ws key d" using full by (auto simp: written_large_def)
    then have cnt: "count_ok cfg ws key (chunk_count (rc_chunk_size cfg) d)" "count_ok cfg ws key (length h)"
      using full_hash_answers(3) [OF cs full(3-5)] by (auto simp: count_ok_def)
    note answers = full_hash_answers [OF cs full(3-5)]
    show ?thesis
    proof (cases dl)
      case ReadInline
      then show ?thesis using download_ok_inline [OF ok as key] by simp
    next
      case (ReadChunks m got)
      have "chunk_ok cfg ws key n c" if "map_of h (show_nat n) = Some c" for c
        using that full(5) large by (auto simp: full_hash_def chunk_ok_def split: if_splits)
      with ReadChunks dl full(1) show ?thesis by (auto intro!: download_ok_collect split: option.splits if_splits)
    qed (use full(1) answers cnt dl in auto)
  qed
qed

definition store_ok :: "'s Redis \<Rightarrow> RedisConfig \<Rightarrow> string \<Rightarrow> 's Store \<Rightarrow> bool" where
  "store_ok R cfg key st \<longleftrightarrow>
     attempts_ok cfg (so_attempts st) (so_written st) \<and>
     view_ok cfg (so_attempts st) (so_written st) (rd_view R (so_redis st)) \<and>
     download_ok cfg (so_written st) key (so_download st)"

lemma store_ok_step:
  assumes laws: "redis_laws R" and cs: "0 < rc_chunk_size cfg" and key: "artifact_id_ok key"
    and ok: "store_ok R cfg key st" and step: "store_step R cfg key st st'"
  shows "store_ok R cfg key st'"
proof -
  have as: "attempts_ok cfg (so_attempts st) (so_written st)"
    and v: "view_ok cfg (so_attempts st) (so_written st) (rd_view R (so_redis st))"
    and dl: "download_ok cfg (so_written st) key (so_download st)"
    using ok by (simp_all add: store_ok_def)
  have same: "store_ok R cfg key (st\<lparr>so_redis := s\<rparr>)"
    if "view_ok cfg (so_attempts st) (so_written st) (rd_view R s)" for s
    using that as dl by (simp add: store_ok_def)
  from step show ?thesis
  proof cases
    case (ss_begin a)
    have "attempts_ok cfg (a # so_attempts st) ((at_id a, at_type a, at_data a) # so_written st)"
      using ss_begin as by (auto simp: attempts_ok_def inj_on_def image_iff)
    moreover have "view_ok cfg (a # so_attempts st) ((at_id a, at_type a, at_data a) # so_written st) (rd_view R (so_redis st))"
      by (rule view_ok_mono [OF v]) auto
    moreover have "download_ok cfg ((at_id a, at_type a, at_data a) # so_written st) key (so_download st)"
      by (rule download_ok_mono [OF dl]) auto
    ultimately show ?thesis by (simp add: ss_begin(1) store_ok_def)
  next
    case (ss_inline i d t)
    have "attempts_ok cfg (so_attempts st) ((i, t, d) # so_written st)" using as by (auto simp: attempts_ok_def)
    moreover have "download_ok cfg ((i, t, d) # so_written st) key (so_download st)" by (rule download_ok_mono [OF dl]) auto
    ultimately show ?thesis using view_ok_inline [OF laws v ss_inline(2,3)] by (simp add: ss_inline(1) store_ok_def)
  next
    case (ss_read n)
    with download_ok_step [OF cs v as key dl] as v show ?thesis by (simp add: store_ok_def)
  next
    case (ss_expired k s')
    with v show ?thesis by (auto intro!: same view_ok_remove)
  qed (use same view_ok_stage [OF laws v as] view_ok_publish [OF laws v as] view_ok_refs [OF laws v] refs_are_sets [OF v as] v
        in \<open>simp_all add: reclaim_staging_def delete_inline_def delete_chunks_def redis_commands [OF laws] view_ok_remove\<close>)
qed

lemma store_reachable_ok:
  assumes "redis_laws R" and "0 < rc_chunk_size cfg" and "artifact_id_ok key" and "store_reachable R cfg key st"
  shows "store_ok R cfg key st"
  using assms(4)
proof (induction rule: store_reachable.induct)
  case (sr_init s)
  then show ?case by (simp add: store_ok_def attempts_ok_def view_ok_def)
next
  case (sr_step st st')
  then show ?case using store_ok_step assms(1-3) by blast
qed

text \<open>When all uploads of an artifact carry the same data, a finished download has that data.\<close>

lemma download_agrees:
  assumes cs: "0 < rc_chunk_size cfg" and dl: "download_ok cfg ws key (Downloaded x)"
    and same: "\<And>t y. (key, t, y) \<in> set ws \<Longrightarrow> y = d"
  shows "x = d"
proof -
  have large: "written_large cfg ws key y \<Longrightarrow> y = d" for y using same by (auto simp: written_large_def)
  from dl consider "\<exists>t. (key, t, x) \<in> set ws"
    | n f where "count_ok cfg ws key n" "x = concat (map f [0..<n])" "\<forall>i < n. chunk_ok cfg ws key i (f i)"
    by auto
  then show ?thesis
  proof cases
    case 1
    with same show ?thesis by blast
  next
    case 2
    let ?m = "chunk_count (rc_chunk_size cfg) d"
    have n: "n = ?m \<or> n = Suc ?m" using 2(1) large by (auto simp: count_ok_def)
    have f: "i < ?m \<and> f i = chunk_at (rc_chunk_size cfg) d i" if "i < n" for i
      using 2(3) that large by (auto simp: chunk_ok_def)
    have "n = ?m" using n f [of ?m] by auto
    moreover have "map f [0..<n] = map (chunk_at (rc_chunk_size cfg) d) [0..<n]" using f by simp
    ultimately show ?thesis using 2(2) concat_chunks [OF cs, of d] by metis
  qed
qed

section \<open>Uploads and downloads without interference\<close>

fun stage_all :: "'s Redis \<Rightarrow> RedisConfig \<Rightarrow> Attempt \<Rightarrow> nat list \<Rightarrow> 's \<Rightarrow> bool \<times> 's" where
  "stage_all R cfg a [] s = (True, s)"
| "stage_all R cfg a (n # ns) s =
     (case stage_chunk R (attempt_key a) n (chunk_at (rc_chunk_size cfg) (at_data a) n) s of
        None \<Rightarrow> (False, snd (stage_all R cfg a ns s))
      | Some s1 \<Rightarrow> stage_all R cfg a ns s1)"

definition upload_chunked :: "'s Redis \<Rightarrow> RedisConfig \<Rightarrow> Attempt \<Rightarrow> 's \<Rightarrow> bool \<times> 's" where
  "upload_chunked R cfg a s =
     (let total_chunks = chunk_count (rc_chunk_size cfg) (at_data a)
      in case stage_all R cfg a [0..<total_chunks] s of
           (False, s1) \<Rightarrow> (False, reclaim_staging R (attempt_key a) s1)
         | (True, s1) \<Rightarrow> publish_staged R cfg (at_type a) (at_id a) (attempt_key a) total_chunks s1)"

definition par_upload_file :: "'s Redis \<Rightarrow> RedisConfig \<Rightarrow> Attempt \<Rightarrow> 's \<Rightarrow> bool \<times> 's" where
  "par_upload_file R cfg a s =
     (if length (at_data a) \<le> rc_chunk_size cfg
      then (True, upload_inline R cfg (at_type a) (at_id a) (at_data a) s)
      else upload_chunked R cfg a s)"

definition download_next :: "'s Redis \<Rightarrow> string \<Rightarrow> 's \<Rightarrow> Download \<Rightarrow> Download \<Rightarrow> Download" where
  "download_next R key s at dl = (if dl = at then par_download_step R key 0 s dl else dl)"

definition par_download_file :: "'s Redis \<Rightarrow> string \<Rightarrow> 's \<Rightarrow> Download" where
  "par_download_file R key s =
     (case download_next R key s RecheckCount (download_next R key s ReadInline (download_next R key s ReadLength
             (par_download_step R key 0 s ReadCount))) of
        ReadChunks n got \<Rightarrow> fold (\<lambda>i. par_download_step R key i s) [0..<n] (ReadChunks n got)
      | dl \<Rightarrow> dl)"

lemma read_all_chunks:
  assumes h: "hash_of (rd_view R s (chunk_key key)) = Some h"
    and c: "\<And>i. i < n \<Longrightarrow> map_of h (show_nat i) = Some (f i)" and "k < n"
  shows "\<exists>got. fold (\<lambda>i. par_download_step R key i s) [0..<k] (ReadChunks n []) = ReadChunks n got \<and>
    (\<forall>i. map_of got i = (if i < k then Some (f i) else None))"
  using \<open>k < n\<close>
proof (induction k)
  case (Suc k)
  then obtain got where got: "fold (\<lambda>i. par_download_step R key i s) [0..<k] (ReadChunks n []) = ReadChunks n got"
    "\<forall>i. map_of got i = (if i < k then Some (f i) else None)" by auto
  have "collect_chunks n (hm_insert k (f k) got) = ReadChunks n (hm_insert k (f k) got)"
    using got(2) Suc.prems by (auto simp: collect_chunks_def intro!: bexI [of _ "Suc k"])
  with got Suc.prems h c [of k] show ?case by (auto simp: less_Suc_eq)
qed simp

lemma download_published:
  assumes cs: "0 < rc_chunk_size cfg" "rc_chunk_size cfg < length d" "length d < 2 ^ 64"
    and h: "hash_of (rd_view R s (chunk_key key)) = Some h" "full_hash cfg d h"
  shows "par_download_file R key s = Downloaded d"
proof -
  let ?n = "chunk_count (rc_chunk_size cfg) d" and ?c = "chunk_at (rc_chunk_size cfg) d"
  note answers = full_hash_answers [OF cs h(2)]
  have c: "map_of h (show_nat i) = Some (?c i)" if "i < ?n" for i using h(2) that by (simp add: full_hash_def)
  obtain m where m: "?n = Suc m" using answers(2) by (cases ?n) auto
  obtain got where got: "fold (\<lambda>i. par_download_step R key i s) [0..<m] (ReadChunks ?n []) = ReadChunks ?n got"
    "\<forall>i. map_of got i = (if i < m then Some (?c i) else None)"
    using read_all_chunks [OF h(1), of ?n ?c m] c m by auto
  have "collect_chunks ?n (hm_insert m (?c m) got) = Downloaded (concat (map ?c [0..<?n]))"
  proof -
    have "map (\<lambda>i. the (map_of (hm_insert m (?c m) got) i)) [0..<?n] = map ?c [0..<?n]"
      by (rule map_cong) (auto simp: got(2) m)
    then show ?thesis using got(2) m by (simp add: collect_chunks_def del: map_eq_conv)
  qed
  then have "fold (\<lambda>i. par_download_step R key i s) [0..<?n] (ReadChunks ?n []) = Downloaded d"
    using got(1) c [of m] h(1) m concat_chunks [OF cs(1), of d] by simp
  then show ?thesis using answers h(1) by (simp add: par_download_file_def download_next_def)
qed

lemma stage_all_snoc:
  "stage_all R cfg a (ns @ [n]) s =
     (case stage_all R cfg a ns s of
        (b, s1) \<Rightarrow>
          (case stage_chunk R (attempt_key a) n (chunk_at (rc_chunk_size cfg) (at_data a) n) s1 of
             None \<Rightarrow> (False, s1)
           | Some s2 \<Rightarrow> (b, s2)))"
  by (induction ns arbitrary: s) (auto split: option.splits prod.splits)

lemma stage_all_view:
  assumes laws: "redis_laws R" and none: "rd_view R s (attempt_key a) = None"
    and "m \<le> chunk_count (rc_chunk_size cfg) (at_data a)"
  shows "\<exists>s' h. stage_all R cfg a [0..<m] s = (True, s') \<and> hash_of (rd_view R s' (attempt_key a)) = Some h \<and>
    partial_hash cfg (at_data a) h \<and> length h = m \<and> (\<forall>n. m \<le> n \<longrightarrow> map_of h (show_nat n) = None) \<and>
    (\<forall>k. k \<noteq> attempt_key a \<longrightarrow> rd_view R s' k = rd_view R s k) \<and>
    (rd_view R s' (attempt_key a) = None \<or> rd_view R s' (attempt_key a) = Some (RHash h, Some STAGING_TTL_SECONDS))"
  using assms(3)
proof (induction m)
  case 0
  then show ?case using none by (simp add: partial_hash_def)
next
  case (Suc m)
  then obtain s1 h where s1: "stage_all R cfg a [0..<m] s = (True, s1)" "hash_of (rd_view R s1 (attempt_key a)) = Some h"
    "partial_hash cfg (at_data a) h" "length h = m" "\<forall>n. m \<le> n \<longrightarrow> map_of h (show_nat n) = None"
    "\<forall>k. k \<noteq> attempt_key a \<longrightarrow> rd_view R s1 k = rd_view R s k" by auto
  let ?c = "chunk_at (rc_chunk_size cfg) (at_data a) m"
  obtain s2 where s2: "stage_chunk R (attempt_key a) m ?c s1 = Some s2" using s1(2) by (simp add: stage_chunk_def)
  then have v2: "rd_view R s2 = (rd_view R s1)(attempt_key a \<mapsto> (RHash (hm_insert (show_nat m) ?c h), Some STAGING_TTL_SECONDS))"
    using stage_chunk_view [OF laws s2] s1(2) by simp
  have "partial_hash cfg (at_data a) (hm_insert (show_nat m) ?c h)" using Suc.prems by (intro partial_hash_insert s1(3)) simp
  moreover have "length (hm_insert (show_nat m) ?c h) = Suc m" using s1(4,5) by (simp add: length_hm_insert_new)
  ultimately show ?case using s1 s2 v2 by (simp add: stage_all_snoc)
qed

lemma download_inline:
  assumes laws: "redis_laws R" and i: "artifact_id_ok i"
  shows "par_download_file R i (upload_inline R cfg t i d s) = Downloaded d"
proof -
  have "rd_view R (upload_inline R cfg t i d s) (chunk_key i) = None"
    and "rd_view R (upload_inline R cfg t i d s) i = Some (RString d, retention cfg t)"
    using i by (simp_all add: upload_inline_def redis_commands [OF laws])
  then show ?thesis by (simp add: par_download_file_def download_next_def)
qed

lemma upload_chunked_spec:
  assumes laws: "redis_laws R" and cs: "0 < rc_chunk_size cfg" and ok: "view_ok cfg as ws (rd_view R s)"
    and as: "attempts_ok cfg as ws" and a: "a \<in> set as" and none: "rd_view R s (attempt_key a) = None"
  shows "\<exists>s'. upload_chunked R cfg a s = (True, s') \<and>
    (if rd_view R s (chunk_key (at_id a)) = None then par_download_file R (at_id a) s' = Downloaded (at_data a)
     else \<exists>d. par_download_file R (at_id a) s = Downloaded d \<and> par_download_file R (at_id a) s' = Downloaded d)"
proof -
  let ?m = "chunk_count (rc_chunk_size cfg) (at_data a)"
  have i: "artifact_id_ok (at_id a)" by (rule attempts_okD(1) [OF as a])
  then have ne: "chunk_key (at_id a) \<noteq> attempt_key a" "chunk_key (at_id a) \<noteq> at_id a" by (simp_all add: attempt_key_def)
  obtain s1 h where s1: "stage_all R cfg a [0..<?m] s = (True, s1)" "hash_of (rd_view R s1 (attempt_key a)) = Some h"
    "partial_hash cfg (at_data a) h" "length h = ?m" "\<forall>k. k \<noteq> attempt_key a \<longrightarrow> rd_view R s1 k = rd_view R s k"
    "rd_view R s1 (attempt_key a) = None \<or> rd_view R s1 (attempt_key a) = Some (RHash h, Some STAGING_TTL_SECONDS)"
    using stage_all_view [OF laws none order_refl] by blast
  have ok1: "view_ok cfg as ws (rd_view R s1)"
    unfolding view_ok_def
  proof (intro allI impI)
    fix k e
    assume "rd_view R s1 k = Some e"
    then show "entry_ok cfg as ws k e"
      using s1(3,5,6) view_okD [OF ok] eo_staging [OF a] by (cases "k = attempt_key a") auto
  qed
  obtain b s' where p: "publish_staged R cfg (at_type a) (at_id a) (attempt_key a) ?m s1 = (b, s')" by (rule prod.exhaust)
  have u: "upload_chunked R cfg a s = (b, s')" by (simp add: upload_chunked_def Let_def s1(1) p)
  have same: "rd_view R s1 (chunk_key (at_id a)) = rd_view R s (chunk_key (at_id a))" using s1(5) ne by simp
  from laws ok1 as a p show ?thesis
  proof (cases rule: publish_view)
    case kept
    then have "rd_view R s (chunk_key (at_id a)) \<noteq> None" using same by simp
    with hash_at_chunks [OF ok i as] obtain d g where
      g: "hash_of (rd_view R s (chunk_key (at_id a))) = Some g" "rc_chunk_size cfg < length d" "length d < 2 ^ 64" "full_hash cfg d g"
      by auto
    have "hash_of (rd_view R s' (chunk_key (at_id a))) = Some g" using kept(3) g(1) same ne by simp
    from download_published [OF cs g(2,3) this g(4)] download_published [OF cs g(2,3,1,4)] u kept(1) \<open>rd_view R s (chunk_key (at_id a)) \<noteq> None\<close>
    show ?thesis by auto
  next
    case incomplete
    have "b" using p s1(2,4) incomplete(2) by (auto simp: publish_staged_def publish_script_def Let_def)
    with incomplete(1) show ?thesis by simp
  next
    case (published g)
    have "hash_of (rd_view R s' (chunk_key (at_id a))) = Some g" using published(4) ne by simp
    from download_published [OF cs attempts_okD(2,3) [OF as a] this published(3)] u published(1,2) same
    show ?thesis by simp
  qed
qed

text \<open>An undisturbed upload is a run of the concurrent model.\<close>

lemma reachable_stage_all:
  assumes "store_reachable R cfg key st" and "a \<in> set (so_attempts st)"
    and "set ns \<subseteq> {..<chunk_count (rc_chunk_size cfg) (at_data a)}"
  shows "store_reachable R cfg key (st\<lparr>so_redis := snd (stage_all R cfg a ns (so_redis st))\<rparr>)"
  using assms
proof (induction ns arbitrary: st)
  case (Cons n ns)
  show ?case
  proof (cases "stage_chunk R (attempt_key a) n (chunk_at (rc_chunk_size cfg) (at_data a) n) (so_redis st)")
    case None
    with Cons show ?thesis by simp
  next
    case (Some s1)
    from Cons.prems have n: "n < chunk_count (rc_chunk_size cfg) (at_data a)" and ns: "set ns \<subseteq> {..<chunk_count (rc_chunk_size cfg) (at_data a)}"
      by simp_all
    have "store_reachable R cfg key (st\<lparr>so_redis := s1\<rparr>)"
      by (rule sr_step [OF Cons.prems(1) ss_stage [OF Cons.prems(2) n Some]])
    from Cons.IH [OF this _ ns] Cons.prems(2) Some show ?thesis by simp
  qed
qed simp

lemma reachable_upload_chunked:
  assumes "store_reachable R cfg key st" and "a \<in> set (so_attempts st)"
  shows "store_reachable R cfg key (st\<lparr>so_redis := snd (upload_chunked R cfg a (so_redis st))\<rparr>)"
proof -
  let ?m = "chunk_count (rc_chunk_size cfg) (at_data a)"
  obtain b s1 where s1: "stage_all R cfg a [0..<?m] (so_redis st) = (b, s1)" by (rule prod.exhaust)
  have r: "store_reachable R cfg key (st\<lparr>so_redis := s1\<rparr>)"
    using reachable_stage_all [OF assms, of "[0..<?m]"] by (simp add: s1 atLeast0LessThan)
  have "a \<in> set (so_attempts (st\<lparr>so_redis := s1\<rparr>))" using assms(2) by simp
  from sr_step [OF r ss_publish [OF this]] sr_step [OF r ss_reclaim [OF this]] show ?thesis
    by (cases b) (simp_all add: upload_chunked_def Let_def s1)
qed

end
