(* ===== verification/Artifact_Client.thy ===== *)
theory Artifact_Client
  imports Gateway Artifact_Store
begin

text \<open>
  The Redis store as the artifact client of the gateway (\<open>upload_raw\<close>, \<open>upload_raw_compressed\<close>, \<open>download_raw\<close> and
  \<open>exists\<close> of \<open>crates/artifact/src/redis.rs\<close>), for calls that nobody disturbs, and what the gateway gets from any
  client with this contract: a registered program can be proved whatever the artifact store has lost.

  The compression package is a parameter; so is \<open>try_delete\<close>, which the trait provides.  Retries and admission are
  left out.  The state is the one of the concurrent model with its history, so that each call is a run of it.
\<close>

section \<open>The Redis client\<close>

record Zstd =
  zs_encode :: "string \<Rightarrow> string anyhow"
  zs_decode :: "string \<Rightarrow> string anyhow"

definition zstd_laws :: "Zstd \<Rightarrow> bool" where
  "zstd_laws z \<longleftrightarrow> (\<forall>d c. zs_encode z d = Inr c \<longrightarrow> zs_decode z c = Inr d \<and> length c < 2 ^ 64)"

definition begin_attempt :: "RedisConfig \<Rightarrow> Attempt \<Rightarrow> 's Store \<Rightarrow> 's Store" where
  "begin_attempt cfg a st =
     st\<lparr>so_attempts := (if rc_chunk_size cfg < length (at_data a) then a # so_attempts st else so_attempts st),
        so_written := (at_id a, at_type a, at_data a) # so_written st\<rparr>"

definition upload_to_transport ::
  "'s Redis \<Rightarrow> RedisConfig \<Rightarrow> string \<Rightarrow> string \<Rightarrow> ArtifactType \<Rightarrow> string \<Rightarrow> 's Store \<Rightarrow> unit anyhow \<times> 's Store" where
  "upload_to_transport R cfg fresh i artifact_type data st =
     (let a = \<lparr>at_id = i, at_fresh = fresh, at_type = artifact_type, at_data = data\<rparr>
      in case par_upload_file R cfg a (so_redis st) of
           (True, s) \<Rightarrow> (Inr (), (begin_attempt cfg a st)\<lparr>so_redis := s\<rparr>)
         | (False, s) \<Rightarrow> (Inl (''Upload failed for artifact '' @ i), (begin_attempt cfg a st)\<lparr>so_redis := s\<rparr>))"

definition upload_raw ::
  "'s Redis \<Rightarrow> RedisConfig \<Rightarrow> Zstd \<Rightarrow> string \<Rightarrow> string \<Rightarrow> ArtifactType \<Rightarrow> string \<Rightarrow> 's Store \<Rightarrow> unit anyhow \<times> 's Store" where
  "upload_raw R cfg z fresh i artifact_type data st =
     (case zs_encode z data of
        Inl e \<Rightarrow> (Inl (''Failed to compress artifact: '' @ e), st)
      | Inr compressed \<Rightarrow> upload_to_transport R cfg fresh i artifact_type compressed st)"

definition download_raw :: "'s Redis \<Rightarrow> Zstd \<Rightarrow> string \<Rightarrow> ArtifactType \<Rightarrow> 's Store \<Rightarrow> string anyhow" where
  "download_raw R z i artifact_type st =
     (case par_download_file R i (so_redis st) of
        Downloaded compressed \<Rightarrow>
          (case zs_decode z compressed of Inl e \<Rightarrow> Inl (''Failed to decompress artifact: '' @ e) | Inr d \<Rightarrow> Inr d)
      | _ \<Rightarrow> Inl (''Download failed for artifact '' @ i))"

definition client_exists :: "'s Redis \<Rightarrow> string \<Rightarrow> ArtifactType \<Rightarrow> 's Store \<Rightarrow> bool anyhow" where
  "client_exists R i artifact_type st =
     (case exists_artifact R i (so_redis st) of None \<Rightarrow> Inl ''wrong type'' | Some b \<Rightarrow> Inr b)"

definition redis_client ::
  "'s Redis \<Rightarrow> RedisConfig \<Rightarrow> Zstd \<Rightarrow> (string \<Rightarrow> ArtifactType \<Rightarrow> 's Store \<Rightarrow> unit anyhow \<times> 's Store) \<Rightarrow> 's Store ArtifactClient" where
  "redis_client R cfg z try_delete =
     \<lparr>ac_exists = client_exists R, ac_upload_raw = upload_raw R cfg z, ac_upload_raw_compressed = upload_to_transport R cfg,
      ac_download_raw = download_raw R z, ac_try_delete = try_delete\<rparr>"

section \<open>The contract\<close>

locale artifact_client =
  fixes C :: "'s ArtifactClient" and inv :: "'s \<Rightarrow> bool" and usable :: "string \<Rightarrow> 's \<Rightarrow> bool" and id_ok :: "string \<Rightarrow> bool"
  assumes exists_answers: "inv s \<Longrightarrow> id_ok i \<Longrightarrow> \<exists>b. ac_exists C i t s = Inr b"
    and upload_inv: "inv s \<Longrightarrow> id_ok i \<Longrightarrow> usable f s \<Longrightarrow> ac_upload_raw C f i t d s = (r, s') \<Longrightarrow> inv s'"
    and upload_exists: "inv s \<Longrightarrow> id_ok i \<Longrightarrow> usable f s \<Longrightarrow> ac_upload_raw C f i t d s = (Inr u, s') \<Longrightarrow> ac_exists C i t s' = Inr True"
    and upload_download: "inv s \<Longrightarrow> id_ok i \<Longrightarrow> usable f s \<Longrightarrow> ac_upload_raw C f i t d s = (Inr u, s') \<Longrightarrow>
      ac_exists C i t s = Inr False \<Longrightarrow> ac_download_raw C i t s' = Inr d"
begin

text \<open>
  A program the store of programs has is made available: it was there, or it is uploaded and reads back.  The only
  failure is one of the upload.
\<close>

lemma warm_program_registered:
  assumes a: "inv (gw_artifacts gw)" and i: "id_ok (program_artifact_id hex h)" and f: "usable (ce_fresh env) (gw_artifacts gw)"
    and p: "ps_get P h (gw_programs gw) = Inr (Some (vk, elf))" and w: "warm_program hex C P env h gw = (r, gw')"
  shows "(\<exists>e. r = Inl (Internal (''upload program artifact failed: '' @ e))) \<or>
    r = Inr () \<and> inv (gw_artifacts gw') \<and> ac_exists C (program_artifact_id hex h) Program (gw_artifacts gw') = Inr True \<and>
    (gw' = gw \<or> ac_download_raw C (program_artifact_id hex h) Program (gw_artifacts gw') = Inr elf)"
proof -
  let ?i = "program_artifact_id hex h"
  obtain b where b: "ac_exists C ?i Program (gw_artifacts gw) = Inr b" using exists_answers [OF a i] by blast
  show ?thesis
  proof (cases b)
    case True
    with w b a show ?thesis by (simp add: warm_program_def)
  next
    case False
    obtain r1 s1 where u: "ac_upload_raw C (ce_fresh env) ?i Program elf (gw_artifacts gw) = (r1, s1)" by (rule prod.exhaust)
    show ?thesis
    proof (cases r1)
      case (Inl e)
      with w b False p u show ?thesis by (auto simp: warm_program_def)
    next
      case (Inr x)
      with u have "ac_upload_raw C (ce_fresh env) ?i Program elf (gw_artifacts gw) = (Inr x, s1)" by simp
      from upload_inv [OF a i f this] upload_exists [OF a i f this] upload_download [OF a i f this] w b False p this
      show ?thesis by (auto simp: warm_program_def)
    qed
  qed
qed

end

locale gateway_stores = artifact_client C inv usable id_ok + program_store P pinv
  for C :: "'s ArtifactClient" and inv usable id_ok and P :: "'p ProgramStore" and pinv
begin

lemma registered_program_stored:
  assumes c: "create_program hex sg encode C P cfg env signature (Some body) gw = (Inr u, gw')" and p: "pinv (gw_programs gw)"
  obtains orphan elf where "artifact_id_from_uri (pb_program_uri body) = Some orphan"
    and "ac_download_raw C orphan Program (gw_artifacts gw) = Inr elf"
    and "ps_get P (pb_vk_hash body) (gw_programs gw') = Inr (Some (pb_vk body, elf))" and "pinv (gw_programs gw')"
proof -
  from c obtain orphan elf where o: "artifact_id_from_uri (pb_program_uri body) = Some orphan"
    "ac_download_raw C orphan Program (gw_artifacts gw) = Inr elf"
    and reg: "register_program hex C P env orphan elf body gw = (Inr u, gw')"
    by (auto simp: create_program_def split: sum.splits option.splits)
  obtain x programs where put: "ps_put P (pb_vk_hash body) (pb_vk body) elf (gw_programs gw) = (x, programs)" by (rule prod.exhaust)
  with reg obtain v where v: "x = Inr v" and g: "gw_programs gw' = programs"
    by (auto simp: register_program_def split: sum.splits prod.splits)
  from get_put [OF p put [unfolded v], of "pb_vk_hash body"] put_inv [OF p put] g that [OF o] show thesis by simp
qed

text \<open>Registration is durable: whatever the artifact store has become meanwhile, the program is made available again.\<close>

lemma registered_program_warms:
  assumes c: "create_program hex sg encode C P cfg env signature (Some body) gw = (Inr u, gw1)" and p: "pinv (gw_programs gw)"
    and later: "gw_programs gw2 = gw_programs gw1" "inv (gw_artifacts gw2)" "usable (ce_fresh env2) (gw_artifacts gw2)"
    and i: "id_ok (program_artifact_id hex (pb_vk_hash body))" and w: "warm_program hex C P env2 (pb_vk_hash body) gw2 = (r, gw3)"
  shows "\<exists>orphan elf. artifact_id_from_uri (pb_program_uri body) = Some orphan \<and>
    ac_download_raw C orphan Program (gw_artifacts gw) = Inr elf \<and>
    ((\<exists>e. r = Inl (Internal (''upload program artifact failed: '' @ e))) \<or>
     r = Inr () \<and> ac_exists C (program_artifact_id hex (pb_vk_hash body)) Program (gw_artifacts gw3) = Inr True \<and>
     (gw3 = gw2 \<or> ac_download_raw C (program_artifact_id hex (pb_vk_hash body)) Program (gw_artifacts gw3) = Inr elf))"
proof -
  obtain orphan elf where o: "artifact_id_from_uri (pb_program_uri body) = Some orphan"
    "ac_download_raw C orphan Program (gw_artifacts gw) = Inr elf"
    and g: "ps_get P (pb_vk_hash body) (gw_programs gw1) = Inr (Some (pb_vk body, elf))"
    by (rule registered_program_stored [OF c p])
  from warm_program_registered [OF later(2) i later(3) _ w] g later(1) o show ?thesis by fastforce
qed

end

section \<open>The Redis client keeps the contract\<close>

definition redis_inv :: "'s Redis \<Rightarrow> RedisConfig \<Rightarrow> Zstd \<Rightarrow> 's Store \<Rightarrow> bool" where
  "redis_inv R cfg z st \<longleftrightarrow>
     redis_laws R \<and> zstd_laws z \<and> 0 < rc_chunk_size cfg \<and> (\<exists>key. artifact_id_ok key \<and> store_reachable R cfg key st)"

definition unused_attempt :: "string \<Rightarrow> 's Store \<Rightarrow> bool" where
  "unused_attempt fresh st \<longleftrightarrow> fresh \<notin> at_fresh ` set (so_attempts st)"

lemma redis_inv_ok:
  assumes "redis_inv R cfg z st"
  shows "view_ok cfg (so_attempts st) (so_written st) (rd_view R (so_redis st))" and "attempts_ok cfg (so_attempts st) (so_written st)"
proof -
  from assms obtain key where "redis_laws R" "0 < rc_chunk_size cfg" "artifact_id_ok key" "store_reachable R cfg key st"
    by (auto simp: redis_inv_def)
  from store_reachable_ok [OF this] show "view_ok cfg (so_attempts st) (so_written st) (rd_view R (so_redis st))"
    "attempts_ok cfg (so_attempts st) (so_written st)" by (simp_all add: store_ok_def)
qed

text \<open>The staging key of an attempt that was not used before is free.\<close>

lemma unused_staging_key:
  assumes v: "view_ok cfg as ws v" and as: "attempts_ok cfg as ws" and i: "artifact_id_ok i" and f: "f \<notin> at_fresh ` set as"
  shows "v (staging_chunk_key i f) = None"
proof (rule ccontr)
  assume "v (staging_chunk_key i f) \<noteq> None"
  then obtain e where "v (staging_chunk_key i f) = Some e" by blast
  from view_okD [OF v this] show False
  proof (cases rule: entry_ok.cases)
    case (eo_inline t d)
    then show False by simp
  next
    case (eo_chunks j t d h)
    with i keys_distinct(8) [of j i f] show False by simp
  next
    case (eo_staging a h)
    then show False using keys_distinct(2) [OF i attempts_okD(1) [OF as eo_staging(3)]] f by (auto simp: attempt_key_def)
  next
    case (eo_refs j x t)
    with i keys_distinct(14) [of i i] show False by simp
  qed
qed

text \<open>What can be downloaded exists.\<close>

lemma downloaded_exists:
  assumes v: "view_ok cfg as ws (rd_view R s)" and as: "attempts_ok cfg as ws" and i: "artifact_id_ok i"
    and d: "par_download_file R i s = Downloaded x"
  shows "exists_artifact R i s = Some True"
  using hash_at_chunks [OF v i as]
proof (elim disjE exE conjE)
  assume "rd_view R s (chunk_key i) = None" and h: "hash_of (rd_view R s (chunk_key i)) = Some []"
  then have "string_of (rd_view R s i) \<noteq> Some None"
    using d by (auto simp: par_download_file_def download_next_def split: option.splits)
  then have "rd_view R s i \<noteq> None" by (cases "rd_view R s i") simp_all
  with h show ?thesis by (simp add: exists_artifact_def)
next
  fix t d h
  assume "hash_of (rd_view R s (chunk_key i)) = Some h" and "full_hash cfg d h"
  then show ?thesis by (simp add: exists_artifact_def full_hash_def)
qed

text \<open>An upload is a run of the concurrent model and succeeds.\<close>

lemma upload_reachable:
  assumes r: "store_reachable R cfg key st" and i: "artifact_id_ok (at_id a)" and f: "unused_attempt (at_fresh a) st"
    and l: "length (at_data a) < 2 ^ 64"
  shows "store_reachable R cfg key ((begin_attempt cfg a st)\<lparr>so_redis := snd (par_upload_file R cfg a (so_redis st))\<rparr>)"
proof (cases "length (at_data a) \<le> rc_chunk_size cfg")
  case True
  from sr_step [OF r ss_inline [OF i True, where t = "at_type a"]] True show ?thesis
    by (cases st) (simp add: begin_attempt_def par_upload_file_def)
next
  case False
  then have "store_reachable R cfg key (begin_attempt cfg a st)"
    using sr_step [OF r ss_begin [OF i _ l]] f by (simp add: begin_attempt_def unused_attempt_def)
  from reachable_upload_chunked [OF this, of a] False show ?thesis by (simp add: begin_attempt_def par_upload_file_def)
qed

lemma upload_succeeds:
  assumes inv: "redis_inv R cfg z st" and i: "artifact_id_ok (at_id a)" and f: "unused_attempt (at_fresh a) st"
    and l: "length (at_data a) < 2 ^ 64"
  shows "\<exists>s'. par_upload_file R cfg a (so_redis st) = (True, s') \<and> (\<exists>x. par_download_file R (at_id a) s' = Downloaded x) \<and>
    (exists_artifact R (at_id a) (so_redis st) = Some False \<longrightarrow> par_download_file R (at_id a) s' = Downloaded (at_data a))"
proof (cases "length (at_data a) \<le> rc_chunk_size cfg")
  case True
  from inv have "redis_laws R" by (simp add: redis_inv_def)
  with True download_inline [OF this i] show ?thesis by (simp add: par_upload_file_def)
next
  case False
  let ?st = "begin_attempt cfg a st"
  from inv have laws: "redis_laws R" and cs: "0 < rc_chunk_size cfg" by (simp_all add: redis_inv_def)
  note v = redis_inv_ok(1) [OF inv] and as = redis_inv_ok(2) [OF inv]
  have v': "view_ok cfg (so_attempts ?st) (so_written ?st) (rd_view R (so_redis st))"
    by (rule view_ok_mono [OF v]) (auto simp: begin_attempt_def)
  have as': "attempts_ok cfg (so_attempts ?st) (so_written ?st)"
    using as False i f l by (auto simp: attempts_ok_def begin_attempt_def unused_attempt_def inj_on_def image_iff)
  have a: "a \<in> set (so_attempts ?st)" using False by (simp add: begin_attempt_def)
  have none: "rd_view R (so_redis st) (attempt_key a) = None"
    unfolding attempt_key_def using unused_staging_key [OF v as i] f by (simp add: unused_attempt_def)
  from upload_chunked_spec [OF laws cs v' as' a none] obtain s' where u: "upload_chunked R cfg a (so_redis st) = (True, s')"
    and d: "if rd_view R (so_redis st) (chunk_key (at_id a)) = None then par_download_file R (at_id a) s' = Downloaded (at_data a)
       else \<exists>d. par_download_file R (at_id a) (so_redis st) = Downloaded d \<and> par_download_file R (at_id a) s' = Downloaded d" by blast
  have "rd_view R (so_redis st) (chunk_key (at_id a)) = None" if "exists_artifact R (at_id a) (so_redis st) = Some False"
    using d downloaded_exists [OF v as i] that by (auto split: if_splits)
  with u d False show ?thesis by (auto simp: par_upload_file_def split: if_splits)
qed

lemma redis_upload:
  assumes inv: "redis_inv R cfg z st" and i: "artifact_id_ok i" and f: "unused_attempt f st"
    and u: "upload_raw R cfg z f i t d st = (r, st')"
  shows "redis_inv R cfg z st' \<and> (r = Inr () \<longrightarrow> client_exists R i t st' = Inr True \<and>
    (client_exists R i t st = Inr False \<longrightarrow> download_raw R z i t st' = Inr d))"
proof (cases "zs_encode z d")
  case (Inl e)
  with u inv show ?thesis by (auto simp: upload_raw_def)
next
  case (Inr c)
  let ?a = "\<lparr>at_id = i, at_fresh = f, at_type = t, at_data = c\<rparr>"
  from inv have z: "zs_decode z c = Inr d" "length c < 2 ^ 64" using Inr by (auto simp: redis_inv_def zstd_laws_def)
  obtain s' where s': "par_upload_file R cfg ?a (so_redis st) = (True, s')" "\<exists>x. par_download_file R i s' = Downloaded x"
    "exists_artifact R i (so_redis st) = Some False \<longrightarrow> par_download_file R i s' = Downloaded c"
    using upload_succeeds [OF inv, of ?a] i f z(2) by auto
  have st': "r = Inr ()" "st' = (begin_attempt cfg ?a st)\<lparr>so_redis := s'\<rparr>"
    using u Inr s'(1) by (simp_all add: upload_raw_def upload_to_transport_def Let_def)
  from inv obtain key where "artifact_id_ok key" "store_reachable R cfg key st" by (auto simp: redis_inv_def)
  with upload_reachable [of R cfg key st ?a] i f z(2) s'(1) st'(2) inv have inv': "redis_inv R cfg z st'"
    by (auto simp: redis_inv_def)
  have "exists_artifact R i (so_redis st') = Some True"
    using downloaded_exists [OF redis_inv_ok [OF inv'] i] s'(2) st'(2) by auto
  with inv' s'(3) st' z(1) show ?thesis by (auto simp: client_exists_def download_raw_def split: option.splits)
qed

interpretation redis_artifacts: artifact_client "redis_client R cfg z try_delete" "redis_inv R cfg z" unused_attempt artifact_id_ok
  for R cfg z try_delete
proof
  fix s :: "'a Store" and i t
  assume "redis_inv R cfg z s" "artifact_id_ok i"
  from commands_typed(3) [OF redis_inv_ok [OF this(1)] this(2)]
  show "\<exists>b. ac_exists (redis_client R cfg z try_delete) i t s = Inr b" by (auto simp: redis_client_def client_exists_def)
next
  fix s s' :: "'a Store" and i f t d r
  assume "redis_inv R cfg z s" "artifact_id_ok i" "unused_attempt f s"
    "ac_upload_raw (redis_client R cfg z try_delete) f i t d s = (r, s')"
  then show "redis_inv R cfg z s'" using redis_upload by (fastforce simp: redis_client_def)
next
  fix s s' :: "'a Store" and i f t d u
  assume "redis_inv R cfg z s" "artifact_id_ok i" "unused_attempt f s"
    "ac_upload_raw (redis_client R cfg z try_delete) f i t d s = (Inr u, s')"
  then show "ac_exists (redis_client R cfg z try_delete) i t s' = Inr True" using redis_upload by (fastforce simp: redis_client_def)
next
  fix s s' :: "'a Store" and i f t d u
  assume "redis_inv R cfg z s" "artifact_id_ok i" "unused_attempt f s"
    "ac_upload_raw (redis_client R cfg z try_delete) f i t d s = (Inr u, s')"
    "ac_exists (redis_client R cfg z try_delete) i t s = Inr False"
  then show "ac_download_raw (redis_client R cfg z try_delete) i t s' = Inr d" using redis_upload by (fastforce simp: redis_client_def)
qed

interpretation redis_gateway: gateway_stores
  "redis_client R cfg z try_delete" "redis_inv R cfg z" unused_attempt artifact_id_ok "FilesystemProgramStore hex" "files_inv hex"
  for R cfg z try_delete hex
  by unfold_locales

lemma program_id_ok: "hex_laws hex \<Longrightarrow> artifact_id_ok (program_artifact_id hex h)"
proof -
  assume "hex_laws hex"
  then have "set (hex h) \<subseteq> set ''0123456789abcdef''" by (simp add: hex_laws_def)
  then have "CHR '':'' \<notin> set (hex h)" by auto
  then show ?thesis by (simp add: artifact_id_ok_def program_artifact_id_def)
qed

end
