(* ===== verification/Artifact_Admission.thy ===== *)
theory Artifact_Admission
  imports Artifact_Redis
begin

text \<open>The memory budget of a Redis node (\<open>crates/artifact/src/redis.rs\<close>): permits, and reservations for large writes.\<close>

section \<open>Admission\<close>

text \<open>
  Large writes reserve their size against the memory budget of the node before they start and give it
  back when they end.  The budget, a fraction of \<open>maxmemory\<close> in floating point, is an argument; so are the
  answers of \<open>INFO memory\<close>.
\<close>

definition DEFAULT_SHARD_MAX_BYTES :: nat where
  "DEFAULT_SHARD_MAX_BYTES = 20 * 1024 * 1024"

definition ADMISSION_BYPASS_BYTES :: nat where
  "ADMISSION_BYPASS_BYTES = DEFAULT_SHARD_MAX_BYTES div 10"

definition ADMISSION_MAX_WAIT :: Duration where
  "ADMISSION_MAX_WAIT = from_secs (2 * 60)"

definition MIN_PERMITS_PER_NODE :: nat where
  "MIN_PERMITS_PER_NODE = 4"

text \<open>The answer of \<open>query_memory\<close>: used and maximal memory, if the lines could be read.\<close>

type_synonym memory_info = "(nat option \<times> nat option) option"

fun lines :: "string \<Rightarrow> string list" where
  "lines [] = []"
| "lines (c # cs) =
     (if c = CHR 0x0A then [] # lines cs
      else case lines cs of [] \<Rightarrow> [[c]] | l # ls \<Rightarrow> (c # l) # ls)"

fun find_map :: "('a \<Rightarrow> 'b option) \<Rightarrow> 'a list \<Rightarrow> 'b option" where
  "find_map f [] = None"
| "find_map f (x # xs) = (case f x of None \<Rightarrow> find_map f xs | Some y \<Rightarrow> Some y)"

definition info_field :: "string \<Rightarrow> string \<Rightarrow> nat option" where
  "info_field key info = Option.bind (find_map (strip_prefix key) (lines info)) (\<lambda>v. parse_uint 64 (trim v))"

definition query_memory :: "string option \<Rightarrow> memory_info" where
  "query_memory info = map_option (\<lambda>text. (info_field ''used_memory:'' text, info_field ''maxmemory:'' text)) info"

lemma lines_append [simp]: "CHR 0x0A \<notin> set l \<Longrightarrow> lines (l @ CHR 0x0A # rest) = l # lines rest"
  by (induction l) auto

text \<open>A field printed by Redis, on a line ended by CR and LF after lines that do not start with its name, is read.\<close>

lemma info_field_printed:
  assumes "\<And>l. l \<in> set earlier \<Longrightarrow> strip_prefix key l = None \<and> CHR 0x0A \<notin> set l"
    and "CHR 0x0A \<notin> set key" and "n < 2 ^ 64"
  shows "info_field key (concat (map (\<lambda>l. l @ [CHR 0x0A]) earlier) @ key @ show_nat n @ [CHR 0x0D, CHR 0x0A] @ rest) = Some n"
proof -
  have "lines ((key @ show_nat n @ [CHR 0x0D]) @ CHR 0x0A # rest) = (key @ show_nat n @ [CHR 0x0D]) # lines rest"
    using assms(2) show_nat_no_space [of _ n] by (intro lines_append) auto
  then have last: "find_map (strip_prefix key) (lines (key @ show_nat n @ [CHR 0x0D, CHR 0x0A] @ rest)) = Some (show_nat n @ [CHR 0x0D])"
    by simp
  have "find_map (strip_prefix key) (lines (concat (map (\<lambda>l. l @ [CHR 0x0A]) earlier) @ t)) = find_map (strip_prefix key) (lines t)" for t
    using assms(1) by (induction earlier) auto
  with last assms(3) show ?thesis by (simp add: info_field_def)
qed

definition validate_config :: "memory_info list \<Rightarrow> bool" where
  "validate_config infos =
     (\<forall>info \<in> set infos. case info of Some (used, Some mx) \<Rightarrow> mx > 0 | _ \<Rightarrow> False)"

text \<open>The setting \<open>PROVE_SHARD_MAX_BYTES\<close> is an argument.\<close>

definition max_shard_bytes :: "string option \<Rightarrow> nat" where
  "max_shard_bytes var =
     (case Option.bind var (parse_uint 64) of
        None \<Rightarrow> DEFAULT_SHARD_MAX_BYTES
      | Some v \<Rightarrow> if v > 0 then v else DEFAULT_SHARD_MAX_BYTES)"

definition compute_permits_for_node :: "(nat \<Rightarrow> nat) \<Rightarrow> string option \<Rightarrow> memory_info \<Rightarrow> nat" where
  "compute_permits_for_node input_budget var info =
     (case info of
        Some (used, Some maxmemory) \<Rightarrow>
          (if maxmemory > 0 then max (input_budget maxmemory div max_shard_bytes var) MIN_PERMITS_PER_NODE
           else MIN_PERMITS_PER_NODE)
      | _ \<Rightarrow> MIN_PERMITS_PER_NODE)"

lemma max_shard_bytes_pos [simp]: "0 < max_shard_bytes var"
  by (simp add: max_shard_bytes_def DEFAULT_SHARD_MAX_BYTES_def split: option.splits)

text \<open>Above the floor, the permits of a node together stay within the input budget.\<close>

lemma permits_fit_the_budget:
  assumes "validate_config [info]" and "MIN_PERMITS_PER_NODE < compute_permits_for_node input_budget var info"
  obtains used maxmemory where "info = Some (used, Some maxmemory)"
    and "compute_permits_for_node input_budget var info * max_shard_bytes var \<le> input_budget maxmemory"
  using assms by (fastforce simp: validate_config_def compute_permits_for_node_def max_def split: option.splits if_splits)

datatype AdmissionPoll =
    Unguarded
  | Reserved nat
  | Waiting
  | WaitExceeded

text \<open>One pass of the loop, under the lock: the outcome and the new value of \<open>in_flight\<close>.\<close>

definition admission_poll :: "(nat \<Rightarrow> nat) \<Rightarrow> nat \<Rightarrow> Duration \<Rightarrow> memory_info \<Rightarrow> nat \<Rightarrow> AdmissionPoll \<times> nat" where
  "admission_poll budget incoming_bytes elapsed info in_flight =
     (case info of
        Some (Some used, Some mx) \<Rightarrow>
          (if mx = 0 then (Unguarded, in_flight)
           else if saturating_add 64 (saturating_add 64 used in_flight) incoming_bytes \<le> budget mx
           then (Reserved incoming_bytes, u64_add in_flight incoming_bytes)
           else if elapsed > ADMISSION_MAX_WAIT then (WaitExceeded, in_flight)
           else (Waiting, in_flight))
      | _ \<Rightarrow> (Unguarded, in_flight))"

definition admission_gate :: "(nat \<Rightarrow> nat) \<Rightarrow> nat \<Rightarrow> Duration \<Rightarrow> memory_info \<Rightarrow> nat \<Rightarrow> AdmissionPoll \<times> nat" where
  "admission_gate budget incoming_bytes elapsed info in_flight =
     (if incoming_bytes \<le> ADMISSION_BYPASS_BYTES then (Unguarded, in_flight)
      else admission_poll budget incoming_bytes elapsed info in_flight)"

text \<open>
  The whole call, over what its passes observe: the time since it started, the answer of Redis and the counter, which
  other calls change in between.  \<open>None\<close> says that it is still waiting after the given passes.
\<close>

fun admission_loop :: "(nat \<Rightarrow> nat) \<Rightarrow> nat \<Rightarrow> (Duration \<times> memory_info \<times> nat) list \<Rightarrow> AdmissionPoll option" where
  "admission_loop budget incoming_bytes [] = None"
| "admission_loop budget incoming_bytes ((elapsed, info, in_flight) # passes) =
     (case fst (admission_poll budget incoming_bytes elapsed info in_flight) of
        Waiting \<Rightarrow> admission_loop budget incoming_bytes passes
      | outcome \<Rightarrow> Some outcome)"

definition check_admission :: "(nat \<Rightarrow> nat) \<Rightarrow> nat \<Rightarrow> (Duration \<times> memory_info \<times> nat) list \<Rightarrow> AdmissionPoll option" where
  "check_admission budget incoming_bytes passes =
     (if incoming_bytes \<le> ADMISSION_BYPASS_BYTES then Some Unguarded else admission_loop budget incoming_bytes passes)"

lemma check_admission_ends:
  assumes "(elapsed, info, in_flight) \<in> set passes" and "elapsed > ADMISSION_MAX_WAIT"
  shows "\<exists>outcome. check_admission budget bytes passes = Some outcome \<and> outcome \<noteq> Waiting"
proof -
  have poll: "fst (admission_poll budget bytes elapsed info in_flight) \<noteq> Waiting"
    using assms(2) by (auto simp: admission_poll_def split: option.splits)
  have "\<exists>outcome. admission_loop budget bytes passes = Some outcome \<and> outcome \<noteq> Waiting"
    using assms(1) poll by (induction passes) (auto split: AdmissionPoll.splits)
  then show ?thesis by (simp add: check_admission_def)
qed

definition drop_guard :: "AdmissionPoll \<Rightarrow> nat \<Rightarrow> nat" where
  "drop_guard guard in_flight = (case guard of Reserved bytes \<Rightarrow> wrapping_sub 64 in_flight bytes | _ \<Rightarrow> in_flight)"

definition reports_max :: "nat \<Rightarrow> memory_info \<Rightarrow> bool" where
  "reports_max maxmemory info = (case info of Some (used, Some m) \<Rightarrow> m = maxmemory | _ \<Rightarrow> True)"

text \<open>A node with its counter and the guards that are held.\<close>

inductive admission_reachable :: "(nat \<Rightarrow> nat) \<Rightarrow> nat \<Rightarrow> nat \<Rightarrow> AdmissionPoll list \<Rightarrow> bool"
  for budget :: "nat \<Rightarrow> nat" and maxmemory :: nat where
  ad_init: "admission_reachable budget maxmemory 0 []"
| ad_check:
    "admission_reachable budget maxmemory n guards \<Longrightarrow> reports_max maxmemory info \<Longrightarrow>
     admission_gate budget bytes elapsed info n = (poll, n') \<Longrightarrow> admission_reachable budget maxmemory n' (poll # guards)"
| ad_drop:
    "admission_reachable budget maxmemory n guards \<Longrightarrow> guard \<in> set guards \<Longrightarrow>
     admission_reachable budget maxmemory (drop_guard guard n) (remove1 guard guards)"

fun reserved_bytes :: "AdmissionPoll \<Rightarrow> nat" where
  "reserved_bytes (Reserved n) = n"
| "reserved_bytes Unguarded = 0"
| "reserved_bytes Waiting = 0"
| "reserved_bytes WaitExceeded = 0"

lemma saturating_leD: "saturating_add 64 a b \<le> c \<Longrightarrow> c < uint_max 64 \<Longrightarrow> a + b \<le> c"
  by (auto simp: saturating_add_def min_def split: if_splits)

lemma admission_gate_cases:
  assumes "admission_gate budget bytes elapsed info n = (poll, n')" and "reports_max maxmemory info"
  shows "(reserved_bytes poll = 0 \<and> n' = n) \<or>
    (\<exists>used. poll = Reserved bytes \<and> n' = u64_add n bytes \<and>
       saturating_add 64 (saturating_add 64 used n) bytes \<le> budget maxmemory)"
proof (cases "bytes \<le> ADMISSION_BYPASS_BYTES \<or> (\<nexists>used. info = Some (Some used, Some maxmemory))")
  case True
  with assms show ?thesis
    by (auto simp: admission_gate_def admission_poll_def reports_max_def split: option.splits prod.splits if_splits)
next
  case False
  then obtain used where "info = Some (Some used, Some maxmemory)" by blast
  with assms(1) show ?thesis by (auto simp: admission_gate_def admission_poll_def split: if_splits)
qed

lemma admission_gate_counts:
  assumes "admission_gate budget bytes elapsed info n = (poll, n')" and "n \<le> budget maxmemory" and b: "budget maxmemory < uint_max 64"
    and "reports_max maxmemory info"
  shows "n' = n + reserved_bytes poll \<and> n' \<le> budget maxmemory"
  using admission_gate_cases [OF assms(1,4)]
proof (elim disjE exE)
  fix used
  assume u: "poll = Reserved bytes \<and> n' = u64_add n bytes \<and> saturating_add 64 (saturating_add 64 used n) bytes \<le> budget maxmemory"
  then have outer: "saturating_add 64 used n + bytes \<le> budget maxmemory" using saturating_leD b by blast
  then have "used + n \<le> budget maxmemory" using saturating_leD [OF _ b, of used n] by linarith
  then have "n \<le> saturating_add 64 used n" using b by (simp add: saturating_add_def)
  with outer have "n + bytes \<le> budget maxmemory" by linarith
  moreover from this have "u64_add n bytes = n + bytes" using b by (intro wrapping_add_eq) (simp add: uint_max_def)
  ultimately show ?thesis using u by simp
qed (use assms(2) in simp)

lemma admission_reachable_counts:
  assumes "admission_reachable budget maxmemory n guards" and b: "budget maxmemory < uint_max 64"
  shows "n = sum_list (map reserved_bytes guards) \<and> n \<le> budget maxmemory"
  using assms(1)
proof (induction rule: admission_reachable.induct)
  case (ad_check n guards info bytes elapsed poll n')
  then show ?case using admission_gate_counts [OF ad_check(3) _ b ad_check(2)] by simp
next
  case (ad_drop n guards guard)
  have split: "sum_list (map reserved_bytes guards) = reserved_bytes guard + sum_list (map reserved_bytes (remove1 guard guards))"
    using ad_drop(2) by (rule sum_list_map_remove1)
  have "drop_guard guard n = n - reserved_bytes guard"
  proof (cases guard)
    case (Reserved k)
    have "n < 2 ^ 64" using ad_drop.IH b by (simp add: uint_max_def)
    with Reserved ad_drop.IH split show ?thesis by (simp add: drop_guard_def wrapping_sub_eq)
  qed (simp_all add: drop_guard_def)
  with ad_drop.IH split show ?case by simp
qed simp

end
