(* ===== verification/Sample_Store.thy ===== *)
theory Sample_Store
  imports Artifact_Store Artifact_Admission
begin

text \<open>
  A Redis whose state is the view itself, and runs with chunks of one byte: an upload with a download, and
  a download during which the artifact is deleted and uploaded anew.
\<close>

definition mem_redis :: "redis_view Redis" where
  "mem_redis =
     \<lparr>rd_view = (\<lambda>s. s),
      rd_set = (\<lambda>k v t s. s(k \<mapsto> (RString v, t))),
      rd_hset = (\<lambda>k f v s. case hash_of (s k) of None \<Rightarrow> s | Some h \<Rightarrow> s(k \<mapsto> (RHash (hm_insert f v h), ttl_of (s k)))),
      rd_expire = (\<lambda>k n s. s(k := map_option (\<lambda>(x, t). (x, Some n)) (s k))),
      rd_persist = (\<lambda>k s. s(k := map_option (\<lambda>(x, t). (x, None)) (s k))),
      rd_unlink = (\<lambda>k s. s(k := None)),
      rd_rename = (\<lambda>a b s. s(a := None, b := s a)),
      rd_sadd = (\<lambda>k m s. case set_of_key (s k) of None \<Rightarrow> s | Some x \<Rightarrow> s(k \<mapsto> (RSet (hs_insert m x), ttl_of (s k)))),
      rd_srem = (\<lambda>k m s. case set_of_key (s k) of None \<Rightarrow> s | Some x \<Rightarrow> s(k := set_entry (hs_remove m x) (ttl_of (s k))))\<rparr>"

lemma mem_redis_commands [simp]:
  "rd_view mem_redis s = s" "rd_unlink mem_redis k s = s(k := None)" "rd_rename mem_redis a b s = s(a := None, b := s a)"
  "rd_expire mem_redis k n s = s(k := map_option (\<lambda>(x, t). (x, Some n)) (s k))"
  "rd_hset mem_redis k f v s = (case hash_of (s k) of None \<Rightarrow> s | Some h \<Rightarrow> s(k \<mapsto> (RHash (hm_insert f v h), ttl_of (s k))))"
  by (simp_all add: mem_redis_def)

lemma mem_redis_laws: "redis_laws mem_redis"
  by (simp add: redis_laws_def mem_redis_def)

definition sample_redis_config :: RedisConfig where
  "sample_redis_config = \<lparr>rc_chunk_size = 1, rc_timeout_seconds = 10\<rparr>"

lemma sample_redis_settings: "redis_config (Some ''1'') (Some ''10'') = sample_redis_config"
  by (simp add: redis_config_def CHUNK_SIZE_def ARTIFACT_TIMEOUT_SECONDS_def sample_redis_config_def parse_uint_def Let_def
      digit_value_def uint_max_def)

definition sample_attempt :: "string \<Rightarrow> string \<Rightarrow> Attempt" where
  "sample_attempt fresh d = \<lparr>at_id = ''x'', at_fresh = fresh, at_type = Stdin, at_data = d\<rparr>"

abbreviation reach :: "redis_view Store \<Rightarrow> bool" where
  "reach \<equiv> store_reachable mem_redis sample_redis_config ''x''"

definition sample_begun :: "redis_view Store" where
  "sample_begun =
     \<lparr>so_redis = Map.empty, so_attempts = [sample_attempt ''f'' ''ab''], so_written = [(''x'', Stdin, ''ab'')], so_download = ReadCount\<rparr>"

lemma sample_id_ok [simp]: "artifact_id_ok ''x''"
  by (simp add: artifact_id_ok_def)

lemma sample_begun_reachable: "reach sample_begun"
proof -
  let ?st = "\<lparr>so_redis = Map.empty, so_attempts = [], so_written = [], so_download = ReadCount\<rparr> :: redis_view Store"
  have "reach ?st" by (rule sr_init) (simp add: mem_redis_def)
  from sr_step [OF this ss_begin [where a = "sample_attempt ''f'' ''ab''"]] show ?thesis
    by (simp add: sample_begun_def sample_attempt_def sample_redis_config_def)
qed

lemma sample_nat [simp]: "show_nat 0 = ''0''" "show_nat (Suc 0) = ''1''" "show_nat 2 = ''2''"
  by (simp_all add: show_nat.simps digit_def)

lemma sample_chunks [simp]:
  "chunk_count (Suc 0) [c, d] = 2" "chunk_at (Suc 0) [c, d] 0 = [c]" "chunk_at (Suc 0) [c, d] (Suc 0) = [d]"
  by (simp_all add: chunk_count_def div_ceil_def chunk_at_def)

definition sample_hash :: "char \<Rightarrow> char \<Rightarrow> (string, string) hash_map" where
  "sample_hash c d = [(''0'', [c]), (''1'', [d]), (''__n'', ''2'')]"

text \<open>Uploading two bytes to a store that lacks the artifact.\<close>

lemma sample_upload:
  "snd (upload_chunked mem_redis sample_redis_config (sample_attempt fresh [c, d]) Map.empty) =
     [chunk_key ''x'' \<mapsto> (RHash (sample_hash c d), Some 10)]"
proof -
  let ?k = "staging_chunk_key ''x'' fresh" and ?a = "sample_attempt fresh [c, d]"
  have ne: "chunk_key ''x'' \<noteq> ?k" "?k \<noteq> chunk_key ''x''" "chunk_key ''x'' \<noteq> ''x''" "?k \<noteq> ''x''" by simp_all
  have upt: "[0..<2] = [0, Suc 0]" by (simp add: upt_rec)
  have staged: "stage_all mem_redis sample_redis_config ?a [0..<2] Map.empty =
      (True, [?k \<mapsto> (RHash [(''0'', [c]), (''1'', [d])], Some STAGING_TTL_SECONDS)])"
    by (simp add: upt stage_chunk_def attempt_key_def sample_attempt_def sample_redis_config_def)
  have published: "publish_staged mem_redis sample_redis_config Stdin ''x'' ?k 2 [?k \<mapsto> (RHash [(''0'', [c]), (''1'', [d])], t)] =
      (True, [chunk_key ''x'' \<mapsto> (RHash (sample_hash c d), Some 10)])" for t
    using ne by (simp add: publish_staged_def publish_script_def retention_def sample_redis_config_def CHUNK_COUNT_FIELD_def
        sample_hash_def Let_def fun_eq_iff)
  have "chunk_count (rc_chunk_size sample_redis_config) (at_data ?a) = 2" "attempt_key ?a = ?k" "at_id ?a = ''x''" "at_type ?a = Stdin"
    by (simp_all add: sample_attempt_def sample_redis_config_def attempt_key_def)
  then show ?thesis by (simp add: upload_chunked_def staged published)
qed

section \<open>A torn download\<close>

text \<open>The first upload is read half, then deleted; the second one is published; the rest is read.\<close>

definition sample_half :: "redis_view Store" where
  "sample_half = sample_begun\<lparr>so_redis := [chunk_key ''x'' \<mapsto> (RHash (sample_hash CHR ''a'' CHR ''b''), Some 10)],
     so_download := ReadChunks 2 [(0, ''a'')]\<rparr>"

definition sample_torn :: "redis_view Store" where
  "sample_torn =
     \<lparr>so_redis = [chunk_key ''x'' \<mapsto> (RHash (sample_hash CHR ''c'' CHR ''d''), Some 10)],
      so_attempts = [sample_attempt ''g'' ''cd'', sample_attempt ''f'' ''ab''],
      so_written = [(''x'', Stdin, ''cd''), (''x'', Stdin, ''ab'')], so_download = Downloaded ''ad''\<rparr>"

lemma sample_count [simp]: "declared_count (sample_hash c d) = Some (Some 2)"
  using parse_show_nat [of 2 64] by (simp add: declared_count_def sample_hash_def CHUNK_COUNT_FIELD_def)

lemma sample_half_reachable: "reach sample_half"
proof -
  let ?v = "[chunk_key ''x'' \<mapsto> (RHash (sample_hash CHR ''a'' CHR ''b''), Some 10)]"
  have "reach (sample_begun\<lparr>so_redis := ?v\<rparr>)"
    using reachable_upload_chunked [OF sample_begun_reachable, of "sample_attempt ''f'' ''ab''"]
    by (simp add: sample_begun_def sample_upload)
  from sr_step [OF this ss_read [where n = 0]] have "reach (sample_begun\<lparr>so_redis := ?v, so_download := ReadChunks 2 []\<rparr>)"
    by (simp add: sample_begun_def)
  from sr_step [OF this ss_read [where n = 0]] show ?thesis
    by (simp add: sample_half_def sample_begun_def sample_hash_def collect_chunks_def upt_rec)
qed

definition sample_whole :: "redis_view Store" where
  "sample_whole = sample_half\<lparr>so_download := Downloaded ''ab''\<rparr>"

lemma sample_whole_reachable: "reach sample_whole"
  using sr_step [OF sample_half_reachable ss_read [where n = "Suc 0"]]
  by (simp add: sample_half_def sample_whole_def sample_hash_def collect_chunks_def upt_rec)

lemma sample_torn_reachable: "reach sample_torn"
proof -
  let ?e = "sample_half\<lparr>so_redis := Map.empty\<rparr>" and ?b = "sample_attempt ''g'' ''cd''"
  have "reach ?e" using sr_step [OF sample_half_reachable ss_delete_chunks [where i = "''x''"]]
    by (simp add: sample_half_def delete_chunks_def)
  from sr_step [OF this ss_begin [where a = ?b]]
  have "reach (?e\<lparr>so_attempts := [?b, sample_attempt ''f'' ''ab''], so_written := [(''x'', Stdin, ''cd''), (''x'', Stdin, ''ab'')]\<rparr>)"
    by (simp add: sample_half_def sample_begun_def sample_attempt_def sample_redis_config_def)
  from reachable_upload_chunked [OF this, of ?b]
  have "reach (sample_torn\<lparr>so_download := ReadChunks 2 [(0, ''a'')]\<rparr>)"
    by (simp add: sample_half_def sample_begun_def sample_torn_def sample_upload)
  from sr_step [OF this ss_read [where n = "Suc 0"]] show ?thesis
    by (simp add: sample_torn_def sample_hash_def collect_chunks_def upt_rec)
qed

end
