(* ===== verification/Sample_Gateway.thy ===== *)
theory Sample_Gateway
  imports Gateway_Requests Artifact_Client Sample_Store
begin

text \<open>
  The packages of the gateway as concrete functions, and runs of it: a program is registered and proved, and two
  registrations of the same program tear its file.
\<close>

section \<open>Hexadecimal\<close>

definition hex_digit :: "nat \<Rightarrow> char" where
  "hex_digit n = ''0123456789abcdef'' ! n"

definition hex_byte :: "char \<Rightarrow> string" where
  "hex_byte c = (let b = of_char c :: nat in [hex_digit (b div 16), hex_digit (b mod 16)])"

definition hex_encode :: "string \<Rightarrow> string" where
  "hex_encode s = concat (map hex_byte s)"

lemma hex_digit_inject: "m < 16 \<Longrightarrow> n < 16 \<Longrightarrow> hex_digit m = hex_digit n \<longleftrightarrow> m = n"
  unfolding hex_digit_def by (rule nth_eq_iff_index_eq) simp_all

lemma of_char_less [simp]: "(of_char c :: nat) < 256"
  by (cases c) (simp add: of_char_def of_bool_def)

lemma hex_byte_inject: "hex_byte c = hex_byte d \<longleftrightarrow> c = d"
proof
  assume h: "hex_byte c = hex_byte d"
  have b: "(of_char x :: nat) div 16 < 16" for x using of_char_less [of x] by linarith
  from h have "hex_digit (of_char c div 16) = hex_digit (of_char d div 16)" "hex_digit (of_char c mod 16) = hex_digit (of_char d mod 16)"
    by (simp_all add: hex_byte_def Let_def)
  then have "(of_char c :: nat) div 16 = of_char d div 16" "(of_char c :: nat) mod 16 = of_char d mod 16"
    using hex_digit_inject b by simp_all
  then have "(of_char c :: nat) = of_char d" by (metis div_mod_decomp)
  then show "c = d" by simp
qed simp

lemma hex_encode_inject: "hex_encode s = hex_encode t \<Longrightarrow> s = t"
proof (induction s arbitrary: t)
  case Nil
  then show ?case by (cases t) (simp_all add: hex_encode_def hex_byte_def Let_def)
next
  case (Cons c s)
  then obtain d t' where t: "t = d # t'" by (cases t) (simp_all add: hex_encode_def hex_byte_def Let_def)
  have len: "length (hex_byte x) = 2" for x by (simp add: hex_byte_def Let_def)
  from Cons.prems t have "hex_byte c @ hex_encode s = hex_byte d @ hex_encode t'" by (simp add: hex_encode_def)
  then have "hex_byte c = hex_byte d" "hex_encode s = hex_encode t'" using len by (simp_all add: append_eq_append_conv)
  with Cons.IH t show ?case by (simp add: hex_byte_inject)
qed

lemma hex_byte_digits: "set (hex_byte c) \<subseteq> set ''0123456789abcdef''"
proof -
  have "hex_digit n \<in> set ''0123456789abcdef''" if "n < 16" for n
    unfolding hex_digit_def by (rule nth_mem) (use that in simp)
  moreover have "(of_char c :: nat) div 16 < 16" using of_char_less [of c] by linarith
  ultimately show ?thesis unfolding hex_byte_def Let_def by (metis empty_set empty_subsetI insert_subset list.simps(15) mod_less_divisor zero_less_numeral)
qed

lemma hex_encode_laws: "hex_laws hex_encode"
  unfolding hex_laws_def
proof (intro conjI allI)
  show "inj hex_encode" by (rule injI) (rule hex_encode_inject)
  show "set (hex_encode s) \<subseteq> set ''0123456789abcdef''" for s
    unfolding hex_encode_def set_concat set_map using hex_byte_digits by blast
qed

section \<open>Two registrations at once\<close>

definition sample_put :: "PutPhase \<Rightarrow> Put" where
  "sample_put ph = \<lparr>pu_vk_hash = ''h'', pu_vk = ''v'', pu_elf = ''e'', pu_phase = ph\<rparr>"

definition sample_files :: "string \<Rightarrow> string \<Rightarrow> Put list \<Rightarrow> ProgramMap \<Rightarrow> ProgramFiles" where
  "sample_files path d puts m =
     \<lparr>pf_fs = \<lparr>fs_names = [(path, 0)], fs_data = (\<lambda>i. [])(0 := d), fs_next = 1\<rparr>, pf_puts = puts, pf_stored = m\<rparr>"

abbreviation tmp_h :: string where
  "tmp_h \<equiv> tmp_path hex_encode ''h''"

abbreviation path_h :: string where
  "path_h \<equiv> program_path hex_encode ''h''"

abbreviation rec_h :: string where
  "rec_h \<equiv> record_bytes ''v'' ''e''"

lemma rec_h_length [simp]: "length rec_h = 6" "rec_h \<noteq> []"
  by (simp_all add: record_bytes_def)

text \<open>A put writes its record; others of the same program may be waiting to open their file.\<close>

lemma sample_written:
  assumes "files_reachable excl hex_encode \<lparr>pf_fs = fs_empty, pf_puts = sample_put Opening # puts, pf_stored = []\<rparr>"
  shows "files_reachable excl hex_encode (sample_files tmp_h rec_h (sample_put Renaming # puts) [])"
proof -
  have "files_reachable excl hex_encode (sample_files tmp_h [] (sample_put (Writing 0 0 rec_h) # puts) [])"
    using fr_step [OF assms pf_continue [of "sample_put Opening" _ hex_encode 0]]
    by (simp add: put_step_def sample_put_def fs_create_def fs_empty_def sample_files_def)
  from fr_step [OF this pf_continue [of "sample_put (Writing 0 0 rec_h)" _ hex_encode 6]]
  have "files_reachable excl hex_encode (sample_files tmp_h rec_h (sample_put (Writing 0 6 []) # puts) [])"
    by (simp add: put_step_def sample_put_def fs_write_def sample_files_def write_at_def)
  from fr_step [OF this pf_continue [of "sample_put (Writing 0 6 [])" _ hex_encode 0]] show ?thesis
    by (simp add: put_step_def sample_put_def sample_files_def)
qed

lemma sample_renamed:
  assumes "files_reachable excl hex_encode (sample_files tmp_h d (sample_put Renaming # puts) [])"
  shows "files_reachable excl hex_encode (sample_files path_h d puts [(''h'', ''v'', ''e'')])"
  using fr_step [OF assms pf_done [of "sample_put Renaming" _ hex_encode 0]] paths_distinct(1) [OF hex_encode_laws, of "''h''" "''h''"]
  by (simp add: put_step_def sample_put_def sample_files_def fs_rename_def mem_put_def)

lemma sample_started:
  "files_reachable excl hex_encode \<lparr>pf_fs = fs_empty, pf_puts = [sample_put Opening], pf_stored = []\<rparr>"
  using fr_step [OF fr_init pf_start [of "''h''"]] by (simp add: sample_put_def)

lemma sample_stored_file: "files_reachable True hex_encode (sample_files path_h rec_h [] [(''h'', ''v'', ''e'')])"
  by (rule sample_renamed [OF sample_written [OF sample_started]])

text \<open>
  Two registrations of the same program share the temporary name.  The second one empties the file the first one has
  written, and the first one then renames it: readers find a truncated record, although a registration has succeeded.
\<close>

lemma concurrent_puts_tear:
  "\<exists>st. files_reachable False hex_encode st \<and> mem_get ''h'' (pf_stored st) = Inr (Some (''v'', ''e'')) \<and>
     file_get hex_encode None ''h'' (pf_fs st) = Inl ''program record truncated''"
proof -
  have "files_reachable False hex_encode \<lparr>pf_fs = fs_empty, pf_puts = [sample_put Opening, sample_put Opening], pf_stored = []\<rparr>"
    using fr_step [OF sample_started pf_start [where excl = False and vk_hash = "''h''" and vk = "''v''" and elf = "''e''"]]
    by (simp add: sample_put_def)
  from sample_written [OF this]
  have "files_reachable False hex_encode (sample_files tmp_h rec_h [sample_put Renaming, sample_put Opening] [])" .
  from fr_step [OF this pf_continue [of "sample_put Opening" _ hex_encode 0]]
  have "files_reachable False hex_encode (sample_files tmp_h [] [sample_put (Writing 0 0 rec_h), sample_put Renaming] [])"
    by (simp add: put_step_def sample_put_def fs_create_def sample_files_def)
  from fr_step [OF this pf_done [of "sample_put Renaming" _ hex_encode 0]] paths_distinct(1) [OF hex_encode_laws, of "''h''" "''h''"]
  have "files_reachable False hex_encode (sample_files path_h [] [sample_put (Writing 0 0 rec_h)] [(''h'', ''v'', ''e'')])"
    by (simp add: put_step_def sample_put_def sample_files_def fs_rename_def mem_put_def)
  moreover have "file_get hex_encode None ''h'' (pf_fs (sample_files path_h [] puts m)) = Inl ''program record truncated''" for puts m
    by (simp add: sample_files_def file_get_def fs_read_def parse_record_def)
  moreover have "mem_get ''h'' (pf_stored (sample_files path d puts [(''h'', ''v'', ''e'')])) = Inr (Some (''v'', ''e''))" for path d puts
    by (simp add: sample_files_def mem_get_def)
  ultimately show ?thesis by blast
qed

section \<open>A request through the gateway\<close>

definition sample_sdk :: Sdk where
  "sample_sdk =
     \<lparr>sdk_artifact_type = (\<lambda>n. if n = 2 then Some PaStdin else None),
      sdk_fulfillment = (\<lambda>n. if n = 1 then Some Requested else if n = 3 then Some Fulfilled else None),
      sdk_execution = (\<lambda>n. if n = 1 then Some Unexecuted else if n = 2 then Some Executed else None),
      sdk_cluster_execution = (\<lambda>n. if n = 0 then Some CeUnspecified else if n = 1 then Some CeUnexecuted
         else if n = 2 then Some CeExecuted else if n = 3 then Some CeFailed else if n = 4 then Some CeCancelled else None),
      sdk_cluster_execution_number = (\<lambda>e. case e of CeUnspecified \<Rightarrow> 0 | CeUnexecuted \<Rightarrow> 1 | CeExecuted \<Rightarrow> 2 | CeFailed \<Rightarrow> 3 | CeCancelled \<Rightarrow> 4),
      sdk_unspecified_mode = 0\<rparr>"

lemma sample_sdk_laws: "sdk_laws sample_sdk"
  by (auto simp: sdk_laws_def sample_sdk_def split: ClusterExecution.splits if_splits)

definition sample_signatures :: "string Signatures" where
  "sample_signatures = \<lparr>sg_from_raw = Inr, sg_recover = (\<lambda>s m. Inl ''no signer'')\<rparr>"

definition sample_gateway_config :: GatewayConfig where
  "sample_gateway_config =
     \<lparr>gc_public_http_url = ''http://g/'', gc_balance_amount = ''1'', gc_auth = \<lparr>au_mode = NoAuth, au_allowlist = []\<rparr>\<rparr>"

definition sample_zstd :: Zstd where
  "sample_zstd = \<lparr>zs_encode = (\<lambda>d. if length d < 2 ^ 64 then Inr d else Inl ''too large''), zs_decode = Inr\<rparr>"

definition sample_call :: CallEnv where
  "sample_call =
     \<lparr>ce_typeid = ''req_1'', ce_fresh = ''g'', ce_new_artifact = Inr ''artifact_1'', ce_avail = True, ce_attempts = [(5, True, True)]\<rparr>"

definition sample_body :: RequestBody where
  "sample_body =
     \<lparr>rb_vk_hash = ''h'', rb_stdin_uri = ''http://g/artifacts/stdin/s'', rb_mode = 3, rb_deadline = 100, rb_cycle_limit = 7, rb_gas_limit = 8,
      rb_stdin_private = False\<rparr>"

definition sample_client :: "redis_view Store ArtifactClient" where
  "sample_client = redis_client mem_redis (redis_config (Some ''1'') (Some ''10'')) sample_zstd (\<lambda>i t s. (Inr (), s))"

lemma sample_typeid: "typeid_ok (ce_typeid sample_call)"
  by (simp add: typeid_ok_def sample_call_def REQUEST_ID_LEN_def is_ascii_def char_of_def)

lemma sample_zstd_laws: "zstd_laws sample_zstd"
  by (simp add: zstd_laws_def sample_zstd_def)

text \<open>The gateway after the program was registered and everything in the artifact store has expired.\<close>

definition sample_gateway :: "(redis_view Store, FileSystem) GatewayState" where
  "sample_gateway =
     \<lparr>gw_artifacts = \<lparr>so_redis = Map.empty, so_attempts = [], so_written = [], so_download = ReadCount\<rparr>,
      gw_programs = pf_fs (sample_files path_h rec_h [] []), gw_db = [], gw_nonces = []\<rparr>"

lemma sample_artifacts_inv: "redis_inv mem_redis (redis_config (Some ''1'') (Some ''10'')) sample_zstd (gw_artifacts sample_gateway)"
  unfolding redis_inv_def
proof (intro conjI exI)
  show "store_reachable mem_redis (redis_config (Some ''1'') (Some ''10'')) ''x'' (gw_artifacts sample_gateway)"
    unfolding sample_gateway_def by (simp add: store_reachable.sr_init)
qed (simp_all add: mem_redis_laws sample_zstd_laws redis_config_bounds)

lemma sample_program: "ps_get (FilesystemProgramStore hex_encode) ''h'' (gw_programs sample_gateway) = Inr (Some (''v'', ''e''))"
  by (simp add: FilesystemProgramStore_def sample_gateway_def sample_files_def file_get_def fs_read_def)

lemma sample_warm:
  obtains gw where "warm_program hex_encode sample_client (FilesystemProgramStore hex_encode) sample_call ''h'' sample_gateway = (Inr (), gw)"
    and "gw_db gw = []"
proof -
  let ?i = "program_artifact_id hex_encode ''h''" and ?st = "gw_artifacts sample_gateway"
  have i: "artifact_id_ok ?i" by (rule program_id_ok [OF hex_encode_laws])
  have f: "unused_attempt ''g'' ?st" by (simp add: unused_attempt_def sample_gateway_def)
  have ex: "ac_exists sample_client ?i Program ?st = Inr False"
    by (simp add: sample_client_def redis_client_def client_exists_def exists_artifact_def sample_gateway_def)
  obtain s' where "par_upload_file mem_redis (redis_config (Some ''1'') (Some ''10''))
      \<lparr>at_id = ?i, at_fresh = ''g'', at_type = Program, at_data = ''e''\<rparr> (so_redis ?st) = (True, s')"
    using upload_succeeds [OF sample_artifacts_inv, of "\<lparr>at_id = ?i, at_fresh = ''g'', at_type = Program, at_data = ''e''\<rparr>"] i f by auto
  then obtain st' where u: "ac_upload_raw sample_client ''g'' ?i Program ''e'' ?st = (Inr (), st')"
    by (simp add: sample_client_def redis_client_def upload_raw_def sample_zstd_def upload_to_transport_def Let_def)
  have "warm_program hex_encode sample_client (FilesystemProgramStore hex_encode) sample_call ''h'' sample_gateway =
      (Inr (), sample_gateway\<lparr>gw_artifacts := st'\<rparr>)"
    using ex sample_program u by (simp add: warm_program_def sample_call_def)
  with that show thesis by (simp add: sample_gateway_def)
qed

lemma sample_requested:
  obtains rid gw where "request_proof hex_encode sample_signatures (\<lambda>b. []) sample_client (FilesystemProgramStore hex_encode)
      sample_gateway_config sample_call ''sig'' (Some sample_body) sample_gateway = Some (Inr rid, gw)"
proof -
  obtain gw where w: "warm_program hex_encode sample_client (FilesystemProgramStore hex_encode) sample_call ''h'' sample_gateway = (Inr (), gw)"
    "gw_db gw = []" by (rule sample_warm)
  obtain rid where rid: "mint_request_id (ce_typeid sample_call) = Some rid" using minted_id_reads_back [OF sample_typeid] by blast
  have "artifact_id_from_uri (rb_stdin_uri sample_body) = Some ''s''"
    by (simp add: artifact_id_from_uri_def sample_body_def)
  with w rid that show thesis
    by (simp add: request_proof_def authorize_def sample_gateway_config_def sample_body_def create_row_def sample_call_def
        proof_request_create_def with_timeout_def)
qed

section \<open>A program is registered\<close>

definition sample_program_body :: ProgramBody where
  "sample_program_body = \<lparr>pb_vk_hash = ''h'', pb_vk = ''v'', pb_program_uri = ''http://g/artifacts/program/x''\<rparr>"

text \<open>The upload of the SDK is in the artifact store, and no program is registered.\<close>

definition sample_registry :: "(redis_view Store, FileSystem) GatewayState" where
  "sample_registry = \<lparr>gw_artifacts = sample_half, gw_programs = fs_empty, gw_db = [], gw_nonces = []\<rparr>"

lemma sample_half_inv: "redis_inv mem_redis (redis_config (Some ''1'') (Some ''10'')) sample_zstd sample_half"
  unfolding redis_inv_def sample_redis_settings
  using sample_half_reachable mem_redis_laws sample_zstd_laws sample_id_ok redis_config_bounds(1) [of "Some ''1''" "Some ''10''", unfolded sample_redis_settings]
  by blast

lemma sample_half_downloads: "par_download_file mem_redis ''x'' (so_redis sample_half) = Downloaded ''ab''"
proof -
  let ?cfg = "redis_config (Some ''1'') (Some ''10'')"
  have "rd_view mem_redis (so_redis sample_half) (chunk_key ''x'') \<noteq> None" by (simp add: sample_half_def)
  then obtain t d h where d: "hash_of (rd_view mem_redis (so_redis sample_half) (chunk_key ''x'')) = Some h"
    "(''x'', t, d) \<in> set (so_written sample_half)" "rc_chunk_size ?cfg < length d" "length d < 2 ^ 64" "full_hash ?cfg d h"
    using hash_at_chunks [OF redis_inv_ok(1) [OF sample_half_inv] sample_id_ok redis_inv_ok(2) [OF sample_half_inv]] by auto
  then have "d = ''ab''" by (simp add: sample_half_def sample_begun_def)
  with download_published [OF redis_config_bounds(1) d(3,4,1,5)] show ?thesis by simp
qed

lemma sample_registered:
  obtains gw where "create_program hex_encode sample_signatures (\<lambda>b. []) sample_client (FilesystemProgramStore hex_encode)
      sample_gateway_config sample_call ''sig'' (Some sample_program_body) sample_registry = (Inr (), gw)"
proof -
  let ?i = "program_artifact_id hex_encode ''h''"
  let ?a = "\<lparr>at_id = ?i, at_fresh = ''g'', at_type = Program, at_data = ''ab''\<rparr>"
  have i: "artifact_id_ok ?i" by (rule program_id_ok [OF hex_encode_laws])
  have "unused_attempt ''g'' sample_half" by (simp add: unused_attempt_def sample_half_def sample_begun_def sample_attempt_def)
  then obtain s' where "par_upload_file mem_redis (redis_config (Some ''1'') (Some ''10'')) ?a (so_redis sample_half) = (True, s')"
    using upload_succeeds [OF sample_half_inv, of ?a] i by auto
  then obtain st' where u: "ac_upload_raw sample_client ''g'' ?i Program ''ab'' sample_half = (Inr (), st')"
    by (simp add: sample_client_def redis_client_def upload_raw_def sample_zstd_def upload_to_transport_def Let_def)
  have d: "ac_download_raw sample_client ''x'' Program sample_half = Inr ''ab''"
    by (simp add: sample_client_def redis_client_def download_raw_def sample_half_downloads sample_zstd_def)
  obtain fs where p: "ps_put (FilesystemProgramStore hex_encode) ''h'' ''v'' ''ab'' fs_empty = (Inr (), fs)"
    by (simp add: FilesystemProgramStore_def file_put_def fs_create_def fs_empty_def fs_rename_def fs_write_def)
  have "artifact_id_from_uri (pb_program_uri sample_program_body) = Some ''x''"
    by (simp add: artifact_id_from_uri_def sample_program_body_def)
  with u d p that show thesis
    by (simp add: create_program_def register_program_def authorize_def sample_gateway_config_def sample_program_body_def sample_registry_def sample_call_def)
qed

lemma sample_registry_inv: "files_inv hex_encode (gw_programs sample_registry)"
  unfolding files_inv_def
proof (intro conjI exI)
  show "stored_ok hex_encode (gw_programs sample_registry) []"
    by (simp add: stored_ok_def sample_registry_def fs_read_def fs_empty_def)
qed (simp_all add: hex_encode_laws names_ok_def sample_registry_def fs_empty_def)

end
