(* ===== verification/Worker_Client.thy ===== *)
theory Worker_Client
  imports Server Api_Client
begin

text \<open>
  The client side of the \<open>WorkerService\<close> (\<open>crates/worker/src/client.rs\<close>): the requests a worker builds, the pump of
  its delivery stream, the stream of the messages of a task, which is resumed after a break, and the subscription to
  the results of tasks.

  Retries are those of \<open>Api_Client\<close>: the outcomes of the attempts are an argument.  What the coordinator does with a
  request is the model of \<open>Server\<close>; identifiers and clock readings are arguments, JSON is a parameter.
\<close>

section \<open>Requests\<close>

record WorkerServiceClient =
  wc_worker_id :: WorkerId
  wc_worker_type :: WorkerType
  wc_location :: "string option"

text \<open>What a build knows of itself: \<open>CARGO_PKG_VERSION\<close>, \<open>VERGEN_GIT_SHA\<close>, \<open>IMAGE_TAG\<close> and the answers of the GPU driver.\<close>

record Build =
  bu_version :: string
  bu_git_sha :: string
  bu_image_tag :: "string option"
  bu_gpu_name :: "string option"
  bu_gpu_memory :: "nat option"

definition gpu_identity :: "bool \<Rightarrow> Build \<Rightarrow> string \<times> nat" where
  "gpu_identity gpu b =
     (if gpu then (case bu_gpu_name b of None \<Rightarrow> [] | Some name \<Rightarrow> name, case bu_gpu_memory b of None \<Rightarrow> 0 | Some n \<Rightarrow> n mod 2 ^ 64)
      else ([], 0))"

definition open_request :: "bool \<Rightarrow> Build \<Rightarrow> nat \<Rightarrow> WorkerServiceClient \<Rightarrow> OpenRequest" where
  "open_request gpu b max_weight w =
     \<lparr>or_worker_id = wc_worker_id w, or_worker_type = wc_worker_type w, or_max_weight = max_weight mod 2 ^ 32,
      or_version = bu_version b, or_git_sha = bu_git_sha b,
      or_image_tag = (case bu_image_tag b of None \<Rightarrow> [] | Some t \<Rightarrow> t),
      or_gpu_name = fst (gpu_identity gpu b), or_gpu_memory_total_bytes = snd (gpu_identity gpu b), or_location = wc_location w\<rparr>"

text \<open>
  The task that pumps the delivery stream into the channel of the main loop.  An item is an error or a message, which
  may be empty; \<open>receiver n\<close> says whether the \<open>n\<close>-th send still finds its receiver.  What is sent, and how much of the
  stream was read.
\<close>

fun pump :: "(nat \<Rightarrow> bool) \<Rightarrow> nat \<Rightarrow> (Status + ServerMessage option) list \<Rightarrow> ServerMessage list" where
  "pump receiver n [] = []"
| "pump receiver n (Inl e # inbound) = []"
| "pump receiver n (Inr None # inbound) = []"
| "pump receiver n (Inr (Some msg) # inbound) = (if receiver n then msg # pump receiver (Suc n) inbound else [])"

record TaskContext =
  cx_proof_id :: ProofId
  cx_parent_id :: "TaskId option"
  cx_requester_id :: string

record RawTaskRequest =
  rt_inputs :: "string list"
  rt_outputs :: "string list"
  rt_context :: TaskContext

text \<open>\<open>submit_task\<close>: the data of the task, with the metadata of the tracing context; \<open>weight\<close> is \<open>task_weight\<close>.\<close>

definition submit_task :: "(TaskType \<Rightarrow> nat) \<Rightarrow> string \<Rightarrow> TaskType \<Rightarrow> RawTaskRequest \<Rightarrow> Rpc" where
  "submit_task weight metadata ty task =
     CreateTask (Some \<lparr>td_task_type = ty, td_inputs = rt_inputs task, td_outputs = rt_outputs task, td_metadata = metadata,
        td_proof_id = cx_proof_id (rt_context task), td_parent_id = cx_parent_id (rt_context task),
        td_weight = weight ty mod 2 ^ 32, td_requester = cx_requester_id (rt_context task)\<rparr>)"

text \<open>\<open>complete_proof\<close>: a proof that is not completed is failed.\<close>

definition complete_proof_request :: "ProofId \<Rightarrow> TaskId option \<Rightarrow> bool \<Rightarrow> string \<Rightarrow> Rpc" where
  "complete_proof_request proof_id task_id completed extra_data =
     (let extra = (if extra_data = [] then None else Some extra_data)
      in if completed then CompleteProof proof_id extra else FailProof proof_id task_id extra)"

section \<open>The messages of a task\<close>

text \<open>
  \<open>drive_message_stream\<close>: the state of the loop.  Responses are taken from the current stream one by one; the end of
  the stream, or an error on it, leads to a new stream from the position reached.
\<close>

datatype StreamEnd =
    SawEnd
  | ReceiverGone
  | ReconnectFailed

record MessageReader =
  mr_tx :: channel
  mr_seen :: nat
  mr_forwarded :: nat
  mr_received :: "nat list list"
  mr_end :: "StreamEnd option"

definition subscribe_reader :: "channel \<Rightarrow> MessageReader" where
  "subscribe_reader tx = \<lparr>mr_tx = tx, mr_seen = 0, mr_forwarded = 0, mr_received = [], mr_end = None\<rparr>"

text \<open>One response; \<open>open\<close> says whether the receiver of the messages is still there.\<close>

fun on_response :: "bool \<Rightarrow> MessageStreamResponse option \<Rightarrow> MessageReader \<Rightarrow> MessageReader" where
  "on_response open (Some (Payload d)) r =
     (if open then r\<lparr>mr_seen := mr_seen r + 1, mr_forwarded := mr_forwarded r + 1, mr_received := mr_received r @ [d]\<rparr>
      else r\<lparr>mr_seen := mr_seen r + 1, mr_forwarded := mr_forwarded r + 1, mr_end := Some ReceiverGone\<rparr>)"
| "on_response open (Some EndOfStream) r = r\<lparr>mr_seen := mr_seen r + 1, mr_end := Some SawEnd\<rparr>"
| "on_response open None r = r\<lparr>mr_seen := mr_seen r + 1, mr_end := Some SawEnd\<rparr>"

text \<open>The answer to the request for a new stream; the request asks for the messages from \<open>mr_forwarded\<close> on.\<close>

definition on_reconnect :: "channel option \<Rightarrow> MessageReader \<Rightarrow> MessageReader" where
  "on_reconnect answer r =
     (case answer of
        None \<Rightarrow> r\<lparr>mr_end := Some ReconnectFailed\<rparr>
      | Some tx \<Rightarrow> r\<lparr>mr_tx := tx, mr_seen := 0\<rparr>)"

text \<open>
  A reader of one channel of the coordinator, together with everything else that happens to the channel.  The stream may
  break at any moment, before or after any number of the responses on it were read.
\<close>

inductive message_run ::
  "MessageChannelInner \<Rightarrow> (channel \<rightharpoonup> nat) \<Rightarrow> channel set \<Rightarrow> delivery list \<Rightarrow> MessageReader \<Rightarrow> bool" where
  mr_subscribe:
    "channel_history ch start dead log \<Longrightarrow> start tx = None \<Longrightarrow> tx \<notin> dead \<Longrightarrow> attach_subscriber tx 0 ch = (ch', out) \<Longrightarrow>
     message_run ch' (start(tx \<mapsto> 0)) dead (log @ out) (subscribe_reader tx)"
| mr_push:
    "message_run ch start dead log r \<Longrightarrow> dead \<subseteq> dead' \<Longrightarrow> push (\<lambda>tx. tx \<notin> dead') payload ch = (ch', out) \<Longrightarrow>
     message_run ch' start dead' (log @ out) r"
| mr_close:
    "message_run ch start dead log r \<Longrightarrow> dead \<subseteq> dead' \<Longrightarrow> close_channel (\<lambda>tx. tx \<notin> dead') now ch = (ch', out) \<Longrightarrow>
     message_run ch' start dead' (log @ out) r"
| mr_other:
    "message_run ch start dead log r \<Longrightarrow> start tx = None \<Longrightarrow> tx \<notin> dead \<Longrightarrow> attach_subscriber tx offset ch = (ch', out) \<Longrightarrow>
     message_run ch' (start(tx \<mapsto> min offset (length (mc_buffer ch)))) dead (log @ out) r"
| mr_read:
    "message_run ch start dead log r \<Longrightarrow> mr_end r = None \<Longrightarrow> mr_seen r < length (stream_of (mr_tx r) log) \<Longrightarrow>
     message_run ch start dead log (on_response open (Some (stream_of (mr_tx r) log ! mr_seen r)) r)"
| mr_reconnect:
    "message_run ch start dead log r \<Longrightarrow> mr_end r = None \<Longrightarrow> start tx = None \<Longrightarrow> tx \<notin> dead \<Longrightarrow>
     attach_subscriber tx (mr_forwarded r) ch = (ch', out) \<Longrightarrow>
     message_run ch' (start(tx \<mapsto> min (mr_forwarded r) (length (mc_buffer ch)))) dead (log @ out) (on_reconnect (Some tx) r)"
| mr_give_up:
    "message_run ch start dead log r \<Longrightarrow> mr_end r = None \<Longrightarrow> message_run ch start dead log (on_reconnect None r)"

definition reader_ok :: "MessageChannelInner \<Rightarrow> (channel \<rightharpoonup> nat) \<Rightarrow> MessageReader \<Rightarrow> bool" where
  "reader_ok ch start r \<longleftrightarrow>
     prefix (mr_received r) (mc_buffer ch) \<and>
     (mr_end r = Some SawEnd \<longrightarrow> mc_closed ch \<and> mr_received r = mc_buffer ch) \<and>
     (mr_end r = None \<longrightarrow> mr_forwarded r = length (mr_received r) \<and>
        (\<exists>pos. start (mr_tx r) = Some pos \<and> mr_forwarded r = pos + mr_seen r))"

lemma channel_grows:
  "push alive payload ch = (ch', out) \<Longrightarrow> prefix (mc_buffer ch) (mc_buffer ch') \<and> (mc_closed ch \<longrightarrow> ch' = ch)"
  "close_channel alive now ch = (ch', out) \<Longrightarrow> prefix (mc_buffer ch) (mc_buffer ch') \<and> (mc_closed ch \<longrightarrow> ch' = ch)"
  "attach_subscriber tx n ch = (ch', out) \<Longrightarrow> mc_buffer ch' = mc_buffer ch \<and> mc_closed ch' = mc_closed ch"
  by (auto simp: push_def close_channel_def attach_subscriber_def Let_def split: if_splits)

lemma reader_ok_grows:
  assumes "reader_ok ch start r" and "prefix (mc_buffer ch) (mc_buffer ch')" and "mc_closed ch \<Longrightarrow> ch' = ch"
  shows "reader_ok ch' start r"
  using assms unfolding reader_ok_def by (metis prefix_order.trans)

lemma reader_ok_attach:
  assumes "reader_ok ch start r" and "mc_buffer ch' = mc_buffer ch" "mc_closed ch' = mc_closed ch" and "start tx = None"
  shows "reader_ok ch' (start(tx \<mapsto> n)) r"
  using assms unfolding reader_ok_def by (metis fun_upd_other option.distinct(1))

lemma reader_ok_response:
  assumes ok: "reader_ok ch start r" and run: "mr_end r = None" and s: "prefix (stream_of (mr_tx r) log) (owed pos ch)"
    and pos: "start (mr_tx r) = Some pos" and n: "mr_seen r < length (stream_of (mr_tx r) log)"
  shows "reader_ok ch start (on_response open (Some (stream_of (mr_tx r) log ! mr_seen r)) r)"
proof -
  let ?b = "drop pos (mc_buffer ch)" and ?n = "mr_seen r"
  from ok run pos have f: "mr_forwarded r = length (mr_received r)" "mr_forwarded r = pos + ?n"
    and p: "prefix (mr_received r) (mc_buffer ch)" by (auto simp: reader_ok_def)
  then have r: "mr_received r = take (pos + ?n) (mc_buffer ch)" by (metis prefix_def append_eq_conv_conj)
  have item: "stream_of (mr_tx r) log ! ?n = owed pos ch ! ?n" and len: "?n < length (owed pos ch)"
    using s n by (auto simp: prefix_def nth_append)
  show ?thesis
  proof (cases "?n < length ?b")
    case True
    then have "owed pos ch ! ?n = Payload (mc_buffer ch ! (pos + ?n))" by (simp add: owed_def nth_append add.commute)
    moreover have "prefix (mr_received r @ [mc_buffer ch ! (pos + ?n)]) (mc_buffer ch)"
      using True take_Suc_conv_app_nth [of "pos + ?n" "mc_buffer ch"] take_is_prefix [of "Suc (pos + ?n)" "mc_buffer ch"]
      by (simp add: r)
    ultimately show ?thesis using f pos p run by (auto simp: reader_ok_def item)
  next
    case False
    with len have "owed pos ch ! ?n = EndOfStream" "mc_closed ch" by (auto simp: owed_def nth_append split: if_splits)
    moreover have "mr_received r = mc_buffer ch" using False r by simp
    ultimately show ?thesis by (simp add: reader_ok_def item)
  qed
qed

lemma message_run_ok: "message_run ch start dead log r \<Longrightarrow> channel_history ch start dead log \<and> reader_ok ch start r"
proof (induction rule: message_run.induct)
  case (mr_subscribe ch start dead log tx ch' out)
  have "reader_ok ch' (start(tx \<mapsto> 0)) (subscribe_reader tx)" by (simp add: reader_ok_def subscribe_reader_def)
  with channel_history.attached [OF mr_subscribe] show ?case by (simp only: min_0L)
next
  case (mr_push ch start dead log r dead' payload ch' out)
  then show ?case using channel_grows(1) [OF mr_push.hyps(3)] by (auto intro: channel_history.pushed reader_ok_grows)
next
  case (mr_close ch start dead log r dead' now ch' out)
  then show ?case using channel_grows(2) [OF mr_close.hyps(3)] by (auto intro: channel_history.closed reader_ok_grows)
next
  case (mr_other ch start dead log r tx offset ch' out)
  then show ?case using channel_grows(3) [OF mr_other.hyps(4)] by (metis channel_history.attached reader_ok_attach)
next
  case (mr_read ch start dead log r "open")
  then obtain pos where pos: "start (mr_tx r) = Some pos" by (auto simp: reader_ok_def)
  from mr_read have h: "channel_history ch start dead log" by simp
  have s: "prefix (stream_of (mr_tx r) log) (owed pos ch)" by (rule channel_okD(6) [where start = start, OF channel_history_ok [OF h] pos])
  from mr_read s pos h show ?case by (auto intro!: reader_ok_response)
next
  case (mr_reconnect ch start dead log r tx ch' out)
  then have h: "channel_history ch start dead log" and f: "mr_forwarded r = length (mr_received r)"
    and p: "prefix (mr_received r) (mc_buffer ch)" by (auto simp: reader_ok_def)
  have "mr_forwarded r \<le> length (mc_buffer ch)" using f p by (simp add: prefix_length_le)
  then have "reader_ok ch' (start(tx \<mapsto> min (mr_forwarded r) (length (mc_buffer ch)))) (on_reconnect (Some tx) r)"
    using f p mr_reconnect.hyps(2) channel_grows(3) [OF mr_reconnect.hyps(5)] by (simp add: reader_ok_def on_reconnect_def)
  with channel_history.attached [OF h mr_reconnect.hyps(3-5)] show ?case by (rule conjI)
next
  case (mr_give_up ch start dead log r)
  then show ?case by (simp add: reader_ok_def on_reconnect_def)
qed

text \<open>Reading all of an intact stream.\<close>

lemma read_payloads:
  assumes "mr_end r = None"
  shows "fold (\<lambda>m. on_response True (Some m)) (map Payload ds) r =
    r\<lparr>mr_seen := mr_seen r + length ds, mr_forwarded := mr_forwarded r + length ds, mr_received := mr_received r @ ds\<rparr>"
  using assms by (induction ds arbitrary: r) simp_all

lemma read_to_the_end:
  assumes "reader_ok ch start r" and "mr_end r = None" and "mc_closed ch"
  shows "mr_end (fold (\<lambda>m. on_response True (Some m)) (owed (mr_forwarded r) ch) (on_reconnect (Some tx) r)) = Some SawEnd \<and>
    mr_received (fold (\<lambda>m. on_response True (Some m)) (owed (mr_forwarded r) ch) (on_reconnect (Some tx) r)) = mc_buffer ch"
proof -
  have "mr_received r @ drop (mr_forwarded r) (mc_buffer ch) = mc_buffer ch"
    using assms by (auto simp: reader_ok_def prefix_def)
  with assms show ?thesis by (simp add: owed_def read_payloads on_reconnect_def)
qed

section \<open>Results of tasks\<close>

text \<open>
  \<open>subscriber\<close>: the reader of a subscription and the task that passes on new subscriptions.  \<open>sc_tasks\<close> are the tasks
  whose result is awaited, \<open>sc_results\<close> what was handed to the caller, \<open>sc_closed\<close> whether the caller subscribes no more.
  \<open>sc_added\<close> is not in the source: it records all tasks ever subscribed to.
\<close>

datatype ReaderEnd =
    AllDone
  | EndSeen
  | EmptyMessage
  | ReopenFailed

record SubscriberClient =
  sc_tasks :: "TaskId hash_set"
  sc_closed :: bool
  sc_results :: "(TaskId \<times> TaskStatus) list"
  sc_last_heartbeat :: SystemTime
  sc_end :: "ReaderEnd option"
  sc_added :: "TaskId list"

definition subscriber_new :: "SystemTime \<Rightarrow> SubscriberClient" where
  "subscriber_new now =
     \<lparr>sc_tasks = [], sc_closed = False, sc_results = [], sc_last_heartbeat = now, sc_end = None, sc_added = []\<rparr>"

text \<open>A new task is entered before the coordinator is told; that request is not repeated.\<close>

definition subscribe_task :: "string \<Rightarrow> TaskId \<Rightarrow> SubscriberClient \<Rightarrow> Rpc \<times> SubscriberClient" where
  "subscribe_task sub_id t c = (UpdateSub sub_id [t], c\<lparr>sc_tasks := hs_insert t (sc_tasks c), sc_added := sc_added c @ [t]\<rparr>)"

definition close_input :: "SubscriberClient \<Rightarrow> SubscriberClient" where
  "close_input c = c\<lparr>sc_closed := True\<rparr>"

text \<open>The test at the head of the loop, which the arm for the closed input makes as well.\<close>

definition loop_head :: "SubscriberClient \<Rightarrow> SubscriberClient" where
  "loop_head c = (if sc_closed c \<and> sc_tasks c = [] then c\<lparr>sc_end := Some AllDone\<rparr> else c)"

definition deliver :: "TaskId \<Rightarrow> TaskStatus \<Rightarrow> SubscriberClient \<Rightarrow> SubscriberClient" where
  "deliver t status c = c\<lparr>sc_tasks := hs_remove t (sc_tasks c), sc_results := sc_results c @ [(t, status)]\<rparr>"

text \<open>
  One message of the stream, with the requests it leads to: it is acknowledged, and a heartbeat is answered with up to
  \<open>30\<close> of the awaited tasks, chosen at random by \<open>pick\<close>.
\<close>

definition on_sub_message ::
  "(nat \<Rightarrow> TaskId list \<Rightarrow> TaskId list) \<Rightarrow> SystemTime \<Rightarrow> string \<Rightarrow> string \<Rightarrow> ServerSubMessage option \<Rightarrow> SubscriberClient \<Rightarrow>
     Rpc list \<times> SubscriberClient" where
  "on_sub_message pick now sub_id msg_id message c =
     (case message of
        Some (TaskResult t status) \<Rightarrow> ([AckSub sub_id msg_id], deliver t status c)
      | Some SubEndOfStream \<Rightarrow> ([AckSub sub_id msg_id], c\<lparr>sc_end := Some EndSeen\<rparr>)
      | Some (UnknownTask p t) \<Rightarrow> ([AckSub sub_id msg_id], deliver t FailedFatal c)
      | Some SubHeartbeat \<Rightarrow> ([AckSub sub_id msg_id, UpdateSub sub_id (pick 30 (sc_tasks c))], c\<lparr>sc_last_heartbeat := now\<rparr>)
      | None \<Rightarrow> ([AckSub sub_id msg_id], c\<lparr>sc_end := Some EmptyMessage\<rparr>))"

text \<open>
  After an error on the stream, or ten seconds without a heartbeat, the subscription is opened anew with all awaited
  tasks.
\<close>

definition resubscribe :: "string \<Rightarrow> ProofId \<Rightarrow> channel \<Rightarrow> channel \<Rightarrow> SubscriberClient \<Rightarrow> Rpc" where
  "resubscribe sub_id proof_id tx outer_tx c = OpenSub sub_id proof_id (sc_tasks c) tx outer_tx"

definition on_reopen :: "SystemTime \<Rightarrow> bool \<Rightarrow> SubscriberClient \<Rightarrow> SubscriberClient" where
  "on_reopen now success c = (if success then c\<lparr>sc_last_heartbeat := now\<rparr> else c\<lparr>sc_end := Some ReopenFailed\<rparr>)"

definition on_tick :: "SystemTime \<Rightarrow> bool \<Rightarrow> SubscriberClient \<Rightarrow> SubscriberClient" where
  "on_tick now success c = (if now - sc_last_heartbeat c > from_secs 10 then on_reopen now success c else c)"

text \<open>The reader and the passing task, in any order.\<close>

inductive subscriber_run :: "SubscriberClient \<Rightarrow> bool" where
  sub_start: "subscriber_run (subscriber_new now)"
| sub_add: "subscriber_run c \<Longrightarrow> \<not> sc_closed c \<Longrightarrow> subscriber_run (snd (subscribe_task sub_id t c))"
| sub_close: "subscriber_run c \<Longrightarrow> subscriber_run (close_input c)"
| sub_head: "subscriber_run c \<Longrightarrow> sc_end c = None \<Longrightarrow> subscriber_run (loop_head c)"
| sub_message: "subscriber_run c \<Longrightarrow> sc_end c = None \<Longrightarrow> subscriber_run (snd (on_sub_message pick now sub_id msg_id message c))"
| sub_error: "subscriber_run c \<Longrightarrow> sc_end c = None \<Longrightarrow> subscriber_run (on_reopen now success c)"
| sub_tick: "subscriber_run c \<Longrightarrow> sc_end c = None \<Longrightarrow> subscriber_run (on_tick now success c)"

lemma awaited_or_delivered: "subscriber_run c \<Longrightarrow> set (sc_added c) \<subseteq> set (sc_tasks c) \<union> fst ` set (sc_results c)"
proof (induction rule: subscriber_run.induct)
  case (sub_message c pick now sub_id msg_id message)
  then show ?case by (auto simp: on_sub_message_def deliver_def split: option.splits ServerSubMessage.splits)
qed (auto simp: subscriber_new_def subscribe_task_def close_input_def loop_head_def on_reopen_def on_tick_def)

text \<open>The reader that ends because all is done has delivered everything, since nothing is added once the input is closed.\<close>

lemma all_done_delivered:
  "subscriber_run c \<Longrightarrow> sc_end c = Some AllDone \<Longrightarrow> sc_closed c \<and> sc_tasks c = []"
proof (induction rule: subscriber_run.induct)
  case (sub_message c pick now sub_id msg_id message)
  then show ?case by (auto simp: on_sub_message_def deliver_def split: option.splits ServerSubMessage.splits)
qed (auto simp: subscriber_new_def subscribe_task_def close_input_def loop_head_def on_reopen_def on_tick_def split: if_splits)

text \<open>What the coordinator does with the request that opens the subscription anew.\<close>

lemma opened_again:
  assumes "\<And>sub. map_of (c_subscribers (ws_coordinator s)) sub_id = Some sub \<Longrightarrow> sb_proof_id sub = p" and "t \<in> set ts"
  shows "sub_at (ws_coordinator (snd (rpc_open_sub cx sub_id p ts tx outer_tx s))) sub_id outer_tx"
    and "(outer_tx, UnknownTask p t) \<in> set (c_sub_wire (ws_coordinator (snd (rpc_open_sub cx sub_id p ts tx outer_tx s)))) \<or>
      was_told outer_tx t (ws_coordinator (snd (rpc_open_sub cx sub_id p ts tx outer_tx s))) \<or>
      waits_for (c_state (ws_coordinator (snd (rpc_open_sub cx sub_id p ts tx outer_tx s)))) p t sub_id"
proof -
  let ?c = "ws_coordinator s"
  let ?sub = "case map_of (c_subscribers ?c) sub_id of
      Some sub \<Rightarrow> sub\<lparr>sb_tx := outer_tx, sb_last_update := cx_now cx\<rparr>
    | None \<Rightarrow> \<lparr>sb_tx = outer_tx, sb_active_subscriptions = [], sb_proof_id = p, sb_last_update = cx_now cx\<rparr>"
  let ?c1 = "?c\<lparr>c_subscribers := hm_insert sub_id ?sub (c_subscribers ?c)\<rparr>"
  let ?c2 = "?c1\<lparr>c_subscribers := hm_insert sub_id (touch_subscription (cx_now cx) ts ?sub) (c_subscribers ?c1)\<rparr>"
  have sub: "sb_tx ?sub = outer_tx" "sb_proof_id ?sub = p" using assms(1) by (auto split: option.splits)
  have c: "ws_coordinator (snd (rpc_open_sub cx sub_id p ts tx outer_tx s)) = register_subscription sub_id outer_tx p ts ?c2"
    using assms(2) sub
    by (auto simp: rpc_open_sub_def create_subscriber_def add_subscriptions_def Let_def split: prod.splits option.splits)
  show "sub_at (ws_coordinator (snd (rpc_open_sub cx sub_id p ts tx outer_tx s))) sub_id outer_tx"
    unfolding c using sub(1) by (auto simp: sub_at_def register_subscription_def touch_subscription_def split: prod.splits)
  show "(outer_tx, UnknownTask p t) \<in> set (c_sub_wire (ws_coordinator (snd (rpc_open_sub cx sub_id p ts tx outer_tx s)))) \<or>
      was_told outer_tx t (ws_coordinator (snd (rpc_open_sub cx sub_id p ts tx outer_tx s))) \<or>
      waits_for (c_state (ws_coordinator (snd (rpc_open_sub cx sub_id p ts tx outer_tx s)))) p t sub_id"
    unfolding c by (rule register_complete [OF assms(2)])
qed

end
