(* ===== verification/Worker_Tasks.thy ===== *)
theory Worker_Tasks
  imports Worker_Client Decimal
begin

text \<open>
  The worker library (\<open>crates/worker/src\<close>, \<open>crates/common/src/consts.rs\<close>): the weight of a task and the weight a host
  can take, where the host runs, and the processing of one task, whose outcome is reported to the coordinator.

  The prover is outside of the sources: the answers of its engine are the fields of \<open>Engine\<close>.  Tracing, metrics and
  logging are left out.  Text is a sequence of bytes in UTF-8; \<open>JSON\<close> is a parameter.
\<close>

section \<open>Weights\<close>

text \<open>The settings behind the weights, with the defaults of \<open>consts.rs\<close>.\<close>

record Weights =
  we_controller :: nat
  we_groth16_wrap :: nat
  we_plonk_wrap :: nat
  we_execute_only :: nat
  we_core_execute :: nat

definition default_weights :: Weights where
  "default_weights = \<lparr>we_controller = 1, we_groth16_wrap = 14, we_plonk_wrap = 60, we_execute_only = 4, we_core_execute = 8\<rparr>"

fun task_weight :: "Weights \<Rightarrow> TaskType \<Rightarrow> nat" where
  "task_weight w UnspecifiedTaskType = 0"
| "task_weight w Controller = we_controller w"
| "task_weight w ProveShard = 4"
| "task_weight w RecursionDeferred = 3"
| "task_weight w RecursionReduce = 3"
| "task_weight w ShrinkWrap = 4"
| "task_weight w SetupVkey = 1"
| "task_weight w MarkerDeferredRecord = 0"
| "task_weight w PlonkWrap = we_plonk_wrap w"
| "task_weight w Groth16Wrap = we_groth16_wrap w"
| "task_weight w UtilVkeyMapChunk = 2"
| "task_weight w UtilVkeyMapController = 2"
| "task_weight w ExecuteOnly = we_execute_only w"
| "task_weight w CoreExecute = we_core_execute w"

section \<open>The capacity of a host\<close>

definition parse_cgroup_v2 :: "string \<Rightarrow> nat option" where
  "parse_cgroup_v2 content = (let s = trim content in if s = ''max'' then None else parse_uint 64 s)"

definition parse_cgroup_v1 :: "string \<Rightarrow> nat option" where
  "parse_cgroup_v1 content =
     (case parse_uint 64 (trim content) of None \<Rightarrow> None | Some v \<Rightarrow> if 2 ^ 50 \<le> v then None else Some v)"

text \<open>The contents of the two control files, \<open>None\<close> where a file cannot be read.\<close>

definition cgroup_memory_limit_bytes :: "string option \<Rightarrow> string option \<Rightarrow> nat option" where
  "cgroup_memory_limit_bytes v2 v1 =
     (case Option.bind v2 parse_cgroup_v2 of
        Some v \<Rightarrow> Some v
      | None \<Rightarrow> Option.bind v1 parse_cgroup_v1)"

text \<open>The memory of the host is given in kilobytes.\<close>

definition total_memory_gb :: "nat option \<Rightarrow> nat option \<Rightarrow> nat" where
  "total_memory_gb limit mem_info =
     (case limit of
        Some b \<Rightarrow> b
      | None \<Rightarrow> (case mem_info of Some t \<Rightarrow> (t * 1024) mod 2 ^ 64 | None \<Rightarrow> 0)) div (1024 * 1024 * 1024)"

definition dev_shm_gb :: "(nat \<times> nat) option \<Rightarrow> nat option" where
  "dev_shm_gb stat =
     (case stat of
        None \<Rightarrow> None
      | Some (f_blocks, f_frsize) \<Rightarrow>
          (if f_frsize = 0 \<or> f_blocks = 0 then None
           else Some (saturating_mul 64 f_blocks f_frsize div 1024 div 1024 div 1024)))"

definition compute_max_weight :: "nat \<Rightarrow> nat option \<Rightarrow> nat option \<Rightarrow> nat" where
  "compute_max_weight total_ram_gb shm_gb override_weight =
     (case override_weight of
        Some max_weight \<Rightarrow> max_weight
      | None \<Rightarrow>
          (case shm_gb of
             Some shm \<Rightarrow> (if shm = 0 then 0 else if shm < total_ram_gb then shm else total_ram_gb)
           | None \<Rightarrow> total_ram_gb))"

definition get_max_weight :: "string option \<Rightarrow> string option \<Rightarrow> nat option \<Rightarrow> (nat \<times> nat) option \<Rightarrow> nat option \<Rightarrow> nat" where
  "get_max_weight v2 v1 mem_info shm override_weight =
     compute_max_weight (total_memory_gb (cgroup_memory_limit_bytes v2 v1) mem_info) (dev_shm_gb shm) override_weight"

text \<open>A printed limit is read back, with the line break the kernel writes.\<close>

lemma trim_line [simp]: "trim (show_nat n @ [CHR 0x0A]) = show_nat n"
proof -
  have "dropWhile is_space (show_nat n @ [CHR 0x0A]) = show_nat n @ [CHR 0x0A]"
    using show_nat_no_space [of "hd (show_nat n)" n] by (cases "show_nat n") auto
  moreover have "dropWhile is_space (rev (show_nat n)) = rev (show_nat n)"
    using show_nat_no_space [of "hd (rev (show_nat n))" n] by (cases "rev (show_nat n)") (auto simp: rev_swap)
  ultimately show ?thesis by (simp add: trim_def is_space_def)
qed

lemma cgroup_limits:
  "n < 2 ^ 64 \<Longrightarrow> parse_cgroup_v2 (show_nat n @ [CHR 0x0A]) = Some n"
  "n < 2 ^ 64 \<Longrightarrow> parse_cgroup_v1 (show_nat n @ [CHR 0x0A]) = (if n < 2 ^ 50 then Some n else None)"
proof -
  have "show_nat n \<noteq> ''max''" using show_nat_chars [of n] by auto
  then show "n < 2 ^ 64 \<Longrightarrow> parse_cgroup_v2 (show_nat n @ [CHR 0x0A]) = Some n"
    by (simp add: parse_cgroup_v2_def Let_def)
  show "n < 2 ^ 64 \<Longrightarrow> parse_cgroup_v1 (show_nat n @ [CHR 0x0A]) = (if n < 2 ^ 50 then Some n else None)"
    by (simp add: parse_cgroup_v1_def)
qed

lemma max_weight_limit:
  "n < 2 ^ 64 \<Longrightarrow> get_max_weight (Some (show_nat n @ [CHR 0x0A])) v1 mem_info shm None = compute_max_weight (n div 2 ^ 30) (dev_shm_gb shm) None"
  using cgroup_limits(1) by (simp add: get_max_weight_def cgroup_memory_limit_bytes_def total_memory_gb_def)

text \<open>Without an override the weight never exceeds a limit of the control group, nor the shared memory.\<close>

lemma max_weight_fits:
  assumes "n < 2 ^ 64"
  shows "get_max_weight (Some (show_nat n @ [CHR 0x0A])) v1 mem_info shm None * 2 ^ 30 \<le> n"
    and "shm = Some (b, f) \<Longrightarrow> 0 < b \<Longrightarrow> 0 < f \<Longrightarrow>
      get_max_weight (Some (show_nat n @ [CHR 0x0A])) v1 mem_info shm None * 2 ^ 30 \<le> b * f"
proof -
  let ?w = "get_max_weight (Some (show_nat n @ [CHR 0x0A])) v1 mem_info shm None"
  have w: "?w = compute_max_weight (n div 2 ^ 30) (dev_shm_gb shm) None"
    by (rule max_weight_limit [OF assms])
  then have "?w \<le> n div 2 ^ 30" by (auto simp: compute_max_weight_def split: option.splits)
  then show "?w * 2 ^ 30 \<le> n" using div_times_less_eq_dividend [of n "2 ^ 30"] mult_le_mono1 [of ?w "n div 2 ^ 30" "2 ^ 30"] by linarith
  assume s: "shm = Some (b, f)" "0 < b" "0 < f"
  then have "dev_shm_gb shm = Some (saturating_mul 64 b f div 2 ^ 30)" by (simp add: dev_shm_gb_def div_mult2_eq [symmetric])
  with w have "?w \<le> saturating_mul 64 b f div 2 ^ 30" by (auto simp: compute_max_weight_def split: if_splits)
  then have "?w * 2 ^ 30 \<le> saturating_mul 64 b f"
    using div_times_less_eq_dividend [of "saturating_mul 64 b f" "2 ^ 30"]
      mult_le_mono1 [of ?w "saturating_mul 64 b f div 2 ^ 30" "2 ^ 30"] by linarith
  then show "?w * 2 ^ 30 \<le> b * f" by (simp add: saturating_mul_def)
qed

section \<open>Where a worker runs\<close>

definition rsplit_once :: "char \<Rightarrow> string \<Rightarrow> (string \<times> string) option" where
  "rsplit_once sep s =
     (if sep \<in> set s
      then Some (rev (tl (dropWhile (\<lambda>c. c \<noteq> sep) (rev s))), rev (takeWhile (\<lambda>c. c \<noteq> sep) (rev s)))
      else None)"

definition task_id_of_arn :: "string \<Rightarrow> string" where
  "task_id_of_arn task_arn = (case rsplit_once CHR ''/'' task_arn of Some (a, i) \<Rightarrow> i | None \<Rightarrow> task_arn)"

text \<open>The fields of the name are an iterator: the first, then the third after it, then two more.\<close>

definition region_of_arn :: "string \<Rightarrow> string option" where
  "region_of_arn task_arn =
     (case split_on CHR '':'' task_arn of
        arn # a # b # r # c # d # rest \<Rightarrow> (if arn = ''arn'' \<and> r \<noteq> [] then Some r else None)
      | _ \<Rightarrow> None)"

definition resolve_location :: "string option \<Rightarrow> string option \<Rightarrow> string option" where
  "resolve_location from_task_arn ambient = List.find (\<lambda>r. r \<noteq> []) (option_list from_task_arn @ option_list ambient)"

text \<open>The identity \<open>NodeConfig::load\<close> settles on: the id, the location and the cluster.  \<open>random_id\<close> is the id without metadata.\<close>

definition load_identity :: "(string \<times> string) option \<Rightarrow> string option \<Rightarrow> string \<Rightarrow> string \<times> string option \<times> string" where
  "load_identity ecs_task_info ambient random_id =
     (case ecs_task_info of
        Some (cluster, task_arn) \<Rightarrow> (task_id_of_arn task_arn, resolve_location (region_of_arn task_arn) ambient, cluster)
      | None \<Rightarrow> (random_id, resolve_location None ambient, ''unknown''))"

lemma split_on_not_Nil: "split_on sep s \<noteq> []"
  by (induction s) (auto split: list.splits)

lemma split_on_append: "sep \<notin> set s \<Longrightarrow> split_on sep (s @ sep # r) = s # split_on sep r"
  by (induction s) auto

text \<open>A well-formed name gives its region and its last segment, also when the resource has colons of its own.\<close>

lemma arn_parts:
  assumes "CHR '':'' \<notin> set (part @ service @ r @ account)" and "r \<noteq> []" and "CHR ''/'' \<notin> set i"
  shows "region_of_arn (''arn:'' @ part @ '':'' @ service @ '':'' @ r @ '':'' @ account @ '':'' @ resource) = Some r"
    and "task_id_of_arn (path @ ''/'' @ i) = i"
proof -
  obtain d rest where res: "split_on CHR '':'' resource = d # rest" using split_on_not_Nil by (metis neq_Nil_conv)
  have "split_on CHR '':'' (''arn:'' @ part @ '':'' @ service @ '':'' @ r @ '':'' @ account @ '':'' @ resource) =
      ''arn'' # part # service # r # account # d # rest"
    using assms(1) split_on_append [of "CHR '':''" "''arn''"] by (simp add: split_on_append res)
  with assms(2) show "region_of_arn (''arn:'' @ part @ '':'' @ service @ '':'' @ r @ '':'' @ account @ '':'' @ resource) = Some r"
    by (simp add: region_of_arn_def)
  have "takeWhile (\<lambda>c. c \<noteq> CHR ''/'') (rev i @ CHR ''/'' # rev path) = rev i"
    using assms(3) by (subst takeWhile_append2) auto
  then show "task_id_of_arn (path @ ''/'' @ i) = i" by (simp add: task_id_of_arn_def rsplit_once_def)
qed

section \<open>Chunks and tree layers\<close>

text \<open>The loop of \<open>chunk_vec\<close> does not end for a chunk size of zero.\<close>

partial_function (option) chunk_loop :: "nat \<Rightarrow> 'a list \<Rightarrow> 'a list list \<Rightarrow> 'a list list option" where
  [code]: "chunk_loop chunk_size vec result =
     (if vec = [] then Some result
      else chunk_loop chunk_size (drop (min chunk_size (length vec)) vec) (result @ [take (min chunk_size (length vec)) vec]))"

definition chunk_vec :: "'a list \<Rightarrow> nat \<Rightarrow> 'a list list option" where
  "chunk_vec vec chunk_size = chunk_loop chunk_size vec []"

lemma chunk_loop_ends:
  "0 < n \<Longrightarrow> \<exists>cs. chunk_loop n vec acc = Some (acc @ cs) \<and> concat cs = vec \<and>
     (\<forall>c \<in> set cs. c \<noteq> [] \<and> length c \<le> n) \<and> (\<forall>c \<in> set (butlast cs). length c = n)"
proof (induction vec arbitrary: acc rule: length_induct)
  case (1 vec)
  show ?case
  proof (cases "vec = []")
    case True
    then show ?thesis by (subst chunk_loop.simps) (auto intro!: exI [of _ "[]"])
  next
    case False
    let ?c = "take (min n (length vec)) vec" and ?r = "drop (min n (length vec)) vec"
    have "length ?r < length vec" using False \<open>0 < n\<close> by auto
    from 1(1) [rule_format, OF this 1(2), of "acc @ [?c]"] obtain cs where
      cs: "chunk_loop n ?r (acc @ [?c]) = Some (acc @ ?c # cs)" "concat cs = ?r"
        "\<forall>c \<in> set cs. c \<noteq> [] \<and> length c \<le> n" "\<forall>c \<in> set (butlast cs). length c = n" by auto
    have full: "length ?c = n" if "cs \<noteq> []"
    proof -
      from that cs(3) have "concat cs \<noteq> []" by (cases cs) auto
      with cs(2) show ?thesis by (auto simp: min_def split: if_splits)
    qed
    have "chunk_loop n vec acc = Some (acc @ ?c # cs)" using False cs(1) by (subst chunk_loop.simps) simp
    moreover have "?c \<noteq> []" "length ?c \<le> n" using False \<open>0 < n\<close> by auto
    ultimately show ?thesis using cs(2-4) full by (intro exI [of _ "?c # cs"]) (auto simp: append_take_drop_id)
  qed
qed

lemma chunk_loop_zero: "chunk_loop n vec acc = Some r \<Longrightarrow> n \<noteq> 0 \<or> vec = []"
proof (erule chunk_loop.raw_induct [rotated])
  fix loop :: "nat \<Rightarrow> 'a list \<Rightarrow> 'a list list \<Rightarrow> 'a list list option" and n vec acc y
  assume IH: "\<And>n vec acc y. loop n vec acc = Some y \<Longrightarrow> n \<noteq> 0 \<or> vec = []"
    and run: "(if vec = [] then Some acc
      else loop n (drop (min n (length vec)) vec) (acc @ [take (min n (length vec)) vec])) = Some y"
  show "n \<noteq> 0 \<or> vec = []"
  proof (cases "vec = []")
    case False
    with run have "loop n (drop (min n (length vec)) vec) (acc @ [take (min n (length vec)) vec]) = Some y" by simp
    from IH [OF this] False show ?thesis by (cases n) auto
  qed simp
qed

text \<open>One layer: half of the nodes, an odd one is set aside and joins the next odd layer.\<close>

definition layer_step :: "nat \<times> bool \<Rightarrow> nat \<times> bool" where
  "layer_step s =
     (let width = fst s div 2
      in if odd width then if snd s then (width + 1, False) else if width > 1 then (width - 1, True) else (width, snd s)
         else (width, snd s))"

definition get_tree_layer_size :: "nat \<Rightarrow> nat \<Rightarrow> nat" where
  "get_tree_layer_size leaf_count layer =
     fst ((layer_step ^^ layer) (if leaf_count > 1 \<and> odd leaf_count then (leaf_count - 1, True) else (leaf_count, False)))"

text \<open>The nodes that are left before a layer, counting the one set aside.\<close>

fun nodes_left :: "nat \<Rightarrow> nat \<Rightarrow> nat" where
  "nodes_left leaf_count 0 = leaf_count"
| "nodes_left leaf_count (Suc k) = (if nodes_left leaf_count k \<le> 1 then 0 else (nodes_left leaf_count k + 1) div 2)"

definition set_aside :: "nat \<Rightarrow> nat \<times> bool" where
  "set_aside n = (if n > 1 \<and> odd n then (n - 1, True) else (n, False))"

lemma layer_step_aside: "layer_step (set_aside n) = set_aside (if n \<le> 1 then 0 else (n + 1) div 2)"
proof (cases "n \<le> 1")
  case True
  then have "n = 0 \<or> n = 1" by auto
  then show ?thesis by (auto simp: layer_step_def set_aside_def)
next
  case False
  show ?thesis
  proof (cases "odd n")
    case True
    then obtain k where "n = 2 * k + 1" by (rule oddE)
    with False show ?thesis by (auto simp: layer_step_def set_aside_def Let_def)
  next
    case even: False
    then obtain k where "n = 2 * k" by auto
    with False show ?thesis by (auto simp: layer_step_def set_aside_def Let_def)
  qed
qed

lemma tree_layer: "get_tree_layer_size n k = fst (set_aside (nodes_left n k))"
proof -
  have "(layer_step ^^ k) (set_aside n) = set_aside (nodes_left n k)"
    by (induction k) (simp_all add: layer_step_aside)
  then show ?thesis by (simp add: get_tree_layer_size_def set_aside_def)
qed

lemma layer_merges: "nodes_left n k > 1 \<Longrightarrow> nodes_left n (Suc k) + get_tree_layer_size n k div 2 = nodes_left n k"
  unfolding tree_layer set_aside_def by (auto elim: oddE evenE)

lemma nodes_left_shift: "1 < n \<Longrightarrow> nodes_left n (Suc k) = nodes_left ((n + 1) div 2) k"
  by (induction k) simp_all

lemma root_reached: "0 < n \<Longrightarrow> \<exists>k. nodes_left n k = 1 \<and> (\<forall>j < k. nodes_left n j > 1)"
proof (induction n rule: less_induct)
  case (less n)
  show ?case
  proof (cases "n = 1")
    case True
    then show ?thesis by (intro exI [of _ 0]) simp
  next
    case False
    with less.prems have n: "1 < n" by simp
    then have "(n + 1) div 2 < n" "0 < (n + 1) div 2" by auto
    from less.IH [OF this] obtain k where k: "nodes_left ((n + 1) div 2) k = 1" "\<forall>j < k. nodes_left ((n + 1) div 2) j > 1" by blast
    have "\<forall>j < Suc k. nodes_left n j > 1"
    proof (intro allI impI)
      fix j assume "j < Suc k"
      then show "nodes_left n j > 1" using n k(2) nodes_left_shift [OF n] by (cases j) auto
    qed
    with k(1) nodes_left_shift [OF n, of k] show ?thesis by metis
  qed
qed

lemma merges_so_far:
  "\<forall>j < k. nodes_left n j > 1 \<Longrightarrow> nodes_left n k + (\<Sum>j<k. get_tree_layer_size n j div 2) = n"
proof (induction k)
  case (Suc k)
  then show ?case using layer_merges [of n k] by simp
qed simp

text \<open>All leaves are joined: up to the root, the pairs of the layers are one less than the leaves.\<close>

lemma tree_joins_all:
  assumes "0 < n"
  obtains k where "get_tree_layer_size n k = 1" and "(\<Sum>j<k. get_tree_layer_size n j div 2) = n - 1"
    and "\<And>j. j < k \<Longrightarrow> get_tree_layer_size n j > 1 \<and> even (get_tree_layer_size n j)" and "\<And>j. k < j \<Longrightarrow> get_tree_layer_size n j = 0"
proof -
  from root_reached [OF assms] obtain k where k: "nodes_left n k = 1" "\<forall>j < k. nodes_left n j > 1" by blast
  have zero: "nodes_left n (Suc (k + j)) = 0" for j by (induction j) (simp_all add: k(1))
  show ?thesis
  proof (rule that [of k])
    show "get_tree_layer_size n k = 1" by (simp add: tree_layer set_aside_def k(1))
    show "(\<Sum>j<k. get_tree_layer_size n j div 2) = n - 1" using merges_so_far [OF k(2)] k(1) by simp
    show "get_tree_layer_size n j > 1 \<and> even (get_tree_layer_size n j)" if "j < k" for j
      using k(2) that by (auto simp: tree_layer set_aside_def elim!: oddE)
    show "get_tree_layer_size n j = 0" if "k < j" for j
    proof -
      from that obtain i where "j = Suc (k + i)" using less_imp_Suc_add by blast
      with zero [of i] show ?thesis by (simp add: tree_layer set_aside_def del: nodes_left.simps)
    qed
  qed
qed

section \<open>Executing only\<close>

text \<open>One more than the limit, since the executor stops at the limit; the largest value stays.\<close>

definition max_cycles :: "nat option \<Rightarrow> nat option" where
  "max_cycles cycle_limit =
     (case cycle_limit of None \<Rightarrow> None | Some c \<Rightarrow> if c \<noteq> 0 then Some (saturating_add 64 c 1) else None)"

definition FAILURE_MESSAGE_MAX :: nat where
  "FAILURE_MESSAGE_MAX = 2048"

definition is_char_boundary :: "string \<Rightarrow> nat \<Rightarrow> bool" where
  "is_char_boundary s i =
     (i = 0 \<or> i = length s \<or> i < length s \<and> \<not> (let b = of_char (s ! i) :: nat in 128 \<le> b \<and> b < 192))"

fun cut_back :: "string \<Rightarrow> nat \<Rightarrow> nat" where
  "cut_back s 0 = 0"
| "cut_back s (Suc n) = (if is_char_boundary s (Suc n) then Suc n else cut_back s n)"

definition bound_failure_message :: "string \<Rightarrow> string" where
  "bound_failure_message message =
     (if length message \<le> FAILURE_MESSAGE_MAX then message else take (cut_back message FAILURE_MESSAGE_MAX) message)"

definition stderr_failure_message :: "string \<Rightarrow> string option" where
  "stderr_failure_message stderr = (if trim stderr = [] then None else Some (bound_failure_message stderr))"

lemma cut_back_boundary:
  "cut_back s n \<le> n" "is_char_boundary s (cut_back s n)" "cut_back s n < i \<Longrightarrow> i \<le> n \<Longrightarrow> \<not> is_char_boundary s i"
  by (induction n) (auto simp: is_char_boundary_def le_Suc_eq split: if_splits)

lemma bounded_message:
  "length (bound_failure_message s) \<le> FAILURE_MESSAGE_MAX"
  "\<exists>n. bound_failure_message s = take n s \<and> is_char_boundary s n \<and> (n < length s \<longrightarrow> (\<forall>i. n < i \<and> i \<le> FAILURE_MESSAGE_MAX \<longrightarrow> \<not> is_char_boundary s i))"
proof -
  show "length (bound_failure_message s) \<le> FAILURE_MESSAGE_MAX"
    using cut_back_boundary(1) [of s FAILURE_MESSAGE_MAX] by (auto simp: bound_failure_message_def)
  show "\<exists>n. bound_failure_message s = take n s \<and> is_char_boundary s n \<and> (n < length s \<longrightarrow> (\<forall>i. n < i \<and> i \<le> FAILURE_MESSAGE_MAX \<longrightarrow> \<not> is_char_boundary s i))"
  proof (cases "length s \<le> FAILURE_MESSAGE_MAX")
    case True
    then show ?thesis by (intro exI [of _ "length s"]) (simp add: bound_failure_message_def is_char_boundary_def)
  next
    case False
    then show ?thesis
      using cut_back_boundary(2,3) [of s FAILURE_MESSAGE_MAX] by (intro exI [of _ "cut_back s FAILURE_MESSAGE_MAX"]) (auto simp: bound_failure_message_def)
  qed
qed

text \<open>The errors of the executor the source tells apart, and the causes the network knows.\<close>

datatype ExecutorError =
    ExceededCycleLimit
  | InvalidMemoryAccess
  | UnsupportedSyscall
  | Breakpoint
  | InvalidSyscallUsage
  | ExecUnimplemented
  | OtherExecutionError

datatype ExecuteFailureCause =
    CauseExceededCycleLimit
  | CauseInvalidMemoryAccess
  | CauseUnsupportedSyscall
  | CauseBreakpoint
  | CauseInvalidSyscallUsage
  | CauseUnimplemented
  | HaltWithNonZeroExitCode
  | UnspecifiedExecutionFailureCause

fun execution_fail_cause :: "ExecutorError \<Rightarrow> ExecuteFailureCause" where
  "execution_fail_cause ExceededCycleLimit = CauseExceededCycleLimit"
| "execution_fail_cause InvalidMemoryAccess = CauseInvalidMemoryAccess"
| "execution_fail_cause UnsupportedSyscall = CauseUnsupportedSyscall"
| "execution_fail_cause Breakpoint = CauseBreakpoint"
| "execution_fail_cause InvalidSyscallUsage = CauseInvalidSyscallUsage"
| "execution_fail_cause ExecUnimplemented = CauseUnimplemented"
| "execution_fail_cause OtherExecutionError = UnspecifiedExecutionFailureCause"

record ExecutionReport =
  xr_exit_code :: nat
  xr_instruction_count :: nat
  xr_gas :: "nat option"

text \<open>The numbers of the messages, and their printing: a result alone, and as an object to which fields are added.\<close>

datatype JsonField = JsonText string | JsonNumber nat

record Wire =
  wr_executed :: int
  wr_failed :: int
  wr_unspecified_cause :: int
  wr_cause :: "ExecuteFailureCause \<Rightarrow> int"
  wr_print_result :: "ExecutionResult \<Rightarrow> string anyhow"
  wr_print_fields :: "ExecutionResult \<Rightarrow> (string \<times> JsonField) list \<Rightarrow> string anyhow"
  wr_proving_failure :: "TaskType \<Rightarrow> string \<Rightarrow> string"

text \<open>What an execution gives: the public values and the report, or an error with its text.\<close>

type_synonym execution = "(ExecutorError \<times> string) + (nat list \<times> ExecutionReport)"

definition execution_outcome :: "Wire \<Rightarrow> string \<Rightarrow> execution \<Rightarrow> ExecutionResult \<times> string option \<times> nat option" where
  "execution_outcome w stderr x =
     (case x of
        Inr (hash, report) \<Rightarrow>
          (if xr_exit_code report = 0
           then (\<lparr>er_status = wr_executed w, er_failure_cause = wr_unspecified_cause w, er_cycles = xr_instruction_count report,
                  er_gas = (case xr_gas report of None \<Rightarrow> 0 | Some g \<Rightarrow> g), er_public_values_hash = hash\<rparr>, None, None)
           else (\<lparr>er_status = wr_failed w, er_failure_cause = wr_cause w HaltWithNonZeroExitCode,
                  er_cycles = xr_instruction_count report, er_gas = (case xr_gas report of None \<Rightarrow> 0 | Some g \<Rightarrow> g),
                  er_public_values_hash = []\<rparr>, stderr_failure_message stderr, Some (xr_exit_code report)))
      | Inl (e, text) \<Rightarrow>
          (\<lparr>er_status = wr_failed w, er_failure_cause = wr_cause w (execution_fail_cause e), er_cycles = 0, er_gas = 0,
            er_public_values_hash = []\<rparr>, Some (bound_failure_message text), None))"

definition build_execute_extra_data :: "Wire \<Rightarrow> ExecutionResult \<Rightarrow> string option \<Rightarrow> nat option \<Rightarrow> string anyhow" where
  "build_execute_extra_data w result failure_message exit_code =
     (if failure_message = None \<and> exit_code = None then wr_print_result w result
      else wr_print_fields w result
             (map (\<lambda>m. (''failure_message'', JsonText m)) (option_list failure_message) @
              map (\<lambda>c. (''exit_code'', JsonNumber c)) (option_list exit_code)))"

section \<open>Processing a task\<close>

datatype TaskError =
    TeRetryable string
  | TeFatal string
  | TeExecution string

type_synonym 'a task_result = "TaskError + 'a"

record WorkerMetadata =
  wm_gpu_ms :: "nat option"

definition default_metadata :: WorkerMetadata where
  "default_metadata = \<lparr>wm_gpu_ms = None\<rparr>"

definition worker_task_to_raw_task_request :: "TaskData \<Rightarrow> RawTaskRequest" where
  "worker_task_to_raw_task_request task =
     \<lparr>rt_inputs = td_inputs task, rt_outputs = td_outputs task,
      rt_context = \<lparr>cx_proof_id = td_proof_id task, cx_parent_id = td_parent_id task, cx_requester_id = td_requester task\<rparr>\<rparr>"

text \<open>
  The prover.  A submitted piece of work fails when it is submitted, or its task is lost, or it gives a result.  The
  execution is given the program and the input, downloaded, and the limit of cycles; a program that cannot be read
  panics (\<open>None\<close>).
\<close>

type_synonym submitted = "(string + WorkerMetadata task_result) task_result"

record Engine =
  en_controller :: "RawTaskRequest \<Rightarrow> unit task_result"
  en_vkey_controller :: "RawTaskRequest \<Rightarrow> unit task_result"
  en_core_execute :: "TaskId \<Rightarrow> RawTaskRequest \<Rightarrow> unit task_result"
  en_prove_shard :: "RawTaskRequest \<Rightarrow> submitted"
  en_recover_shard :: "RawTaskRequest \<Rightarrow> WorkerMetadata task_result \<Rightarrow> WorkerMetadata task_result"
  en_prove_deferred :: "RawTaskRequest \<Rightarrow> submitted"
  en_recursion_reduce :: "RawTaskRequest \<Rightarrow> submitted"
  en_recover :: "RawTaskRequest \<Rightarrow> WorkerMetadata task_result \<Rightarrow> WorkerMetadata task_result"
  en_shrink_wrap :: "RawTaskRequest \<Rightarrow> WorkerMetadata task_result"
  en_plonk :: "RawTaskRequest \<Rightarrow> unit task_result"
  en_groth16 :: "RawTaskRequest \<Rightarrow> unit task_result"
  en_setup :: "TaskId \<Rightarrow> string \<Rightarrow> string \<Rightarrow> string + string + WorkerMetadata task_result"
  en_vkey_chunk :: "RawTaskRequest \<Rightarrow> unit task_result"
  en_execute_inputs :: "string list \<Rightarrow> (nat option) task_result"
  en_execute :: "string list \<Rightarrow> nat option \<Rightarrow> (execution \<times> string) option task_result"
  en_from_anyhow :: "string \<Rightarrow> TaskError"
  en_metadata_ok :: "string \<Rightarrow> bool"
  en_wire :: Wire

definition await_work :: "string \<Rightarrow> submitted \<Rightarrow> (WorkerMetadata task_result) task_result" where
  "await_work what s =
     (case s of
        Inl e \<Rightarrow> Inl e
      | Inr (Inl lost) \<Rightarrow> Inl (TeFatal (what @ lost))
      | Inr (Inr r) \<Rightarrow> Inr r)"

definition without_value :: "unit task_result \<Rightarrow> WorkerMetadata task_result" where
  "without_value r = (case r of Inl e \<Rightarrow> Inl e | Inr _ \<Rightarrow> Inr default_metadata)"

definition process_sp1_prove_shard :: "Engine \<Rightarrow> TaskData \<Rightarrow> WorkerMetadata task_result" where
  "process_sp1_prove_shard en data =
     (let raw = worker_task_to_raw_task_request data
      in case await_work ''failed to execute prove shard: '' (en_prove_shard en raw) of
           Inl e \<Rightarrow> Inl e
         | Inr r \<Rightarrow> en_recover_shard en raw r)"

definition process_sp1_recursion_deferred_batch :: "Engine \<Rightarrow> TaskData \<Rightarrow> WorkerMetadata task_result" where
  "process_sp1_recursion_deferred_batch en data =
     (case await_work ''failed to execute prove deferred batch: ''
             (en_prove_deferred en (worker_task_to_raw_task_request data)) of
        Inl e \<Rightarrow> Inl e
      | Inr r \<Rightarrow> r)"

definition process_sp1_recursion_reduce_batch :: "Engine \<Rightarrow> TaskData \<Rightarrow> WorkerMetadata task_result" where
  "process_sp1_recursion_reduce_batch en data =
     (let raw = worker_task_to_raw_task_request data
      in case await_work ''failed to execute recursion reduce batch: '' (en_recursion_reduce en raw) of
           Inl e \<Rightarrow> Inl e
         | Inr r \<Rightarrow> en_recover en raw r)"

text \<open>A task without an input or an output panics.\<close>

definition process_sp1_setup_vkey :: "Engine \<Rightarrow> TaskId \<Rightarrow> TaskData \<Rightarrow> WorkerMetadata task_result option" where
  "process_sp1_setup_vkey en task_id data =
     (case (td_inputs data, td_outputs data) of
        (i # is, out # os) \<Rightarrow>
          Some (case en_setup en task_id i out of
                  Inl e \<Rightarrow> Inl (TeFatal (''failed to submit setup: '' @ e))
                | Inr (Inl e) \<Rightarrow> Inl (TeFatal (''failed to wait for setup: '' @ e))
                | Inr (Inr r) \<Rightarrow> r)
      | _ \<Rightarrow> None)"

text \<open>\<open>answer\<close> is the error of the call that completes the proof, if it fails.\<close>

definition process_sp1_controller ::
  "Engine \<Rightarrow> string option \<Rightarrow> TaskId \<Rightarrow> TaskData \<Rightarrow> Rpc list \<times> WorkerMetadata task_result" where
  "process_sp1_controller en answer task_id data =
     (if td_inputs data = [] then ([], Inl (TeFatal ''no inputs for task''))
      else case en_controller en (worker_task_to_raw_task_request data) of
             Inl e \<Rightarrow> ([], Inl e)
           | Inr _ \<Rightarrow>
               ([complete_proof_request (td_proof_id data) (Some task_id) True []],
                case answer of None \<Rightarrow> Inr default_metadata | Some e \<Rightarrow> Inl (en_from_anyhow en e)))"

definition process_sp1_generate_vk_controller :: "Engine \<Rightarrow> TaskData \<Rightarrow> WorkerMetadata task_result" where
  "process_sp1_generate_vk_controller en data =
     (if td_inputs data = [] then Inl (TeFatal ''no inputs for task'')
      else without_value (en_vkey_controller en (worker_task_to_raw_task_request data)))"

definition process_sp1_execute_only ::
  "Engine \<Rightarrow> string option \<Rightarrow> TaskId \<Rightarrow> TaskData \<Rightarrow> (Rpc list \<times> WorkerMetadata task_result) option" where
  "process_sp1_execute_only en answer task_id data =
     (if td_inputs data = [] then Some ([], Inr default_metadata)
      else case en_execute_inputs en (td_inputs data) of
             Inl e \<Rightarrow> Some ([], Inl e)
           | Inr cycle_limit \<Rightarrow>
               (case en_execute en (td_inputs data) (max_cycles cycle_limit) of
                  Inl e \<Rightarrow> Some ([], Inl e)
                | Inr None \<Rightarrow> None
                | Inr (Some (x, stderr)) \<Rightarrow>
                    (let (result, failure_message, exit_code) = execution_outcome (en_wire en) stderr x
                     in case build_execute_extra_data (en_wire en) result failure_message exit_code of
                          Inl e \<Rightarrow> Some ([], Inl (TeFatal e))
                        | Inr extra \<Rightarrow>
                            Some ([complete_proof_request (td_proof_id data) (Some task_id)
                                     (er_status result = wr_executed (en_wire en)) extra],
                                  case answer of None \<Rightarrow> Inr default_metadata | Some e \<Rightarrow> Inl (en_from_anyhow en e)))))"

fun process_task ::
  "Engine \<Rightarrow> string option \<Rightarrow> TaskId \<Rightarrow> TaskData \<Rightarrow> TaskType \<Rightarrow> (Rpc list \<times> WorkerMetadata task_result) option" where
  "process_task en answer i data Controller = Some (process_sp1_controller en answer i data)"
| "process_task en answer i data ProveShard = Some ([], process_sp1_prove_shard en data)"
| "process_task en answer i data RecursionDeferred = Some ([], process_sp1_recursion_deferred_batch en data)"
| "process_task en answer i data RecursionReduce = Some ([], process_sp1_recursion_reduce_batch en data)"
| "process_task en answer i data ShrinkWrap = Some ([], en_shrink_wrap en (worker_task_to_raw_task_request data))"
| "process_task en answer i data SetupVkey = map_option (Pair []) (process_sp1_setup_vkey en i data)"
| "process_task en answer i data PlonkWrap = Some ([], without_value (en_plonk en (worker_task_to_raw_task_request data)))"
| "process_task en answer i data Groth16Wrap = Some ([], without_value (en_groth16 en (worker_task_to_raw_task_request data)))"
| "process_task en answer i data UtilVkeyMapController = Some ([], process_sp1_generate_vk_controller en data)"
| "process_task en answer i data UtilVkeyMapChunk = Some ([], without_value (en_vkey_chunk en (worker_task_to_raw_task_request data)))"
| "process_task en answer i data MarkerDeferredRecord = Some ([], Inr default_metadata)"
| "process_task en answer i data CoreExecute = Some ([], without_value (en_core_execute en i (worker_task_to_raw_task_request data)))"
| "process_task en answer i data ExecuteOnly = process_sp1_execute_only en answer i data"
| "process_task en answer i data UnspecifiedTaskType = Some ([], Inr default_metadata)"

text \<open>\<open>try_unclaim_proof\<close>: the proof is failed, with the reason.  An error of this call is only logged.\<close>

definition try_unclaim_proof :: "Wire \<Rightarrow> ProofId \<Rightarrow> TaskId option \<Rightarrow> TaskType \<Rightarrow> string \<Rightarrow> Rpc" where
  "try_unclaim_proof w proof_id task_id ty reason =
     complete_proof_request proof_id task_id False (wr_proving_failure w ty reason)"

text \<open>What the spawned task ends with, as seen by whoever waits for it.\<close>

datatype JoinResult =
    JoinOk TaskStatus "WorkerMetadata option"
  | JoinCancelled
  | JoinPanicked

definition run_task :: "Engine \<Rightarrow> string option \<Rightarrow> TaskId \<Rightarrow> TaskData \<Rightarrow> Rpc list \<times> JoinResult" where
  "run_task en answer task_id data =
     (if \<not> en_metadata_ok en (td_metadata data) then ([], JoinPanicked)
      else case process_task en answer task_id data (td_task_type data) of
             None \<Rightarrow> ([], JoinPanicked)
           | Some (calls, Inr metadata) \<Rightarrow> (calls, JoinOk Succeeded (Some metadata))
           | Some (calls, Inl (TeRetryable e)) \<Rightarrow> (calls, JoinOk FailedRetryable None)
           | Some (calls, Inl (TeFatal e)) \<Rightarrow>
               (calls @ [try_unclaim_proof (en_wire en) (td_proof_id data) (Some task_id) (td_task_type data) e], JoinOk FailedFatal None)
           | Some (calls, Inl (TeExecution e)) \<Rightarrow>
               (calls @ [try_unclaim_proof (en_wire en) (td_proof_id data) (Some task_id) (td_task_type data) e], JoinOk Succeeded None))"

end
