(* ===== verification/Node.thy ===== *)
theory Node
  imports Worker_Tasks
begin

text \<open>
  A worker node (\<open>bin/node/src/lib.rs\<close>, \<open>heartbeat.rs\<close>): the main loop that takes tasks from the coordinator, the
  spawned work and reporter of each task, the watchdog that aborts and fails overdue work, draining at the end, and the
  heartbeats.

  Everything runs concurrently.  A step goes from one await of a task to the next; the main loop is in a phase while it
  waits inside an arm.  \<open>nd_executions\<close> is the runtime: for each spawned work its result, if it has ended, whether it was
  asked to abort, and how far its reporter is.  \<open>nd_calls\<close> records the requests sent and is not in the source, nor are
  the ghost fields \<open>ex_report\<close>, \<open>ex_cancelled\<close> and \<open>ex_wedged\<close>.
\<close>

section \<open>Reports\<close>

datatype Report =
    ReportComplete WorkerMetadata
  | ReportFail bool
  | ReportNothing

fun report_for :: "JoinResult \<Rightarrow> bool \<Rightarrow> Report" where
  "report_for (JoinOk Succeeded (Some metadata)) timed_out = ReportComplete metadata"
| "report_for (JoinOk Succeeded None) timed_out = ReportFail False"
| "report_for (JoinOk status metadata) timed_out = ReportFail (status = FailedRetryable)"
| "report_for JoinCancelled timed_out = (if timed_out then ReportFail True else ReportNothing)"
| "report_for JoinPanicked timed_out = ReportFail False"

section \<open>State\<close>

text \<open>The pair of ids under which an entry is kept.\<close>

datatype task_key = TaskKey (tk_proof: ProofId) (tk_task: TaskId)

record ActiveTask =
  ac_data :: TaskData
  ac_started_at :: Instant
  ac_work :: nat

datatype ReporterState =
    RpWaiting
  | RpReporting Report
  | RpFinished
  | RpPanicked

record Execution =
  ex_key :: task_key
  ex_result :: "JoinResult option"
  ex_abort :: bool
  ex_aborted_at :: "Instant option"
  ex_reporter :: ReporterState
  ex_report :: "Report option"
  ex_cancelled :: bool
  ex_wedged :: bool

record NodeConfig =
  nc_worker_id :: WorkerId
  nc_task_timeout :: Duration
  nc_drain_timeout :: Duration

text \<open>Where the main loop waits.\<close>

datatype LoopPhase =
    Idle
  | Entering task_key TaskData nat
  | Closing
  | Reopening
  | Scanning
  | Sweeping "task_key list" "task_key list" "task_key list" "task_key list"

datatype NodeExit =
    Drained
  | DrainTimedOut
  | ChannelSilent

record WedgedJob =
  wj_closed :: bool
  wj_left :: "task_key list"

record Node =
  nd_tasks :: "(task_key, ActiveTask) hash_map"
  nd_executions :: "(nat, Execution) hash_map"
  nd_in_flight :: nat
  nd_jobs :: "WedgedJob list"
  nd_close_acked :: bool
  nd_phase :: LoopPhase
  nd_last_heartbeat :: Instant
  nd_last_progress :: Instant
  nd_last_tick :: Instant
  nd_closed :: bool
  nd_drain_started_at :: "Instant option"
  nd_exit :: "NodeExit option"
  nd_calls :: "Rpc list"

definition Node_new :: "Instant \<Rightarrow> Node" where
  "Node_new now =
     \<lparr>nd_tasks = [], nd_executions = [], nd_in_flight = 0, nd_jobs = [], nd_close_acked = False, nd_phase = Idle,
      nd_last_heartbeat = now, nd_last_progress = now, nd_last_tick = now, nd_closed = False, nd_drain_started_at = None,
      nd_exit = None, nd_calls = []\<rparr>"

abbreviation on_execution :: "nat \<Rightarrow> (Execution \<Rightarrow> Execution) \<Rightarrow> Node \<Rightarrow> Node" where
  "on_execution w f st \<equiv> st\<lparr>nd_executions := hm_modify w f (nd_executions st)\<rparr>"

definition fail_call :: "NodeConfig \<Rightarrow> task_key \<Rightarrow> bool \<Rightarrow> Rpc" where
  "fail_call cfg key retryable = FailTask (nc_worker_id cfg) (tk_proof key) (tk_task key) retryable"

section \<open>Work and reporters\<close>

text \<open>The work ends; only work that was asked to abort ends as cancelled.\<close>

definition work_ends :: "nat \<Rightarrow> JoinResult \<Rightarrow> Node \<Rightarrow> Node" where
  "work_ends w r = on_execution w (\<lambda>e. e\<lparr>ex_result := Some r\<rparr>)"

text \<open>The reporter has awaited the work and decides what it owes the coordinator.  With nothing to report it returns.\<close>

definition decide :: "Execution \<Rightarrow> Execution" where
  "decide e =
     (case ex_result e of
        None \<Rightarrow> e
      | Some r \<Rightarrow>
          (let report = report_for r (ex_aborted_at e \<noteq> None)
           in e\<lparr>ex_report := Some report, ex_reporter := (if report = ReportNothing then RpFinished else RpReporting report)\<rparr>))"

definition reporter_decides :: "nat \<Rightarrow> Node \<Rightarrow> Node" where
  "reporter_decides w st =
     (case map_of (nd_executions st) w of
        None \<Rightarrow> st
      | Some e \<Rightarrow>
          (let st1 = on_execution w decide st
           in if ex_reporter (decide e) = RpFinished then st1\<lparr>nd_in_flight := nd_in_flight st - 1\<rparr> else st1))"

definition drop_if_current :: "task_key \<Rightarrow> nat \<Rightarrow> (task_key, ActiveTask) hash_map \<Rightarrow> (task_key, ActiveTask) hash_map" where
  "drop_if_current key work_id tasks =
     (case map_of tasks key of
        None \<Rightarrow> tasks
      | Some active \<Rightarrow> (if ac_work active = work_id then hm_remove key tasks else tasks))"

definition report_call :: "NodeConfig \<Rightarrow> (WorkerMetadata \<Rightarrow> string) \<Rightarrow> task_key \<Rightarrow> Report \<Rightarrow> Rpc list" where
  "report_call cfg json key report =
     (case report of
        ReportComplete m \<Rightarrow> [CompleteTask (nc_worker_id cfg) (tk_proof key) (tk_task key) (json m)]
      | ReportFail retryable \<Rightarrow> [fail_call cfg key retryable]
      | ReportNothing \<Rightarrow> [])"

text \<open>The call has returned, with success or after its last retry; the entry is dropped and the reporter ends.\<close>

definition reporter_ends :: "NodeConfig \<Rightarrow> (WorkerMetadata \<Rightarrow> string) \<Rightarrow> nat \<Rightarrow> Node \<Rightarrow> Node" where
  "reporter_ends cfg json w st =
     (case map_of (nd_executions st) w of
        Some e \<Rightarrow>
          (case ex_reporter e of
             RpReporting report \<Rightarrow>
               (on_execution w (\<lambda>e. e\<lparr>ex_reporter := RpFinished\<rparr>) st)
                 \<lparr>nd_calls := nd_calls st @ report_call cfg json (ex_key e) report,
                  nd_tasks := drop_if_current (ex_key e) w (nd_tasks st), nd_in_flight := nd_in_flight st - 1\<rparr>
           | _ \<Rightarrow> st)
      | None \<Rightarrow> st)"

text \<open>A reporter that panics is counted off as well.\<close>

definition reporter_panics :: "nat \<Rightarrow> Node \<Rightarrow> Node" where
  "reporter_panics w st = (on_execution w (\<lambda>e. e\<lparr>ex_reporter := RpPanicked\<rparr>) st)\<lparr>nd_in_flight := nd_in_flight st - 1\<rparr>"

section \<open>Reports of wedged work\<close>

definition job_closes :: "NodeConfig \<Rightarrow> nat \<Rightarrow> bool \<Rightarrow> Node \<Rightarrow> Node" where
  "job_closes cfg j acked st =
     st\<lparr>nd_jobs := (nd_jobs st)[j := (nd_jobs st ! j)\<lparr>wj_closed := True\<rparr>],
        nd_calls := nd_calls st @ (if nd_close_acked st then [] else [Close (nc_worker_id cfg)]),
        nd_close_acked := nd_close_acked st \<or> acked\<rparr>"

definition job_fails :: "NodeConfig \<Rightarrow> nat \<Rightarrow> Node \<Rightarrow> Node" where
  "job_fails cfg j st =
     (case wj_left (nd_jobs st ! j) of
        key # keys \<Rightarrow>
          st\<lparr>nd_jobs := (nd_jobs st)[j := (nd_jobs st ! j)\<lparr>wj_left := keys\<rparr>],
             nd_calls := nd_calls st @ [fail_call cfg key True]\<rparr>
      | [] \<Rightarrow> st)"

definition job_ends :: "nat \<Rightarrow> Node \<Rightarrow> Node" where
  "job_ends j st =
     st\<lparr>nd_jobs := take j (nd_jobs st) @ drop (Suc j) (nd_jobs st), nd_in_flight := nd_in_flight st - 1\<rparr>"

section \<open>Messages from the coordinator\<close>

definition on_new_task :: "Instant \<Rightarrow> nat \<Rightarrow> TaskId \<Rightarrow> TaskData \<Rightarrow> Node \<Rightarrow> Node" where
  "on_new_task now w task_id data st =
     (let key = TaskKey (td_proof_id data) task_id; st1 = st\<lparr>nd_last_progress := now\<rparr>
      in if nd_closed st then st1
         else if map_of (nd_tasks st) key \<noteq> None then st1
         else st1\<lparr>nd_executions := hm_insert w \<lparr>ex_key = key, ex_result = None, ex_abort = False, ex_aborted_at = None,
                      ex_reporter = RpWaiting, ex_report = None, ex_cancelled = False, ex_wedged = False\<rparr> (nd_executions st),
                  nd_in_flight := nd_in_flight st + 1, nd_phase := Entering key data w\<rparr>)"

text \<open>Work and reporter may have run before the entry is made.\<close>

definition insert_entry :: "Instant \<Rightarrow> Node \<Rightarrow> Node" where
  "insert_entry now st =
     (case nd_phase st of
        Entering key data w \<Rightarrow>
          st\<lparr>nd_tasks := hm_insert key \<lparr>ac_data = data, ac_started_at = now, ac_work = w\<rparr> (nd_tasks st), nd_phase := Idle\<rparr>
      | _ \<Rightarrow> st)"

definition on_cancel_task :: "Instant \<Rightarrow> task_key \<Rightarrow> Node \<Rightarrow> Node" where
  "on_cancel_task now key st =
     (let st1 = st\<lparr>nd_last_progress := now\<rparr>
      in case map_of (nd_tasks st) key of
           None \<Rightarrow> st1
         | Some active \<Rightarrow>
             (on_execution (ac_work active) (\<lambda>e. e\<lparr>ex_abort := True, ex_cancelled := True\<rparr>) st1)
               \<lparr>nd_tasks := hm_remove key (nd_tasks st)\<rparr>)"

section \<open>Heartbeats\<close>

definition HEARTBEAT_INTERVAL :: Duration where
  "HEARTBEAT_INTERVAL = from_secs 5"

definition HEARTBEAT_RPC_TIMEOUT :: Duration where
  "HEARTBEAT_RPC_TIMEOUT = from_secs 3"

definition BEATS_STALE_AFTER :: Duration where
  "BEATS_STALE_AFTER = from_secs 10"

type_synonym BeatClock = "Instant option"

definition record_beat :: "Instant \<Rightarrow> bool \<Rightarrow> BeatClock" where
  "record_beat now landed = (if landed then Some now else None)"

definition is_stale :: "Instant \<Rightarrow> BeatClock \<Rightarrow> bool" where
  "is_stale now clock = (case clock of None \<Rightarrow> True | Some last_ok \<Rightarrow> now - last_ok > BEATS_STALE_AFTER)"

fun beat_fields :: "(task_key \<times> ActiveTask) list \<Rightarrow> ProofId list \<times> TaskId list \<times> nat" where
  "beat_fields [] = ([], [], 0)"
| "beat_fields ((key, active) # entries) =
     (let (ps, ts, n) = beat_fields entries
      in (tk_proof key # ps, tk_task key # ts, u32_add (td_weight (ac_data active)) n))"

definition build_heartbeat_request :: "WorkerId \<Rightarrow> (task_key, ActiveTask) hash_map \<Rightarrow> Rpc" where
  "build_heartbeat_request worker_id tasks =
     (case beat_fields tasks of (ps, ts, n) \<Rightarrow> Heartbeat worker_id ps ts n)"

text \<open>The outcome of the call: \<open>None\<close> when it did not return in time.\<close>

definition beat_landed :: "Status option option \<Rightarrow> bool" where
  "beat_landed outcome = (outcome = Some None)"

text \<open>One pass of the dedicated thread.\<close>

definition beat :: "NodeConfig \<Rightarrow> Instant \<Rightarrow> Status option option \<Rightarrow> Node \<Rightarrow> BeatClock \<times> Node" where
  "beat cfg now outcome st =
     (record_beat now (beat_landed outcome),
      st\<lparr>nd_calls := nd_calls st @ [build_heartbeat_request (nc_worker_id cfg) (nd_tasks st)]\<rparr>)"

definition on_server_heartbeat :: "NodeConfig \<Rightarrow> Instant \<Rightarrow> BeatClock \<Rightarrow> Node \<Rightarrow> Node" where
  "on_server_heartbeat cfg now clock st =
     st\<lparr>nd_last_progress := now, nd_last_heartbeat := now,
        nd_calls := nd_calls st @
          (if is_stale now clock then [build_heartbeat_request (nc_worker_id cfg) (nd_tasks st)] else [])\<rparr>"

definition on_empty_message :: "Instant \<Rightarrow> Node \<Rightarrow> Node" where
  "on_empty_message now st = st\<lparr>nd_last_progress := now\<rparr>"

text \<open>The delivery stream has ended; \<open>success\<close> says whether a new one could be opened.\<close>

definition on_channel_closed :: "Instant \<Rightarrow> bool \<Rightarrow> Node \<Rightarrow> Node" where
  "on_channel_closed now success st =
     (if success then st\<lparr>nd_last_heartbeat := now\<rparr> else st\<lparr>nd_last_progress := now\<rparr>)"

section \<open>The watchdog\<close>

definition MAX_CHANNEL_SILENCE :: Duration where
  "MAX_CHANNEL_SILENCE = from_secs 45"

definition STALLED_TICK_GAP :: Duration where
  "STALLED_TICK_GAP = from_secs 15"

definition ABORT_GRACE :: Duration where
  "ABORT_GRACE = from_secs 10"

datatype TimeoutAction = Leave | AbortWork | ReportWedged

definition timeout_action :: "Instant \<Rightarrow> ActiveTask \<Rightarrow> Execution \<Rightarrow> Duration \<Rightarrow> Duration \<Rightarrow> TimeoutAction" where
  "timeout_action now active e timeout grace =
     (if ex_result e \<noteq> None \<or> now - ac_started_at active \<le> timeout then Leave
      else case ex_aborted_at e of
             Some aborted_at \<Rightarrow> (if now - aborted_at > grace then ReportWedged else AbortWork)
           | None \<Rightarrow> AbortWork)"

text \<open>A tick, up to the point where the main loop may wait for a new stream.\<close>

definition watchdog_tick :: "NodeConfig \<Rightarrow> Instant \<Rightarrow> Node \<Rightarrow> Node" where
  "watchdog_tick cfg now st =
     (let woke_from_stall = now - nd_last_tick st > STALLED_TICK_GAP; st1 = st\<lparr>nd_last_tick := now\<rparr>
      in if nd_closed st \<and> nd_tasks st = [] \<and> nd_in_flight st = 0 then st1\<lparr>nd_exit := Some Drained\<rparr>
         else if (case nd_drain_started_at st of None \<Rightarrow> False | Some t \<Rightarrow> now - t > nc_drain_timeout cfg)
           then st1\<lparr>nd_exit := Some DrainTimedOut\<rparr>
         else if \<not> nd_closed st \<and> \<not> woke_from_stall \<and> now - nd_last_progress st > MAX_CHANNEL_SILENCE
           then st1\<lparr>nd_exit := Some ChannelSilent\<rparr>
         else if now - nd_last_heartbeat st > from_secs 10 then st1\<lparr>nd_phase := Reopening\<rparr>
         else st1\<lparr>nd_phase := Scanning\<rparr>)"

definition reopened :: "Instant \<Rightarrow> bool \<Rightarrow> Node \<Rightarrow> Node" where
  "reopened now success st =
     (if success then st\<lparr>nd_last_heartbeat := now, nd_phase := Scanning\<rparr>
      else st\<lparr>nd_last_progress := now, nd_phase := Idle\<rparr>)"

text \<open>How the scan classifies an entry.\<close>

definition reporter_done :: "Execution \<Rightarrow> bool" where
  "reporter_done e = (ex_reporter e = RpFinished \<or> ex_reporter e = RpPanicked)"

definition entry_action :: "NodeConfig \<Rightarrow> Instant \<Rightarrow> Node \<Rightarrow> ActiveTask \<Rightarrow> TimeoutAction option" where
  "entry_action cfg now st active =
     (case map_of (nd_executions st) (ac_work active) of
        None \<Rightarrow> Some Leave
      | Some e \<Rightarrow>
          (if reporter_done e then None else Some (timeout_action now active e (nc_task_timeout cfg) ABORT_GRACE)))"

definition scanned :: "NodeConfig \<Rightarrow> Instant \<Rightarrow> Node \<Rightarrow> TimeoutAction option \<Rightarrow> task_key list" where
  "scanned cfg now st x = map fst (filter (\<lambda>(key, active). entry_action cfg now st active = x) (nd_tasks st))"

definition scan :: "NodeConfig \<Rightarrow> Instant \<Rightarrow> Node \<Rightarrow> Node" where
  "scan cfg now st =
     st\<lparr>nd_phase := Sweeping (scanned cfg now st None) (scanned cfg now st (Some AbortWork)) (scanned cfg now st (Some ReportWedged)) []\<rparr>"

text \<open>The three loops over what the scan found, one entry at a time.\<close>

definition sweep_panicked :: "NodeConfig \<Rightarrow> task_key \<Rightarrow> Node \<Rightarrow> Node" where
  "sweep_panicked cfg key st =
     (case map_of (nd_tasks st) key of
        None \<Rightarrow> st
      | Some active \<Rightarrow>
          st\<lparr>nd_tasks := hm_remove key (nd_tasks st),
             nd_calls := nd_calls st @
               (case map_of (nd_executions st) (ac_work active) of
                  Some e \<Rightarrow> (if ex_reporter e = RpPanicked then [fail_call cfg key False] else [])
                | None \<Rightarrow> [])\<rparr>)"

definition sweep_timed_out :: "Instant \<Rightarrow> task_key \<Rightarrow> Node \<Rightarrow> Node" where
  "sweep_timed_out now key st =
     (case map_of (nd_tasks st) key of
        None \<Rightarrow> st
      | Some active \<Rightarrow>
          on_execution (ac_work active)
            (\<lambda>e. e\<lparr>ex_aborted_at := (case ex_aborted_at e of None \<Rightarrow> Some now | Some t \<Rightarrow> Some t), ex_abort := True\<rparr>) st)"

definition sweep_wedged :: "task_key \<Rightarrow> Node \<Rightarrow> bool \<times> Node" where
  "sweep_wedged key st =
     (case map_of (nd_tasks st) key of
        None \<Rightarrow> (False, st)
      | Some active \<Rightarrow>
          (True, (on_execution (ac_work active) (\<lambda>e. e\<lparr>ex_abort := True, ex_wedged := True\<rparr>) st)
                   \<lparr>nd_tasks := hm_remove key (nd_tasks st)\<rparr>))"

text \<open>The end of a sweep: wedged work closes the node and is reported by a task of its own.\<close>

definition sweep_ends :: "Instant \<Rightarrow> task_key list \<Rightarrow> Node \<Rightarrow> Node" where
  "sweep_ends now wedged_reports st =
     (if wedged_reports = [] then st\<lparr>nd_phase := Idle\<rparr>
      else st\<lparr>nd_closed := True,
              nd_drain_started_at := (case nd_drain_started_at st of None \<Rightarrow> Some now | Some t \<Rightarrow> Some t),
              nd_in_flight := nd_in_flight st + 1,
              nd_jobs := nd_jobs st @ [\<lparr>wj_closed = False, wj_left = wedged_reports\<rparr>], nd_phase := Idle\<rparr>)"

definition sweep_next :: "NodeConfig \<Rightarrow> Instant \<Rightarrow> Node \<Rightarrow> Node" where
  "sweep_next cfg now st =
     (case nd_phase st of
        Sweeping (key # ps) ts ws r \<Rightarrow> (sweep_panicked cfg key st)\<lparr>nd_phase := Sweeping ps ts ws r\<rparr>
      | Sweeping [] (key # ts) ws r \<Rightarrow> (sweep_timed_out now key st)\<lparr>nd_phase := Sweeping [] ts ws r\<rparr>
      | Sweeping [] [] (key # ws) r \<Rightarrow>
          (let (removed, st1) = sweep_wedged key st
           in st1\<lparr>nd_phase := Sweeping [] [] ws (if removed then r @ [key] else r)\<rparr>)
      | Sweeping [] [] [] r \<Rightarrow> sweep_ends now r st
      | _ \<Rightarrow> st)"

section \<open>The end of the worker\<close>

definition on_token_cancelled :: "Instant \<Rightarrow> Node \<Rightarrow> Node" where
  "on_token_cancelled now st = st\<lparr>nd_closed := True, nd_drain_started_at := Some now, nd_phase := Closing\<rparr>"

definition close_returns :: "NodeConfig \<Rightarrow> bool \<Rightarrow> Node \<Rightarrow> Node" where
  "close_returns cfg acked st =
     (let st1 = st\<lparr>nd_calls := nd_calls st @ [Close (nc_worker_id cfg)], nd_close_acked := nd_close_acked st \<or> acked, nd_phase := Idle\<rparr>
      in if nd_tasks st = [] \<and> nd_in_flight st = 0 then st1\<lparr>nd_exit := Some Drained\<rparr> else st1)"

end
