(* ===== verification/Node_Inv.thy ===== *)
theory Node_Inv
  imports Node
begin

text \<open>
  The node as a state machine and its invariant: every execution is covered by an entry of the map, was cancelled by
  the coordinator, or has been answered for; and the counter of reporters in flight is exact.
\<close>

section \<open>Steps\<close>

inductive node_step :: "NodeConfig \<Rightarrow> (WorkerMetadata \<Rightarrow> string) \<Rightarrow> Node \<Rightarrow> Node \<Rightarrow> bool"
  for cfg :: NodeConfig and json :: "WorkerMetadata \<Rightarrow> string" where
  ns_work: "map_of (nd_executions st) w = Some e \<Longrightarrow> ex_result e = None \<Longrightarrow> (r = JoinCancelled \<Longrightarrow> ex_abort e) \<Longrightarrow>
    node_step cfg json st (work_ends w r st)"
| ns_decide: "map_of (nd_executions st) w = Some e \<Longrightarrow> ex_reporter e = RpWaiting \<Longrightarrow> ex_result e \<noteq> None \<Longrightarrow>
    node_step cfg json st (reporter_decides w st)"
| ns_report: "map_of (nd_executions st) w = Some e \<Longrightarrow> ex_reporter e = RpReporting r \<Longrightarrow>
    node_step cfg json st (reporter_ends cfg json w st)"
| ns_panic: "map_of (nd_executions st) w = Some e \<Longrightarrow> \<not> reporter_done e \<Longrightarrow> node_step cfg json st (reporter_panics w st)"
| ns_job_close: "j < length (nd_jobs st) \<Longrightarrow> \<not> wj_closed (nd_jobs st ! j) \<Longrightarrow> node_step cfg json st (job_closes cfg j acked st)"
| ns_job_fail: "j < length (nd_jobs st) \<Longrightarrow> wj_closed (nd_jobs st ! j) \<Longrightarrow> node_step cfg json st (job_fails cfg j st)"
| ns_job_end: "j < length (nd_jobs st) \<Longrightarrow> wj_closed (nd_jobs st ! j) \<Longrightarrow> wj_left (nd_jobs st ! j) = [] \<Longrightarrow>
    node_step cfg json st (job_ends j st)"
| ns_beat: "node_step cfg json st (snd (beat cfg now outcome st))"
| ns_new_task: "nd_phase st = Idle \<Longrightarrow> map_of (nd_executions st) w = None \<Longrightarrow> node_step cfg json st (on_new_task now w t d st)"
| ns_insert: "nd_phase st = Entering k d w \<Longrightarrow> node_step cfg json st (insert_entry now st)"
| ns_cancel: "nd_phase st = Idle \<Longrightarrow> node_step cfg json st (on_cancel_task now k st)"
| ns_heartbeat: "nd_phase st = Idle \<Longrightarrow> node_step cfg json st (on_server_heartbeat cfg now clock st)"
| ns_empty: "nd_phase st = Idle \<Longrightarrow> node_step cfg json st (on_empty_message now st)"
| ns_stream: "nd_phase st = Idle \<Longrightarrow> node_step cfg json st (on_channel_closed now success st)"
| ns_tick: "nd_phase st = Idle \<Longrightarrow> node_step cfg json st (watchdog_tick cfg now st)"
| ns_reopened: "nd_phase st = Reopening \<Longrightarrow> node_step cfg json st (reopened now success st)"
| ns_scan: "nd_phase st = Scanning \<Longrightarrow> node_step cfg json st (scan cfg now st)"
| ns_sweep: "nd_phase st = Sweeping ps ts ws r \<Longrightarrow> node_step cfg json st (sweep_next cfg now st)"
| ns_token: "nd_phase st = Idle \<Longrightarrow> \<not> nd_closed st \<Longrightarrow> node_step cfg json st (on_token_cancelled now st)"
| ns_close: "nd_phase st = Closing \<Longrightarrow> node_step cfg json st (close_returns cfg acked st)"

inductive node_reachable :: "NodeConfig \<Rightarrow> (WorkerMetadata \<Rightarrow> string) \<Rightarrow> Node \<Rightarrow> bool"
  for cfg :: NodeConfig and json :: "WorkerMetadata \<Rightarrow> string" where
  node_init: "node_reachable cfg json (Node_new now)"
| node_next: "node_reachable cfg json st \<Longrightarrow> nd_exit st = None \<Longrightarrow> node_step cfg json st st' \<Longrightarrow> node_reachable cfg json st'"

section \<open>The invariant\<close>

text \<open>An execution is covered by its entry, or its entry is about to be made.\<close>

definition covered :: "Node \<Rightarrow> nat \<Rightarrow> Execution \<Rightarrow> bool" where
  "covered st w e \<longleftrightarrow>
     (\<exists>a. map_of (nd_tasks st) (ex_key e) = Some a \<and> ac_work a = w) \<or> (\<exists>d. nd_phase st = Entering (ex_key e) d w)"

definition wedged_pending :: "Node \<Rightarrow> task_key \<Rightarrow> bool" where
  "wedged_pending st k \<longleftrightarrow>
     (\<exists>ps ts ws r. nd_phase st = Sweeping ps ts ws r \<and> k \<in> set r) \<or> (\<exists>j \<in> set (nd_jobs st). k \<in> set (wj_left j))"

text \<open>What is known of an execution alone.\<close>

definition exec_ok :: "Execution \<Rightarrow> bool" where
  "exec_ok e \<longleftrightarrow>
     (ex_abort e \<longrightarrow> ex_cancelled e \<or> ex_aborted_at e \<noteq> None) \<and>
     (ex_result e = Some JoinCancelled \<longrightarrow> ex_abort e) \<and>
     (ex_reporter e = RpWaiting \<longrightarrow> ex_report e = None) \<and>
     (\<forall>r. ex_reporter e = RpReporting r \<longrightarrow> ex_report e = Some r \<and> r \<noteq> ReportNothing) \<and>
     (ex_reporter e = RpFinished \<longrightarrow> ex_report e \<noteq> None) \<and>
     (\<forall>r. ex_report e = Some r \<longrightarrow> (\<exists>res t. ex_result e = Some res \<and> r = report_for res t \<and> (t \<longrightarrow> ex_aborted_at e \<noteq> None))) \<and>
     (ex_report e = Some ReportNothing \<longrightarrow> ex_cancelled e) \<and>
     (ex_wedged e \<longrightarrow> ex_aborted_at e \<noteq> None)"

text \<open>And of its place in the node.\<close>

definition accounted :: "NodeConfig \<Rightarrow> (WorkerMetadata \<Rightarrow> string) \<Rightarrow> Node \<Rightarrow> nat \<Rightarrow> Execution \<Rightarrow> bool" where
  "accounted cfg json st w e \<longleftrightarrow>
     (\<forall>r. ex_reporter e = RpFinished \<longrightarrow> ex_report e = Some r \<longrightarrow> set (report_call cfg json (ex_key e) r) \<subseteq> set (nd_calls st)) \<and>
     (\<not> ex_cancelled e \<longrightarrow> \<not> ex_wedged e \<longrightarrow> ex_reporter e \<noteq> RpFinished \<longrightarrow>
        covered st w e \<or> ex_reporter e = RpPanicked \<and> fail_call cfg (ex_key e) False \<in> set (nd_calls st)) \<and>
     (ex_wedged e \<longrightarrow> wedged_pending st (ex_key e) \<or> fail_call cfg (ex_key e) True \<in> set (nd_calls st))"

definition executing :: "(nat, Execution) hash_map \<Rightarrow> task_key \<Rightarrow> nat \<Rightarrow> (Execution \<Rightarrow> bool) \<Rightarrow> bool" where
  "executing ex k w P \<longleftrightarrow> (\<exists>e. map_of ex w = Some e \<and> ex_key e = k \<and> \<not> ex_cancelled e \<and> \<not> ex_wedged e \<and> P e)"

definition entries_ok :: "Node \<Rightarrow> bool" where
  "entries_ok st \<longleftrightarrow> (\<forall>k a. map_of (nd_tasks st) k = Some a \<longrightarrow> executing (nd_executions st) k (ac_work a) (\<lambda>e. True))"

fun phase_ok :: "Node \<Rightarrow> LoopPhase \<Rightarrow> bool" where
  "phase_ok st (Entering k d w) \<longleftrightarrow> executing (nd_executions st) k w (\<lambda>e. True) \<and> map_of (nd_tasks st) k = None"
| "phase_ok st (Sweeping ps ts ws r) \<longleftrightarrow>
     (\<forall>k \<in> set ps. \<forall>a. map_of (nd_tasks st) k = Some a \<longrightarrow> executing (nd_executions st) k (ac_work a) reporter_done) \<and>
     (\<forall>k \<in> set ws. \<forall>a. map_of (nd_tasks st) k = Some a \<longrightarrow>
        executing (nd_executions st) k (ac_work a) (\<lambda>e. ex_aborted_at e \<noteq> None))"
| "phase_ok st _ \<longleftrightarrow> True"

definition live_reporters :: "(nat, Execution) hash_map \<Rightarrow> nat" where
  "live_reporters ex = sum_list (map (\<lambda>(w, e). if reporter_done e then 0 else 1) ex)"

definition node_inv :: "NodeConfig \<Rightarrow> (WorkerMetadata \<Rightarrow> string) \<Rightarrow> Node \<Rightarrow> bool" where
  "node_inv cfg json st \<longleftrightarrow>
     hm_wf (nd_tasks st) \<and> hm_wf (nd_executions st) \<and>
     nd_in_flight st = live_reporters (nd_executions st) + length (nd_jobs st) \<and>
     (\<forall>w e. map_of (nd_executions st) w = Some e \<longrightarrow> exec_ok e \<and> accounted cfg json st w e) \<and>
     entries_ok st \<and> phase_ok st (nd_phase st) \<and>
     (nd_exit st = Some Drained \<longrightarrow> nd_tasks st = [] \<and> nd_in_flight st = 0 \<and> nd_phase st = Idle)"

lemma node_invD:
  assumes "node_inv cfg json st"
  shows "hm_wf (nd_tasks st)" and "hm_wf (nd_executions st)"
    and "nd_in_flight st = live_reporters (nd_executions st) + length (nd_jobs st)"
    and "map_of (nd_executions st) w = Some e \<Longrightarrow> exec_ok e" and "map_of (nd_executions st) w = Some e \<Longrightarrow> accounted cfg json st w e"
    and "map_of (nd_tasks st) k = Some a \<Longrightarrow> executing (nd_executions st) k (ac_work a) (\<lambda>e. True)"
    and "phase_ok st (nd_phase st)"
  using assms unfolding node_inv_def entries_ok_def by blast+

lemma node_inv_drained:
  assumes "node_inv cfg json st" and "nd_exit st = Some Drained"
  shows "nd_tasks st = []" and "nd_in_flight st = 0" and "nd_phase st = Idle"
  using assms unfolding node_inv_def by auto

lemma node_invI:
  assumes "hm_wf (nd_tasks st)" and "hm_wf (nd_executions st)"
    and "nd_in_flight st = live_reporters (nd_executions st) + length (nd_jobs st)"
    and "\<And>w e. map_of (nd_executions st) w = Some e \<Longrightarrow> exec_ok e"
    and "\<And>w e. map_of (nd_executions st) w = Some e \<Longrightarrow> accounted cfg json st w e"
    and "\<And>k a. map_of (nd_tasks st) k = Some a \<Longrightarrow> executing (nd_executions st) k (ac_work a) (\<lambda>e. True)"
    and "phase_ok st (nd_phase st)"
    and "nd_exit st = Some Drained \<Longrightarrow> nd_tasks st = [] \<and> nd_in_flight st = 0 \<and> nd_phase st = Idle"
  shows "node_inv cfg json st"
  using assms unfolding node_inv_def entries_ok_def by blast

lemma accounted_mono:
  assumes "accounted cfg json st w e" and "set (nd_calls st) \<subseteq> set (nd_calls st')"
    and "covered st w e \<Longrightarrow> covered st' w e"
    and "wedged_pending st (ex_key e) \<Longrightarrow> wedged_pending st' (ex_key e) \<or> fail_call cfg (ex_key e) True \<in> set (nd_calls st')"
  shows "accounted cfg json st' w e"
  using assms unfolding accounted_def by (metis (no_types, lifting) in_mono subset_trans)

fun calm :: "LoopPhase \<Rightarrow> bool" where
  "calm (Entering k d w) = False"
| "calm (Sweeping ps ts ws r) = False"
| "calm _ = True"

text \<open>Steps that leave the work alone.\<close>

lemma node_inv_frame:
  assumes inv: "node_inv cfg json st"
    and same: "nd_tasks st' = nd_tasks st" "nd_executions st' = nd_executions st" "nd_in_flight st' = nd_in_flight st" "nd_jobs st' = nd_jobs st"
    and phase: "nd_phase st' = nd_phase st \<or> calm (nd_phase st) \<and> phase_ok st (nd_phase st')"
    and calls: "set (nd_calls st) \<subseteq> set (nd_calls st')"
    and ended: "nd_exit st' = Some Drained \<Longrightarrow> nd_tasks st = [] \<and> nd_in_flight st = 0 \<and> nd_phase st' = Idle"
  shows "node_inv cfg json st'"
proof -
  note d = node_invD [OF inv]
  have ok: "phase_ok st' p = phase_ok st p" for p by (cases p) (simp_all add: same)
  have "covered st w e \<Longrightarrow> covered st' w e" for w e
    using phase unfolding covered_def same by (metis calm.simps(1))
  moreover have "wedged_pending st k \<Longrightarrow> wedged_pending st' k" for k
    using phase unfolding wedged_pending_def same by (metis calm.simps(2))
  ultimately have acc: "accounted cfg json st' w e" if "map_of (nd_executions st) w = Some e" for w e
    using accounted_mono [OF d(5) [OF that] calls] by blast
  have "phase_ok st (nd_phase st')" using phase d(7) by auto
  with d(1-4,6) acc ended show ?thesis by (intro node_invI) (simp_all add: same ok)
qed

text \<open>Steps that change one execution, and at most drop its entry.\<close>

definition phase_le :: "LoopPhase \<Rightarrow> LoopPhase \<Rightarrow> bool" where
  "phase_le p p' \<longleftrightarrow> p' = p \<or>
     (\<exists>ps ts ws r ps' ts' ws' r'. p = Sweeping ps ts ws r \<and> p' = Sweeping ps' ts' ws' r' \<and>
        set ps' \<subseteq> set ps \<and> set ws' \<subseteq> set ws \<and> set r \<subseteq> set r')"

lemma phase_le_Entering [simp]: "phase_le (Entering k d w) p \<longleftrightarrow> p = Entering k d w"
  by (auto simp: phase_le_def)

lemma phase_le_SweepingD:
  "phase_le (Sweeping ps ts ws r) p \<Longrightarrow>
     \<exists>ps' ts' ws' r'. p = Sweeping ps' ts' ws' r' \<and> set ps' \<subseteq> set ps \<and> set ws' \<subseteq> set ws \<and> set r \<subseteq> set r'"
  by (auto simp: phase_le_def)

lemma wedged_pending_le:
  "wedged_pending st k \<Longrightarrow> phase_le (nd_phase st) (nd_phase st') \<Longrightarrow> nd_jobs st' = nd_jobs st \<Longrightarrow> wedged_pending st' k"
  unfolding wedged_pending_def by (auto dest!: phase_le_SweepingD) blast

lemma covered_le:
  assumes "covered st w e" and "phase_le (nd_phase st) (nd_phase st')"
    and "\<And>a. map_of (nd_tasks st) (ex_key e) = Some a \<Longrightarrow> ac_work a = w \<Longrightarrow> map_of (nd_tasks st') (ex_key e) = Some a"
  shows "covered st' w e"
  using assms unfolding covered_def by auto

lemma accounted_le:
  assumes "accounted cfg json st w e" and "phase_le (nd_phase st) (nd_phase st')" and "nd_jobs st' = nd_jobs st"
    and "set (nd_calls st) \<subseteq> set (nd_calls st')"
    and "\<And>a. map_of (nd_tasks st) (ex_key e) = Some a \<Longrightarrow> ac_work a = w \<Longrightarrow> map_of (nd_tasks st') (ex_key e) = Some a"
  shows "accounted cfg json st' w e"
proof (rule accounted_mono [OF assms(1,4)])
  show "covered st w e \<Longrightarrow> covered st' w e" by (rule covered_le [OF _ assms(2,5)])
  show "wedged_pending st (ex_key e) \<Longrightarrow> wedged_pending st' (ex_key e) \<or> fail_call cfg (ex_key e) True \<in> set (nd_calls st')"
    using wedged_pending_le [OF _ assms(2,3)] by blast
qed

lemma executing_modify:
  assumes "executing ex k w' P" and "map_of ex w = Some e" and "ex_key (f e) = ex_key e" and "P e \<Longrightarrow> P (f e)"
    and "w' = w \<Longrightarrow> ex_cancelled (f e) \<longrightarrow> ex_cancelled e" "w' = w \<Longrightarrow> ex_wedged (f e) \<longrightarrow> ex_wedged e"
  shows "executing (hm_modify w f ex) k w' P"
  using assms unfolding executing_def map_of_modify by (cases "w' = w") auto

lemma phase_ok_le:
  assumes ok: "phase_ok st p" and le: "phase_le p p'"
    and tasks: "\<And>k a. map_of (nd_tasks st') k = Some a \<Longrightarrow> map_of (nd_tasks st) k = Some a"
    and ins: "\<And>k d w. p = Entering k d w \<Longrightarrow> executing (nd_executions st) k w (\<lambda>e. True) \<Longrightarrow> executing (nd_executions st') k w (\<lambda>e. True)"
    and ex: "\<And>k a P. map_of (nd_tasks st') k = Some a \<Longrightarrow> P = reporter_done \<or> P = (\<lambda>e. ex_aborted_at e \<noteq> None) \<Longrightarrow>
      executing (nd_executions st) k (ac_work a) P \<Longrightarrow> executing (nd_executions st') k (ac_work a) P"
  shows "phase_ok st' p'"
proof (cases p)
  case (Entering k d w)
  with le have "p' = p" by (auto simp: phase_le_def)
  moreover have "map_of (nd_tasks st') k = None" using tasks [of k] ok Entering by (cases "map_of (nd_tasks st') k") auto
  ultimately show ?thesis using Entering ok ins by simp
next
  case (Sweeping ps ts ws r)
  with le obtain ps' ts' ws' r' where p': "p' = Sweeping ps' ts' ws' r'" "set ps' \<subseteq> set ps" "set ws' \<subseteq> set ws"
    by (auto simp: phase_le_def)
  have "executing (nd_executions st') k (ac_work a) reporter_done" if "k \<in> set ps'" "map_of (nd_tasks st') k = Some a" for k a
    using that ok Sweeping p'(2) tasks by (intro ex) auto
  moreover have "executing (nd_executions st') k (ac_work a) (\<lambda>e. ex_aborted_at e \<noteq> None)" if "k \<in> set ws'" "map_of (nd_tasks st') k = Some a" for k a
    using that ok Sweeping p'(3) tasks by (intro ex) auto
  ultimately show ?thesis using p'(1) by simp
qed (use le in \<open>auto simp: phase_le_def\<close>)

lemma node_inv_le:
  assumes inv: "node_inv cfg json st" "nd_exit st = None" and le: "phase_le (nd_phase st) p"
  shows "node_inv cfg json (st\<lparr>nd_phase := p\<rparr>)"
proof (rule node_invI)
  note d = node_invD [OF inv(1)]
  show "phase_ok (st\<lparr>nd_phase := p\<rparr>) (nd_phase (st\<lparr>nd_phase := p\<rparr>))" by (rule phase_ok_le [OF d(7)]) (simp_all add: le)
  show "accounted cfg json (st\<lparr>nd_phase := p\<rparr>) w e" if "map_of (nd_executions (st\<lparr>nd_phase := p\<rparr>)) w = Some e" for w e
    using that by (intro accounted_le [OF d(5)]) (simp_all add: le)
qed (use node_invD [OF inv(1)] inv(2) in \<open>simp_all\<close>)

lemma live_reporters_modify:
  assumes "hm_wf ex" and "map_of ex w = Some e"
  shows "live_reporters (hm_modify w f ex) + (if reporter_done e then 0 else 1) = live_reporters ex + (if reporter_done (f e) then 0 else 1)"
  using sum_entries_insert [OF assms, of "\<lambda>(w, e). if reporter_done e then 0 else 1" "f e"] assms(2)
  by (simp add: live_reporters_def hm_modify_def)

lemma node_inv_exec:
  assumes inv: "node_inv cfg json st" and e: "map_of (nd_executions st) w = Some e"
    and ex': "nd_executions st' = hm_modify w f (nd_executions st)" and jobs: "nd_jobs st' = nd_jobs st" and "nd_exit st' = None"
    and phase: "phase_le (nd_phase st) (nd_phase st')"
    and key: "ex_key (f e) = ex_key e" and ok: "exec_ok (f e)" and accounted': "accounted cfg json st' w (f e)"
    and keep: "reporter_done e \<Longrightarrow> reporter_done (f e)" "ex_aborted_at e \<noteq> None \<Longrightarrow> ex_aborted_at (f e) \<noteq> None"
    and flight: "nd_in_flight st' + (if reporter_done e then 0 else 1) = nd_in_flight st + (if reporter_done (f e) then 0 else 1)"
    and calls: "set (nd_calls st) \<subseteq> set (nd_calls st')" and wf: "hm_wf (nd_tasks st')"
    and tasks: "\<And>k a. map_of (nd_tasks st') k = Some a \<Longrightarrow> map_of (nd_tasks st) k = Some a"
      "\<And>k a. map_of (nd_tasks st) k = Some a \<Longrightarrow> ac_work a \<noteq> w \<Longrightarrow> map_of (nd_tasks st') k = Some a"
    and gone: "(ex_cancelled (f e) \<longrightarrow> ex_cancelled e) \<and> (ex_wedged (f e) \<longrightarrow> ex_wedged e) \<or>
      (\<forall>k a. map_of (nd_tasks st') k = Some a \<longrightarrow> ac_work a \<noteq> w) \<and> (\<forall>k d. nd_phase st \<noteq> Entering k d w)"
  shows "node_inv cfg json st'"
proof (rule node_invI)
  note d = node_invD [OF inv]
  have same: "executing (nd_executions st') k w' P" if "executing (nd_executions st) k w' P" "P e \<Longrightarrow> P (f e)"
    "w' = w \<Longrightarrow> (ex_cancelled (f e) \<longrightarrow> ex_cancelled e) \<and> (ex_wedged (f e) \<longrightarrow> ex_wedged e)" for k w' P
    unfolding ex' using that key by (intro executing_modify [OF _ e]) auto
  show "hm_wf (nd_tasks st')" by (rule wf)
  show "hm_wf (nd_executions st')" using d(2) by (simp add: ex')
  show "nd_in_flight st' = live_reporters (nd_executions st') + length (nd_jobs st')"
    using live_reporters_modify [OF d(2) e, of f] d(3) flight unfolding ex' jobs by (simp split: if_splits)
  show "executing (nd_executions st') k (ac_work a) (\<lambda>e. True)" if "map_of (nd_tasks st') k = Some a" for k a
    by (rule same [OF d(6) [OF tasks(1) [OF that]]]) (use gone that in blast)+
  show "phase_ok st' (nd_phase st')"
  proof (rule phase_ok_le [OF d(7) phase tasks(1)])
    fix k v w'
    assume "nd_phase st = Entering k v w'" and x: "executing (nd_executions st) k w' (\<lambda>e. True)"
    then show "executing (nd_executions st') k w' (\<lambda>e. True)" using gone by (intro same [OF x]) blast+
  next
    fix k a P
    assume t: "map_of (nd_tasks st') k = Some a" and P: "P = reporter_done \<or> P = (\<lambda>e. ex_aborted_at e \<noteq> None)"
      and x: "executing (nd_executions st) k (ac_work a) P"
    have "P e \<Longrightarrow> P (f e)" using P keep by blast
    then show "executing (nd_executions st') k (ac_work a) P" using gone t by (intro same [OF x]) blast+
  qed
  show "nd_exit st' = Some Drained \<Longrightarrow> nd_tasks st' = [] \<and> nd_in_flight st' = 0 \<and> nd_phase st' = Idle" using assms(5) by simp
  fix w' e'
  assume w': "map_of (nd_executions st') w' = Some e'"
  show "exec_ok e'" using w' ok e d(4) [of w'] by (auto simp: ex' map_of_modify split: if_splits)
  show "accounted cfg json st' w' e'"
  proof (cases "w' = w")
    case True
    with w' e accounted' show ?thesis by (simp add: ex' map_of_modify)
  next
    case False
    then have old: "map_of (nd_executions st) w' = Some e'" using w' by (simp add: ex' map_of_modify)
    show ?thesis using False by (intro accounted_le [OF d(5) [OF old] phase jobs calls]) (simp add: tasks(2))
  qed
qed

section \<open>Work and reporters\<close>

lemma live_reporters_pos: "hm_wf ex \<Longrightarrow> map_of ex w = Some e \<Longrightarrow> \<not> reporter_done e \<Longrightarrow> 0 < live_reporters ex"
  using sum_entries_remove [of ex w e "\<lambda>(w, e). if reporter_done e then 0 else (1 :: nat)"] by (simp add: live_reporters_def)

lemma accounted_same:
  assumes "accounted cfg json st w e" and "ex_key e' = ex_key e" "ex_reporter e' = ex_reporter e" "ex_report e' = ex_report e"
    "ex_cancelled e' = ex_cancelled e" "ex_wedged e' = ex_wedged e"
  shows "accounted cfg json st w e'"
  using assms unfolding accounted_def covered_def by simp

lemma exec_okD:
  assumes "exec_ok e"
  shows "ex_abort e \<Longrightarrow> ex_cancelled e \<or> ex_aborted_at e \<noteq> None" and "ex_result e = Some JoinCancelled \<Longrightarrow> ex_abort e"
    and "ex_reporter e = RpWaiting \<Longrightarrow> ex_report e = None"
    and "ex_reporter e = RpReporting r \<Longrightarrow> ex_report e = Some r \<and> r \<noteq> ReportNothing"
    and "ex_reporter e = RpFinished \<Longrightarrow> ex_report e \<noteq> None"
    and "ex_report e = Some r \<Longrightarrow> \<exists>res t. ex_result e = Some res \<and> r = report_for res t \<and> (t \<longrightarrow> ex_aborted_at e \<noteq> None)"
    and "ex_report e = Some ReportNothing \<Longrightarrow> ex_cancelled e" and "ex_wedged e \<Longrightarrow> ex_aborted_at e \<noteq> None"
  using assms unfolding exec_ok_def by blast+

lemma report_nothing: "report_for r t = ReportNothing \<Longrightarrow> r = JoinCancelled \<and> \<not> t"
  by (cases "(r, t)" rule: report_for.cases) (auto split: if_splits)

lemma inv_work_ends:
  assumes inv: "node_inv cfg json st" "nd_exit st = None" and e: "map_of (nd_executions st) w = Some e" "ex_result e = None"
    and r: "r = JoinCancelled \<Longrightarrow> ex_abort e"
  shows "node_inv cfg json (work_ends w r st)"
proof (rule node_inv_exec [OF inv(1) e(1), where f = "\<lambda>e. e\<lparr>ex_result := Some r\<rparr>"])
  note d = node_invD [OF inv(1)]
  have "ex_report e = None" using exec_okD(6) [OF d(4) [OF e(1)]] e(2) by fastforce
  then show "exec_ok (e\<lparr>ex_result := Some r\<rparr>)" using exec_okD [OF d(4) [OF e(1)]] r by (auto simp: exec_ok_def)
  have "accounted cfg json st w (e\<lparr>ex_result := Some r\<rparr>)" by (rule accounted_same [OF d(5) [OF e(1)]]) simp_all
  then show "accounted cfg json (work_ends w r st) w (e\<lparr>ex_result := Some r\<rparr>)"
    by (rule accounted_mono) (simp_all add: work_ends_def covered_def wedged_pending_def)
qed (use inv node_invD [OF inv(1)] in \<open>simp_all add: work_ends_def phase_le_def reporter_done_def\<close>)

lemma inv_reporter_decides:
  assumes inv: "node_inv cfg json st" "nd_exit st = None" and e: "map_of (nd_executions st) w = Some e" "ex_reporter e = RpWaiting"
    and r: "ex_result e = Some r"
  shows "node_inv cfg json (reporter_decides w st)"
proof -
  note d = node_invD [OF inv(1)] and x = exec_okD [OF node_invD(4) [OF inv(1) e(1)]]
  let ?rep = "report_for r (ex_aborted_at e \<noteq> None)"
  let ?st = "reporter_decides w st"
  have de: "decide e = e\<lparr>ex_report := Some ?rep, ex_reporter := (if ?rep = ReportNothing then RpFinished else RpReporting ?rep)\<rparr>"
    by (simp add: decide_def r Let_def)
  have c: "ex_cancelled e" if "?rep = ReportNothing" using report_nothing [OF that] x(1,2) r by auto
  have st: "nd_executions ?st = hm_modify w decide (nd_executions st)" "nd_tasks ?st = nd_tasks st" "nd_jobs ?st = nd_jobs st"
    "nd_phase ?st = nd_phase st" "nd_exit ?st = nd_exit st" "nd_calls ?st = nd_calls st"
    "nd_in_flight ?st = nd_in_flight st - (if ?rep = ReportNothing then 1 else 0)"
    using e r by (simp_all add: reporter_decides_def de Let_def)
  have live: "\<not> reporter_done e" using e(2) by (simp add: reporter_done_def)
  then have pos: "0 < nd_in_flight st" using live_reporters_pos [OF d(2) e(1)] d(3) by simp
  show ?thesis
  proof (rule node_inv_exec [OF inv(1) e(1), where f = decide])
    have "\<exists>res t. r = res \<and> ?rep = report_for res t \<and> (t \<longrightarrow> ex_aborted_at e \<noteq> None)"
      by (intro exI [of _ r] exI [of _ "ex_aborted_at e \<noteq> None"]) simp
    with x(1,2,8) r c show "exec_ok (decide e)" unfolding exec_ok_def de by simp
    show "accounted cfg json ?st w (decide e)"
      using d(5) [OF e(1)] c e(2) by (auto simp: accounted_def covered_def wedged_pending_def st de report_call_def)
    show "nd_in_flight ?st + (if reporter_done e then 0 else 1) = nd_in_flight st + (if reporter_done (decide e) then 0 else 1)"
      using pos live by (simp add: st de reporter_done_def)
  qed (use inv d(1) e(2) in \<open>simp_all add: st de phase_le_def reporter_done_def\<close>)
qed

lemma map_of_drop_if_current:
  "map_of (drop_if_current k w tasks) k' =
     (if k' = k \<and> (\<exists>a. map_of tasks k = Some a \<and> ac_work a = w) then None else map_of tasks k')"
  by (auto simp: drop_if_current_def split: option.splits)

lemma hm_wf_drop_if_current [simp]: "hm_wf tasks \<Longrightarrow> hm_wf (drop_if_current k w tasks)"
  by (auto simp: drop_if_current_def split: option.splits)

text \<open>A reporter drops the entry of its own work only; the entry of a redelivered task stays.\<close>

lemma inv_reporter_ends:
  assumes inv: "node_inv cfg json st" "nd_exit st = None" and e: "map_of (nd_executions st) w = Some e" "ex_reporter e = RpReporting r"
  shows "node_inv cfg json (reporter_ends cfg json w st)"
proof -
  note d = node_invD [OF inv(1)] and x = exec_okD [OF node_invD(4) [OF inv(1) e(1)]]
  let ?st = "reporter_ends cfg json w st" and ?f = "\<lambda>e. e\<lparr>ex_reporter := RpFinished\<rparr>"
  have st: "nd_executions ?st = hm_modify w ?f (nd_executions st)" "nd_tasks ?st = drop_if_current (ex_key e) w (nd_tasks st)"
    "nd_jobs ?st = nd_jobs st" "nd_phase ?st = nd_phase st" "nd_exit ?st = nd_exit st"
    "nd_calls ?st = nd_calls st @ report_call cfg json (ex_key e) r" "nd_in_flight ?st = nd_in_flight st - 1"
    using e by (simp_all add: reporter_ends_def)
  have live: "\<not> reporter_done e" using e(2) by (simp add: reporter_done_def)
  then have pos: "0 < nd_in_flight st" using live_reporters_pos [OF d(2) e(1)] d(3) by simp
  show ?thesis
  proof (rule node_inv_exec [OF inv(1) e(1), where f = ?f])
    show "exec_ok (?f e)" using x(1,2) x(4) [OF e(2)] x(6-8) by (auto simp: exec_ok_def)
    show "accounted cfg json ?st w (?f e)"
      using d(5) [OF e(1)] x(4) [OF e(2)] by (auto simp: accounted_def wedged_pending_def st)
    show "nd_in_flight ?st + (if reporter_done e then 0 else 1) = nd_in_flight st + (if reporter_done (?f e) then 0 else 1)"
      using pos live by (simp add: st reporter_done_def)
  qed (use inv d(1) in \<open>auto simp: st phase_le_def reporter_done_def map_of_drop_if_current split: if_splits\<close>)
qed

lemma inv_reporter_panics:
  assumes inv: "node_inv cfg json st" "nd_exit st = None" and e: "map_of (nd_executions st) w = Some e" "\<not> reporter_done e"
  shows "node_inv cfg json (reporter_panics w st)"
proof -
  note d = node_invD [OF inv(1)] and x = exec_okD [OF node_invD(4) [OF inv(1) e(1)]]
  let ?st = "reporter_panics w st" and ?f = "\<lambda>e. e\<lparr>ex_reporter := RpPanicked\<rparr>"
  have pos: "0 < nd_in_flight st" using live_reporters_pos [OF d(2) e] d(3) by simp
  show ?thesis
  proof (rule node_inv_exec [OF inv(1) e(1), where f = ?f])
    show "exec_ok (?f e)" using x by (auto simp: exec_ok_def)
    show "accounted cfg json ?st w (?f e)"
      using d(5) [OF e(1)] e(2) by (auto simp: accounted_def covered_def wedged_pending_def reporter_panics_def reporter_done_def)
    show "nd_in_flight ?st + (if reporter_done e then 0 else 1) = nd_in_flight st + (if reporter_done (?f e) then 0 else 1)"
      using pos e(2) by (simp add: reporter_panics_def reporter_done_def)
  qed (use inv d(1) in \<open>simp_all add: reporter_panics_def phase_le_def reporter_done_def\<close>)
qed

section \<open>Reports of wedged work\<close>

lemma node_inv_jobs:
  assumes inv: "node_inv cfg json st" and "nd_exit st' = None"
    and same: "nd_tasks st' = nd_tasks st" "nd_executions st' = nd_executions st" "nd_phase st' = nd_phase st"
    and flight: "nd_in_flight st' + length (nd_jobs st) = nd_in_flight st + length (nd_jobs st')"
    and calls: "set (nd_calls st) \<subseteq> set (nd_calls st')"
    and left: "\<And>j k. j \<in> set (nd_jobs st) \<Longrightarrow> k \<in> set (wj_left j) \<Longrightarrow>
      (\<exists>j' \<in> set (nd_jobs st'). k \<in> set (wj_left j')) \<or> fail_call cfg k True \<in> set (nd_calls st')"
  shows "node_inv cfg json st'"
proof -
  note d = node_invD [OF inv]
  have ok: "phase_ok st' p = phase_ok st p" for p by (cases p) (simp_all add: same)
  have "covered st' w e = covered st w e" for w e by (simp add: covered_def same)
  moreover have "wedged_pending st k \<Longrightarrow> wedged_pending st' k \<or> fail_call cfg k True \<in> set (nd_calls st')" for k
    using left unfolding wedged_pending_def same by blast
  ultimately have acc: "accounted cfg json st' w e" if "map_of (nd_executions st) w = Some e" for w e
    using accounted_mono [OF d(5) [OF that] calls] by blast
  have "nd_in_flight st' = live_reporters (nd_executions st) + length (nd_jobs st')" using flight d(3) by simp
  with d(1,2,4,6,7) acc assms(2) show ?thesis by (intro node_invI) (simp_all add: same ok)
qed

lemma inv_job_closes:
  assumes "node_inv cfg json st" "nd_exit st = None" and j: "j < length (nd_jobs st)"
  shows "node_inv cfg json (job_closes cfg j acked st)"
proof (rule node_inv_jobs [OF assms(1)])
  fix i k
  assume "i \<in> set (nd_jobs st)" and k: "k \<in> set (wj_left i)"
  then obtain n where n: "n < length (nd_jobs st)" "i = nd_jobs st ! n" by (metis in_set_conv_nth)
  let ?jobs = "(nd_jobs st)[j := (nd_jobs st ! j)\<lparr>wj_closed := True\<rparr>]"
  have "k \<in> set (wj_left (?jobs ! n))" using n k by (cases "n = j") auto
  moreover have "?jobs ! n \<in> set ?jobs" using n by (intro nth_mem) simp
  ultimately show "(\<exists>j' \<in> set (nd_jobs (job_closes cfg j acked st)). k \<in> set (wj_left j')) \<or>
      fail_call cfg k True \<in> set (nd_calls (job_closes cfg j acked st))" by (auto simp: job_closes_def)
qed (use assms in \<open>simp_all add: job_closes_def\<close>)

lemma inv_job_fails:
  assumes "node_inv cfg json st" "nd_exit st = None" and j: "j < length (nd_jobs st)"
  shows "node_inv cfg json (job_fails cfg j st)"
proof (cases "wj_left (nd_jobs st ! j)")
  case Nil
  with assms show ?thesis by (simp add: job_fails_def)
next
  case (Cons key keys)
  let ?jobs = "(nd_jobs st)[j := (nd_jobs st ! j)\<lparr>wj_left := keys\<rparr>]"
  have st: "job_fails cfg j st = st\<lparr>nd_jobs := ?jobs, nd_calls := nd_calls st @ [fail_call cfg key True]\<rparr>"
    by (simp add: job_fails_def Cons)
  show ?thesis
  proof (rule node_inv_jobs [OF assms(1)])
    fix i k
    assume "i \<in> set (nd_jobs st)" and k: "k \<in> set (wj_left i)"
    then obtain n where n: "n < length (nd_jobs st)" "i = nd_jobs st ! n" by (metis in_set_conv_nth)
    have "k \<in> set (wj_left (?jobs ! n)) \<or> k = key" using n k Cons by (cases "n = j") auto
    moreover have "?jobs ! n \<in> set ?jobs" using n by (intro nth_mem) simp
    ultimately show "(\<exists>j' \<in> set (nd_jobs (job_fails cfg j st)). k \<in> set (wj_left j')) \<or>
        fail_call cfg k True \<in> set (nd_calls (job_fails cfg j st))" by (auto simp: st)
  qed (use assms in \<open>auto simp: st\<close>)
qed

lemma inv_job_ends:
  assumes inv: "node_inv cfg json st" "nd_exit st = None" and j: "j < length (nd_jobs st)" "wj_left (nd_jobs st ! j) = []"
  shows "node_inv cfg json (job_ends j st)"
proof (rule node_inv_jobs [OF inv(1)])
  have "nd_in_flight st \<ge> length (nd_jobs st)" using node_invD(3) [OF inv(1)] by simp
  then show "nd_in_flight (job_ends j st) + length (nd_jobs st) = nd_in_flight st + length (nd_jobs (job_ends j st))"
    using j(1) by (simp add: job_ends_def min_def)
  fix i k
  assume "i \<in> set (nd_jobs st)" and k: "k \<in> set (wj_left i)"
  moreover have "set (nd_jobs st) = insert (nd_jobs st ! j) (set (take j (nd_jobs st) @ drop (Suc j) (nd_jobs st)))"
    using id_take_nth_drop [OF j(1)] by (metis Un_insert_right list.simps(15) set_append)
  ultimately show "(\<exists>j' \<in> set (nd_jobs (job_ends j st)). k \<in> set (wj_left j')) \<or>
      fail_call cfg k True \<in> set (nd_calls (job_ends j st))" using j(2) by (auto simp: job_ends_def)
qed (use inv in \<open>simp_all add: job_ends_def\<close>)

section \<open>The main loop\<close>

lemma inv_new_task:
  assumes inv: "node_inv cfg json st" "nd_exit st = None" "nd_phase st = Idle" and new: "map_of (nd_executions st) w = None"
  shows "node_inv cfg json (on_new_task now w t v st)"
proof (cases "nd_closed st \<or> map_of (nd_tasks st) (TaskKey (td_proof_id v) t) \<noteq> None")
  case True
  then have "on_new_task now w t v st = st\<lparr>nd_last_progress := now\<rparr>" by (auto simp: on_new_task_def Let_def)
  then show ?thesis using inv by (intro node_inv_frame [OF inv(1)]) simp_all
next
  case False
  note d = node_invD [OF inv(1)]
  let ?k = "TaskKey (td_proof_id v) t"
  let ?e = "\<lparr>ex_key = ?k, ex_result = None, ex_abort = False, ex_aborted_at = None, ex_reporter = RpWaiting, ex_report = None,
    ex_cancelled = False, ex_wedged = False\<rparr>"
  let ?st = "on_new_task now w t v st"
  have st: "nd_executions ?st = hm_insert w ?e (nd_executions st)" "nd_tasks ?st = nd_tasks st" "nd_jobs ?st = nd_jobs st"
    "nd_phase ?st = Entering ?k v w" "nd_calls ?st = nd_calls st" "nd_in_flight ?st = nd_in_flight st + 1" "nd_exit ?st = None"
    using False inv(2) by (simp_all add: on_new_task_def Let_def)
  have keep: "executing (nd_executions ?st) k w' P" if "executing (nd_executions st) k w' P" for k w' P
    using that new by (auto simp: executing_def st)
  show ?thesis
  proof (rule node_invI)
    show "nd_in_flight ?st = live_reporters (nd_executions ?st) + length (nd_jobs ?st)"
      using sum_entries_insert_new [OF new, of "\<lambda>(w, e). if reporter_done e then 0 else (1 :: nat)" ?e] d(3)
      by (simp add: st live_reporters_def reporter_done_def)
    show "phase_ok ?st (nd_phase ?st)" using False by (auto simp: st executing_def)
    fix w' e'
    assume e': "map_of (nd_executions ?st) w' = Some e'"
    show "exec_ok e'" using e' d(4) [of w'] by (auto simp: st exec_ok_def split: if_splits)
    show "accounted cfg json ?st w' e'"
    proof (cases "w' = w")
      case True
      with e' show ?thesis by (auto simp: st accounted_def covered_def)
    next
      case other: False
      with e' have "accounted cfg json st w' e'" using d(5) [of w'] by (simp add: st)
      then show ?thesis by (rule accounted_mono) (simp_all add: st covered_def wedged_pending_def inv(3))
    qed
  qed (use d keep in \<open>auto simp: st(2,7) intro: keep\<close>, simp_all add: st d(2))
qed

lemma inv_insert_entry:
  assumes inv: "node_inv cfg json st" "nd_exit st = None" and phase: "nd_phase st = Entering k v w"
  shows "node_inv cfg json (insert_entry now st)"
proof -
  note d = node_invD [OF inv(1)]
  let ?st = "insert_entry now st"
  have st: "nd_executions ?st = nd_executions st" "nd_tasks ?st = hm_insert k \<lparr>ac_data = v, ac_started_at = now, ac_work = w\<rparr> (nd_tasks st)"
    "nd_jobs ?st = nd_jobs st" "nd_phase ?st = Idle" "nd_calls ?st = nd_calls st" "nd_in_flight ?st = nd_in_flight st" "nd_exit ?st = None"
    using inv(2) by (simp_all add: insert_entry_def phase)
  from d(7) phase have k: "executing (nd_executions st) k w (\<lambda>e. True)" "map_of (nd_tasks st) k = None" by simp_all
  show ?thesis
  proof (rule node_invI)
    fix w' e'
    assume e': "map_of (nd_executions ?st) w' = Some e'"
    have "covered ?st w' e'" if "covered st w' e'"
      using that k(2) by (auto simp: covered_def st phase)
    moreover have "wedged_pending ?st i" if "wedged_pending st i" for i using that by (auto simp: wedged_pending_def st phase)
    ultimately show "accounted cfg json ?st w' e'" using e' by (intro accounted_mono [OF d(5)]) (auto simp: st)
    show "exec_ok e'" using e' d(4) by (simp add: st)
  next
    fix k' a
    assume "map_of (nd_tasks ?st) k' = Some a"
    then show "executing (nd_executions ?st) k' (ac_work a) (\<lambda>e. True)" using d(6) k(1) by (auto simp: st split: if_splits)
  qed (use d in \<open>simp_all add: st\<close>)
qed

lemma inv_cancel_task:
  assumes inv: "node_inv cfg json st" "nd_exit st = None" "nd_phase st = Idle"
  shows "node_inv cfg json (on_cancel_task now k st)"
proof (cases "map_of (nd_tasks st) k")
  case None
  then show ?thesis using inv by (intro node_inv_frame [OF inv(1)]) (auto simp: on_cancel_task_def Let_def)
next
  case (Some a)
  note d = node_invD [OF inv(1)]
  from d(6) [OF Some] obtain e where e: "map_of (nd_executions st) (ac_work a) = Some e" "ex_key e = k" by (auto simp: executing_def)
  let ?st = "on_cancel_task now k st" and ?f = "\<lambda>e. e\<lparr>ex_abort := True, ex_cancelled := True\<rparr>"
  have st: "nd_executions ?st = hm_modify (ac_work a) ?f (nd_executions st)" "nd_tasks ?st = hm_remove k (nd_tasks st)"
    "nd_jobs ?st = nd_jobs st" "nd_phase ?st = nd_phase st" "nd_exit ?st = None" "nd_calls ?st = nd_calls st" "nd_in_flight ?st = nd_in_flight st"
    using inv(2) by (simp_all add: on_cancel_task_def Some Let_def)
  have only: "k' = k" if "map_of (nd_tasks st) k' = Some a'" "ac_work a' = ac_work a" for k' a'
    using d(6) [OF that(1)] that(2) e by (auto simp: executing_def)
  show ?thesis
  proof (rule node_inv_exec [OF inv(1) e(1), where f = ?f])
    show "exec_ok (?f e)" using d(4) [OF e(1)] by (auto simp: exec_ok_def)
    show "accounted cfg json ?st (ac_work a) (?f e)"
      using d(5) [OF e(1)] by (auto simp: accounted_def wedged_pending_def st)
    show "map_of (nd_tasks ?st) k' = Some a'" if "map_of (nd_tasks st) k' = Some a'" "ac_work a' \<noteq> ac_work a" for k' a'
      using that Some by (auto simp: st)
    show "(ex_cancelled (?f e) \<longrightarrow> ex_cancelled e) \<and> (ex_wedged (?f e) \<longrightarrow> ex_wedged e) \<or>
      (\<forall>k a'. map_of (nd_tasks ?st) k = Some a' \<longrightarrow> ac_work a' \<noteq> ac_work a) \<and> (\<forall>k d. nd_phase st \<noteq> Entering k d (ac_work a))"
      using only inv(3) by (auto simp: st split: if_splits)
  qed (use d(1) in \<open>auto simp: st phase_le_def reporter_done_def split: if_splits\<close>)
qed

text \<open>The sweep.\<close>

lemma inv_scan:
  assumes inv: "node_inv cfg json st" "nd_exit st = None" "nd_phase st = Scanning"
  shows "node_inv cfg json (scan cfg now st)"
proof -
  note d = node_invD [OF inv(1)]
  have scanned: "\<exists>a. map_of (nd_tasks st) k = Some a \<and> entry_action cfg now st a = x" if "k \<in> set (scanned cfg now st x)" for k x
    using that by (force simp: scanned_def hm_wf_mem [OF d(1)] simp flip: hm_wf_mem [OF d(1)])
  have "phase_ok st (nd_phase (scan cfg now st))"
  proof -
    have "executing (nd_executions st) k (ac_work a) reporter_done"
      if "k \<in> set (scanned cfg now st None)" "map_of (nd_tasks st) k = Some a" for k a
      using scanned [OF that(1)] that(2) d(6) [OF that(2)] by (auto simp: entry_action_def executing_def split: if_splits)
    moreover have "executing (nd_executions st) k (ac_work a) (\<lambda>e. ex_aborted_at e \<noteq> None)"
      if "k \<in> set (scanned cfg now st (Some ReportWedged))" "map_of (nd_tasks st) k = Some a" for k a
      using scanned [OF that(1)] that(2) d(6) [OF that(2)]
      by (auto simp: entry_action_def executing_def timeout_action_def split: if_splits option.splits)
    ultimately show ?thesis by (simp add: scan_def)
  qed
  then show ?thesis using inv by (intro node_inv_frame [OF inv(1)]) (simp_all add: scan_def)
qed

lemma inv_sweep_panicked:
  assumes inv: "node_inv cfg json st" "nd_exit st = None" "nd_phase st = Sweeping (k # ps) ts ws r"
  shows "node_inv cfg json ((sweep_panicked cfg k st)\<lparr>nd_phase := Sweeping ps ts ws r\<rparr>)"
proof (cases "map_of (nd_tasks st) k")
  case None
  then show ?thesis using node_inv_le [OF inv(1,2), of "Sweeping ps ts ws r"] by (auto simp: sweep_panicked_def phase_le_def inv(3))
next
  case (Some a)
  note d = node_invD [OF inv(1)]
  let ?st = "(sweep_panicked cfg k st)\<lparr>nd_phase := Sweeping ps ts ws r\<rparr>"
  have le: "phase_le (nd_phase st) (nd_phase ?st)" by (auto simp: inv(3) phase_le_def)
  from d(7) inv(3) Some obtain e where e: "map_of (nd_executions st) (ac_work a) = Some e" "ex_key e = k" "reporter_done e"
    "\<not> ex_cancelled e" "\<not> ex_wedged e" by (auto simp: executing_def)
  let ?calls = "if ex_reporter e = RpPanicked then [fail_call cfg k False] else []"
  have st: "nd_executions ?st = hm_modify (ac_work a) id (nd_executions st)" "nd_tasks ?st = hm_remove k (nd_tasks st)"
    "nd_jobs ?st = nd_jobs st" "nd_exit ?st = None" "nd_calls ?st = nd_calls st @ ?calls" "nd_in_flight ?st = nd_in_flight st"
    using inv(2) e(1) by (simp_all add: sweep_panicked_def Some hm_modify_def map_of_insert_triv)
  show ?thesis
  proof (rule node_inv_exec [OF inv(1) e(1), where f = id])
    show "accounted cfg json ?st (ac_work a) (id e)"
      using d(5) [OF e(1)] e by (auto simp: accounted_def st reporter_done_def)
    show "map_of (nd_tasks ?st) k' = Some a'" if "map_of (nd_tasks st) k' = Some a'" "ac_work a' \<noteq> ac_work a" for k' a'
      using that Some by (auto simp: st)
  qed (use d(1,4) e(1) le in \<open>auto simp: st split: if_splits\<close>)
qed

lemma inv_sweep_timed_out:
  assumes inv: "node_inv cfg json st" "nd_exit st = None" "nd_phase st = Sweeping [] (k # ts) ws r"
  shows "node_inv cfg json ((sweep_timed_out now k st)\<lparr>nd_phase := Sweeping [] ts ws r\<rparr>)"
proof (cases "map_of (nd_tasks st) k")
  case None
  then show ?thesis using node_inv_le [OF inv(1,2), of "Sweeping [] ts ws r"] by (auto simp: sweep_timed_out_def phase_le_def inv(3))
next
  case (Some a)
  note d = node_invD [OF inv(1)]
  let ?st = "(sweep_timed_out now k st)\<lparr>nd_phase := Sweeping [] ts ws r\<rparr>"
  have le: "phase_le (nd_phase st) (nd_phase ?st)" by (auto simp: inv(3) phase_le_def)
  from d(6) [OF Some] obtain e where e: "map_of (nd_executions st) (ac_work a) = Some e" by (auto simp: executing_def)
  define f :: "Execution \<Rightarrow> Execution" where "f = (\<lambda>e. e\<lparr>ex_aborted_at := (case ex_aborted_at e of None \<Rightarrow> Some now | Some t \<Rightarrow> Some t), ex_abort := True\<rparr>)"
  have f: "ex_key (f e) = ex_key e" "ex_reporter (f e) = ex_reporter e" "ex_report (f e) = ex_report e" "ex_result (f e) = ex_result e"
    "ex_cancelled (f e) = ex_cancelled e" "ex_wedged (f e) = ex_wedged e" "ex_aborted_at (f e) \<noteq> None"
    by (simp_all add: f_def split: option.splits)
  have st: "nd_executions ?st = hm_modify (ac_work a) f (nd_executions st)" "nd_tasks ?st = nd_tasks st"
    "nd_jobs ?st = nd_jobs st" "nd_exit ?st = None" "nd_calls ?st = nd_calls st" "nd_in_flight ?st = nd_in_flight st"
    using inv(2) by (simp_all add: sweep_timed_out_def Some f_def)
  show ?thesis
  proof (rule node_inv_exec [OF inv(1) e, where f = f])
    show "exec_ok (f e)" using d(4) [OF e] unfolding exec_ok_def f using f(7) by (simp add: f_def) blast
    have "accounted cfg json st (ac_work a) (f e)" by (rule accounted_same [OF d(5) [OF e]]) (simp_all add: f)
    then show "accounted cfg json ?st (ac_work a) (f e)" by (rule accounted_le [OF _ le]) (simp_all add: st)
  qed (use d(1) le f in \<open>simp_all add: st reporter_done_def\<close>)
qed

lemma inv_sweep_wedged:
  assumes inv: "node_inv cfg json st" "nd_exit st = None" "nd_phase st = Sweeping [] [] (k # ws) r"
  shows "node_inv cfg json ((snd (sweep_wedged k st))\<lparr>nd_phase := Sweeping [] [] ws (if fst (sweep_wedged k st) then r @ [k] else r)\<rparr>)"
proof (cases "map_of (nd_tasks st) k")
  case None
  then show ?thesis using node_inv_le [OF inv(1,2), of "Sweeping [] [] ws r"] by (auto simp: sweep_wedged_def phase_le_def inv(3))
next
  case (Some a)
  note d = node_invD [OF inv(1)]
  let ?st = "(snd (sweep_wedged k st))\<lparr>nd_phase := Sweeping [] [] ws (r @ [k])\<rparr>"
  have le: "phase_le (nd_phase st) (nd_phase ?st)" by (auto simp: inv(3) phase_le_def)
  from d(7) inv(3) Some obtain e where e: "map_of (nd_executions st) (ac_work a) = Some e" "ex_key e = k" "ex_aborted_at e \<noteq> None"
    by (auto simp: executing_def)
  let ?f = "\<lambda>e. e\<lparr>ex_abort := True, ex_wedged := True\<rparr>"
  have st: "nd_executions ?st = hm_modify (ac_work a) ?f (nd_executions st)" "nd_tasks ?st = hm_remove k (nd_tasks st)"
    "nd_jobs ?st = nd_jobs st" "nd_exit ?st = None" "nd_calls ?st = nd_calls st" "nd_in_flight ?st = nd_in_flight st"
    using inv(2) by (simp_all add: sweep_wedged_def Some)
  have only: "k' = k" if "map_of (nd_tasks st) k' = Some a'" "ac_work a' = ac_work a" for k' a'
    using d(6) [OF that(1)] that(2) e by (auto simp: executing_def)
  have "node_inv cfg json ?st"
  proof (rule node_inv_exec [OF inv(1) e(1), where f = ?f])
    show "exec_ok (?f e)" using d(4) [OF e(1)] e(3) by (simp add: exec_ok_def)
    show "accounted cfg json ?st (ac_work a) (?f e)"
      using d(5) [OF e(1)] e(2) by (auto simp: accounted_def wedged_pending_def st)
    show "map_of (nd_tasks ?st) k' = Some a'" if "map_of (nd_tasks st) k' = Some a'" "ac_work a' \<noteq> ac_work a" for k' a'
      using that Some by (auto simp: st)
    show "(ex_cancelled (?f e) \<longrightarrow> ex_cancelled e) \<and> (ex_wedged (?f e) \<longrightarrow> ex_wedged e) \<or>
      (\<forall>k a'. map_of (nd_tasks ?st) k = Some a' \<longrightarrow> ac_work a' \<noteq> ac_work a) \<and> (\<forall>k d. nd_phase st \<noteq> Entering k d (ac_work a))"
      using only by (auto simp: st inv(3) split: if_splits)
  qed (use d(1) le in \<open>auto simp: st reporter_done_def split: if_splits\<close>)
  then show ?thesis by (simp add: sweep_wedged_def Some)
qed

lemma inv_sweep_ends:
  assumes inv: "node_inv cfg json st" "nd_exit st = None" "nd_phase st = Sweeping [] [] [] r"
  shows "node_inv cfg json (sweep_ends now r st)"
proof (cases "r = []")
  case True
  note d = node_invD [OF inv(1)]
  have "accounted cfg json (st\<lparr>nd_phase := Idle\<rparr>) w e" if "map_of (nd_executions st) w = Some e" for w e
    by (rule accounted_mono [OF d(5) [OF that]]) (auto simp: covered_def wedged_pending_def inv(3) True)
  then show ?thesis using d inv(2) by (intro node_invI) (simp_all add: sweep_ends_def True)
next
  case False
  note d = node_invD [OF inv(1)]
  let ?st = "sweep_ends now r st"
  have st: "nd_executions ?st = nd_executions st" "nd_tasks ?st = nd_tasks st" "nd_jobs ?st = nd_jobs st @ [\<lparr>wj_closed = False, wj_left = r\<rparr>]"
    "nd_exit ?st = None" "nd_calls ?st = nd_calls st" "nd_in_flight ?st = nd_in_flight st + 1" "nd_phase ?st = Idle"
    using inv(2) False by (simp_all add: sweep_ends_def)
  have "accounted cfg json ?st w e" if "map_of (nd_executions st) w = Some e" for w e
    by (rule accounted_mono [OF d(5) [OF that]]) (auto simp: st covered_def wedged_pending_def inv(3))
  then show ?thesis using d by (intro node_invI) (simp_all add: st)
qed

lemma inv_sweep_next:
  assumes inv: "node_inv cfg json st" "nd_exit st = None" and phase: "nd_phase st = Sweeping ps ts ws r"
  shows "node_inv cfg json (sweep_next cfg now st)"
proof (cases ps)
  case (Cons k ps')
  with inv_sweep_panicked [OF inv, of k ps' ts ws r] phase show ?thesis by (simp add: sweep_next_def)
next
  case ps: Nil
  show ?thesis
  proof (cases ts)
    case (Cons k ts')
    with ps inv_sweep_timed_out [OF inv, of k ts' ws r now] phase show ?thesis by (simp add: sweep_next_def)
  next
    case ts: Nil
    show ?thesis
    proof (cases ws)
      case (Cons k ws')
      with ps ts inv_sweep_wedged [OF inv, of k ws' r] phase show ?thesis by (simp add: sweep_next_def case_prod_unfold Let_def)
    next
      case Nil
      with ps ts inv_sweep_ends [OF inv, of r now] phase show ?thesis by (simp add: sweep_next_def)
    qed
  qed
qed

section \<open>Reachable states\<close>

lemma inv_watchdog_tick:
  assumes inv: "node_inv cfg json st" "nd_exit st = None" "nd_phase st = Idle"
  shows "node_inv cfg json (watchdog_tick cfg now st)"
  using inv by (intro node_inv_frame [OF inv(1)]) (auto simp: watchdog_tick_def Let_def split: if_splits option.splits)

lemma node_step_inv:
  assumes "node_step cfg json st st'" and inv: "node_inv cfg json st" "nd_exit st = None"
  shows "node_inv cfg json st'"
  using assms(1)
proof cases
  case (ns_decide w e)
  then obtain r where "ex_result e = Some r" by blast
  from inv_reporter_decides [OF inv ns_decide(2,3) this] ns_decide(1) show ?thesis by simp
next
  case (ns_beat now outcome)
  then show ?thesis using inv by (intro node_inv_frame [OF inv(1)]) (auto simp: beat_def)
next
  case (ns_heartbeat now clock)
  then show ?thesis using inv by (intro node_inv_frame [OF inv(1)]) (auto simp: on_server_heartbeat_def)
next
  case (ns_empty now)
  then show ?thesis using inv by (intro node_inv_frame [OF inv(1)]) (auto simp: on_empty_message_def)
next
  case (ns_stream now success)
  then show ?thesis using inv by (intro node_inv_frame [OF inv(1)]) (auto simp: on_channel_closed_def split: if_splits)
next
  case (ns_reopened now success)
  then show ?thesis using inv by (intro node_inv_frame [OF inv(1)]) (auto simp: reopened_def split: if_splits)
next
  case (ns_token now)
  then show ?thesis using inv by (intro node_inv_frame [OF inv(1)]) (auto simp: on_token_cancelled_def)
next
  case (ns_close acked)
  then show ?thesis using inv by (intro node_inv_frame [OF inv(1)]) (auto simp: close_returns_def Let_def split: if_splits)
qed (use inv in \<open>auto intro: inv_work_ends inv_reporter_ends inv_reporter_panics inv_job_closes inv_job_fails inv_job_ends
  inv_new_task inv_insert_entry inv_cancel_task inv_watchdog_tick inv_scan inv_sweep_next\<close>)

lemma node_reachable_inv: "node_reachable cfg json st \<Longrightarrow> node_inv cfg json st"
proof (induction rule: node_reachable.induct)
  case (node_init now)
  show ?case by (rule node_invI) (unfold Node_new_def live_reporters_def, simp_all)
next
  case (node_next st st')
  show ?case by (rule node_step_inv [OF node_next.hyps(3) node_next.IH node_next.hyps(2)])
qed

section \<open>A drained node\<close>

text \<open>
  What a finished execution owes the coordinator: the report for what its work ended with, unless the coordinator
  itself cancelled the task; and a failure, if the reporter broke down.
\<close>

definition outcome_reported :: "NodeConfig \<Rightarrow> (WorkerMetadata \<Rightarrow> string) \<Rightarrow> Rpc list \<Rightarrow> Execution \<Rightarrow> bool" where
  "outcome_reported cfg json calls e \<longleftrightarrow>
     (case ex_reporter e of
        RpFinished \<Rightarrow>
          (\<exists>res timed_out. ex_result e = Some res \<and> (timed_out \<longrightarrow> ex_aborted_at e \<noteq> None) \<and>
             (if report_for res timed_out = ReportNothing then ex_cancelled e
              else set (report_call cfg json (ex_key e) (report_for res timed_out)) \<subseteq> set calls))
      | RpPanicked \<Rightarrow> ex_cancelled e \<or> (\<exists>retryable. fail_call cfg (ex_key e) retryable \<in> set calls)
      | _ \<Rightarrow> False)"

lemma drained_answered:
  assumes "node_reachable cfg json st" and "nd_exit st = Some Drained" and e: "map_of (nd_executions st) w = Some e"
  shows "outcome_reported cfg json (nd_calls st) e"
proof -
  have inv: "node_inv cfg json st" by (rule node_reachable_inv [OF assms(1)])
  note d = node_invD [OF inv]
  note st = node_inv_drained [OF inv assms(2)]
  with d(3) have "live_reporters (nd_executions st) = 0" "nd_jobs st = []" by simp_all
  with live_reporters_pos [OF d(2) e] have fin: "reporter_done e" by auto
  have "\<not> covered st w e" "\<not> wedged_pending st (ex_key e)"
    using st \<open>nd_jobs st = []\<close> by (simp_all add: covered_def wedged_pending_def)
  then have p: "\<And>r. ex_reporter e = RpFinished \<Longrightarrow> ex_report e = Some r \<Longrightarrow> set (report_call cfg json (ex_key e) r) \<subseteq> set (nd_calls st)"
    "\<not> ex_cancelled e \<Longrightarrow> \<not> ex_wedged e \<Longrightarrow> ex_reporter e \<noteq> RpFinished \<Longrightarrow> fail_call cfg (ex_key e) False \<in> set (nd_calls st)"
    "ex_wedged e \<Longrightarrow> fail_call cfg (ex_key e) True \<in> set (nd_calls st)"
    using d(5) [OF e] unfolding accounted_def by blast+
  show ?thesis
  proof (cases "ex_reporter e = RpFinished")
    case True
    then obtain r where r: "ex_report e = Some r" using exec_okD(5) [OF d(4) [OF e]] by blast
    from exec_okD(6) [OF d(4) [OF e] r] obtain res t where "ex_result e = Some res" "r = report_for res t" "t \<longrightarrow> ex_aborted_at e \<noteq> None" by blast
    moreover have "if r = ReportNothing then ex_cancelled e else set (report_call cfg json (ex_key e) r) \<subseteq> set (nd_calls st)"
      using p(1) [OF True r] exec_okD(7) [OF d(4) [OF e]] r by auto
    ultimately have "\<exists>res timed_out. ex_result e = Some res \<and> (timed_out \<longrightarrow> ex_aborted_at e \<noteq> None) \<and>
        (if report_for res timed_out = ReportNothing then ex_cancelled e
         else set (report_call cfg json (ex_key e) (report_for res timed_out)) \<subseteq> set (nd_calls st))"
      by (intro exI [of _ res] exI [of _ t]) (simp split: if_splits)
    then show ?thesis by (simp add: outcome_reported_def True)
  next
    case False
    with fin have "ex_reporter e = RpPanicked" by (simp add: reporter_done_def)
    with p(2,3) False have "ex_cancelled e \<or> (\<exists>retryable. fail_call cfg (ex_key e) retryable \<in> set (nd_calls st))" by blast
    then show ?thesis by (simp add: outcome_reported_def \<open>ex_reporter e = RpPanicked\<close>)
  qed
qed

section \<open>What the heartbeats say\<close>

lemma beat_fields_spec:
  "fst (beat_fields tasks) = map (tk_proof \<circ> fst) tasks" "fst (snd (beat_fields tasks)) = map (tk_task \<circ> fst) tasks"
  "snd (snd (beat_fields tasks)) = sum_list (map (\<lambda>(k, a). td_weight (ac_data a)) tasks) mod 2 ^ 32"
  by (induction tasks rule: beat_fields.induct) (auto simp: wrapping_add_def mod_simps split: prod.splits)

lemma beat_names:
  assumes "node_reachable cfg json st" and "build_heartbeat_request wid (nd_tasks st) = Heartbeat wid ps ts n"
  shows "length ps = length ts" and "distinct (zip ps ts)"
    and "(p, t) \<in> set (zip ps ts) \<longleftrightarrow> map_of (nd_tasks st) (TaskKey p t) \<noteq> None"
    and "n = sum_list (map (\<lambda>(k, a). td_weight (ac_data a)) (nd_tasks st)) mod 2 ^ 32"
proof -
  note d = node_invD [OF node_reachable_inv [OF assms(1)]]
  from assms(2) have f: "ps = map (tk_proof \<circ> fst) (nd_tasks st)" "ts = map (tk_task \<circ> fst) (nd_tasks st)"
    "n = sum_list (map (\<lambda>(k, a). td_weight (ac_data a)) (nd_tasks st)) mod 2 ^ 32"
    using beat_fields_spec [of "nd_tasks st"] by (auto simp: build_heartbeat_request_def split: prod.splits)
  have z: "zip ps ts = map (\<lambda>k. (tk_proof k, tk_task k)) (map fst (nd_tasks st))"
    by (simp add: f zip_map_map zip_same_conv_map)
  show "length ps = length ts" by (simp add: f)
  show "distinct (zip ps ts)" unfolding z using d(1)
    by (subst distinct_map) (auto simp: hm_wf_def inj_on_def intro: task_key.expand)
  show "(p, t) \<in> set (zip ps ts) \<longleftrightarrow> map_of (nd_tasks st) (TaskKey p t) \<noteq> None"
    unfolding z map_of_eq_None_iff by (force simp: image_iff)
  show "n = sum_list (map (\<lambda>(k, a). td_weight (ac_data a)) (nd_tasks st)) mod 2 ^ 32" by (rule f(3))
qed

lemma covered_entry:
  assumes "node_reachable cfg json st" and e: "map_of (nd_executions st) w = Some e"
    and "\<not> ex_cancelled e" "\<not> ex_wedged e" "\<not> reporter_done e" and "\<And>k d w. nd_phase st \<noteq> Entering k d w"
  shows "\<exists>a. map_of (nd_tasks st) (ex_key e) = Some a \<and> ac_work a = w"
  using node_invD(5) [OF node_reachable_inv [OF assms(1)] e] assms(3-6)
  by (auto simp: accounted_def covered_def reporter_done_def)

section \<open>Overdue work\<close>

text \<open>A sweep that nothing interrupts: as many steps as the scan found entries, and one more.\<close>

fun sweep_steps :: "LoopPhase \<Rightarrow> nat" where
  "sweep_steps (Sweeping ps ts ws r) = length ps + length ts + length ws + 1"
| "sweep_steps _ = 0"

fun sweep_all :: "NodeConfig \<Rightarrow> Instant \<Rightarrow> nat \<Rightarrow> Node \<Rightarrow> Node" where
  "sweep_all cfg now 0 st = st"
| "sweep_all cfg now (Suc n) st = sweep_all cfg now n (sweep_next cfg now st)"

definition aborted :: "Node \<Rightarrow> nat \<Rightarrow> bool" where
  "aborted st w \<longleftrightarrow> (\<exists>e. map_of (nd_executions st) w = Some e \<and> ex_aborted_at e \<noteq> None \<and> ex_abort e)"

lemma executing_kept:
  assumes "executing ex k w (\<lambda>e. True)"
    and "\<And>e. ex_key (f e) = ex_key e" "\<And>e. ex_cancelled (f e) = ex_cancelled e" "\<And>e. ex_wedged (f e) = ex_wedged e"
  shows "executing (hm_modify v f ex) k w (\<lambda>e. True)"
proof -
  from assms(1) obtain e where e: "map_of ex w = Some e" "ex_key e = k" "\<not> ex_cancelled e" "\<not> ex_wedged e" by (auto simp: executing_def)
  have "map_of (hm_modify v f ex) w = Some (if w = v then f e else e)" using e(1) by (auto simp: hm_modify_def split: option.split)
  moreover have "ex_key (if w = v then f e else e) = k" "\<not> ex_cancelled (if w = v then f e else e)" "\<not> ex_wedged (if w = v then f e else e)"
    using e(2-4) assms(2-4) [of e] by auto
  ultimately show ?thesis unfolding executing_def by blast
qed

text \<open>The work of an entry the scan put on the second list is asked to abort, and the time is kept.\<close>

lemma sweep_executions:
  "\<exists>k. nd_executions (sweep_next cfg now st) = nd_executions st \<or>
     nd_executions (sweep_next cfg now st) = nd_executions (sweep_timed_out now k st) \<or>
     nd_executions (sweep_next cfg now st) = nd_executions (snd (sweep_wedged k st))"
  by (auto simp: sweep_next_def sweep_ends_def sweep_panicked_def case_prod_unfold Let_def split: LoopPhase.split list.split option.split)

lemma aborted_modify:
  assumes "aborted st w" and "nd_executions st' = hm_modify v f (nd_executions st)"
    and "\<And>e. ex_aborted_at e \<noteq> None \<Longrightarrow> ex_aborted_at (f e) \<noteq> None" "\<And>e. ex_abort e \<Longrightarrow> ex_abort (f e)"
  shows "aborted st' w"
proof -
  from assms(1) obtain e where e: "map_of (nd_executions st) w = Some e" "ex_aborted_at e \<noteq> None" "ex_abort e" by (auto simp: aborted_def)
  have "map_of (nd_executions st') w = Some (if w = v then f e else e)" using e(1) by (auto simp: assms(2) hm_modify_def split: option.split)
  moreover have "ex_aborted_at (if w = v then f e else e) \<noteq> None" "ex_abort (if w = v then f e else e)"
    using e(2,3) assms(3,4) [of e] by auto
  ultimately show ?thesis unfolding aborted_def by blast
qed

lemma aborted_sweep:
  assumes "aborted st w"
  shows "aborted (sweep_next cfg now st) w"
proof -
  have t: "aborted (sweep_timed_out now k st) w" for k
  proof (cases "map_of (nd_tasks st) k")
    case (Some a)
    then show ?thesis
      by (intro aborted_modify [OF assms, where v = "ac_work a" and
            f = "\<lambda>e. e\<lparr>ex_aborted_at := (case ex_aborted_at e of None \<Rightarrow> Some now | Some t \<Rightarrow> Some t), ex_abort := True\<rparr>"])
        (simp_all add: sweep_timed_out_def split: option.split)
  qed (simp add: assms sweep_timed_out_def)
  have s: "aborted (snd (sweep_wedged k st)) w" for k
  proof (cases "map_of (nd_tasks st) k")
    case (Some a)
    then show ?thesis
      by (intro aborted_modify [OF assms, where v = "ac_work a" and f = "\<lambda>e. e\<lparr>ex_abort := True, ex_wedged := True\<rparr>"])
        (simp_all add: sweep_wedged_def)
  qed (simp add: assms sweep_wedged_def)
  from sweep_executions obtain k where "nd_executions (sweep_next cfg now st) = nd_executions st \<or>
      nd_executions (sweep_next cfg now st) = nd_executions (sweep_timed_out now k st) \<or>
      nd_executions (sweep_next cfg now st) = nd_executions (snd (sweep_wedged k st))" by blast
  with assms t [of k] s [of k] show ?thesis unfolding aborted_def by auto
qed

lemma sweep_aborts:
  assumes "nd_phase st = Sweeping ps ts ws r" and "k \<in> set ts" "k \<notin> set ps" and "map_of (nd_tasks st) k = Some a"
    and "executing (nd_executions st) k (ac_work a) (\<lambda>e. True)"
  shows "aborted (sweep_all cfg now (length ps + length ts + n) st) (ac_work a)"
  using assms
proof (induction "length ps + length ts" arbitrary: ps ts st)
  case 0
  then show ?case by simp
next
  case (Suc m)
  have stays: "aborted st w \<Longrightarrow> aborted (sweep_all cfg now i st) w" for st w i
    by (induction i arbitrary: st) (auto intro: aborted_sweep)
  show ?case
  proof (cases ps)
    case (Cons k' ps')
    let ?st = "sweep_next cfg now st"
    have st: "nd_phase ?st = Sweeping ps' ts ws r" "map_of (nd_tasks ?st) k = Some a" "nd_executions ?st = nd_executions st"
      using Suc.prems Cons by (auto simp: sweep_next_def sweep_panicked_def split: option.splits)
    from Suc.hyps(1) [of ps' ts ?st] Suc.hyps(2) Suc.prems Cons st show ?thesis by simp
  next
    case Nil
    with Suc.hyps(2) obtain k' ts' where ts: "ts = k' # ts'" by (cases ts) auto
    let ?st = "sweep_next cfg now st"
    have st: "nd_phase ?st = Sweeping [] ts' ws r" "nd_tasks ?st = nd_tasks st"
      using Suc.prems(1) Nil ts by (simp_all add: sweep_next_def sweep_timed_out_def split: option.split)
    show ?thesis
    proof (cases "k' = k")
      case True
      with Suc.prems Nil ts have "nd_executions ?st = hm_modify (ac_work a)
          (\<lambda>e. e\<lparr>ex_aborted_at := (case ex_aborted_at e of None \<Rightarrow> Some now | Some t \<Rightarrow> Some t), ex_abort := True\<rparr>) (nd_executions st)"
        by (simp add: sweep_next_def sweep_timed_out_def)
      moreover obtain e where "map_of (nd_executions st) (ac_work a) = Some e" using Suc.prems(5) by (auto simp: executing_def)
      ultimately have "map_of (nd_executions ?st) (ac_work a) =
          Some (e\<lparr>ex_aborted_at := (case ex_aborted_at e of None \<Rightarrow> Some now | Some t \<Rightarrow> Some t), ex_abort := True\<rparr>)"
        by (simp add: hm_modify_def)
      then have "aborted ?st (ac_work a)" unfolding aborted_def by (simp split: option.split)
      from stays [OF this, of "length ts' + n"] Nil ts show ?thesis by simp
    next
      case False
      have "executing (nd_executions ?st) k (ac_work a) (\<lambda>e. True)"
        using Suc.prems(1,5) Nil ts by (simp add: sweep_next_def sweep_timed_out_def executing_kept split: option.split)
      with Suc.hyps(1) [of "[]" ts' ?st] Suc.hyps(2) Suc.prems Nil ts st False show ?thesis by simp
    qed
  qed
qed

text \<open>An entry on the third list is reported: the node is closed and a job has the key.\<close>

lemma sweep_reports:
  assumes "nd_phase st = Sweeping ps ts ws r" and "k \<in> set r \<or> k \<in> set ws \<and> k \<notin> set ps \<and> map_of (nd_tasks st) k \<noteq> None"
  shows "nd_closed (sweep_all cfg now (sweep_steps (nd_phase st)) st) \<and>
    (\<exists>j \<in> set (nd_jobs (sweep_all cfg now (sweep_steps (nd_phase st)) st)). k \<in> set (wj_left j))"
  using assms
proof (induction "length ps + length ts + length ws" arbitrary: ps ts ws r st)
  case 0
  then show ?case by (auto simp: sweep_next_def sweep_ends_def)
next
  case (Suc m)
  let ?st = "sweep_next cfg now st"
  have run: "sweep_all cfg now (sweep_steps (nd_phase st)) st = sweep_all cfg now (length ps + length ts + length ws) ?st"
    using Suc.prems(1) by simp
  consider k' ps' where "ps = k' # ps'" | k' ts' where "ps = []" "ts = k' # ts'" | k' ws' where "ps = []" "ts = []" "ws = k' # ws'"
    using Suc.hyps(2) by (cases ps; cases ts; cases ws) auto
  then show ?case
  proof cases
    case 1
    have "nd_phase ?st = Sweeping ps' ts ws r" "k \<in> set r \<or> k \<in> set ws \<and> k \<notin> set ps' \<and> map_of (nd_tasks ?st) k \<noteq> None"
      using Suc.prems 1 by (auto simp: sweep_next_def sweep_panicked_def split: option.splits)
    from Suc.hyps(1) [OF _ this] Suc.hyps(2) 1 this show ?thesis unfolding run by simp
  next
    case 2
    have "nd_phase ?st = Sweeping [] ts' ws r" "k \<in> set r \<or> k \<in> set ws \<and> k \<notin> set [] \<and> map_of (nd_tasks ?st) k \<noteq> None"
      using Suc.prems 2 by (auto simp: sweep_next_def sweep_timed_out_def split: option.splits)
    from Suc.hyps(1) [OF _ this] Suc.hyps(2) 2 this show ?thesis unfolding run by simp
  next
    case 3
    let ?r = "if map_of (nd_tasks st) k' = None then r else r @ [k']"
    have "nd_phase ?st = Sweeping [] [] ws' ?r" "k \<in> set ?r \<or> k \<in> set ws' \<and> k \<notin> set [] \<and> map_of (nd_tasks ?st) k \<noteq> None"
      using Suc.prems 3 by (auto simp: sweep_next_def sweep_wedged_def split: option.splits)
    from Suc.hyps(1) [OF _ this] Suc.hyps(2) 3 this show ?thesis unfolding run by simp
  qed
qed

lemma overdue_work:
  assumes reach: "node_reachable cfg json st" "nd_phase st = Scanning"
    and a: "map_of (nd_tasks st) k = Some a" and e: "map_of (nd_executions st) (ac_work a) = Some e"
    and late: "\<not> reporter_done e" "ex_result e = None" "now - ac_started_at a > nc_task_timeout cfg"
  shows "case ex_aborted_at e of
      Some t \<Rightarrow> now - t > ABORT_GRACE \<longrightarrow>
        nd_closed (sweep_all cfg now (sweep_steps (nd_phase (scan cfg now st))) (scan cfg now st)) \<and>
        (\<exists>j \<in> set (nd_jobs (sweep_all cfg now (sweep_steps (nd_phase (scan cfg now st))) (scan cfg now st))). k \<in> set (wj_left j))
    | None \<Rightarrow> aborted (sweep_all cfg now (sweep_steps (nd_phase (scan cfg now st))) (scan cfg now st)) (ac_work a)"
proof -
  note d = node_invD [OF node_reachable_inv [OF reach(1)]]
  let ?st = "scan cfg now st"
  have act: "entry_action cfg now st a = Some (timeout_action now a e (nc_task_timeout cfg) ABORT_GRACE)"
    using e late(1) by (simp add: entry_action_def)
  have "a' = a" if "(k, a') \<in> set (nd_tasks st)" for a' using that a by (simp add: hm_wf_mem [OF d(1)])
  moreover have "(k, a) \<in> set (nd_tasks st)" using a by (simp add: hm_wf_mem [OF d(1)])
  moreover have "k \<in> set (scanned cfg now st x) \<longleftrightarrow> (\<exists>a'. (k, a') \<in> set (nd_tasks st) \<and> entry_action cfg now st a' = x)" for x
    unfolding scanned_def by (auto simp: image_iff)
  ultimately have mem: "k \<in> set (scanned cfg now st x) \<longleftrightarrow> entry_action cfg now st a = x" for x by blast
  have no: "k \<notin> set (scanned cfg now st None)" by (simp add: mem act)
  let ?ps = "scanned cfg now st None" and ?ts = "scanned cfg now st (Some AbortWork)" and ?ws = "scanned cfg now st (Some ReportWedged)"
  have st: "nd_tasks ?st = nd_tasks st" "nd_executions ?st = nd_executions st" and phase: "nd_phase ?st = Sweeping ?ps ?ts ?ws []"
    by (simp_all add: scan_def)
  show ?thesis
  proof (cases "ex_aborted_at e")
    case None
    with late act have "k \<in> set ?ts" by (simp add: mem timeout_action_def)
    then have "aborted (sweep_all cfg now (length ?ps + length ?ts + (length ?ws + 1)) ?st) (ac_work a)"
      using a d(6) [OF a] no by (intro sweep_aborts [OF phase]) (simp_all add: st)
    then show ?thesis by (simp add: None phase add.assoc del: sweep_all.simps)
  next
    case (Some t)
    have "k \<in> set ?ws" if "now - t > ABORT_GRACE" using that late act Some by (simp add: mem timeout_action_def)
    then have "now - t > ABORT_GRACE \<longrightarrow> k \<in> set [] \<or> k \<in> set ?ws \<and> k \<notin> set ?ps \<and> map_of (nd_tasks ?st) k \<noteq> None"
      using a no by (simp add: st)
    with sweep_reports [OF phase, of k cfg now] show ?thesis by (simp only: Some option.case) blast
  qed
qed

end
