(* ===== verification/Auth.thy ===== *)
theory Auth
  imports Decimal
begin

text \<open>
  The bearer token of the cluster (\<open>crates/common/src/auth.rs\<close>): how a server and a client read their settings, the
  header a client sends, and the layer in front of a server that checks it.

  Header values belong to the package \<open>http\<close>: \<open>Headers\<close> has its two conversions, and \<open>header_laws\<close> says that they
  accept visible ASCII, as documented.  Comparison in constant time is equality.
\<close>

section \<open>Settings\<close>

record AuthConfig =
  au_token :: "string option"
  au_required :: bool

datatype AuthConfigError =
    RequiredWithoutToken
  | InvalidRequiredFlag
  | InvalidToken

record Headers =
  hd_try_from :: "string \<Rightarrow> string option"
  hd_to_str :: "string \<Rightarrow> string option"

definition is_visible :: "char \<Rightarrow> bool" where
  "is_visible c = (let b = of_char c :: nat in 32 \<le> b \<and> b \<le> 126)"

definition is_ascii_graphic :: "char \<Rightarrow> bool" where
  "is_ascii_graphic c = (let b = of_char c :: nat in 33 \<le> b \<and> b \<le> 126)"

definition header_laws :: "Headers \<Rightarrow> bool" where
  "header_laws H \<longleftrightarrow> (\<forall>s. list_all is_visible s \<longrightarrow> hd_try_from H s = Some s \<and> hd_to_str H s = Some s) \<and>
     (\<forall>s t. hd_to_str H s = Some t \<longrightarrow> t = s)"

definition BEARER_PREFIX :: string where
  "BEARER_PREFIX = ''Bearer ''"

definition resolve_token :: "string option \<Rightarrow> string option \<Rightarrow> string option" where
  "resolve_token prefixed bare = List.find (\<lambda>token. token \<noteq> []) (option_list prefixed @ option_list bare)"

definition to_ascii_lowercase :: "char \<Rightarrow> char" where
  "to_ascii_lowercase c = (let b = of_char c :: nat in if 65 \<le> b \<and> b \<le> 90 then char_of (b + 32) else c)"

definition eq_ignore_ascii_case :: "string \<Rightarrow> string \<Rightarrow> bool" where
  "eq_ignore_ascii_case a b = (map to_ascii_lowercase a = map to_ascii_lowercase b)"

definition parse_required_flag :: "string option \<Rightarrow> AuthConfigError + bool" where
  "parse_required_flag value =
     (case value of
        None \<Rightarrow> Inr False
      | Some v \<Rightarrow>
          (if v = [] then Inr False
           else if eq_ignore_ascii_case v ''true'' then Inr True
           else if eq_ignore_ascii_case v ''false'' then Inr False
           else Inl InvalidRequiredFlag))"

definition bearer_header :: "Headers \<Rightarrow> string \<Rightarrow> AuthConfigError + string" where
  "bearer_header H token =
     (if \<not> list_all is_ascii_graphic token then Inl InvalidToken
      else case hd_try_from H (BEARER_PREFIX @ token) of None \<Rightarrow> Inl InvalidToken | Some header \<Rightarrow> Inr header)"

definition resolve_config :: "Headers \<Rightarrow> string option \<Rightarrow> string option \<Rightarrow> AuthConfigError + AuthConfig" where
  "resolve_config H token required =
     (case parse_required_flag required of
        Inl e \<Rightarrow> Inl e
      | Inr req \<Rightarrow>
          (case (case token of None \<Rightarrow> None | Some t \<Rightarrow> (case bearer_header H t of Inl e \<Rightarrow> Some e | Inr h \<Rightarrow> None)) of
             Some e \<Rightarrow> Inl e
           | None \<Rightarrow>
               (if req \<and> token = None then Inl RequiredWithoutToken else Inr \<lparr>au_token = token, au_required = req\<rparr>)))"

text \<open>The variables of the environment: with the prefix of the service, without it, and the flag.\<close>

definition config_from_env :: "Headers \<Rightarrow> string option \<Rightarrow> string option \<Rightarrow> string option \<Rightarrow> AuthConfigError + AuthConfig" where
  "config_from_env H prefixed bare required = resolve_config H (resolve_token prefixed bare) required"

section \<open>The check\<close>

definition token_matches :: "Headers \<Rightarrow> AuthConfig \<Rightarrow> string option \<Rightarrow> bool" where
  "token_matches H cfg authorization =
     (case au_token cfg of
        None \<Rightarrow> False
      | Some expected \<Rightarrow>
          (case Option.bind (Option.bind authorization (hd_to_str H)) (strip_prefix BEARER_PREFIX) of
             None \<Rightarrow> False
           | Some presented \<Rightarrow> expected = presented))"

text \<open>\<open>BearerAuth::call\<close> around a service: a rejected request does not reach it.\<close>

definition guarded :: "Headers \<Rightarrow> AuthConfig \<Rightarrow> string option \<Rightarrow> ('s \<Rightarrow> 'a result \<times> 's) \<Rightarrow> 's \<Rightarrow> 'a result \<times> 's" where
  "guarded H cfg authorization inner s =
     (if token_matches H cfg authorization then inner s
      else if \<not> au_required cfg then inner s
      else (Inl (Unauthenticated ''missing or invalid bearer token''), s))"

section \<open>The client\<close>

record BearerInterceptor =
  bi_header :: "string option"

definition BearerInterceptor_new :: "Headers \<Rightarrow> string option \<Rightarrow> AuthConfigError + BearerInterceptor" where
  "BearerInterceptor_new H token =
     (case token of
        None \<Rightarrow> Inr \<lparr>bi_header = None\<rparr>
      | Some t \<Rightarrow> (case bearer_header H t of Inl e \<Rightarrow> Inl e | Inr h \<Rightarrow> Inr \<lparr>bi_header = Some h\<rparr>))"

text \<open>The value of the header after the interceptor; \<open>given\<close> is what the request had.\<close>

definition intercept :: "BearerInterceptor \<Rightarrow> string option \<Rightarrow> string option" where
  "intercept i given = (case bi_header i of None \<Rightarrow> given | Some h \<Rightarrow> Some h)"

section \<open>Server and client together\<close>

lemma bearer_visible: "list_all is_ascii_graphic t \<Longrightarrow> list_all is_visible (BEARER_PREFIX @ t)"
  by (auto simp: BEARER_PREFIX_def list_all_iff is_visible_def is_ascii_graphic_def Let_def)

lemma bearer_header_ok:
  "header_laws H \<Longrightarrow> bearer_header H t = (if list_all is_ascii_graphic t then Inr (BEARER_PREFIX @ t) else Inl InvalidToken)"
  using bearer_visible [of t] by (auto simp: bearer_header_def header_laws_def)

lemma resolve_token_nonempty: "resolve_token a b = Some t \<Longrightarrow> t \<noteq> []"
  by (auto simp: resolve_token_def find_Some_iff)

lemma config_ok:
  assumes "header_laws H" and "config_from_env H a b f = Inr cfg"
  shows "au_token cfg = resolve_token a b" and "au_required cfg \<Longrightarrow> au_token cfg \<noteq> None"
    and "au_token cfg = Some t \<Longrightarrow> t \<noteq> [] \<and> list_all is_ascii_graphic t" and "parse_required_flag f = Inr (au_required cfg)"
  using assms resolve_token_nonempty [of a b]
  by (auto simp: config_from_env_def resolve_config_def bearer_header_ok split: sum.splits option.splits if_splits)

lemma token_matches_iff:
  assumes "header_laws H" and "au_token cfg = Some t" and "list_all is_ascii_graphic t"
  shows "token_matches H cfg authorization \<longleftrightarrow> authorization = Some (BEARER_PREFIX @ t)"
proof
  assume "token_matches H cfg authorization"
  then obtain h s where "authorization = Some h" "hd_to_str H h = Some s" "s = BEARER_PREFIX @ t"
    using assms(2) by (auto simp: token_matches_def strip_prefix_Some bind_eq_Some_conv split: option.splits)
  with assms(1) show "authorization = Some (BEARER_PREFIX @ t)" by (auto simp: header_laws_def)
next
  assume "authorization = Some (BEARER_PREFIX @ t)"
  with assms bearer_visible [OF assms(3)] show "token_matches H cfg authorization"
    by (simp add: token_matches_def header_laws_def)
qed

text \<open>The flag is one of the known values in any case, or the server does not start.\<close>

lemma required_flag:
  "parse_required_flag f = Inr True \<longleftrightarrow> (\<exists>v. f = Some v \<and> eq_ignore_ascii_case v ''true'')"
  "parse_required_flag f = Inr False \<longleftrightarrow> f = None \<or> f = Some [] \<or> (\<exists>v. f = Some v \<and> eq_ignore_ascii_case v ''false'')"
  by (auto simp: parse_required_flag_def eq_ignore_ascii_case_def to_ascii_lowercase_def split: option.splits)

lemma guarded_open: "\<not> au_required cfg \<Longrightarrow> guarded H cfg given call s = call s"
  by (simp add: guarded_def)

lemma guarded_required:
  assumes "header_laws H" and "au_token cfg = Some t" and "list_all is_ascii_graphic t" and "au_required cfg"
  shows "guarded H cfg given call s =
    (if given = Some (BEARER_PREFIX @ t) then call s else (Inl (Unauthenticated ''missing or invalid bearer token''), s))"
  using token_matches_iff [OF assms(1-3), of given] assms(4) by (simp add: guarded_def)

text \<open>A client with the token of the server sends the header the server waits for, whatever the request had.\<close>

lemma interceptor_sends:
  assumes "header_laws H" and "list_all is_ascii_graphic t"
  obtains i where "BearerInterceptor_new H (Some t) = Inr i" and "\<And>given. intercept i given = Some (BEARER_PREFIX @ t)"
  using assms by (simp add: BearerInterceptor_new_def bearer_header_ok intercept_def)

end
