(* ===== verification/Sample_Node.thy ===== *)
theory Sample_Node
  imports Node_Inv Auth
begin

text \<open>
  Short runs of the worker side: a node that completes a task and drains, a node with work that does not end, a reader
  whose stream breaks, and header values.
\<close>

section \<open>A drained node\<close>

definition sample_node_config :: NodeConfig where
  "sample_node_config = \<lparr>nc_worker_id = ''w'', nc_task_timeout = from_secs 60, nc_drain_timeout = from_secs 60\<rparr>"

definition sample_node_data :: TaskData where
  "sample_node_data = \<lparr>td_task_type = ProveShard, td_inputs = [''i''], td_outputs = [''o''], td_metadata = ''{}'', td_proof_id = ''p'',
     td_parent_id = None, td_weight = 4, td_requester = ''r''\<rparr>"

definition sample_json :: "WorkerMetadata \<Rightarrow> string" where
  "sample_json m = (case wm_gpu_ms m of None \<Rightarrow> ''null'' | Some n \<Rightarrow> show_nat n)"

definition sample_node :: Node where
  "sample_node = insert_entry 1 (on_new_task 1 7 ''s'' sample_node_data (Node_new 0))"

definition sample_drained :: Node where
  "sample_drained =
     close_returns sample_node_config True (on_token_cancelled 2
       (reporter_ends sample_node_config sample_json 7 (reporter_decides 7
         (work_ends 7 (JoinOk Succeeded (Some default_metadata)) sample_node))))"

lemmas sample_node_defs = sample_node_def sample_drained_def sample_node_data_def Node_new_def on_new_task_def insert_entry_def Let_def
  work_ends_def reporter_decides_def decide_def reporter_ends_def drop_if_current_def report_call_def on_token_cancelled_def
  close_returns_def hm_modify_def

lemma sample_node_state:
  "nd_exit sample_node = None" "nd_phase sample_node = Idle" "nd_closed sample_node = False"
  "map_of (nd_tasks sample_node) (TaskKey ''p'' ''s'') = Some \<lparr>ac_data = sample_node_data, ac_started_at = 1, ac_work = 7\<rparr>"
  "nd_tasks sample_node = [(TaskKey ''p'' ''s'', \<lparr>ac_data = sample_node_data, ac_started_at = 1, ac_work = 7\<rparr>)]"
  "map_of (nd_executions sample_node) 7 = Some \<lparr>ex_key = TaskKey ''p'' ''s'', ex_result = None, ex_abort = False, ex_aborted_at = None,
     ex_reporter = RpWaiting, ex_report = None, ex_cancelled = False, ex_wedged = False\<rparr>"
  by (simp_all add: sample_node_defs)

lemma node_then: "node_reachable cfg json st \<Longrightarrow> node_step cfg json st st' \<Longrightarrow> nd_exit st = None \<Longrightarrow> node_reachable cfg json st'"
  by (rule node_next)

lemma sample_node_reachable: "node_reachable cfg json sample_node"
proof -
  have "node_reachable cfg json (on_new_task 1 7 ''s'' sample_node_data (Node_new 0))"
    by (rule node_then [OF node_init ns_new_task]) (simp_all add: Node_new_def)
  then show ?thesis
    unfolding sample_node_def by (rule node_then [OF _ ns_insert]) (simp_all add: sample_node_defs)
qed

lemma sample_drained_state:
  "nd_exit sample_drained = Some Drained"
  "nd_calls sample_drained = [CompleteTask ''w'' ''p'' ''s'' ''null'', Close ''w'']"
  "nd_executions sample_drained = [(7, \<lparr>ex_key = TaskKey ''p'' ''s'', ex_result = Some (JoinOk Succeeded (Some default_metadata)),
     ex_abort = False, ex_aborted_at = None, ex_reporter = RpFinished, ex_report = Some (ReportComplete default_metadata),
     ex_cancelled = False, ex_wedged = False\<rparr>)]"
  by (simp_all add: sample_node_defs sample_node_config_def sample_json_def default_metadata_def)

lemma sample_drained_reachable: "node_reachable sample_node_config sample_json sample_drained"
proof -
  let ?cfg = sample_node_config and ?json = sample_json
  let ?s1 = "work_ends 7 (JoinOk Succeeded (Some default_metadata)) sample_node"
  let ?s2 = "reporter_decides 7 ?s1"
  let ?s3 = "reporter_ends ?cfg ?json 7 ?s2"
  have "node_step ?cfg ?json sample_node ?s1" by (rule ns_work [OF sample_node_state(6)]) simp_all
  with sample_node_reachable sample_node_state(1) have r1: "node_reachable ?cfg ?json ?s1" by (rule node_next)
  have "node_step ?cfg ?json ?s1 ?s2"
    by (rule ns_decide [where e = "\<lparr>ex_key = TaskKey ''p'' ''s'', ex_result = Some (JoinOk Succeeded (Some default_metadata)),
        ex_abort = False, ex_aborted_at = None, ex_reporter = RpWaiting, ex_report = None, ex_cancelled = False, ex_wedged = False\<rparr>"])
      (simp_all add: sample_node_defs)
  with r1 have r2: "node_reachable ?cfg ?json ?s2" by (rule node_then) (simp add: sample_node_defs)
  have "node_step ?cfg ?json ?s2 ?s3"
    by (rule ns_report [where r = "ReportComplete default_metadata" and e = "\<lparr>ex_key = TaskKey ''p'' ''s'',
        ex_result = Some (JoinOk Succeeded (Some default_metadata)), ex_abort = False, ex_aborted_at = None,
        ex_reporter = RpReporting (ReportComplete default_metadata), ex_report = Some (ReportComplete default_metadata),
        ex_cancelled = False, ex_wedged = False\<rparr>"])
      (simp_all add: sample_node_defs)
  with r2 have r3: "node_reachable ?cfg ?json ?s3" by (rule node_then) (simp add: sample_node_defs)
  have "node_step ?cfg ?json ?s3 (on_token_cancelled 2 ?s3)" by (rule ns_token) (simp_all add: sample_node_defs)
  with r3 have r4: "node_reachable ?cfg ?json (on_token_cancelled 2 ?s3)" by (rule node_then) (simp add: sample_node_defs)
  show ?thesis unfolding sample_drained_def
    by (rule node_then [OF r4 ns_close]) (simp_all add: sample_node_defs)
qed

section \<open>Work that does not end\<close>

definition sample_overdue :: Node where
  "sample_overdue = reopened (from_secs 100) True (watchdog_tick sample_node_config (from_secs 100) sample_node)"

lemma sample_overdue_state:
  "nd_phase sample_overdue = Scanning" "nd_tasks sample_overdue = nd_tasks sample_node"
  "nd_executions sample_overdue = nd_executions sample_node"
  by (simp_all add: sample_overdue_def reopened_def watchdog_tick_def sample_node_defs STALLED_TICK_GAP_def from_secs_def)

lemma sample_overdue_reachable: "node_reachable sample_node_config json sample_overdue"
proof -
  let ?tick = "watchdog_tick sample_node_config (from_secs 100) sample_node"
  have tick: "nd_phase ?tick = Reopening" "nd_exit ?tick = None"
    by (simp_all add: watchdog_tick_def sample_node_defs STALLED_TICK_GAP_def from_secs_def)
  have "node_reachable sample_node_config json ?tick"
    by (rule node_then [OF sample_node_reachable ns_tick]) (simp_all add: sample_node_state)
  then show ?thesis unfolding sample_overdue_def by (rule node_then [OF _ ns_reopened]) (simp_all add: tick)
qed

section \<open>A broken stream\<close>

definition sample_message_channel :: MessageChannelInner where
  "sample_message_channel = \<lparr>mc_subscribers = [], mc_buffer = [[5], [6]], mc_closed = True, mc_closed_at = Some 9\<rparr>"

definition sample_reader :: MessageReader where
  "sample_reader = \<lparr>mr_tx = 2, mr_seen = 2, mr_forwarded = 2, mr_received = [[5], [6]], mr_end = Some SawEnd\<rparr>"

text \<open>One message is read, the stream breaks with the second unread, and the new stream brings it and the end.\<close>

lemma sample_message_run:
  "message_run sample_message_channel [1 \<mapsto> 0, 2 \<mapsto> 1] {}
     [(1, Payload [5]), (1, Payload [6]), (2, Payload [6]), (1, EndOfStream), (2, EndOfStream)] sample_reader"
proof -
  let ?d = MessageChannel_default
  let ?c1 = "?d\<lparr>mc_subscribers := [1]\<rparr>" and ?r1 = "subscribe_reader 1"
  have s1: "message_run ?c1 [1 \<mapsto> 0] {} ([] @ []) ?r1"
    by (rule mr_subscribe [OF channel_history.opened]) (simp_all add: attach_subscriber_def MessageChannel_default_def)
  let ?c2 = "?c1\<lparr>mc_buffer := [[5]]\<rparr>" and ?c3 = "?c1\<lparr>mc_buffer := [[5], [6]]\<rparr>"
  have s2: "message_run ?c2 [1 \<mapsto> 0] {} (([] @ []) @ [(1, Payload [5])]) ?r1"
    by (rule mr_push [OF s1, of "{}" "[5]"]) (simp_all add: push_def MessageChannel_default_def)
  have s3: "message_run ?c3 [1 \<mapsto> 0] {} ((([] @ []) @ [(1, Payload [5])]) @ [(1, Payload [6])]) ?r1"
    by (rule mr_push [OF s2, of "{}" "[6]"]) (simp_all add: push_def MessageChannel_default_def)
  let ?l3 = "[(1, Payload [5]), (1, Payload [6])]"
  have s3': "message_run ?c3 [1 \<mapsto> 0] {} ?l3 ?r1" using s3 by simp
  let ?r2 = "\<lparr>mr_tx = 1, mr_seen = 1, mr_forwarded = 1, mr_received = [[5]], mr_end = None\<rparr>"
  have s4: "message_run ?c3 [1 \<mapsto> 0] {} ?l3 ?r2"
    using mr_read [OF s3', of True] by (simp add: subscribe_reader_def stream_of_def)
  let ?c5 = "?c3\<lparr>mc_subscribers := [1, 2]\<rparr>" and ?r3 = "?r2\<lparr>mr_tx := 2, mr_seen := 0\<rparr>"
  have s5: "message_run ?c5 [1 \<mapsto> 0, 2 \<mapsto> 1] {} (?l3 @ [(2, Payload [6])]) ?r3"
    using mr_reconnect [OF s4, of 2] by (simp add: attach_subscriber_def MessageChannel_default_def on_reconnect_def)
  let ?l5 = "[(1, Payload [5]), (1, Payload [6]), (2, Payload [6])]"
  let ?r4 = "\<lparr>mr_tx = 2, mr_seen = 1, mr_forwarded = 2, mr_received = [[5], [6]], mr_end = None\<rparr>"
  have s5': "message_run ?c5 [1 \<mapsto> 0, 2 \<mapsto> 1] {} ?l5 ?r3" using s5 by simp
  have s6: "message_run ?c5 [1 \<mapsto> 0, 2 \<mapsto> 1] {} ?l5 ?r4"
    using mr_read [OF s5', of True] by (simp add: stream_of_def numeral_2_eq_2)
  have s7: "message_run sample_message_channel [1 \<mapsto> 0, 2 \<mapsto> 1] {} (?l5 @ [(1, EndOfStream), (2, EndOfStream)]) ?r4"
    by (rule mr_close [OF s6, of "{}" 9]) (simp_all add: close_channel_def MessageChannel_default_def sample_message_channel_def)
  then have s7': "message_run sample_message_channel [1 \<mapsto> 0, 2 \<mapsto> 1] {}
      [(1, Payload [5]), (1, Payload [6]), (2, Payload [6]), (1, EndOfStream), (2, EndOfStream)] ?r4" by simp
  from mr_read [OF s7', of True] show ?thesis by (simp add: stream_of_def sample_reader_def numeral_2_eq_2)
qed

section \<open>Header values\<close>

definition sample_headers :: Headers where
  "sample_headers = \<lparr>hd_try_from = (\<lambda>s. if list_all is_visible s then Some s else None),
     hd_to_str = (\<lambda>s. if list_all is_visible s then Some s else None)\<rparr>"

lemma sample_header_laws: "header_laws sample_headers"
  by (simp add: header_laws_def sample_headers_def)

lemma sample_flag: "eq_ignore_ascii_case ''True'' ''true''"
  by code_simp

section \<open>A worker that opens its stream\<close>

definition sample_build :: Build where
  "sample_build = \<lparr>bu_version = ''1'', bu_git_sha = ''a'', bu_image_tag = None, bu_gpu_name = None, bu_gpu_memory = None\<rparr>"

definition sample_worker_client :: WorkerServiceClient where
  "sample_worker_client = \<lparr>wc_worker_id = ''w'', wc_worker_type = GpuWorker, wc_location = None\<rparr>"

definition announced_weight :: "nat \<Rightarrow> nat" where
  "announced_weight n =
     or_max_weight (open_request False sample_build (get_max_weight (Some (show_nat n @ [CHR 0x0A])) None None None None) sample_worker_client)"

lemma announced_weight: "announced_weight (24 * 2 ^ 30) = 24"
  unfolding announced_weight_def by (subst max_weight_limit) (simp_all add: open_request_def compute_max_weight_def dev_shm_gb_def)

end
