(* ===== verification/Spec2Isabelle.thy ===== *)
theory Spec2Isabelle
  imports Sample_Services Sample_Gateway Sample_Node
begin

text \<open>
  Verification of the SP1 cluster: a coordinator that spreads the tasks of zero-knowledge proofs over workers, and the
  services around it.

  \<^bold>\<open>The program\<close>

  A client asks the \<^emph>\<open>gateway\<close> for a proof; the gateway stores program and input as artifacts and creates a row in the
  table of the \<^emph>\<open>cluster API\<close>.  Rows also come from the proving network: the \<^emph>\<open>bidder\<close> bids for requests, the
  \<^emph>\<open>fulfiller\<close> turns the assigned ones into rows and answers the network when a row is settled.  The \<^emph>\<open>coordinator\<close>
  claims pending rows, keeps proofs and tasks in memory, assigns tasks to connected workers by a \<^emph>\<open>policy\<close>, tells
  subscribers how tasks end, relays messages of running tasks and writes the outcome of a proof back into the row.  A
  \<^emph>\<open>node\<close> runs the delivered tasks with the \<^emph>\<open>worker\<close> library, which calls the prover and reads and writes artifacts
  in the \<^emph>\<open>artifact store\<close>.  Bearer tokens guard the services.

  \<^bold>\<open>The theories and the sources\<close> (paths below \<open>src/\<close>)

  \<^item> \<open>Prelude\<close>, \<open>Decimal\<close>, \<open>Proto\<close>: fixed-width arithmetic, hash maps as association lists and hash sets as distinct
    lists, gRPC statuses, printing and parsing of numbers, and the generated messages.
  \<^item> \<open>Task_Queue\<close> (\<open>bin/coordinator/src/policy/\<close>): queued tasks with their order, and the binary heap as the locale
    \<open>binary_heap\<close>.
  \<^item> \<open>Coord_State\<close>, \<open>Coordinator\<close> (\<open>bin/coordinator/src/lib.rs\<close>): the state behind the lock and one definition per
    operation.  What an operation sends after it is returned as a list of effects.
  \<^item> \<open>Policy_Interface\<close>: the contract \<open>assignment_policy\<close> the coordinator relies on, and \<open>assign_loop\<close> for the loops of
    a policy.  \<open>Policy_Default\<close> and \<open>Policy_Balanced\<close> (\<open>policy/default.rs\<close>, \<open>policy/balanced.rs\<close>) interpret both.
  \<^item> \<open>Coord_Inv\<close>, \<open>Coord_Preserve\<close>, \<open>Coord_Handlers\<close>, \<open>Coord_Evolve\<close>, \<open>Coord_Reach\<close>: the invariant, its preservation
    for every policy of the contract, how stored tasks evolve, and the state machine.
  \<^item> \<open>Channels\<close>, \<open>Telemetry\<close>, \<open>Coord_Service\<close>, \<open>Server\<close> (\<open>lib.rs\<close>, \<open>server.rs\<close>): message channels, reports,
    subscribers and channels around the state, and the remote procedures (\<open>serve\<close>) with the forwarder of messages.
  \<^item> \<open>Api\<close>, \<open>Api_Client\<close>, \<open>Cluster\<close> (\<open>bin/api/src/service.rs\<close>, \<open>crates/common/src/client.rs\<close>,
    \<open>bin/coordinator/src/cluster.rs\<close>): the table, its client, and claiming, completing and re-issuing lost writes.
  \<^item> \<open>Fulfiller\<close>, \<open>Bidder\<close> (\<open>crates/fulfillment\<close>, \<open>bin/bidder\<close>).
  \<^item> \<open>Artifact_Redis\<close>, \<open>Artifact_Store\<close>, \<open>Artifact_Admission\<close>, \<open>Artifact_Client\<close> (\<open>crates/artifact/src/redis.rs\<close>):
    commands and keys, concurrent clients, the memory budget, and the store as the client the gateway uses.
  \<^item> \<open>Program_Store\<close>, \<open>Gateway\<close>, \<open>Gateway_Requests\<close> (\<open>bin/network-gateway/src\<close>): stores of programs (the locale
    \<open>program_store\<close>), the procedures, and the way of a request to the table and back.
  \<^item> \<open>Worker_Client\<close>, \<open>Worker_Tasks\<close> (\<open>crates/worker/src\<close>), \<open>Node\<close>, \<open>Node_Inv\<close> (\<open>bin/node/src\<close>): the client of the
    coordinator, limits and processing of tasks, and the main loop of a node with its invariant.
  \<^item> \<open>Auth\<close> (\<open>crates/common/src/auth.rs\<close>): tokens.
  \<^item> \<open>Sample_Run\<close>, \<open>Sample_Cluster\<close>, \<open>Sample_Services\<close>, \<open>Sample_Store\<close>, \<open>Sample_Gateway\<close>, \<open>Sample_Node\<close>: concrete runs and instances of all parameters, from which the witnesses are built.

  \<^bold>\<open>How the code is represented\<close>

  Structs are records, enums are datatypes, methods are functions on the state; errors are values of a sum type
  (\<open>Status + 'a\<close> for gRPC, \<open>string + 'a\<close> for \<open>anyhow\<close>).  Unwrapping an absent value in the coordinator sets the flag
  \<open>panicked\<close>.  Integers are natural numbers with wrap-around or saturation written out where the code has it; times are
  nanoseconds.  Clocks, fresh ids and answers from outside are arguments.  Where tasks of the program interleave, each
  stretch between two points of waiting is one step of an inductive relation: requests to the coordinator, attempts to
  write to the API, single commands to Redis, single operations on files, and the parts of a node.

  \<^bold>\<open>What is shown\<close>

  \<^item> C1 to C8: in every reachable state of the coordinator, under either policy, tasks have one holder, none is lost,
    the counters are exact, nothing panics, nothing is queued twice, and tasks only move forward.
  \<^item> C9 to C13: channels, subscribers, remote procedures as steps of the abstract service, and delivery of messages.
  \<^item> C14 to C16: the assignment loops stop, leave nothing assignable, and the balanced policy is fair.
  \<^item> C17 to C20: outcomes are final, recorded results reach the table, and the one run in which a result is dropped.
  \<^item> C21 to C24: the fulfiller answers what it marks as handled and schedules what was asked for; bids keep to prices
    and slots.
  \<^item> C25 to C29: downloads do not tear, keys keep their types, uploads read back, the one mix of uploads that can
    happen, and the memory budget.
  \<^item> C30 to C34: requests through the gateway, listings, and durability of registered programs.
  \<^item> C35 to C40: nodes report all they started, end overdue work and pass messages on once; subscriptions survive
    reconnects; held tasks fit the memory; tokens guard the services.

  \<^bold>\<open>Bounds and fuel\<close>

  The assignment loops carry a bound on their iterations, the number of queued entries; each iteration that goes on
  takes one entry out, and C15 shows that a larger bound changes nothing.  The listing of the bidder is bounded by its
  pages and stops before (C24).  Loops that may not end are partial functions with value \<open>None\<close> (\<open>chunk_loop\<close>, which
  ends for every positive chunk size).  Other loops recurse on their data.

  \<^bold>\<open>Assumptions\<close>

  A new task or proof has an id not in use, and the weight of a task and the capacity of all workers together stay below
  \<open>2 ^ 31\<close>: beyond that the comparison in the policies wraps around.  Redis is a parameter with the laws \<open>redis_laws\<close>
  on what its commands do to a key; hexadecimal printing, compression, header values, signature recovery and pricing are
  parameters with laws their packages document.  Each law has an instance in the \<open>Sample\<close> theories.

  \<^bold>\<open>Not modelled\<close>

  \<^item> The prover, the executor and their artifacts' contents, which are packages: the worker has them as a parameter.
  \<^item> Retries and connections of single calls: a call is executed or lost, its answer is heard or not.
  \<^item> S3 stores (\<open>s3.rs\<close>, \<open>s3_rest.rs\<close>, \<open>s3_sdk.rs\<close>) with their transfers in parts, and the adapter of the fulfiller to
    the network (\<open>bin/fulfiller/src/mainnet.rs\<close>): they call packages and services, whose answers are arguments here.
  \<^item> Start-up and reading of the environment, logging, metrics and tracing, latency measurement and gRPC-web.
  \<^item> Procedures of the gateway that answer \<open>Unimplemented\<close>, constant fields of answers, and the text of messages that
    only reach a log.
  \<^item> The command line, the test cluster and the client crate \<open>utils\<close>, which drive the services from outside.
  \<^item> Fairness: that a ready step is taken at some time is not claimed; liveness is stated per step (C10, C19, C36).
\<close>

section \<open>Reachable states of the coordinator\<close>

text \<open>
  C1. Whatever sequence of requests the coordinator has served, under either policy: a task is held
  by at most one worker, and each held task is stored, recorded as assigned to that very worker, and
  running or succeeded.
\<close>

theorem tasks_have_one_holder:
  "(coord_reachable (default_policy E) (default_view E) st \<longrightarrow> single_holder st) \<and>
   (coord_reachable (balanced_policy E) (balanced_view E) bt \<longrightarrow> single_holder bt)"
  using inv_single_holder [OF default.reachable_inv] inv_single_holder [OF balanced.reachable_inv] by blast

theorem tasks_have_one_holder_witness:
  "single_holder (sample_state (default_policy sample_env)) \<and>
   single_holder (sample_state (balanced_policy sample_env)) \<and>
   (''p'', ''s'') \<in> held (workers (sample_state (balanced_policy sample_env)))"
  using tasks_have_one_holder [of sample_env "sample_state (default_policy sample_env)"
      "sample_state (balanced_policy sample_env)"]
    sample_default_reachable sample_balanced_reachable
  by (simp add: sample_balanced_state sample_workers_def held_def)

text \<open>
  C2. No unfinished task is lost.  As long as the coordinator is not shutting down, every stored task
  that has neither succeeded nor failed for good, and whose type is served from a queue, is held by a
  worker or waits in a queue.
\<close>

theorem unfinished_tasks_are_placed:
  "(coord_reachable (default_policy E) (default_view E) st \<and> \<not> shutting_down st \<longrightarrow>
      no_task_lost (default_view E) st) \<and>
   (coord_reachable (balanced_policy E) (balanced_view E) bt \<and> \<not> shutting_down bt \<longrightarrow>
      no_task_lost (balanced_view E) bt)"
  using inv_no_task_lost [OF default.reachable_inv] inv_no_task_lost [OF balanced.reachable_inv] by blast

theorem unfinished_tasks_are_placed_witness:
  "no_task_lost (default_view sample_env) (sample_state (default_policy sample_env)) \<and>
   no_task_lost (balanced_view sample_env) (sample_state (balanced_policy sample_env))"
  using unfinished_tasks_are_placed [of sample_env "sample_state (default_policy sample_env)"
      "sample_state (balanced_policy sample_env)"]
    sample_default_reachable sample_balanced_reachable
  by (simp add: sample_default_state sample_balanced_state)

text \<open>
  C3. The weight counter of a worker is exact: outside shutdown it is the sum of the weights of the
  tasks the worker holds, and it never exceeds the capacity the worker announced.
\<close>

theorem worker_weights_exact:
  "(coord_reachable (default_policy E) (default_view E) st \<and> \<not> shutting_down st \<and>
      map_of (workers st) i = Some w \<longrightarrow> w_weight w = held_weight st w \<and> w_weight w \<le> w_max_weight w) \<and>
   (coord_reachable (balanced_policy E) (balanced_view E) bt \<and> \<not> shutting_down bt \<and>
      map_of (workers bt) j = Some v \<longrightarrow> w_weight v = held_weight bt v \<and> w_weight v \<le> w_max_weight v)"
  using inv_weights [OF default.reachable_inv] inv_weights [OF balanced.reachable_inv] by blast

theorem worker_weights_exact_witness:
  "\<exists>w. map_of (workers (sample_state (balanced_policy sample_env))) ''w'' = Some w \<and> w_weight w = 4 \<and>
     w_weight w = held_weight (sample_state (balanced_policy sample_env)) w"
  using worker_weights_exact [of sample_env "sample_state (default_policy sample_env)" "''w''" "snd (hd sample_workers)"
      "sample_state (balanced_policy sample_env)" "''w''" "snd (hd sample_workers)"]
    sample_default_reachable sample_balanced_reachable
  by (simp add: sample_default_state sample_balanced_state sample_workers_def)

text \<open>
  C4. The counter \<open>active_tasks\<close> of a proof is the number of its tasks that have neither succeeded
  nor failed for good; it never runs out of step, wraps around or underflows.
\<close>

theorem active_tasks_exact:
  "(coord_reachable (default_policy E) (default_view E) st \<and> map_of (proofs st) p = Some pr \<longrightarrow>
      p_active_tasks pr = card (unfinished pr)) \<and>
   (coord_reachable (balanced_policy E) (balanced_view E) bt \<and> map_of (proofs bt) p = Some pr \<longrightarrow>
      p_active_tasks pr = card (unfinished pr))"
  using inv_counter [OF default.reachable_inv] inv_counter [OF balanced.reachable_inv] by blast

theorem active_tasks_exact_witness:
  "card (unfinished (snd (hd sample_proofs))) = 2"
  using active_tasks_exact [of sample_env "sample_state (default_policy sample_env)" "''p''" "snd (hd sample_proofs)"
      "sample_state (balanced_policy sample_env)"]
    sample_default_reachable sample_balanced_reachable
  by (simp add: sample_default_state sample_balanced_state sample_proofs_def)

text \<open>
  C5. No \<open>unwrap\<close> or \<open>panic!\<close> on the state is ever reached, under either policy.
\<close>

theorem coordinator_never_panics:
  "(coord_reachable (default_policy E) (default_view E) st \<longrightarrow> \<not> panicked st) \<and>
   (coord_reachable (balanced_policy E) (balanced_view E) bt \<longrightarrow> \<not> panicked bt)"
  using coreD(5) [OF invD(2) [OF default.reachable_inv]] coreD(5) [OF invD(2) [OF balanced.reachable_inv]] by blast

theorem coordinator_never_panics_witness:
  "\<not> panicked (sample_state (default_policy sample_env)) \<and> \<not> panicked (sample_state (balanced_policy sample_env))"
  using coordinator_never_panics [of sample_env "sample_state (default_policy sample_env)"
      "sample_state (balanced_policy sample_env)"]
    sample_default_reachable sample_balanced_reachable
  by simp

text \<open>
  C6. Under either policy a task has at most one entry in the queues, and none while a worker holds it,
  so it is never started twice.
\<close>

theorem tasks_queued_once:
  "(coord_reachable (default_policy E) (default_view E) st \<longrightarrow> queued_once (default_view E) st) \<and>
   (coord_reachable (balanced_policy E) (balanced_view E) bt \<longrightarrow> queued_once (balanced_view E) bt)"
  using inv_queued_once [OF default.reachable_inv] inv_queued_once [OF balanced.reachable_inv] by blast

theorem tasks_queued_once_witness:
  "queued_once (default_view sample_env) (sample_state (default_policy sample_env)) \<and>
   queued_once (balanced_view sample_env) (sample_state (balanced_policy sample_env)) \<and>
   (''p'', ''c'') \<in> queued_keys (balanced_view sample_env) (policy (sample_state (balanced_policy sample_env)))"
  using tasks_queued_once [of sample_env "sample_state (default_policy sample_env)"
      "sample_state (balanced_policy sample_env)"]
    sample_default_reachable sample_balanced_reachable
  by (simp add: sample_balanced_state queued_keys_def sample_queued_def)



text \<open>
  C8. Tasks only move forward.  In each step of the coordinator a stored task keeps its identity and
  data, a succeeded task stays succeeded and a finished one stays finished; a task that finishes or
  disappears in the step has its message channel closed and every subscriber notified of a final
  status, and until then it keeps its subscribers.
\<close>

theorem tasks_move_forward:
  "(coord_reachable (default_policy E) (default_view E) st \<and> coord_step (default_policy E) (default_view E) effs st st' \<longrightarrow>
      tasks_evolve effs st st') \<and>
   (coord_reachable (balanced_policy E) (balanced_view E) bt \<and> coord_step (balanced_policy E) (balanced_view E) effs bt bt' \<longrightarrow>
      tasks_evolve effs bt bt')"
  using default.reachable_evolve balanced.reachable_evolve by blast

theorem tasks_move_forward_witness:
  "\<exists>effs st'. complete_task (default_policy sample_env) 1 ''w'' ''p'' ''s'' \<lparr>tm_gpu_ms = 5\<rparr>
       (sample_state (default_policy sample_env)) = Inr (effs, st') \<and> CloseChannel ''s'' \<in> set effs \<and>
     tasks_evolve effs (sample_state (default_policy sample_env)) st'"
proof -
  obtain st' where ends: "complete_task (default_policy sample_env) 1 ''w'' ''p'' ''s'' \<lparr>tm_gpu_ms = 5\<rparr>
      (sample_state (default_policy sample_env)) = Inr ([CloseChannel ''s'', Notify [] ''p'' ''s'' Succeeded], st')"
    using sample_completes [OF sample_default_state(2)] by blast
  with tasks_move_forward sample_default_reachable step_complete_task [OF ends] show ?thesis by fastforce
qed

section \<open>The coordinator with subscribers and channels\<close>

text \<open>
  C9. An open message channel belongs to a task that some proof still holds and that can still send:
  whenever a task succeeds, fails for good or is discarded with its proof, its channel is closed.
\<close>

theorem open_channels_have_live_tasks:
  "(service_reachable (default_policy E) (default_view E) c \<and> open_at c t ch \<longrightarrow>
      (\<exists>p task. get_task_internal (c_state c) p t = Some task \<and> \<not> final_status (t_status task))) \<and>
   (service_reachable (balanced_policy E) (balanced_view E) d \<and> open_at d t ch \<longrightarrow>
      (\<exists>p task. get_task_internal (c_state d) p t = Some task \<and> \<not> final_status (t_status task)))"
  using inv_channels_live [OF default.service_reachable_inv] inv_channels_live [OF balanced.service_reachable_inv]
  by blast

theorem open_channels_have_live_tasks_witness:
  "\<exists>p task. get_task_internal (c_state (sample_sent (balanced_policy sample_env))) p ''s'' = Some task \<and>
     \<not> final_status (t_status task)"
  using open_channels_have_live_tasks [of sample_env _ "''s''" "fst (push (\<lambda>_. True) [1] MessageChannel_default)"
      "sample_sent (balanced_policy sample_env)"]
    sample_sent_service [OF sample_balanced_service] sample_balanced_sent(3)
  by (simp add: MessageChannel_default_def)

text \<open>
  C10. No subscriber misses the end of a task.  If an unfinished task has a connected subscriber, then
  after any step the task is still unfinished and still remembers it, or a final status of the task
  was sent to it.
\<close>

theorem subscribers_hear_the_end:
  "(service_reachable (default_policy E) (default_view E) c \<and>
      coord_step (default_policy E) (default_view E) effs (c_state c) st' \<longrightarrow>
      no_end_missed c (run_effects alive tick effs (c\<lparr>c_state := st'\<rparr>))) \<and>
   (service_reachable (balanced_policy E) (balanced_view E) d \<and>
      coord_step (balanced_policy E) (balanced_view E) effs (c_state d) bt' \<longrightarrow>
      no_end_missed d (run_effects alive tick effs (d\<lparr>c_state := bt'\<rparr>)))"
  using default.subscriber_hears balanced.subscriber_hears by blast

theorem subscribers_hear_the_end_witness:
  "\<exists>effs st'. complete_task (default_policy sample_env) 1 ''w'' ''p'' ''s'' \<lparr>tm_gpu_ms = 5\<rparr>
      (c_state (sample_sent (default_policy sample_env))) = Inr (effs, st') \<and>
    (waits_for st' ''p'' ''s'' ''sub'' \<or>
     was_told 3 ''s'' (run_effects (\<lambda>_. True) 0 effs (sample_sent (default_policy sample_env)\<lparr>c_state := st'\<rparr>)))"
proof -
  let ?c = "sample_sent (default_policy sample_env)"
  have "\<exists>effs st'. complete_task (default_policy sample_env) 1 ''w'' ''p'' ''s'' \<lparr>tm_gpu_ms = 5\<rparr> (c_state ?c) = Inr (effs, st')"
    using sample_default_sent(1) by (auto simp: complete_task_def get_task_internal_def Let_def split: option.splits)
  then obtain effs st' where ends: "complete_task (default_policy sample_env) 1 ''w'' ''p'' ''s'' \<lparr>tm_gpu_ms = 5\<rparr> (c_state ?c) = Inr (effs, st')"
    by blast
  have "waits_for (c_state ?c) ''p'' ''s'' ''sub''"
    using sample_default_sent(1) by (simp add: waits_for_def sample_running_def new_task_def)
  moreover have "no_end_missed ?c (run_effects (\<lambda>_. True) 0 effs (?c\<lparr>c_state := st'\<rparr>))"
    using subscribers_hear_the_end sample_sent_service [OF sample_default_service] step_complete_task [OF ends] by blast
  ultimately show ?thesis using ends sample_default_sent(2) by (fastforce simp: no_end_missed_def)
qed



section \<open>Delivery\<close>

text \<open>
  C12. Forwarding to a subscriber is bounded and does not drop silently: no message is sent more than
  five times, and a message that is no longer kept was acknowledged, was on a broken stream, or has
  been sent at least four times.
\<close>

theorem forwarding_is_bounded:
  "forwarding m log received acked broken \<Longrightarrow>
     sends msg log \<le> 5 \<and>
     (msg \<in> set received \<longrightarrow>
        map_of m (sm_id msg) \<noteq> None \<or> sm_id msg \<in> acked \<or> sm_id msg \<in> broken \<or> 4 \<le> sends msg log)"
  using forwarding_okD(4,6) [OF forwarding_inv] by blast

theorem forwarding_is_bounded_witness:
  "let msg = \<lparr>sm_id = ''m'', sm_body = SubHeartbeat\<rparr>
   in forwarding [(''m'', \<lparr>ua_last_acked = 0, ua_msg = msg, ua_retries = 0\<rparr>)] [msg] [msg] {} {} \<and> sends msg [msg] \<le> 5"
proof -
  let ?msg = "\<lparr>sm_id = ''m'', sm_body = SubHeartbeat\<rparr>"
  have "forwarding [(''m'', \<lparr>ua_last_acked = 0, ua_msg = ?msg, ua_retries = 0\<rparr>)] ([] @ [?msg]) ([] @ [?msg]) {} {}"
    by (rule fw_receive [OF fw_start, of ?msg 0 True]) (simp_all add: forward_message_def)
  with forwarding_is_bounded [OF this, of ?msg] show ?thesis by simp
qed

text \<open>
  C13. The stream of a message channel.  In every history of a channel each attached receiver gets a
  prefix of the messages from its position on, each once and in order, with the end of the stream
  last; a receiver that is still there has got all of it, and exactly the living receivers are listed
  while the channel is open.
\<close>

theorem channel_streams:
  "channel_history ch start dead log \<Longrightarrow> start tx = Some pos \<Longrightarrow>
     prefix (stream_of tx log) (owed pos ch) \<and>
     (tx \<notin> dead \<longrightarrow> stream_of tx log = owed pos ch) \<and>
     (tx \<notin> dead \<and> \<not> mc_closed ch \<longrightarrow> tx \<in> set (mc_subscribers ch))"
  using channel_okD(6,7,8) [OF channel_history_ok] by blast

theorem channel_streams_witness:
  "\<exists>ch log. channel_history ch [3 \<mapsto> 0] {} log \<and> stream_of 3 log = owed 0 ch \<and> owed 0 ch = [Payload [1], EndOfStream]"
proof -
  let ?all = "\<lambda>tx::channel. tx \<notin> {}"
  let ?a = "attach_subscriber 3 0 MessageChannel_default"
  let ?p = "push ?all [1] (fst ?a)"
  let ?z = "close_channel ?all 9 (fst ?p)"
  have "channel_history (fst ?a) (Map.empty(3 \<mapsto> min 0 (length (mc_buffer MessageChannel_default)))) {} ([] @ snd ?a)"
    by (rule attached [OF opened]) simp_all
  from pushed [OF this, of "{}" "[1]" "fst ?p" "snd ?p"]
  have "channel_history (fst ?p) [3 \<mapsto> 0] {} (snd ?a @ snd ?p)" by simp
  from closed [OF this, of "{}" 9 "fst ?z" "snd ?z"]
  have h: "channel_history (fst ?z) [3 \<mapsto> 0] {} (snd ?a @ snd ?p @ snd ?z)" by simp
  from channel_streams [OF h, of 3 0] h show ?thesis
    by (intro exI [of _ "fst ?z"] exI [of _ "snd ?a @ snd ?p @ snd ?z"])
      (simp add: owed_def close_channel_def push_def attach_subscriber_def MessageChannel_default_def Let_def)
qed

section \<open>Scheduling\<close>



text \<open>
  C15. The assignment loops terminate: the number of queued entries bounds the iterations, and any larger
  bound gives the same state.
\<close>

theorem assignment_terminates:
  "(coord_reachable (default_policy E) (default_view E) st \<longrightarrow>
      default_gpu_loop E now (length (dp_gpu_queue (policy st)) + n) st =
        default_gpu_loop E now (length (dp_gpu_queue (policy st))) st \<and>
      default_cpu_loop E now (length (dp_cpu_queue (policy st)) + n) st =
        default_cpu_loop E now (length (dp_cpu_queue (policy st))) st) \<and>
   (coord_reachable (balanced_policy E) (balanced_view E) bt \<longrightarrow>
      balanced_gpu_loop E now (gpu_queue_total (policy bt) + n) bt =
        balanced_gpu_loop E now (gpu_queue_total (policy bt)) bt \<and>
      balanced_cpu_loop E now (length (bp_cpu_queue (policy bt)) + n) bt =
        balanced_cpu_loop E now (length (bp_cpu_queue (policy bt))) bt)"
  unfolding default_gpu_loop_def default_cpu_loop_def balanced_gpu_loop_def balanced_cpu_loop_def
  using default_gpu.enough_fuel [OF inv_sched_ok [OF default.reachable_inv] order_refl]
    default_cpu.enough_fuel [OF inv_sched_ok [OF default.reachable_inv] order_refl]
    balanced_gpu.enough_fuel [OF inv_sched_ok [OF balanced.reachable_inv] order_refl]
    balanced_cpu.enough_fuel [OF inv_sched_ok [OF balanced.reachable_inv] order_refl]
  by blast

theorem assignment_terminates_witness:
  "balanced_cpu_loop sample_env 0 (1 + 7) (sample_state (balanced_policy sample_env)) =
   balanced_cpu_loop sample_env 0 1 (sample_state (balanced_policy sample_env))"
  using assignment_terminates [of sample_env "sample_state (default_policy sample_env)" 0 7
      "sample_state (balanced_policy sample_env)"] sample_balanced_reachable sample_default_reachable
  by (simp add: sample_balanced_state)

text \<open>
  C16. The balanced policy is fair, whatever the iteration order of its hash map: the task it picks
  belongs to a proof with the least assigned GPU weight among the proofs with waiting GPU tasks and,
  among those, to an oldest one.
\<close>

theorem balanced_choice_is_fair:
  assumes "balanced_wf E pol" and "find_next_balanced_task pol = Some q"
    and "map_of (bp_gpu_queues pol) p = Some queue" and "heap_peek queue = Some r"
  shows "prefers pol q r"
proof -
  have "\<forall>(p, queue) \<in> set (bp_gpu_queues pol). \<forall>r. heap_peek queue = Some r \<longrightarrow> q_proof_id r = p"
    using assms(1) by (auto simp: balanced_wf_def hm_wf_mem [symmetric] dest: heap_peek_mem)
  from scan_queues_prefers [OF this _ assms(2) [unfolded find_next_balanced_task_def]] map_of_SomeD [OF assms(3)] assms(4) show ?thesis
    by auto
qed

theorem balanced_choice_is_fair_witness:
  "let a = \<lparr>q_id = ''a'', q_task_type = ProveShard, q_proof_created_at = 5, q_created_at = 6, q_proof_id = ''p''\<rparr>;
       b = \<lparr>q_id = ''b'', q_task_type = ProveShard, q_proof_created_at = 1, q_created_at = 2, q_proof_id = ''r''\<rparr>;
       pol = \<lparr>bp_cpu_queue = [], bp_gpu_queues = [(''p'', [a]), (''r'', [b])], bp_proof_gpu_weights = [(''r'', 4)]\<rparr>
   in find_next_balanced_task pol = Some a \<and> prefers pol a b"
proof -
  let ?a = "\<lparr>q_id = ''a'', q_task_type = ProveShard, q_proof_created_at = 5, q_created_at = 6, q_proof_id = ''p''\<rparr>"
  let ?b = "\<lparr>q_id = ''b'', q_task_type = ProveShard, q_proof_created_at = 1, q_created_at = 2, q_proof_id = ''r''\<rparr>"
  let ?pol = "\<lparr>bp_cpu_queue = [], bp_gpu_queues = [(''p'', [?a]), (''r'', [?b])], bp_proof_gpu_weights = [(''r'', 4)]\<rparr>"
  have next_a: "find_next_balanced_task ?pol = Some ?a"
    by (simp add: find_next_balanced_task_def bp_weight_def uint_max_def)
  have "balanced_wf sample_env ?pol"
    by (auto simp: balanced_wf_def hm_wf_def worker_type_from_task_type_def sample_env_def split: if_splits)
  from balanced_choice_is_fair [OF this next_a, of "''r''" "[?b]" ?b] next_a show ?thesis by simp
qed

section \<open>The table of proof requests\<close>

text \<open>
  C17. The outcome of a proof request is final: rows are never deleted, and however the table changes, a
  status other than \<open>Pending\<close> never changes again.
\<close>

theorem outcome_is_final:
  "api_step\<^sup>*\<^sup>* db db' \<Longrightarrow> map_of db i = Some row \<Longrightarrow>
     \<exists>row'. map_of db' i = Some row' \<and>
       (db_proof_status row \<noteq> StPending \<longrightarrow> db_proof_status row' = db_proof_status row)"
  by (rule api_steps_settled)

theorem outcome_is_final_witness:
  "\<exists>row'. map_of (snd (proof_request_cancel True ''p'' sample_done_db)) ''p'' = Some row' \<and>
     db_proof_status row' = StCompleted"
proof -
  have "api_step sample_done_db (snd (proof_request_cancel True ''p'' sample_done_db))"
    by (rule api_cancel) (rule surjective_pairing)
  from outcome_is_final [OF r_into_rtranclp [of api_step, OF this] sample_done_row(1)] sample_done_row(2)
  show ?thesis by simp
qed

section \<open>The coordinator and the API together\<close>

text \<open>
  C18. No recorded result is lost.  In every reachable state of the coordinator running against the
  cluster API, with arbitrary failures of the API and of the network, a proof whose result was taken
  from the channel while it was tracked has a row that is no longer pending, or its completion write is
  still kept to be issued again.
\<close>

theorem recorded_results_are_kept:
  assumes "cluster_reachable P V cd rx c" and "i \<in> set (ct_recorded c)"
  shows "row_settled (ct_db c) i \<or> (\<exists>u. map_of (ct_task_map c) i = Some (Terminal u) \<and> up_proof_id u = i \<and> completion u)"
proof -
  have inv: "cluster_inv c" using cluster_reachable_inv [OF assms(1)] by blast
  have "row_settled (ct_db c) i \<or> (\<exists>u. map_of (ct_task_map c) i = Some (Terminal u))"
    using cluster_invD(5) [OF inv] assms(2) by (simp add: recorded_ok_def)
  moreover have "up_proof_id u = i \<and> completion u" if "map_of (ct_task_map c) i = Some (Terminal u)" for u
    using cluster_invD(2) [OF inv] that by (simp add: task_map_ok_def)
  ultimately show ?thesis by blast
qed

theorem recorded_results_are_kept_witness:
  "\<exists>u. map_of (ct_task_map sample_recorded) ''p'' = Some (Terminal u)"
  using recorded_results_are_kept [OF sample_recorded_reachable, of "''p''"] sample_db_pending
  by (auto simp: sample_recorded_state)

text \<open>
  C19. Lost writes are recovered.  When the claimer has swept its map, a re-issue is under way for every
  recorded result whose row is still pending, and the next attempt the API executes settles the row.
\<close>

theorem lost_writes_are_reissued:
  assumes "cluster_reachable P V cd rx c" and "i \<in> set (ct_recorded c)" and "\<not> row_settled (ct_db c) i"
  shows "\<exists>w \<in> set (ct_reissues (sweep c)). up_proof_id (wr_update w) = i \<and>
    row_settled (snd (attempt_write True heard w (ct_db (sweep c)))) i"
proof -
  have inv: "cluster_inv c" using cluster_reachable_inv [OF assms(1)] by blast
  from sweep_covers [OF inv assms(2,3)] obtain w where w: "w \<in> set (ct_reissues (sweep c))"
    "up_proof_id (wr_update w) = i" "completion (wr_update w)" by blast
  from inv_sweep [OF inv] w(1) have "write_ok (ct_db (sweep c)) w" by (blast dest: cluster_invD(4))
  then have "up_proof_id (wr_update w) \<in> fst ` set (ct_db (sweep c))" by (simp add: write_ok_def)
  from attempt_settles [OF w(3) this, of heard] w(1,2) show ?thesis by auto
qed

theorem lost_writes_are_reissued_witness:
  "\<exists>w \<in> set (ct_reissues (sweep sample_recorded)). up_proof_id (wr_update w) = ''p'' \<and>
    row_settled (snd (attempt_write True False w (ct_db (sweep sample_recorded)))) ''p''"
  by (rule lost_writes_are_reissued [OF sample_recorded_reachable]) (simp_all add: sample_recorded_state sample_db_pending)

text \<open>
  C20. The tracking has a gap before the claim is entered.  There is a run in which the coordinator has
  sent the result of a proof and the status task has consumed it, yet the row is pending, the proof is
  tracked as running, and no completion write is kept or under way: the result arrived between the
  creation of the proof and the insertion into the map.
\<close>

theorem early_result_is_dropped:
  "\<exists>c :: DefaultPolicy ClusterTasks.
     cluster_reachable (default_policy sample_env) (default_view sample_env) sample_codec 9 c \<and>
     proof_results 9 (wire (c_state (ct_coordinator c))) = [sample_result] \<and> ct_received c = 1 \<and>
     map_of (ct_task_map c) ''p'' = Some Claimed \<and> \<not> row_settled (ct_db c) ''p'' \<and>
     ct_status_write c = None \<and> ct_reissues c = []"
  by (rule exI [of _ sample_early]) (simp add: sample_early_reachable sample_early_state sample_db_pending)

section \<open>The fulfiller\<close>



text \<open>
  C22. From the network to the proof.  A request that was scheduled reads back from the cluster API as a
  row from which the coordinator's claimer builds the proof the network asked for: the same id, artifacts,
  mode, cycle limit and deadline, for all 64-bit values.
\<close>

theorem scheduled_request_is_claimed:
  assumes "schedule_request cfg env request f = (Inr Created, f')" and "sv_artifact env = Inr a"
    and "nr_deadline request < 2 ^ 64" and "nr_cycle_limit request < 2 ^ 64" and "nr_gas_limit request < 2 ^ 64"
    and "cd_input_metadata cd (nr_stdin_private request) = Some m"
  shows "\<exists>r. proof_request_get True (nr_request_id request) (fu_db f') = Some (Inr (Some r)) \<and>
    claim_request cd r = Some
      \<lparr>cpr_proof_id = nr_request_id request,
       cpr_inputs = [extract_artifact_name (nr_program_uri request), extract_artifact_name (nr_stdin_uri request),
                     show_int (nr_mode request), show_nat (nr_cycle_limit request), [], m],
       cpr_outputs = [a], cpr_requester = cd_hex cd (nr_requester request),
       cpr_expires_at = as_i64 (nr_deadline request)\<rparr>"
  by (rule scheduled_claim [OF assms])

theorem scheduled_request_is_claimed_witness:
  "\<exists>r req. proof_request_get True ''a1''
        (fu_db (snd (schedule_request sample_fulfiller_config sample_schedule_env sample_network_request sample_finished))) =
      Some (Inr (Some r)) \<and>
    claim_request sample_codec r = Some req \<and> cpr_proof_id req = ''a1''"
proof -
  let ?s = "schedule_request sample_fulfiller_config sample_schedule_env sample_network_request sample_finished"
  have s: "?s = (Inr Created, snd ?s)" using sample_scheduled by (metis prod.collapse)
  have a: "sv_artifact sample_schedule_env = Inr ''r''" by (simp add: sample_schedule_env_def)
  have n: "nr_deadline sample_network_request < 2 ^ 64" "nr_cycle_limit sample_network_request < 2 ^ 64"
    "nr_gas_limit sample_network_request < 2 ^ 64" and i: "nr_request_id sample_network_request = ''a1''"
    by (simp_all add: sample_network_request_def)
  have m: "cd_input_metadata sample_codec (nr_stdin_private sample_network_request) = Some ''{}''" by (simp add: sample_codec_def)
  from scheduled_request_is_claimed [OF s a n m] obtain r where
    "proof_request_get True ''a1'' (fu_db (snd ?s)) = Some (Inr (Some r))"
    "map_option cpr_proof_id (claim_request sample_codec r) = Some ''a1''"
    unfolding i by fastforce
  then show ?thesis by (cases "claim_request sample_codec r") auto
qed

section \<open>The bidder\<close>

text \<open>
  C23. Prices.  Once the checks at startup have passed, every bid of a pass is for a listed request, is made
  while the prover is not suspended, and lies between the request's floor and its maximal price.  It is a
  multiple of the auction's tick, unless it is the floor itself.
\<close>

theorem bids_respect_prices:
  assumes "run_startup cfg resp = Some tick" and "rounds_to_tick px"
    and "bid_requests fuel bg px cfg tick from_str env st = Some (Inr bids, st')" and "(r, a) \<in> set bids"
  shows "(\<exists>requests. pe_biddable env = Inr requests \<and> r \<in> set requests) \<and> bs_suspended_until st \<le> pe_now env \<and> 0 < a \<and>
    (\<forall>p. parse_price from_str (br_floor_price r) = Some p \<longrightarrow> p \<le> a) \<and>
    (\<forall>p. parse_price from_str (br_max_price r) = Some p \<longrightarrow> a \<le> p) \<and>
    (tick dvd a \<or> parse_price from_str (br_floor_price r) = Some a)"
  using bid_requests_bidsD [OF assms(3,4)] request_bid_SomeD [OF bid_requests_bidsD(3) [OF assms(3,4)]]
    effective_bid_amount_aligned [OF assms(1,2), of "bs_prove_usd_cache st" "int (pe_now env)"]
  by auto

theorem bids_respect_prices_witness:
  "\<exists>bids st'. bid_requests 1 sample_bidding sample_pricing sample_bidder_config 10 sample_from_str sample_pass_env sample_bidder =
      Some (Inr bids, st') \<and> bids \<noteq> [] \<and> (\<forall>(r, a) \<in> set bids. 0 < a)"
proof -
  from sample_bids obtain st' where b: "bid_requests 1 sample_bidding sample_pricing sample_bidder_config 10 sample_from_str
      sample_pass_env sample_bidder = Some (Inr [(sample_bid_request 1, 45)], st')" by blast
  from bids_respect_prices [OF sample_startup sample_bidding_promises(3) b, of "sample_bid_request 1" 45] b show ?thesis by simp
qed

text \<open>
  C24. Capacity.  Where the admission test rejects at the cap and reconciling only adds load, a pass of the
  gas-aware bidder ends, and when it bids, the requests assigned on the network and the new bids
  together fit the controller slots.  This holds although the listing of assigned requests stops early.
\<close>

theorem bids_fit_the_slots:
  assumes "serves_pages (pe_assigned env) xs" and "controller_slots cfg + REQUEST_LIMIT < 2 ^ 32"
    and "controller_slots cfg < fuel * REQUEST_LIMIT" and "length xs < 2 ^ 32"
    and "rejects_at_cap bg" and "reconcile_only_adds bg" and "\<not> bc_aggressive_mode cfg"
  shows "\<exists>r st'. bid_requests fuel bg px cfg tick from_str env st = Some (r, st') \<and>
     (\<forall>bids. r = Inr bids \<longrightarrow> bids \<noteq> [] \<longrightarrow> length xs + length bids \<le> controller_slots cfg)"
  by (rule bid_requests_load [OF assms])

theorem bids_fit_the_slots_witness:
  "\<exists>bids st'. bid_requests 1 sample_bidding sample_pricing sample_bidder_config 10 sample_from_str sample_pass_env sample_bidder =
      Some (Inr bids, st') \<and> bids \<noteq> [] \<and> 1 + length bids \<le> 2"
proof -
  have mode: "\<not> bc_aggressive_mode sample_bidder_config" by (simp add: sample_bidder_config_def)
  from sample_bids obtain st' where b: "bid_requests 1 sample_bidding sample_pricing sample_bidder_config 10 sample_from_str
      sample_pass_env sample_bidder = Some (Inr [(sample_bid_request 1, 45)], st')" by blast
  have "length [sample_bid_request 0] + length [(sample_bid_request 1, 45)] \<le> controller_slots sample_bidder_config"
    using bids_fit_the_slots [OF sample_pages _ _ _ sample_bidding_promises(1,2) mode, of 1 sample_pricing 10 sample_from_str
        sample_bidder] unfolding b by (simp add: sample_slots REQUEST_LIMIT_def)
  then show ?thesis unfolding b by (simp add: sample_slots)
qed

section \<open>The artifact store\<close>

text \<open>
  C25. Downloads do not tear.  However uploads, failed attempts, deletions, expiries and the single requests
  of a download interleave: when every upload of the artifact carries the same data, a download that
  finishes has returned exactly that data.
\<close>

theorem downloads_do_not_tear:
  assumes "redis_laws R" and "artifact_id_ok key" and "store_reachable R (redis_config c t) key st"
    and "so_download st = Downloaded x" and "\<And>ty y. (key, ty, y) \<in> set (so_written st) \<Longrightarrow> y = d"
  shows "x = d"
proof (rule download_agrees [OF redis_config_bounds(1)])
  show "download_ok (redis_config c t) (so_written st) key (Downloaded x)"
    using store_reachable_ok [OF assms(1) redis_config_bounds(1) assms(2,3)] assms(4) by (simp add: store_ok_def)
qed (rule assms(5))

theorem downloads_do_not_tear_witness:
  "\<exists>st x. store_reachable mem_redis (redis_config (Some ''1'') (Some ''10'')) ''x'' st \<and> so_download st = Downloaded x \<and> x = ''ab''"
proof -
  have r: "store_reachable mem_redis (redis_config (Some ''1'') (Some ''10'')) ''x'' sample_whole"
    unfolding sample_redis_settings by (rule sample_whole_reachable)
  have "''ab'' = ''ab''"
    by (rule downloads_do_not_tear [OF mem_redis_laws sample_id_ok r]) (auto simp: sample_whole_def sample_half_def sample_begun_def)
  moreover have "so_download sample_whole = Downloaded ''ab''" by (simp add: sample_whole_def)
  ultimately show ?thesis using r by blast
qed



text \<open>
  C27. What is uploaded can be read back.  In every reachable state an upload that is not disturbed succeeds.
  Afterwards a download returns the uploaded data; only for an artifact above the chunk size that was published
  before, the first copy is kept and the download returns what it returned before.
\<close>

theorem uploads_read_back:
  assumes "redis_laws R" and "artifact_id_ok key" and "store_reachable R (redis_config c t) key st"
    and "artifact_id_ok (at_id a)"
    and "CHUNK_SIZE c < length (at_data a) \<Longrightarrow> a \<in> set (so_attempts st) \<and> rd_view R (so_redis st) (attempt_key a) = None"
  shows "\<exists>s'. par_upload_file R (redis_config c t) a (so_redis st) = (True, s') \<and>
    (if length (at_data a) \<le> CHUNK_SIZE c \<or> rd_view R (so_redis st) (chunk_key (at_id a)) = None
     then par_download_file R (at_id a) s' = Downloaded (at_data a)
     else \<exists>d. par_download_file R (at_id a) (so_redis st) = Downloaded d \<and> par_download_file R (at_id a) s' = Downloaded d)"
proof -
  have size: "rc_chunk_size (redis_config c t) = CHUNK_SIZE c" by (simp add: redis_config_def)
  have ok: "view_ok (redis_config c t) (so_attempts st) (so_written st) (rd_view R (so_redis st))"
    and as: "attempts_ok (redis_config c t) (so_attempts st) (so_written st)"
    using store_reachable_ok [OF assms(1) redis_config_bounds(1) assms(2,3)] by (simp_all add: store_ok_def)
  show ?thesis
    using upload_chunked_spec [OF assms(1) redis_config_bounds(1) ok as] assms(5) download_inline [OF assms(1,4)]
    by (cases "length (at_data a) \<le> CHUNK_SIZE c") (simp_all add: par_upload_file_def size)
qed

theorem uploads_read_back_witness:
  "\<exists>s'. par_upload_file mem_redis (redis_config (Some ''1'') (Some ''10'')) (sample_attempt ''f'' ''ab'') Map.empty = (True, s') \<and>
     par_download_file mem_redis ''x'' s' = Downloaded ''ab''"
proof -
  have r: "store_reachable mem_redis (redis_config (Some ''1'') (Some ''10'')) ''x'' sample_begun"
    unfolding sample_redis_settings by (rule sample_begun_reachable)
  show ?thesis
    using uploads_read_back [OF mem_redis_laws sample_id_ok r, of "sample_attempt ''f'' ''ab''"]
    by (simp add: sample_begun_def sample_attempt_def)
qed

text \<open>
  C28. A deletion and a second upload under a reader mix two uploads.  There is a run in which the artifact is
  uploaded, deleted and uploaded with other data while a download reads its chunks, and the download finishes
  with data nobody uploaded.
\<close>

theorem reupload_mixes_data:
  "\<exists>st x. store_reachable mem_redis (redis_config (Some ''1'') (Some ''10'')) ''x'' st \<and> redis_laws mem_redis \<and>
     so_download st = Downloaded x \<and> (\<nexists>ty. (''x'', ty, x) \<in> set (so_written st))"
proof -
  have "store_reachable mem_redis (redis_config (Some ''1'') (Some ''10'')) ''x'' sample_torn"
    unfolding sample_redis_settings by (rule sample_torn_reachable)
  moreover have "so_download sample_torn = Downloaded ''ad''" "\<nexists>ty. (''x'', ty, ''ad'') \<in> set (so_written sample_torn)"
    by (simp_all add: sample_torn_def)
  ultimately show ?thesis using mem_redis_laws by blast
qed

text \<open>
  C29. The memory reserved on a node.  However admissions and releases alternate, the counter of bytes in flight
  is the sum of the reservations that are held, within the budget, without wrapping around.
\<close>

theorem reservations_fit_the_budget:
  assumes "admission_reachable budget maxmemory in_flight guards" and "budget maxmemory < uint_max 64"
  shows "in_flight = sum_list (map reserved_bytes guards) \<and> in_flight \<le> budget maxmemory"
  by (rule admission_reachable_counts [OF assms])

theorem reservations_fit_the_budget_witness:
  "\<exists>in_flight guards. admission_reachable (\<lambda>m. m div 2) 20000000 in_flight guards \<and> length guards = 2 \<and> 0 < in_flight \<and>
     in_flight = sum_list (map reserved_bytes guards) \<and> in_flight \<le> 10000000"
proof -
  let ?r = "admission_reachable (\<lambda>m. m div 2) 20000000"
  have "?r 3000000 [Reserved 3000000]"
    by (rule ad_check [OF ad_init, of _ "Some (Some 0, Some 20000000)" _ 3000000 0])
      (simp_all add: reports_max_def admission_gate_def admission_poll_def ADMISSION_BYPASS_BYTES_def DEFAULT_SHARD_MAX_BYTES_def
        saturating_add_def uint_max_def wrapping_add_def)
  then have r: "?r 3000000 [Waiting, Reserved 3000000]"
    by (rule ad_check [of _ _ _ _ "Some (Some 0, Some 20000000)" 9000000 0])
      (simp_all add: reports_max_def admission_gate_def admission_poll_def ADMISSION_BYPASS_BYTES_def DEFAULT_SHARD_MAX_BYTES_def
        saturating_add_def uint_max_def ADMISSION_MAX_WAIT_def)
  from reservations_fit_the_budget [OF r] r show ?thesis by (fastforce simp: uint_max_def)
qed

section \<open>The gateway\<close>

text \<open>
  C30. From the SDK to the proof.  A request the gateway has accepted has an id of 32 bytes, and the row behind this
  id reads back as what was asked for: the SDK sees its mode, limits, deadline, requester and the addresses of the
  artifacts, and the claimer of the coordinator builds from it the proof of the program of that key on that input.
\<close>

theorem gateway_request_is_claimed:
  assumes "hex_laws hex" and "typeid_ok (ce_typeid env)" and "map_of (gw_db gw) (ce_typeid env) = None"
    and "request_proof hex sg encode C P cfg env signature (Some body) gw = Some (Inr request_id, gw')"
    and "rb_deadline body < 2 ^ 64" "rb_cycle_limit body < 2 ^ 64" "rb_gas_limit body < 2 ^ 64"
    and "- (2 ^ 31) \<le> rb_mode body" "rb_mode body < 2 ^ 31" and "cd_input_metadata cd (rb_stdin_private body) = Some metadata"
  shows "length request_id = 32 \<and>
    (\<exists>requester stdin a p d.
       authorize sg (gc_auth cfg) (encode body) signature = Inr requester \<and>
       artifact_id_from_uri (rb_stdin_uri body) = Some stdin \<and> ce_new_artifact env = Inr a \<and>
       load_cluster_proof True (proof_id_from_request_id request_id) (gw_db gw') = Inr p \<and>
       claim_request cd p =
         Some \<lparr>cpr_proof_id = ce_typeid env,
               cpr_inputs = [program_artifact_id hex (rb_vk_hash body), stdin, show_int (rb_mode body), show_nat (rb_cycle_limit body), [], metadata],
               cpr_outputs = [a], cpr_requester = cd_hex cd requester, cpr_expires_at = as_i64 (rb_deadline body)\<rparr> \<and>
       get_proof_request_details sdk cfg True request_id (gw_db gw') = Inr d \<and>
       sr_fulfillment_status d = Requested \<and> shows_request hex body requester stdin d)"
proof -
  obtain requester stdin a now where r: "authorize sg (gc_auth cfg) (encode body) signature = Inr requester"
    "artifact_id_from_uri (rb_stdin_uri body) = Some stdin" "ce_new_artifact env = Inr a"
    and rid: "length request_id = REQUEST_ID_LEN" "proof_id_from_request_id request_id = ce_typeid env"
    and row: "map_of (gw_db gw') (ce_typeid env) = Some (new_row now (create_message hex (ce_typeid env) stdin a requester body))"
    by (rule request_proof_creates [OF assms(4,2,3)])
  obtain p where p: "into_proto (new_row now (create_message hex (ce_typeid env) stdin a requester body)) = Some p"
    and claim: "claim_request cd p = Some (requested_claim hex cd metadata (ce_typeid env) stdin a requester body)"
    and shown: "shows_request hex body requester stdin (build_sdk_proof_request sdk cfg request_id p)"
    "sr_fulfillment_status (build_sdk_proof_request sdk cfg request_id p) = Requested"
    by (rule created_row_read [OF assms(1) artifact_id_from_uri_ok [OF r(2)] assms(5-10)])
  have l: "load_cluster_proof True (proof_id_from_request_id request_id) (gw_db gw') = Inr p"
    using row p rid(2) by (simp add: load_cluster_proof_def proof_request_get_def)
  then have d: "get_proof_request_details sdk cfg True request_id (gw_db gw') = Inr (build_sdk_proof_request sdk cfg request_id p)"
    by (simp add: get_proof_request_details_def)
  have "length request_id = 32" using rid(1) by (simp add: REQUEST_ID_LEN_def)
  with r l claim [unfolded requested_claim_def] d shown show ?thesis
    by (intro conjI) (assumption, rule exI [of _ requester], rule exI [of _ stdin], rule exI [of _ a], rule exI [of _ p],
      rule exI [of _ "build_sdk_proof_request sdk cfg request_id p"], intro conjI)
qed

theorem gateway_request_is_claimed_witness:
  "\<exists>rid gw p request. request_proof hex_encode sample_signatures (\<lambda>b. []) sample_client (FilesystemProgramStore hex_encode)
      sample_gateway_config sample_call ''sig'' (Some sample_body) sample_gateway = Some (Inr rid, gw) \<and> length rid = 32 \<and>
     load_cluster_proof True (proof_id_from_request_id rid) (gw_db gw) = Inr p \<and> claim_request sample_codec p = Some request"
proof -
  obtain rid gw where r: "request_proof hex_encode sample_signatures (\<lambda>b. []) sample_client (FilesystemProgramStore hex_encode)
      sample_gateway_config sample_call ''sig'' (Some sample_body) sample_gateway = Some (Inr rid, gw)" by (rule sample_requested)
  have new: "map_of (gw_db sample_gateway) (ce_typeid sample_call) = None" by (simp add: sample_gateway_def)
  have "rb_deadline sample_body < 2 ^ 64" "rb_cycle_limit sample_body < 2 ^ 64" "rb_gas_limit sample_body < 2 ^ 64"
    "- (2 ^ 31) \<le> rb_mode sample_body" "rb_mode sample_body < 2 ^ 31" "cd_input_metadata sample_codec (rb_stdin_private sample_body) = Some ''{}''"
    by (simp_all add: sample_body_def sample_codec_def)
  from gateway_request_is_claimed [OF hex_encode_laws sample_typeid new r this, of sample_sdk] r show ?thesis by blast
qed

text \<open>
  C31. Requests stay visible.  However the table of requests changes afterwards, the status of an accepted request can
  be read: it is never reported missing, and it carries the address of the proof artifact exactly when it is fulfilled.
\<close>

theorem requests_stay_visible:
  assumes "typeid_ok (ce_typeid env)" and "map_of (gw_db gw) (ce_typeid env) = None" and "db_ok (gw_db gw)"
    and "request_proof hex sg encode C P cfg env signature (Some body) gw = Some (Inr request_id, gw')"
    and "ce_new_artifact env = Inr a" and "uri_id_ok a" and "api_step\<^sup>*\<^sup>* (gw_db gw') db"
  shows "\<exists>s. get_proof_request_status sdk cfg True request_id db = Inr s \<and>
    (if ss_fulfillment_status s = Fulfilled
     then \<exists>uri. ss_proof_uri s = Some uri \<and> artifact_id_from_uri uri = Some a else ss_proof_uri s = None)"
proof -
  obtain requester stdin b now where b: "ce_new_artifact env = Inr b" and rid: "proof_id_from_request_id request_id = ce_typeid env"
    and row: "map_of (gw_db gw') (ce_typeid env) = Some (new_row now (create_message hex (ce_typeid env) stdin b requester body))"
    by (rule request_proof_creates [OF assms(4,1,2)])
  have ok: "db_ok db" using api_steps_ok [OF assms(7)] api_steps_ok [OF request_proof_steps [OF assms(4)] assms(3)] by blast
  obtain row' where row': "map_of db (proof_id_from_request_id request_id) = Some row'" "db_proof_artifact_id row' = Some a"
    using api_steps_keep [OF assms(7) row] rid b assms(5) by (auto simp: new_row_def create_message_def)
  obtain s where "get_proof_request_status sdk cfg True request_id db = Inr s"
    "ss_proof_uri s = (if ss_fulfillment_status s = Fulfilled
        then map_option (artifact_uri (gc_public_http_url cfg) Proof) (db_proof_artifact_id row') else None)"
    by (rule status_of_row [OF ok row'(1)])
  with row'(2) assms(6) show ?thesis by auto
qed

theorem requests_stay_visible_witness:
  "\<exists>rid gw s. request_proof hex_encode sample_signatures (\<lambda>b. []) sample_client (FilesystemProgramStore hex_encode)
      sample_gateway_config sample_call ''sig'' (Some sample_body) sample_gateway = Some (Inr rid, gw) \<and>
     get_proof_request_status sample_sdk sample_gateway_config True rid (gw_db gw) = Inr s"
proof -
  obtain rid gw where r: "request_proof hex_encode sample_signatures (\<lambda>b. []) sample_client (FilesystemProgramStore hex_encode)
      sample_gateway_config sample_call ''sig'' (Some sample_body) sample_gateway = Some (Inr rid, gw)" by (rule sample_requested)
  have "map_of (gw_db sample_gateway) (ce_typeid sample_call) = None" "db_ok (gw_db sample_gateway)"
    by (simp_all add: sample_gateway_def db_ok_def)
  from requests_stay_visible [OF sample_typeid this r, of "''artifact_1''" "gw_db gw" sample_sdk] r show ?thesis
    by (auto simp: sample_call_def uri_id_ok_def)
qed

text \<open>
  C32. The filtered listing is exact.  Where the filter does not ask for unexecuted requests, the listing is the
  window, by page and limit, of the requests the gateway would show with the wanted statuses, oldest first.  For
  statuses the cluster does not have it is empty.
\<close>

theorem filtered_listing_is_exact:
  assumes "sdk_laws sdk" and "db_ok db" and "Option.bind (fr_execution_status req) (sdk_execution sdk) \<noteq> Some Unexecuted"
  shows "get_filtered_proof_requests sdk cfg True req db =
    Inr (take (case fr_limit req of None \<Rightarrow> 10 | Some n \<Rightarrow> clamp 1 100 n)
      (drop (case filter_offset req of None \<Rightarrow> 0 | Some n \<Rightarrow> min n (2 ^ 31 - 1))
        (map (shown_row sdk cfg) (sort_key list_order (filter (\<lambda>row. shown_matches sdk req (shown_row sdk cfg row) \<and>
           (case fr_minimum_deadline req of None \<Rightarrow> True | Some d \<Rightarrow> db_deadline row \<ge> as_i64 d)) (hm_values db))))))"
  by (rule filtered_window [OF assms])

theorem filtered_listing_is_exact_witness:
  "get_filtered_proof_requests sample_sdk sample_gateway_config True
     \<lparr>fr_fulfillment_status = Some 1, fr_execution_status = None, fr_minimum_deadline = None, fr_limit = Some 5, fr_page = Some 1\<rparr> sample_db =
   Inr [shown_row sample_sdk sample_gateway_config (new_row 3 sample_create)]"
proof -
  let ?req = "\<lparr>fr_fulfillment_status = Some 1, fr_execution_status = None, fr_minimum_deadline = None, fr_limit = Some 5, fr_page = Some 1\<rparr>"
  have db: "hm_values sample_db = [new_row 3 sample_create]" by (simp add: sample_db_def hm_values_def)
  have "sr_fulfillment_status (shown_row sample_sdk sample_gateway_config (new_row 3 sample_create)) = Requested"
    using shown_row_status(1) [of "new_row 3 sample_create" None] by (simp add: new_row_def execution_of_def)
  then have "shown_matches sample_sdk ?req (shown_row sample_sdk sample_gateway_config (new_row 3 sample_create))"
    by (simp add: shown_matches_def sample_sdk_def)
  with filtered_listing_is_exact [OF sample_sdk_laws sample_db_ok, of ?req sample_gateway_config] show ?thesis
    by (simp add: db filter_offset_def filter_limit_def clamp_def)
qed



text \<open>
  C34. The program files refine the map in memory.  As long as no two registrations of the same program overlap,
  readers see at every moment, also between the single writes and after a crash in the middle of one, exactly the
  programs whose registration was completed, and never a part of a record.
\<close>

theorem program_files_refine_memory:
  assumes "hex_laws hex" and "files_reachable True hex st"
  shows "file_get hex None h (pf_fs st) = mem_get h (pf_stored st) \<and> file_exists hex None h (pf_fs st) = mem_exists h (pf_stored st)"
  using files_reachable_ok [OF assms] file_get_stored by (simp add: files_ok_def)

theorem program_files_refine_memory_witness:
  "\<exists>st. files_reachable True hex_encode st \<and> file_get hex_encode None ''h'' (pf_fs st) = Inr (Some (''v'', ''e''))"
  using program_files_refine_memory [OF hex_encode_laws sample_stored_file, of "''h''"] sample_stored_file
  by (auto simp: mem_get_def sample_files_def)

section \<open>The worker\<close>

text \<open>
  C35. A drained node has lost nothing.  However deliveries, cancellations, timeouts, panics and shutdown interleave:
  when a node has drained, each task it ever started was reported as its work ended, completed or failed with the right
  kind of failure, unless the coordinator itself cancelled it.
\<close>

theorem drained_node_lost_nothing:
  assumes "node_reachable cfg json st" and "nd_exit st = Some Drained" and "map_of (nd_executions st) w = Some e"
  shows "case ex_reporter e of
      RpFinished \<Rightarrow>
        (\<exists>res timed_out. ex_result e = Some res \<and> (timed_out \<longrightarrow> ex_aborted_at e \<noteq> None) \<and>
           (if report_for res timed_out = ReportNothing then ex_cancelled e
            else set (report_call cfg json (ex_key e) (report_for res timed_out)) \<subseteq> set (nd_calls st)))
    | RpPanicked \<Rightarrow> ex_cancelled e \<or> (\<exists>retryable. fail_call cfg (ex_key e) retryable \<in> set (nd_calls st))
    | _ \<Rightarrow> False"
  by (rule drained_answered [OF assms, unfolded outcome_reported_def])

theorem drained_node_lost_nothing_witness:
  "nd_exit sample_drained = Some Drained \<and> CompleteTask ''w'' ''p'' ''s'' ''null'' \<in> set (nd_calls sample_drained) \<and>
   set (report_call sample_node_config sample_json (TaskKey ''p'' ''s'') (ReportComplete default_metadata)) \<subseteq> set (nd_calls sample_drained)"
  using drained_node_lost_nothing [OF sample_drained_reachable sample_drained_state(1), of 7] sample_drained_state by auto

text \<open>
  C36. No work blocks a node for ever.  When the watchdog scans a node with a task past its timeout whose work has not
  ended, the sweep that follows asks the work to abort.  Was it asked before and has the grace passed, the sweep closes
  the node and hands the task to a job that fails it at the coordinator.
\<close>

theorem overdue_work_is_ended:
  assumes "node_reachable cfg json st" and "nd_phase st = Scanning"
    and "map_of (nd_tasks st) k = Some a" and "map_of (nd_executions st) (ac_work a) = Some e"
    and "\<not> reporter_done e" and "ex_result e = None" and "now - ac_started_at a > nc_task_timeout cfg"
  shows "case ex_aborted_at e of
      Some t \<Rightarrow> now - t > ABORT_GRACE \<longrightarrow>
        nd_closed (sweep_all cfg now (sweep_steps (nd_phase (scan cfg now st))) (scan cfg now st)) \<and>
        (\<exists>j \<in> set (nd_jobs (sweep_all cfg now (sweep_steps (nd_phase (scan cfg now st))) (scan cfg now st))). k \<in> set (wj_left j))
    | None \<Rightarrow> aborted (sweep_all cfg now (sweep_steps (nd_phase (scan cfg now st))) (scan cfg now st)) (ac_work a)"
  by (rule overdue_work [OF assms])

theorem overdue_work_is_ended_witness:
  "aborted (sweep_all sample_node_config (from_secs 100) (sweep_steps (nd_phase (scan sample_node_config (from_secs 100) sample_overdue)))
     (scan sample_node_config (from_secs 100) sample_overdue)) 7"
proof -
  have a: "map_of (nd_tasks sample_overdue) (TaskKey ''p'' ''s'') = Some \<lparr>ac_data = sample_node_data, ac_started_at = 1, ac_work = 7\<rparr>"
    using sample_node_state(4) by (simp add: sample_overdue_state)
  have e: "map_of (nd_executions sample_overdue) (ac_work \<lparr>ac_data = sample_node_data, ac_started_at = 1, ac_work = 7\<rparr>) =
      Some \<lparr>ex_key = TaskKey ''p'' ''s'', ex_result = None, ex_abort = False, ex_aborted_at = None, ex_reporter = RpWaiting,
        ex_report = None, ex_cancelled = False, ex_wedged = False\<rparr>"
    using sample_node_state(6) by (simp add: sample_overdue_state)
  from overdue_work_is_ended [OF sample_overdue_reachable sample_overdue_state(1) a e, of "from_secs 100"] show ?thesis
    by (simp add: reporter_done_def sample_node_config_def from_secs_def del: sweep_all.simps)
qed

text \<open>
  C37. Messages of a task arrive once.  However often the stream to the coordinator breaks and is resumed: what a reader
  has passed on is the beginning of what was sent on the channel, each message once and in order.  When it stops at the
  end of the stream it has passed on everything, and on a closed channel an intact stream takes it there.
\<close>

theorem task_messages_arrive_once:
  assumes "message_run ch start dead log r"
  shows "prefix (mr_received r) (mc_buffer ch) \<and>
    (mr_end r = Some SawEnd \<longrightarrow> mc_closed ch \<and> mr_received r = mc_buffer ch) \<and>
    (mr_end r = None \<and> mc_closed ch \<longrightarrow>
      (let r' = fold (\<lambda>m. on_response True (Some m)) (owed (mr_forwarded r) ch) (on_reconnect (Some tx) r)
       in mr_end r' = Some SawEnd \<and> mr_received r' = mc_buffer ch))"
proof -
  have ok: "reader_ok ch start r" using message_run_ok [OF assms] by simp
  then have "prefix (mr_received r) (mc_buffer ch)" "mr_end r = Some SawEnd \<longrightarrow> mc_closed ch \<and> mr_received r = mc_buffer ch"
    by (simp_all add: reader_ok_def)
  with read_to_the_end [OF ok] show ?thesis by (simp add: Let_def)
qed

theorem task_messages_arrive_once_witness:
  "mr_end sample_reader = Some SawEnd \<and> mr_received sample_reader = mc_buffer sample_message_channel \<and> mc_closed sample_message_channel"
  using task_messages_arrive_once [OF sample_message_run] by (simp add: sample_reader_def)

text \<open>
  C38. No awaited result is forgotten.  A subscriber that ends because all is done has delivered a result for every task
  it was given.  Until then, a task without a result is named when the subscription is opened anew, and the coordinator
  then remembers the subscriber at this task, or has answered on the new stream with a final status or that it does not
  know the task.
\<close>

theorem awaited_results_are_covered:
  assumes "subscriber_run c" and "\<forall>sub. map_of (c_subscribers (ws_coordinator s)) sub_id = Some sub \<longrightarrow> sb_proof_id sub = p"
  shows "(sc_end c = Some AllDone \<longrightarrow> set (sc_added c) \<subseteq> fst ` set (sc_results c)) \<and>
    (\<forall>t \<in> set (sc_added c). t \<in> fst ` set (sc_results c) \<or>
      (let k = ws_coordinator (serve P cx (resubscribe sub_id p tx outer_tx c) s)
       in sub_at k sub_id outer_tx \<and>
          ((outer_tx, UnknownTask p t) \<in> set (c_sub_wire k) \<or> was_told outer_tx t k \<or> waits_for (c_state k) p t sub_id)))"
proof -
  have cover: "set (sc_added c) \<subseteq> set (sc_tasks c) \<union> fst ` set (sc_results c)" by (rule awaited_or_delivered [OF assms(1)])
  have ended: "sc_end c = Some AllDone \<longrightarrow> set (sc_added c) \<subseteq> fst ` set (sc_results c)"
    using cover all_done_delivered [OF assms(1)] by auto
  have "t \<in> fst ` set (sc_results c) \<or>
      (let k = ws_coordinator (serve P cx (resubscribe sub_id p tx outer_tx c) s)
       in sub_at k sub_id outer_tx \<and>
          ((outer_tx, UnknownTask p t) \<in> set (c_sub_wire k) \<or> was_told outer_tx t k \<or> waits_for (c_state k) p t sub_id))"
    if "t \<in> set (sc_added c)" for t
  proof (cases "t \<in> set (sc_tasks c)")
    case True
    have "\<And>sub. map_of (c_subscribers (ws_coordinator s)) sub_id = Some sub \<Longrightarrow> sb_proof_id sub = p" using assms(2) by blast
    note o = opened_again [OF this True]
    show ?thesis unfolding resubscribe_def serve.simps Let_def by (intro disjI2 conjI o)
  qed (use that cover in blast)
  with ended show ?thesis by blast
qed

theorem awaited_results_are_covered_witness:
  "(let s = GenericWorkerService_default (default_policy sample_env) 0 0; c = snd (subscribe_task ''sub'' ''t'' (subscriber_new 0));
        k = ws_coordinator (serve (default_policy sample_env) sample_ctx (resubscribe ''sub'' ''p'' 1 2 c) s)
    in sub_at k ''sub'' 2 \<and> ((2, UnknownTask ''p'' ''t'') \<in> set (c_sub_wire k) \<or> was_told 2 ''t'' k \<or> waits_for (c_state k) ''p'' ''t'' ''sub''))"
proof -
  have "subscriber_run (snd (subscribe_task ''sub'' ''t'' (subscriber_new 0)))"
    by (rule sub_add [OF sub_start]) (simp add: subscriber_new_def)
  from awaited_results_are_covered [OF this, of "GenericWorkerService_default (default_policy sample_env) 0 0" "''sub''" "''p''"
      "default_policy sample_env" sample_ctx 1 2]
  show ?thesis by (simp add: GenericWorkerService_default_def Coordinator_new_def subscribe_task_def subscriber_new_def Let_def)
qed



section \<open>Authentication\<close>

text \<open>
  C40. The token guards the service.  A server demands a token exactly when it is configured to, and never with an empty
  one: a call reaches the service, and changes anything, only with the header of just this token; every other call is
  answered as unauthenticated.  A client configured with the same token sends this header, whatever header it was given.
\<close>

theorem tokens_guard_the_service:
  assumes "header_laws H" and "config_from_env H prefixed bare flag = Inr cfg"
  shows "(au_required cfg \<longleftrightarrow> (\<exists>v. flag = Some v \<and> eq_ignore_ascii_case v ''true'')) \<and>
    (\<not> au_required cfg \<longrightarrow> guarded H cfg given call s = call s) \<and>
    (au_required cfg \<longrightarrow>
      (\<exists>t i. resolve_token prefixed bare = Some t \<and> t \<noteq> [] \<and> BearerInterceptor_new H (Some t) = Inr i \<and>
         guarded H cfg given call s =
           (if given = Some (''Bearer '' @ t) then call s else (Inl (Unauthenticated ''missing or invalid bearer token''), s)) \<and>
         guarded H cfg (intercept i given) call s = call s))"
proof -
  note cfg = config_ok [OF assms]
  have flag: "au_required cfg \<longleftrightarrow> (\<exists>v. flag = Some v \<and> eq_ignore_ascii_case v ''true'')"
    using required_flag(1) [of flag] cfg(4) by auto
  have served: "\<exists>t i. resolve_token prefixed bare = Some t \<and> t \<noteq> [] \<and> BearerInterceptor_new H (Some t) = Inr i \<and>
         guarded H cfg given call s =
           (if given = Some (''Bearer '' @ t) then call s else (Inl (Unauthenticated ''missing or invalid bearer token''), s)) \<and>
         guarded H cfg (intercept i given) call s = call s" if req: "au_required cfg"
  proof -
    obtain t where t: "au_token cfg = Some t" using cfg(2) [OF req] by auto
    note g = guarded_required [OF assms(1) t conjunct2 [OF cfg(3) [OF t]] req]
    obtain i where i: "BearerInterceptor_new H (Some t) = Inr i" "\<And>given. intercept i given = Some (BEARER_PREFIX @ t)"
      using interceptor_sends [OF assms(1) conjunct2 [OF cfg(3) [OF t]]] by blast
    have "resolve_token prefixed bare = Some t" "t \<noteq> []" using cfg(1,3) t by simp_all
    then show ?thesis using i by (intro exI [of _ t] exI [of _ i]) (simp add: g BEARER_PREFIX_def)
  qed
  show ?thesis by (intro conjI impI flag guarded_open served)
qed

theorem tokens_guard_the_service_witness:
  "\<exists>cfg. config_from_env sample_headers (Some []) (Some ''k'') (Some ''True'') = Inr cfg \<and>
     guarded sample_headers cfg (Some ''Bearer k'') (\<lambda>n. (Inr n, Suc n)) (0 :: nat) = (Inr 0, 1) \<and>
     guarded sample_headers cfg (Some ''Bearer K'') (\<lambda>n. (Inr n, Suc n)) 0 =
       (Inl (Unauthenticated ''missing or invalid bearer token''), 0)"
proof -
  have r: "resolve_token (Some []) (Some ''k'') = Some ''k''" by (simp add: resolve_token_def option_list_def)
  then have c: "config_from_env sample_headers (Some []) (Some ''k'') (Some ''True'') = Inr \<lparr>au_token = Some ''k'', au_required = True\<rparr>"
    by (simp add: config_from_env_def resolve_config_def bearer_header_ok [OF sample_header_laws] parse_required_flag_def
        sample_flag is_ascii_graphic_def)
  show ?thesis
    using tokens_guard_the_service [OF sample_header_laws c, of "Some ''Bearer k''" "\<lambda>n. (Inr n, Suc n)" "0 :: nat"]
      tokens_guard_the_service [OF sample_header_laws c, of "Some ''Bearer K''" "\<lambda>n. (Inr n, Suc n)" "0 :: nat"] c r
    by auto
qed

end
